(* ===== verification/Mio_Prelude.thy ===== *)
theory Mio_Prelude
  imports Main "HOL-Library.Word"
begin

text \<open>
  Shared vocabulary of the development.  Machine integers are words of the width the Rust
  code gives them (\<open>usize\<close> is 64 bits wide: the development models a 64-bit target, where
  \<open>as usize\<close> and \<open>as u64\<close> between the two types are the identity).  A value of type
  \<open>'a option\<close> returned by an operation that can panic is \<open>None\<close> when the code panics; an
  \<open>io::Result\<close> is a sum with the error on the left.  The theory also holds the integer helpers
  of the Rust standard library that the sources call, and the lemmas about them.
\<close>

unbundle bit_operations_syntax

named_theorems flag_defs \<open>definitions of the flag constants and flag operations\<close>
named_theorems record_frames \<open>fields that an operation leaves alone\<close>

type_synonym u8 = "8 word"
type_synonym u16 = "16 word"
type_synonym u32 = "32 word"
type_synonym u64 = "64 word"
type_synonym usize = "64 word"

section \<open>Errors\<close>

text \<open>\<open>std::io::ErrorKind\<close>, as far as the sources distinguish kinds, and \<open>std::io::Error\<close>: an
  error that wraps an operating system error number, or one built with \<open>Error::new\<close>.\<close>

datatype error_kind = WouldBlock | Interrupted | InvalidInput | Other

datatype io_error = OsError int | CustomError error_kind string

type_synonym 'a io_result = "io_error + 'a"

definition EAGAIN :: int where "EAGAIN = 11"
definition EINTR :: int where "EINTR = 4"
definition EINVAL :: int where "EINVAL = 22"
definition EINPROGRESS :: int where "EINPROGRESS = 115"

text \<open>\<open>Error::kind\<close> on Linux, restricted to the kinds the sources look at.\<close>

fun error_kind_of :: "io_error \<Rightarrow> error_kind" where
  "error_kind_of (CustomError k _) = k"
| "error_kind_of (OsError n) =
     (if n = EAGAIN then WouldBlock
      else if n = EINTR then Interrupted
      else if n = EINVAL then InvalidInput
      else Other)"

fun raw_os_error :: "io_error \<Rightarrow> int option" where
  "raw_os_error (OsError n) = Some n"
| "raw_os_error (CustomError _ _) = None"

text \<open>The \<open>try!\<close> macro and \<open>Result::and_then\<close>, \<open>Result::map\<close>.\<close>

definition and_then :: "'a io_result \<Rightarrow> ('a \<Rightarrow> 'b io_result) \<Rightarrow> 'b io_result" where
  "and_then r f = (case r of Inl e \<Rightarrow> Inl e | Inr x \<Rightarrow> f x)"

definition result_map :: "('a \<Rightarrow> 'b) \<Rightarrow> 'a io_result \<Rightarrow> 'b io_result" where
  "result_map f r = (case r of Inl e \<Rightarrow> Inl e | Inr x \<Rightarrow> Inr (f x))"

lemma and_then_simps [simp]:
  "and_then (Inl e) f = Inl e"
  "and_then (Inr x) f = f x"
  by (simp_all add: and_then_def)

lemma result_map_simps [simp]:
  "result_map f (Inl e) = Inl e"
  "result_map f (Inr x) = Inr (f x)"
  by (simp_all add: result_map_def)

lemma and_then_Inr_iff:
  "and_then r f = Inr y \<longleftrightarrow> (\<exists>x. r = Inr x \<and> f x = Inr y)"
  by (cases r) simp_all

section \<open>Integer operations of the standard library\<close>

definition saturating_add :: "u64 \<Rightarrow> u64 \<Rightarrow> u64" where
  "saturating_add a b = (if uint a + uint b < 2 ^ 64 then a + b else - 1)"

definition saturating_mul :: "u64 \<Rightarrow> u64 \<Rightarrow> u64" where
  "saturating_mul a b = (if uint a * uint b < 2 ^ 64 then a * b else - 1)"

definition checked_mul :: "u64 \<Rightarrow> u64 \<Rightarrow> u64 option" where
  "checked_mul a b = (if uint a * uint b < 2 ^ 64 then Some (a * b) else None)"

lemma uint_bound_iff:
  "uint a + uint b < 2 ^ 64 \<longleftrightarrow> unat (a :: u64) + unat (b :: u64) < 2 ^ 64"
  "uint a * uint b < 2 ^ 64 \<longleftrightarrow> unat (a :: u64) * unat (b :: u64) < 2 ^ 64"
proof -
  have "uint a + uint b = int (unat a + unat b)" "uint a * uint b = int (unat a * unat b)" by simp_all
  then show "uint a + uint b < 2 ^ 64 \<longleftrightarrow> unat a + unat b < 2 ^ 64"
    "uint a * uint b < 2 ^ 64 \<longleftrightarrow> unat a * unat b < 2 ^ 64"
    by (simp_all only: of_nat_less_numeral_power_cancel_iff)
qed

lemma saturating_alt:
  "saturating_add a b = (if unat a + unat b < 2 ^ 64 then a + b else - 1)"
  "saturating_mul a b = (if unat a * unat b < 2 ^ 64 then a * b else - 1)"
  "checked_mul a b = (if unat a * unat b < 2 ^ 64 then Some (a * b) else None)"
  unfolding saturating_add_def saturating_mul_def checked_mul_def uint_bound_iff by (rule refl)+

lemma unat_max_u64 [simp]: "unat (- 1 :: u64) = 2 ^ 64 - 1"
  by (simp add: unsigned_minus_1_eq_mask mask_eq_exp_minus_1)

lemma unat_saturating_add:
  "unat (saturating_add a b) = min (unat a + unat b) (2 ^ 64 - 1)"
  by (auto simp: saturating_alt unat_word_ariths min_def)

lemma unat_saturating_mul:
  "unat (saturating_mul a b) = min (unat a * unat b) (2 ^ 64 - 1)"
  by (auto simp: saturating_alt unat_word_ariths min_def)

lemma checked_mul_Some_iff:
  "checked_mul a b = Some c \<longleftrightarrow> unat a * unat b < 2 ^ 64 \<and> c = a * b"
  by (auto simp: saturating_alt)

lemma unat_checked_mul:
  "checked_mul a b = Some c \<Longrightarrow> unat c = unat a * unat b"
  by (auto simp: saturating_alt unat_word_ariths split: if_splits)

section \<open>Words as counters\<close>

lemma word_not_max_less: "(t :: u64) < target \<Longrightarrow> t \<noteq> - 1"
  by (metis word_order.extremum leD)

lemma word_Suc_unat: "(t :: u64) \<noteq> - 1 \<Longrightarrow> unat (t + 1) = Suc (unat t)"
  by (metis add.commute add_eq_0_iff2 unatSuc)

lemma word_le_Suc_iff:
  assumes "(t :: u64) \<noteq> - 1"
  shows "e \<le> t + 1 \<longleftrightarrow> e \<le> t \<or> e = t + 1"
  using word_Suc_unat [OF assms]
  by (auto simp: word_le_nat_alt le_Suc_eq word_unat_eq_iff)

lemma word_less_Suc_iff:
  assumes "(t :: u64) \<noteq> - 1"
  shows "t < e \<longleftrightarrow> t + 1 \<le> e"
  using word_Suc_unat [OF assms]
  by (auto simp: word_le_nat_alt word_less_nat_alt)

lemma word_less_Suc_self: "(t :: u64) \<noteq> - 1 \<Longrightarrow> t < t + 1"
  using word_Suc_unat by (simp add: word_less_nat_alt)

end
