(* ===== verification/Mio_Event.thy ===== *)
theory Mio_Event
  imports Mio_Prelude
begin

text \<open>
  \<open>src/event.rs\<close> and \<open>src/token.rs\<close>: tokens, the two flag types \<open>PollOpt\<close> and \<open>Ready\<close>, and the
  \<open>Event\<close> that a poll hands out.  Both flag types wrap a \<open>usize\<close> and implement the same operators,
  so what they promise is stated once, as the locale \<open>flag_set\<close>, and interpreted for each of them.
\<close>

unbundle bit_operations_syntax

section \<open>Tokens\<close>

datatype token = Token (token_val: usize)

definition token_from_usize :: "usize \<Rightarrow> token" where
  "token_from_usize v = Token v"

definition usize_from_token :: "token \<Rightarrow> usize" where
  "usize_from_token t = token_val t"

section \<open>Poll options\<close>

datatype poll_opt = PollOpt usize

primrec pollopt_bits :: "poll_opt \<Rightarrow> usize" where
  "pollopt_bits (PollOpt w) = w"

definition pollopt_edge :: poll_opt where [flag_defs]: "pollopt_edge = PollOpt 0x020"
definition pollopt_empty :: poll_opt where [flag_defs]: "pollopt_empty = PollOpt 0"
definition pollopt_level :: poll_opt where [flag_defs]: "pollopt_level = PollOpt 0x040"
definition pollopt_oneshot :: poll_opt where [flag_defs]: "pollopt_oneshot = PollOpt 0x080"
definition pollopt_urgent :: poll_opt where [flag_defs]: "pollopt_urgent = PollOpt 0x100"

definition pollopt_bitor :: "poll_opt \<Rightarrow> poll_opt \<Rightarrow> poll_opt" where
  [flag_defs]: "pollopt_bitor a b = PollOpt (pollopt_bits a OR pollopt_bits b)"

definition pollopt_bitxor :: "poll_opt \<Rightarrow> poll_opt \<Rightarrow> poll_opt" where
  [flag_defs]: "pollopt_bitxor a b = PollOpt (pollopt_bits a XOR pollopt_bits b)"

definition pollopt_bitand :: "poll_opt \<Rightarrow> poll_opt \<Rightarrow> poll_opt" where
  [flag_defs]: "pollopt_bitand a b = PollOpt (pollopt_bits a AND pollopt_bits b)"

definition pollopt_sub :: "poll_opt \<Rightarrow> poll_opt \<Rightarrow> poll_opt" where
  [flag_defs]: "pollopt_sub a b = PollOpt (pollopt_bits a AND NOT (pollopt_bits b))"

definition pollopt_all :: poll_opt where
  [flag_defs]: "pollopt_all =
     pollopt_bitor (pollopt_bitor pollopt_edge pollopt_level) pollopt_oneshot"

definition pollopt_not :: "poll_opt \<Rightarrow> poll_opt" where
  [flag_defs]: "pollopt_not a = PollOpt (NOT (pollopt_bits a) AND pollopt_bits pollopt_all)"

definition pollopt_contains :: "poll_opt \<Rightarrow> poll_opt \<Rightarrow> bool" where
  [flag_defs]: "pollopt_contains a b \<longleftrightarrow> pollopt_bitand a b = b"

definition pollopt_is_edge :: "poll_opt \<Rightarrow> bool" where
  "pollopt_is_edge a = pollopt_contains a pollopt_edge"

definition pollopt_is_level :: "poll_opt \<Rightarrow> bool" where
  "pollopt_is_level a = pollopt_contains a pollopt_level"

definition pollopt_is_oneshot :: "poll_opt \<Rightarrow> bool" where
  "pollopt_is_oneshot a = pollopt_contains a pollopt_oneshot"

definition pollopt_is_urgent :: "poll_opt \<Rightarrow> bool" where
  "pollopt_is_urgent a = pollopt_contains a pollopt_urgent"

definition pollopt_insert :: "poll_opt \<Rightarrow> poll_opt \<Rightarrow> poll_opt" where
  [flag_defs]: "pollopt_insert a b = PollOpt (pollopt_bits a OR pollopt_bits b)"

definition pollopt_remove :: "poll_opt \<Rightarrow> poll_opt \<Rightarrow> poll_opt" where
  [flag_defs]: "pollopt_remove a b = PollOpt (pollopt_bits a AND NOT (pollopt_bits b))"

section \<open>Readiness\<close>

datatype ready = Ready usize

primrec ready_bits :: "ready \<Rightarrow> usize" where
  "ready_bits (Ready w) = w"

definition ready_none :: ready where [flag_defs]: "ready_none = Ready 0"
definition ready_readable :: ready where [flag_defs]: "ready_readable = Ready 0x001"
definition ready_writable :: ready where [flag_defs]: "ready_writable = Ready 0x002"
definition ready_error :: ready where [flag_defs]: "ready_error = Ready 0x004"
definition ready_hup :: ready where [flag_defs]: "ready_hup = Ready 0x008"
definition ready_drop :: ready where [flag_defs]: "ready_drop = Ready 0x10"

definition ready_bitor :: "ready \<Rightarrow> ready \<Rightarrow> ready" where
  [flag_defs]: "ready_bitor a b = Ready (ready_bits a OR ready_bits b)"

definition ready_bitxor :: "ready \<Rightarrow> ready \<Rightarrow> ready" where
  [flag_defs]: "ready_bitxor a b = Ready (ready_bits a XOR ready_bits b)"

definition ready_bitand :: "ready \<Rightarrow> ready \<Rightarrow> ready" where
  [flag_defs]: "ready_bitand a b = Ready (ready_bits a AND ready_bits b)"

definition ready_sub :: "ready \<Rightarrow> ready \<Rightarrow> ready" where
  [flag_defs]: "ready_sub a b = Ready (ready_bits a AND NOT (ready_bits b))"

definition ready_all :: ready where
  [flag_defs]: "ready_all =
     ready_bitor (ready_bitor (ready_bitor ready_readable ready_writable) ready_hup) ready_error"

definition ready_not :: "ready \<Rightarrow> ready" where
  [flag_defs]: "ready_not a = Ready (NOT (ready_bits a) AND ready_bits ready_all)"

definition ready_contains :: "ready \<Rightarrow> ready \<Rightarrow> bool" where
  [flag_defs]: "ready_contains a b \<longleftrightarrow> ready_bitand a b = b"

definition ready_is_none :: "ready \<Rightarrow> bool" where
  "ready_is_none a \<longleftrightarrow> ready_bitand a (ready_not ready_drop) = ready_none"

definition ready_is_readable :: "ready \<Rightarrow> bool" where
  "ready_is_readable a = ready_contains a ready_readable"

definition ready_is_writable :: "ready \<Rightarrow> bool" where
  "ready_is_writable a = ready_contains a ready_writable"

definition ready_is_error :: "ready \<Rightarrow> bool" where
  "ready_is_error a = ready_contains a ready_error"

definition ready_is_hup :: "ready \<Rightarrow> bool" where
  "ready_is_hup a = ready_contains a ready_hup"

definition ready_insert :: "ready \<Rightarrow> ready \<Rightarrow> ready" where
  [flag_defs]: "ready_insert a b = Ready (ready_bits a OR ready_bits b)"

definition ready_remove :: "ready \<Rightarrow> ready \<Rightarrow> ready" where
  [flag_defs]: "ready_remove a b = Ready (ready_bits a AND NOT (ready_bits b))"

text \<open>The crate-internal helpers at the end of \<open>event.rs\<close>.\<close>

definition event_as_usize :: "ready \<Rightarrow> usize" where
  "event_as_usize r = ready_bits r"

definition event_from_usize :: "usize \<Rightarrow> ready" where
  "event_from_usize w = Ready w"

definition event_is_empty :: "ready \<Rightarrow> bool" where
  "event_is_empty r \<longleftrightarrow> ready_bits r = 0"

definition event_is_drop :: "ready \<Rightarrow> bool" where
  "event_is_drop r = ready_contains r ready_drop"

section \<open>Debug output\<close>

text \<open>The loop both \<open>Debug\<close> implementations run: each flag that is set is written, with a separator
  before every one but the first (\<open>one\<close> is the loop's flag variable).\<close>

fun write_flags :: "bool \<Rightarrow> (bool \<times> string) list \<Rightarrow> string" where
  "write_flags one [] = ''''"
| "write_flags one ((flag, msg) # rest) =
     (if flag then (if one then '' | '' else '''') @ msg @ write_flags True rest
      else write_flags one rest)"

definition pollopt_fmt :: "poll_opt \<Rightarrow> string" where
  "pollopt_fmt a = write_flags False
     [(pollopt_contains a pollopt_edge, ''Edge-Triggered''),
      (pollopt_contains a pollopt_level, ''Level-Triggered''),
      (pollopt_contains a pollopt_oneshot, ''OneShot'')]"

definition ready_fmt :: "ready \<Rightarrow> string" where
  "ready_fmt a = ''Ready {'' @ write_flags False
     [(ready_contains a ready_readable, ''Readable''),
      (ready_contains a ready_writable, ''Writable''),
      (ready_contains a ready_error, ''Error''),
      (ready_contains a ready_hup, ''Hup''),
      (ready_contains a ready_drop, ''Drop'')] @ ''}''"

section \<open>Events\<close>

record event =
  ev_kind :: ready
  ev_token :: token

definition event_new :: "ready \<Rightarrow> token \<Rightarrow> event" where
  "event_new k t = \<lparr>ev_kind = k, ev_token = t\<rparr>"

definition event_kind_mut :: "(ready \<Rightarrow> ready) \<Rightarrow> event \<Rightarrow> event" where
  "event_kind_mut f e = e\<lparr>ev_kind := f (ev_kind e)\<rparr>"

section \<open>The contract of a flag type\<close>

text \<open>The set of flag positions a word stands for: the abstraction under which the operators
  are the set operations.\<close>

definition flags_of :: "usize \<Rightarrow> nat set" where
  "flags_of w = {n. bit w n}"

lemma flags_of_ops:
  "flags_of (a OR b) = flags_of a \<union> flags_of b"
  "flags_of (a AND b) = flags_of a \<inter> flags_of b"
  "flags_of (a AND NOT b) = flags_of a - flags_of b"
  "flags_of (a XOR b) = (flags_of a - flags_of b) \<union> (flags_of b - flags_of a)"
  "flags_of 0 = {}"
  by (auto simp: flags_of_def bit_simps dest: bit_imp_le_length)

lemma flags_of_inject: "flags_of a = flags_of b \<longleftrightarrow> a = b"
  by (auto simp: flags_of_def set_eq_iff intro: bit_eqI)

lemma flags_of_subset_iff: "flags_of b \<subseteq> flags_of a \<longleftrightarrow> a AND b = b"
  using flags_of_inject [of "a AND b" b] by (auto simp: flags_of_ops)

lemma flags_of_NOT_AND: "flags_of (NOT a AND b) = flags_of b - flags_of a"
  by (metis and.commute flags_of_ops(3))

locale flag_set =
  fixes bits :: "'f \<Rightarrow> usize"
    and bor :: "'f \<Rightarrow> 'f \<Rightarrow> 'f"
    and band :: "'f \<Rightarrow> 'f \<Rightarrow> 'f"
    and bxor :: "'f \<Rightarrow> 'f \<Rightarrow> 'f"
    and bsub :: "'f \<Rightarrow> 'f \<Rightarrow> 'f"
    and bnot :: "'f \<Rightarrow> 'f"
    and contains :: "'f \<Rightarrow> 'f \<Rightarrow> bool"
    and ins :: "'f \<Rightarrow> 'f \<Rightarrow> 'f"
    and rem :: "'f \<Rightarrow> 'f \<Rightarrow> 'f"
    and empt :: "'f"
    and univ :: "'f"
  assumes bits_inject: "bits a = bits b \<Longrightarrow> a = b"
    and flags_bor: "flags_of (bits (bor a b)) = flags_of (bits a) \<union> flags_of (bits b)"
    and flags_band: "flags_of (bits (band a b)) = flags_of (bits a) \<inter> flags_of (bits b)"
    and flags_bxor: "flags_of (bits (bxor a b)) =
      (flags_of (bits a) - flags_of (bits b)) \<union> (flags_of (bits b) - flags_of (bits a))"
    and flags_bsub: "flags_of (bits (bsub a b)) = flags_of (bits a) - flags_of (bits b)"
    and flags_bnot: "flags_of (bits (bnot a)) = flags_of (bits univ) - flags_of (bits a)"
    and flags_contains: "contains a b \<longleftrightarrow> flags_of (bits b) \<subseteq> flags_of (bits a)"
    and flags_ins: "flags_of (bits (ins a b)) = flags_of (bits a) \<union> flags_of (bits b)"
    and flags_rem: "flags_of (bits (rem a b)) = flags_of (bits a) - flags_of (bits b)"
    and flags_empt: "flags_of (bits empt) = {}"
begin

lemmas flags_simps =
  flags_bor flags_band flags_bxor flags_bsub flags_bnot flags_ins flags_rem flags_empt

lemma eq_iff: "a = b \<longleftrightarrow> flags_of (bits a) = flags_of (bits b)"
  using bits_inject flags_of_inject by blast

lemma contains_refl: "contains a a"
  by (simp add: flags_contains)

lemma contains_trans: "contains a b \<Longrightarrow> contains b c \<Longrightarrow> contains a c"
  by (auto simp: flags_contains)

lemma contains_antisym: "contains a b \<Longrightarrow> contains b a \<Longrightarrow> a = b"
  by (auto simp: flags_contains eq_iff)

lemma contains_bor: "contains a (bor b c) \<longleftrightarrow> contains a b \<and> contains a c"
  by (auto simp: flags_contains flags_simps)

lemma contains_band: "contains (band a b) c \<longleftrightarrow> contains a c \<and> contains b c"
  by (auto simp: flags_contains flags_simps)

lemma bor_contains: "contains a c \<or> contains b c \<Longrightarrow> contains (bor a b) c"
  by (auto simp: flags_contains flags_simps)

lemma insert_contains: "contains (ins a b) b"
  by (auto simp: flags_contains flags_simps)

lemma remove_disjoint: "band (rem a b) b = empt"
  by (auto simp: eq_iff flags_simps)

lemma insert_remove: "band a b = empt \<Longrightarrow> rem (ins a b) b = a"
  by (auto simp: eq_iff flags_simps)

lemma remove_insert: "contains a b \<Longrightarrow> ins (rem a b) b = a"
  by (auto simp: eq_iff flags_simps flags_contains)

lemma not_not: "bnot (bnot a) = band univ a"
  by (auto simp: eq_iff flags_simps)

lemma not_bor: "bnot (bor a b) = band (bnot a) (bnot b)"
  by (auto simp: eq_iff flags_simps)

lemma band_not: "band a (bnot b) = band univ (bsub a b)"
  by (auto simp: eq_iff flags_simps)

lemma bxor_self: "bxor a a = empt"
  by (auto simp: eq_iff flags_simps)

end

interpretation po: flag_set pollopt_bits pollopt_bitor pollopt_bitand pollopt_bitxor pollopt_sub
    pollopt_not pollopt_contains pollopt_insert pollopt_remove pollopt_empty pollopt_all
proof unfold_locales
  show "a = b" if "pollopt_bits a = pollopt_bits b" for a b
    using that by (cases a; cases b) simp
  show "pollopt_contains a b \<longleftrightarrow> flags_of (pollopt_bits b) \<subseteq> flags_of (pollopt_bits a)" for a b
    by (cases b) (simp add: pollopt_contains_def pollopt_bitand_def flags_of_subset_iff)
  show "flags_of (pollopt_bits (pollopt_not a)) =
      flags_of (pollopt_bits pollopt_all) - flags_of (pollopt_bits a)" for a
    by (simp add: pollopt_not_def flags_of_NOT_AND)
  show "flags_of (pollopt_bits (pollopt_sub a b)) = flags_of (pollopt_bits a) - flags_of (pollopt_bits b)"
    "flags_of (pollopt_bits (pollopt_remove a b)) = flags_of (pollopt_bits a) - flags_of (pollopt_bits b)" for a b
    by (simp_all add: pollopt_sub_def pollopt_remove_def flags_of_ops(3))
qed (simp_all add: pollopt_bitor_def pollopt_bitand_def pollopt_bitxor_def
      pollopt_insert_def pollopt_empty_def flags_of_ops)

interpretation rd: flag_set ready_bits ready_bitor ready_bitand ready_bitxor ready_sub
    ready_not ready_contains ready_insert ready_remove ready_none ready_all
proof unfold_locales
  show "a = b" if "ready_bits a = ready_bits b" for a b
    using that by (cases a; cases b) simp
  show "ready_contains a b \<longleftrightarrow> flags_of (ready_bits b) \<subseteq> flags_of (ready_bits a)" for a b
    by (cases b) (simp add: ready_contains_def ready_bitand_def flags_of_subset_iff)
  show "flags_of (ready_bits (ready_not a)) =
      flags_of (ready_bits ready_all) - flags_of (ready_bits a)" for a
    by (simp add: ready_not_def flags_of_NOT_AND)
  show "flags_of (ready_bits (ready_sub a b)) = flags_of (ready_bits a) - flags_of (ready_bits b)"
    "flags_of (ready_bits (ready_remove a b)) = flags_of (ready_bits a) - flags_of (ready_bits b)" for a b
    by (simp_all add: ready_sub_def ready_remove_def flags_of_ops(3))
qed (simp_all add: ready_bitor_def ready_bitand_def ready_bitxor_def
      ready_insert_def ready_none_def flags_of_ops)

section \<open>Flags as bit positions\<close>

text \<open>Every named flag is one bit; the predicates read that bit.\<close>

lemma flags_of_exp: "n < 64 \<Longrightarrow> flags_of (2 ^ n) = {n}"
  by (auto simp: flags_of_def bit_simps)

lemma flags_of_numerals:
  "flags_of 1 = {0}" "flags_of 2 = {1}" "flags_of 4 = {2}" "flags_of 8 = {3}" "flags_of 16 = {4}"
  "flags_of 32 = {5}" "flags_of 64 = {6}" "flags_of 128 = {7}" "flags_of 256 = {8}"
  using flags_of_exp [of 0] flags_of_exp [of 1] flags_of_exp [of 2] flags_of_exp [of 3]
    flags_of_exp [of 4] flags_of_exp [of 5] flags_of_exp [of 6] flags_of_exp [of 7]
    flags_of_exp [of 8]
  by simp_all

lemma ready_pred_bits:
  "ready_is_readable r \<longleftrightarrow> bit (ready_bits r) 0"
  "ready_is_writable r \<longleftrightarrow> bit (ready_bits r) 1"
  "ready_is_error r \<longleftrightarrow> bit (ready_bits r) 2"
  "ready_is_hup r \<longleftrightarrow> bit (ready_bits r) 3"
  "event_is_drop r \<longleftrightarrow> bit (ready_bits r) 4"
  by (simp_all add: ready_is_readable_def ready_is_writable_def ready_is_error_def
      ready_is_hup_def event_is_drop_def rd.flags_contains ready_readable_def ready_writable_def
      ready_error_def ready_hup_def ready_drop_def flags_of_numerals)
    (simp_all add: flags_of_def)

lemma pollopt_pred_bits:
  "pollopt_is_edge p \<longleftrightarrow> bit (pollopt_bits p) 5"
  "pollopt_is_level p \<longleftrightarrow> bit (pollopt_bits p) 6"
  "pollopt_is_oneshot p \<longleftrightarrow> bit (pollopt_bits p) 7"
  "pollopt_is_urgent p \<longleftrightarrow> bit (pollopt_bits p) 8"
  by (simp_all add: pollopt_is_edge_def pollopt_is_level_def pollopt_is_oneshot_def
      pollopt_is_urgent_def po.flags_contains pollopt_edge_def pollopt_level_def
      pollopt_oneshot_def pollopt_urgent_def flags_of_numerals)
    (simp_all add: flags_of_def)

lemma flags_ready_all: "flags_of (ready_bits ready_all) = {0, 1, 2, 3}"
  by (auto simp: ready_all_def rd.flags_bor ready_readable_def ready_writable_def ready_hup_def
      ready_error_def flags_of_numerals)

lemma flags_pollopt_all: "flags_of (pollopt_bits pollopt_all) = {5, 6, 7}"
  by (auto simp: pollopt_all_def po.flags_bor pollopt_edge_def pollopt_level_def
      pollopt_oneshot_def flags_of_numerals)

text \<open>\<open>is_none\<close> ignores the private drop flag (and any bit outside the public ones).\<close>

lemma ready_is_none_iff:
  "ready_is_none r \<longleftrightarrow>
     \<not> ready_is_readable r \<and> \<not> ready_is_writable r \<and> \<not> ready_is_error r \<and> \<not> ready_is_hup r"
proof -
  have drop: "flags_of (ready_bits (ready_not ready_drop)) = {0, 1, 2, 3}"
    by (auto simp: rd.flags_bnot flags_ready_all ready_drop_def flags_of_numerals)
  have "ready_is_none r \<longleftrightarrow> flags_of (ready_bits r) \<inter> {0, 1, 2, 3} = {}"
    by (simp only: ready_is_none_def rd.eq_iff rd.flags_band rd.flags_empt drop)
  then show ?thesis
    by (auto simp: ready_pred_bits flags_of_def)
qed

lemma event_is_empty_iff: "event_is_empty r \<longleftrightarrow> r = ready_none"
  by (cases r) (simp add: event_is_empty_def ready_none_def)

lemma event_usize_roundtrip [simp]:
  "event_from_usize (event_as_usize r) = r"
  "event_as_usize (event_from_usize w) = w"
  by (cases r) (simp_all add: event_from_usize_def event_as_usize_def)

lemma event_is_empty_none [simp]: "event_is_empty ready_none"
  by (simp add: event_is_empty_iff)

lemma event_is_drop_simps [simp]:
  "event_is_drop ready_drop" "\<not> event_is_drop ready_none" "\<not> event_is_empty ready_drop"
  by (simp_all add: event_is_drop_def rd.contains_refl rd.flags_contains event_is_empty_def
      ready_none_def ready_drop_def flags_of_numerals flags_of_ops)

end
