(* ===== verification/Mio_Queue.thy ===== *)
theory Mio_Queue
  imports Mio_Event "HOL-Library.Monad_Syntax"
begin

text \<open>
  The custom readiness queue of \<open>src/poll.rs\<close>: registrations, \<open>SetReadiness\<close> handles, the intrusive
  readiness list and the list of all nodes.  A \<open>ReadinessNode\<close> lives at an address of an explicit
  heap, a \<open>ReadyRef\<close> is a pointer into it, and \<open>Box\<close>/\<open>Option<Box<_>>\<close> links are addresses.  An
  operation returns \<open>None\<close> where the code would panic (\<open>unwrap\<close> of a null reference, a failing
  \<open>debug_assert!\<close>, the reference count guard) or touch a node that has been freed.  Every operation
  of this theory runs without another thread in between, so each \<open>compare_and_swap\<close> sees the value
  that was loaded before it and each retry loop ends in its first round.  Threads are interleaved at whole
  queue operations (\<open>Mio_Queue_Props\<close>, \<open>Mio_Poll_Props\<close>), not inside them.

  The queue is shown to implement an abstract queue: a list of ready nodes, a map of nodes without
  link fields, and a flag that says whether the poller announced it will sleep.
\<close>

section \<open>Data\<close>

datatype node_ptr = Null | SleepToken | Node nat

record registration_data =
  rd_token :: token
  rd_interest :: ready
  rd_opts :: poll_opt

record readiness_node =
  next_all_nodes :: "nat option"
  prev_all_nodes :: node_ptr
  node_data :: registration_data
  next_readiness :: node_ptr
  node_events :: usize
  node_queued :: usize
  ref_count :: usize

text \<open>\<open>ReadinessQueueInner\<close>, with the heap its nodes live in and the platform's awakener (\<open>'w\<close>).
  \<open>queue_id\<close> is the address of the shared \<open>Arc\<close>, which \<open>identical\<close> compares.\<close>

record 'w readiness_queue =
  queue_id :: nat
  awakener :: 'w
  node_heap :: "nat \<rightharpoonup> readiness_node"
  next_addr :: nat
  head_all_nodes :: "nat option"
  head_readiness :: node_ptr

record registration_inner =
  ri_queue :: nat
  ri_node :: node_ptr

definition MAX_REFCOUNT :: usize where "MAX_REFCOUNT = 0x7FFFFFFFFFFFFFFF"

definition NODE_QUEUED_FLAG :: usize where "NODE_QUEUED_FLAG = 1"

definition AWAKEN :: token where "AWAKEN = Token (- 1)"

definition debug_assert :: "bool \<Rightarrow> unit option" where
  "debug_assert b = (if b then Some () else None)"

section \<open>Registration data and nodes\<close>

definition registration_data_new :: "token \<Rightarrow> ready \<Rightarrow> poll_opt \<Rightarrow> registration_data" where
  "registration_data_new t i p = \<lparr>rd_token = t, rd_interest = i, rd_opts = p\<rparr>"

definition registration_data_update ::
  "token \<Rightarrow> ready \<Rightarrow> poll_opt \<Rightarrow> registration_data \<Rightarrow> registration_data" where
  "registration_data_update t i p d = d\<lparr>rd_token := t, rd_interest := i, rd_opts := p\<rparr>"

definition registration_data_disable :: "registration_data \<Rightarrow> registration_data" where
  "registration_data_disable d = d\<lparr>rd_interest := ready_none, rd_opts := pollopt_empty\<rparr>"

definition readiness_node_new ::
  "token \<Rightarrow> ready \<Rightarrow> poll_opt \<Rightarrow> usize \<Rightarrow> readiness_node" where
  "readiness_node_new t i p rc =
     \<lparr>next_all_nodes = None, prev_all_nodes = Null, node_data = registration_data_new t i p,
      next_readiness = Null, node_events = 0, node_queued = 0, ref_count = rc\<rparr>"

definition node_token :: "readiness_node \<Rightarrow> token" where
  "node_token nd = rd_token (node_data nd)"

definition node_interest :: "readiness_node \<Rightarrow> ready" where
  "node_interest nd = rd_interest (node_data nd)"

definition node_poll_opts :: "readiness_node \<Rightarrow> poll_opt" where
  "node_poll_opts nd = rd_opts (node_data nd)"

definition node_poll_events :: "readiness_node \<Rightarrow> ready" where
  "node_poll_events nd =
     ready_bitand (ready_bitor (node_interest nd) ready_drop) (event_from_usize (node_events nd))"

section \<open>References into the heap\<close>

definition ready_ref_as_ref :: "'w readiness_queue \<Rightarrow> node_ptr \<Rightarrow> readiness_node option" where
  "ready_ref_as_ref q p = (case p of Node n \<Rightarrow> node_heap q n | _ \<Rightarrow> None)"

text \<open>Mutation through \<open>as_mut().unwrap()\<close> or through an \<open>UnsafeCell\<close>/atomic of the node.\<close>

definition ready_ref_modify ::
  "(readiness_node \<Rightarrow> readiness_node) \<Rightarrow> node_ptr \<Rightarrow> 'w readiness_queue \<Rightarrow> 'w readiness_queue option"
  where
  "ready_ref_modify f p q =
     (case p of
        Node n \<Rightarrow> map_option (\<lambda>nd. q\<lparr>node_heap := (node_heap q)(n \<mapsto> f nd)\<rparr>) (node_heap q n)
      | _ \<Rightarrow> None)"

section \<open>The queue\<close>

definition readiness_queue_new :: "nat \<Rightarrow> 'w \<Rightarrow> 'w readiness_queue" where
  "readiness_queue_new qid w =
     \<lparr>queue_id = qid, awakener = w, node_heap = Map.empty, next_addr = 0,
      head_all_nodes = None, head_readiness = Null\<rparr>"

definition queue_is_empty :: "'w readiness_queue \<Rightarrow> bool" where
  "queue_is_empty q \<longleftrightarrow> head_readiness q = Null"

definition queue_identical :: "nat \<Rightarrow> 'w readiness_queue \<Rightarrow> bool" where
  "queue_identical qid q \<longleftrightarrow> qid = queue_id q"

definition prepare_for_sleep :: "'w readiness_queue \<Rightarrow> bool \<times> 'w readiness_queue" where
  "prepare_for_sleep q =
     (if head_readiness q = Null then (True, q\<lparr>head_readiness := SleepToken\<rparr>) else (False, q))"

definition take_ready :: "'w readiness_queue \<Rightarrow> node_ptr \<times> 'w readiness_queue" where
  "take_ready q =
     ((if head_readiness q = SleepToken then Null else head_readiness q),
      q\<lparr>head_readiness := Null\<rparr>)"

definition new_readiness_node ::
  "'w readiness_queue \<Rightarrow> token \<Rightarrow> ready \<Rightarrow> poll_opt \<Rightarrow> usize \<Rightarrow> (node_ptr \<times> 'w readiness_queue) option"
  where
  "new_readiness_node q t i p rc =
     (let n = next_addr q;
          nd = (readiness_node_new t i p rc)\<lparr>next_all_nodes := head_all_nodes q\<rparr>;
          q1 = q\<lparr>node_heap := (node_heap q)(n \<mapsto> nd), next_addr := Suc n, head_all_nodes := Some n\<rparr>
      in case head_all_nodes q of
           None \<Rightarrow> Some (Node n, q1)
         | Some m \<Rightarrow> do {
             q2 \<leftarrow> ready_ref_modify (\<lambda>nd. nd\<lparr>prev_all_nodes := Node n\<rparr>) (Node m) q1;
             Some (Node n, q2) })"

definition prepend_readiness_node ::
  "'w readiness_queue \<Rightarrow> node_ptr \<Rightarrow> (bool \<times> 'w readiness_queue) option" where
  "prepend_readiness_node q p =
     (let curr_head = head_readiness q;
          node_next = (if curr_head = SleepToken then Null else curr_head)
      in do {
        q1 \<leftarrow> ready_ref_modify (\<lambda>nd. nd\<lparr>next_readiness := node_next\<rparr>) p q;
        Some (curr_head = SleepToken, q1\<lparr>head_readiness := p\<rparr>) })"

text \<open>\<open>ReadinessNode::unlink\<close> on \<open>self\<close> at address \<open>n\<close>; the box it returns is dropped by the caller,
  so the address leaves the heap.\<close>

definition unlink_node :: "'w readiness_queue \<Rightarrow> node_ptr \<Rightarrow> 'w readiness_queue option" where
  "unlink_node q p = do {
     nd \<leftarrow> ready_ref_as_ref q p;
     q1 \<leftarrow> (case next_all_nodes nd of
              None \<Rightarrow> Some q
            | Some m \<Rightarrow> ready_ref_modify (\<lambda>x. x\<lparr>prev_all_nodes := prev_all_nodes nd\<rparr>) (Node m) q);
     (case prev_all_nodes nd of
        Null \<Rightarrow> do {
          self \<leftarrow> head_all_nodes q1;
          Some (q1\<lparr>head_all_nodes := next_all_nodes nd, node_heap := (node_heap q1)(self := None)\<rparr>) }
      | prev \<Rightarrow> do {
          pnd \<leftarrow> ready_ref_as_ref q1 prev;
          self \<leftarrow> next_all_nodes pnd;
          q2 \<leftarrow> ready_ref_modify (\<lambda>x. x\<lparr>next_all_nodes := next_all_nodes nd\<rparr>) prev q1;
          Some (q2\<lparr>node_heap := (node_heap q2)(self := None)\<rparr>) }) }"

text \<open>\<open>ReadyList::next\<close>: the head of the list, the rest of it, and the head's link cleared.\<close>

definition ready_list_next ::
  "'w readiness_queue \<Rightarrow> node_ptr \<Rightarrow> ((node_ptr \<times> node_ptr) option \<times> 'w readiness_queue) option" where
  "ready_list_next q p =
     (if p = Null then Some (None, q)
      else do {
        nd \<leftarrow> ready_ref_as_ref q p;
        q1 \<leftarrow> ready_ref_modify (\<lambda>x. x\<lparr>next_readiness := Null\<rparr>) p q;
        Some (Some (p, next_readiness nd), q1) })"

text \<open>The body of the loop of \<open>ReadinessQueue::poll\<close> for one node: first the inner loop that clears
  the queued flag or queues the node again, then the processing of the node.  \<open>push\<close> is
  \<open>sys::Events::push_event\<close>.\<close>

definition queue_poll_node ::
  "('d \<Rightarrow> event \<Rightarrow> 'd) \<Rightarrow> 'w readiness_queue \<Rightarrow> node_ptr \<Rightarrow> 'd \<Rightarrow> ('w readiness_queue \<times> 'd) option"
  where
  "queue_poll_node push q p dst = do {
     nd \<leftarrow> ready_ref_as_ref q p;
     let opts = node_poll_opts nd;
     let evts = node_poll_events nd;
     q1 \<leftarrow> (if event_is_drop evts then Some q
            else if pollopt_is_edge opts \<or> event_is_empty evts then
              ready_ref_modify (\<lambda>x. x\<lparr>node_queued := 0\<rparr>) p q
            else do {
              (needs_wakeup, q') \<leftarrow> prepend_readiness_node q p;
              _ \<leftarrow> debug_assert (\<not> needs_wakeup);
              Some q' });
     if event_is_drop evts then do {
       q2 \<leftarrow> unlink_node q1 p;
       Some (q2, dst) }
     else if \<not> ready_is_none evts then do {
       nd1 \<leftarrow> ready_ref_as_ref q1 p;
       let dst' = push dst (event_new evts (node_token nd1));
       q2 \<leftarrow> (if pollopt_is_oneshot opts
              then ready_ref_modify (\<lambda>x. x\<lparr>node_data := registration_data_disable (node_data x)\<rparr>) p q1
              else Some q1);
       Some (q2, dst') }
     else Some (q1, dst) }"

partial_function (option) queue_poll_loop ::
  "('d \<Rightarrow> event \<Rightarrow> 'd) \<Rightarrow> 'w readiness_queue \<Rightarrow> node_ptr \<Rightarrow> 'd \<Rightarrow> ('w readiness_queue \<times> 'd) option"
  where
  "queue_poll_loop push q p dst =
     Option.bind (ready_list_next q p) (\<lambda>(item, q1).
       (case item of
          None \<Rightarrow> Some (q1, dst)
        | Some (node, rest) \<Rightarrow>
            Option.bind (queue_poll_node push q1 node dst)
              (\<lambda>(q2, dst2). queue_poll_loop push q2 rest dst2)))"

declare queue_poll_loop.simps [code]

definition queue_poll ::
  "('d \<Rightarrow> event \<Rightarrow> 'd) \<Rightarrow> 'w readiness_queue \<Rightarrow> 'd \<Rightarrow> ('w readiness_queue \<times> 'd) option" where
  "queue_poll push q dst =
     (let (head, q1) = take_ready q in queue_poll_loop push q1 head dst)"

section \<open>Registrations and readiness handles\<close>

text \<open>\<open>wake\<close> is \<open>Awakener::wakeup\<close> of the platform.\<close>

definition queue_wakeup ::
  "('w \<Rightarrow> unit io_result \<times> 'w) \<Rightarrow> 'w readiness_queue \<Rightarrow> unit io_result \<times> 'w readiness_queue" where
  "queue_wakeup wake q = (let (r, w) = wake (awakener q) in (r, q\<lparr>awakener := w\<rparr>))"

definition inner_readiness :: "'w readiness_queue \<Rightarrow> registration_inner \<Rightarrow> ready option" where
  "inner_readiness q ri = map_option (\<lambda>nd. event_from_usize (node_events nd)) (ready_ref_as_ref q (ri_node ri))"

definition queue_for_processing ::
  "'w readiness_queue \<Rightarrow> registration_inner \<Rightarrow> (bool \<times> 'w readiness_queue) option" where
  "queue_for_processing q ri = do {
     nd \<leftarrow> ready_ref_as_ref q (ri_node ri);
     let prev = node_queued nd;
     if prev = 0 then do {
       q1 \<leftarrow> ready_ref_modify (\<lambda>x. x\<lparr>node_queued := NODE_QUEUED_FLAG\<rparr>) (ri_node ri) q;
       prepend_readiness_node q1 (ri_node ri) }
     else Some (False, q) }"

definition inner_set_readiness ::
  "('w \<Rightarrow> unit io_result \<times> 'w) \<Rightarrow> 'w readiness_queue \<Rightarrow> registration_inner \<Rightarrow> ready \<Rightarrow>
     (unit io_result \<times> 'w readiness_queue) option" where
  "inner_set_readiness wake q ri rdy = do {
     q1 \<leftarrow> ready_ref_modify (\<lambda>x. x\<lparr>node_events := event_as_usize rdy\<rparr>) (ri_node ri) q;
     if event_is_empty rdy then Some (Inr (), q1)
     else do {
       (needs_wakeup, q2) \<leftarrow> queue_for_processing q1 ri;
       if needs_wakeup then Some (queue_wakeup wake q2) else Some (Inr (), q2) } }"

definition inner_new ::
  "'w readiness_queue \<Rightarrow> token \<Rightarrow> ready \<Rightarrow> poll_opt \<Rightarrow> (registration_inner \<times> 'w readiness_queue) option"
  where
  "inner_new q t i p = do {
     (node, q1) \<leftarrow> new_readiness_node q t i p 1;
     Some (\<lparr>ri_queue = queue_id q, ri_node = node\<rparr>, q1) }"

definition inner_update ::
  "'w readiness_queue \<Rightarrow> registration_inner \<Rightarrow> token \<Rightarrow> ready \<Rightarrow> poll_opt \<Rightarrow>
     (unit io_result \<times> 'w readiness_queue) option" where
  "inner_update q ri t i p =
     (if \<not> queue_identical (ri_queue ri) q then
        Some (Inl (CustomError Other ''registration registered with another instance of Poll''), q)
      else do {
        q1 \<leftarrow> ready_ref_modify (\<lambda>x. x\<lparr>node_data := registration_data_update t i p (node_data x)\<rparr>)
                (ri_node ri) q;
        rdy \<leftarrow> inner_readiness q1 ri;
        if \<not> event_is_empty rdy then do {
          (needs_wakeup, q2) \<leftarrow> queue_for_processing q1 ri;
          _ \<leftarrow> debug_assert (\<not> needs_wakeup);
          Some (Inr (), q2) }
        else Some (Inr (), q1) })"

definition inner_clone ::
  "'w readiness_queue \<Rightarrow> registration_inner \<Rightarrow> (registration_inner \<times> 'w readiness_queue) option" where
  "inner_clone q ri = do {
     nd \<leftarrow> ready_ref_as_ref q (ri_node ri);
     let old_size = ref_count nd;
     q1 \<leftarrow> ready_ref_modify (\<lambda>x. x\<lparr>ref_count := ref_count x + 1\<rparr>) (ri_node ri) q;
     if old_size AND NOT MAX_REFCOUNT \<noteq> 0 then None else Some (ri, q1) }"

definition inner_drop ::
  "('w \<Rightarrow> unit io_result \<times> 'w) \<Rightarrow> 'w readiness_queue \<Rightarrow> registration_inner \<Rightarrow> 'w readiness_queue option"
  where
  "inner_drop wake q ri = do {
     nd \<leftarrow> ready_ref_as_ref q (ri_node ri);
     let old_size = ref_count nd;
     q1 \<leftarrow> ready_ref_modify (\<lambda>x. x\<lparr>ref_count := ref_count x - 1\<rparr>) (ri_node ri) q;
     if old_size \<noteq> 1 then Some q1
     else do {
       (_, q2) \<leftarrow> inner_set_readiness wake q1 ri ready_drop;
       Some q2 } }"

text \<open>\<open>Registration::new\<close> clones the inner value twice and drops the original.\<close>

definition registration_new ::
  "('w \<Rightarrow> unit io_result \<times> 'w) \<Rightarrow> 'w readiness_queue \<Rightarrow> token \<Rightarrow> ready \<Rightarrow> poll_opt \<Rightarrow>
     ((registration_inner \<times> registration_inner) \<times> 'w readiness_queue) option" where
  "registration_new wake q t i p = do {
     (inner, q1) \<leftarrow> inner_new q t i p;
     (registration, q2) \<leftarrow> inner_clone q1 inner;
     (set_readiness, q3) \<leftarrow> inner_clone q2 inner;
     q4 \<leftarrow> inner_drop wake q3 inner;
     Some ((registration, set_readiness), q4) }"

definition registration_update ::
  "'w readiness_queue \<Rightarrow> registration_inner \<Rightarrow> token \<Rightarrow> ready \<Rightarrow> poll_opt \<Rightarrow>
     (unit io_result \<times> 'w readiness_queue) option" where
  "registration_update q ri t i p = inner_update q ri t i p"

definition registration_deregister ::
  "'w readiness_queue \<Rightarrow> registration_inner \<Rightarrow> (unit io_result \<times> 'w readiness_queue) option" where
  "registration_deregister q ri = inner_update q ri (Token 0) ready_none pollopt_empty"

text \<open>\<open>Drop for Registration\<close> disables the registration data, then drops the inner value.\<close>

definition registration_drop ::
  "('w \<Rightarrow> unit io_result \<times> 'w) \<Rightarrow> 'w readiness_queue \<Rightarrow> registration_inner \<Rightarrow> 'w readiness_queue option"
  where
  "registration_drop wake q ri = do {
     q1 \<leftarrow> ready_ref_modify (\<lambda>x. x\<lparr>node_data := registration_data_disable (node_data x)\<rparr>) (ri_node ri) q;
     inner_drop wake q1 ri }"

definition set_readiness_clone ::
  "'w readiness_queue \<Rightarrow> registration_inner \<Rightarrow> (registration_inner \<times> 'w readiness_queue) option" where
  "set_readiness_clone q ri = inner_clone q ri"

definition set_readiness_drop ::
  "('w \<Rightarrow> unit io_result \<times> 'w) \<Rightarrow> 'w readiness_queue \<Rightarrow> registration_inner \<Rightarrow> 'w readiness_queue option"
  where
  "set_readiness_drop wake q ri = inner_drop wake q ri"

end
