(* ===== verification/Mio_Queue_Spec.thy ===== *)
theory Mio_Queue_Spec
  imports Mio_Queue
begin

text \<open>
  The abstract readiness queue and the proof that the linked structure of \<open>Mio_Queue\<close> implements it.
  The abstract state has the ready nodes as a list, the nodes without their link fields, and the
  sleep flag.  \<open>queue_rel\<close> relates the two; each operation is simulated by its abstract counterpart
  (\<open>rel_option\<close>: the one panics exactly when the other does), and the abstract invariant \<open>abs_wf\<close>
  is kept by every operation.
\<close>

section \<open>The abstract queue\<close>

record 'w abs_queue =
  aq_id :: nat
  aq_awakener :: 'w
  aq_fresh :: nat
  aq_ready :: "nat list"
  aq_sleep :: bool
  aq_nodes :: "nat \<rightharpoonup> readiness_node"

text \<open>A node without its links.\<close>

definition core :: "readiness_node \<Rightarrow> readiness_node" where
  "core nd = nd\<lparr>next_all_nodes := None, prev_all_nodes := Null, next_readiness := Null\<rparr>"

definition abs_modify ::
  "(readiness_node \<Rightarrow> readiness_node) \<Rightarrow> nat \<Rightarrow> 'w abs_queue \<Rightarrow> 'w abs_queue option" where
  "abs_modify f n a = map_option (\<lambda>nd. a\<lparr>aq_nodes := (aq_nodes a)(n \<mapsto> f nd)\<rparr>) (aq_nodes a n)"

definition abs_prepend :: "'w abs_queue \<Rightarrow> nat \<Rightarrow> (bool \<times> 'w abs_queue) option" where
  "abs_prepend a n =
     (if n \<in> dom (aq_nodes a)
      then Some (aq_sleep a, a\<lparr>aq_ready := n # aq_ready a, aq_sleep := False\<rparr>) else None)"

definition abs_remove :: "'w abs_queue \<Rightarrow> nat \<Rightarrow> 'w abs_queue option" where
  "abs_remove a n =
     (if n \<in> dom (aq_nodes a) then Some (a\<lparr>aq_nodes := (aq_nodes a)(n := None)\<rparr>) else None)"

definition abs_new_node ::
  "'w abs_queue \<Rightarrow> token \<Rightarrow> ready \<Rightarrow> poll_opt \<Rightarrow> usize \<Rightarrow> nat \<times> 'w abs_queue" where
  "abs_new_node a t i p rc =
     (aq_fresh a, a\<lparr>aq_nodes := (aq_nodes a)(aq_fresh a \<mapsto> readiness_node_new t i p rc),
                    aq_fresh := Suc (aq_fresh a)\<rparr>)"

definition abs_poll_node ::
  "('d \<Rightarrow> event \<Rightarrow> 'd) \<Rightarrow> 'w abs_queue \<Rightarrow> nat \<Rightarrow> 'd \<Rightarrow> ('w abs_queue \<times> 'd) option" where
  "abs_poll_node push a n dst = do {
     nd \<leftarrow> aq_nodes a n;
     let opts = node_poll_opts nd;
     let evts = node_poll_events nd;
     a1 \<leftarrow> (if event_is_drop evts then Some a
            else if pollopt_is_edge opts \<or> event_is_empty evts then
              abs_modify (\<lambda>x. x\<lparr>node_queued := 0\<rparr>) n a
            else do {
              (needs_wakeup, a') \<leftarrow> abs_prepend a n;
              _ \<leftarrow> debug_assert (\<not> needs_wakeup);
              Some a' });
     if event_is_drop evts then do {
       a2 \<leftarrow> abs_remove a1 n;
       Some (a2, dst) }
     else if \<not> ready_is_none evts then do {
       nd1 \<leftarrow> aq_nodes a1 n;
       let dst' = push dst (event_new evts (node_token nd1));
       a2 \<leftarrow> (if pollopt_is_oneshot opts
              then abs_modify (\<lambda>x. x\<lparr>node_data := registration_data_disable (node_data x)\<rparr>) n a1
              else Some a1);
       Some (a2, dst') }
     else Some (a1, dst) }"

fun abs_poll_loop ::
  "('d \<Rightarrow> event \<Rightarrow> 'd) \<Rightarrow> 'w abs_queue \<Rightarrow> nat list \<Rightarrow> 'd \<Rightarrow> ('w abs_queue \<times> 'd) option" where
  "abs_poll_loop push a [] dst = Some (a, dst)"
| "abs_poll_loop push a (n # ns) dst =
     Option.bind (abs_poll_node push a n dst) (\<lambda>(a2, dst2). abs_poll_loop push a2 ns dst2)"

definition abs_poll ::
  "('d \<Rightarrow> event \<Rightarrow> 'd) \<Rightarrow> 'w abs_queue \<Rightarrow> 'd \<Rightarrow> ('w abs_queue \<times> 'd) option" where
  "abs_poll push a dst =
     abs_poll_loop push (a\<lparr>aq_ready := [], aq_sleep := False\<rparr>) (aq_ready a) dst"

definition abs_queue_for_processing :: "'w abs_queue \<Rightarrow> nat \<Rightarrow> (bool \<times> 'w abs_queue) option" where
  "abs_queue_for_processing a n = do {
     nd \<leftarrow> aq_nodes a n;
     if node_queued nd = 0 then do {
       a1 \<leftarrow> abs_modify (\<lambda>x. x\<lparr>node_queued := NODE_QUEUED_FLAG\<rparr>) n a;
       abs_prepend a1 n }
     else Some (False, a) }"

definition abs_wakeup ::
  "('w \<Rightarrow> unit io_result \<times> 'w) \<Rightarrow> 'w abs_queue \<Rightarrow> unit io_result \<times> 'w abs_queue" where
  "abs_wakeup wake a = (let (r, w) = wake (aq_awakener a) in (r, a\<lparr>aq_awakener := w\<rparr>))"

definition abs_set_readiness ::
  "('w \<Rightarrow> unit io_result \<times> 'w) \<Rightarrow> 'w abs_queue \<Rightarrow> nat \<Rightarrow> ready \<Rightarrow>
     (unit io_result \<times> 'w abs_queue) option" where
  "abs_set_readiness wake a n rdy = do {
     a1 \<leftarrow> abs_modify (\<lambda>x. x\<lparr>node_events := event_as_usize rdy\<rparr>) n a;
     if event_is_empty rdy then Some (Inr (), a1)
     else do {
       (needs_wakeup, a2) \<leftarrow> abs_queue_for_processing a1 n;
       if needs_wakeup then Some (abs_wakeup wake a2) else Some (Inr (), a2) } }"

definition abs_update ::
  "'w abs_queue \<Rightarrow> nat \<Rightarrow> token \<Rightarrow> ready \<Rightarrow> poll_opt \<Rightarrow> (unit io_result \<times> 'w abs_queue) option" where
  "abs_update a n t i p = do {
     a1 \<leftarrow> abs_modify (\<lambda>x. x\<lparr>node_data := registration_data_update t i p (node_data x)\<rparr>) n a;
     nd \<leftarrow> aq_nodes a1 n;
     if \<not> event_is_empty (event_from_usize (node_events nd)) then do {
       (needs_wakeup, a2) \<leftarrow> abs_queue_for_processing a1 n;
       _ \<leftarrow> debug_assert (\<not> needs_wakeup);
       Some (Inr (), a2) }
     else Some (Inr (), a1) }"

definition abs_clone :: "'w abs_queue \<Rightarrow> nat \<Rightarrow> 'w abs_queue option" where
  "abs_clone a n = do {
     nd \<leftarrow> aq_nodes a n;
     a1 \<leftarrow> abs_modify (\<lambda>x. x\<lparr>ref_count := ref_count x + 1\<rparr>) n a;
     if ref_count nd AND NOT MAX_REFCOUNT \<noteq> 0 then None else Some a1 }"

definition abs_drop ::
  "('w \<Rightarrow> unit io_result \<times> 'w) \<Rightarrow> 'w abs_queue \<Rightarrow> nat \<Rightarrow> 'w abs_queue option" where
  "abs_drop wake a n = do {
     nd \<leftarrow> aq_nodes a n;
     a1 \<leftarrow> abs_modify (\<lambda>x. x\<lparr>ref_count := ref_count x - 1\<rparr>) n a;
     if ref_count nd \<noteq> 1 then Some a1
     else map_option snd (abs_set_readiness wake a1 n ready_drop) }"

section \<open>List segments in the heap\<close>

primrec rlist :: "(nat \<rightharpoonup> readiness_node) \<Rightarrow> node_ptr \<Rightarrow> nat list \<Rightarrow> bool" where
  "rlist h p [] \<longleftrightarrow> p = Null"
| "rlist h p (n # ns) \<longleftrightarrow> p = Node n \<and> (\<exists>nd. h n = Some nd \<and> rlist h (next_readiness nd) ns)"

primrec dllseg :: "(nat \<rightharpoonup> readiness_node) \<Rightarrow> node_ptr \<Rightarrow> nat option \<Rightarrow> nat list \<Rightarrow>
    node_ptr \<Rightarrow> nat option \<Rightarrow> bool" where
  "dllseg h pv cur [] pv' cur' \<longleftrightarrow> pv = pv' \<and> cur = cur'"
| "dllseg h pv cur (n # ns) pv' cur' \<longleftrightarrow> cur = Some n \<and>
     (\<exists>nd. h n = Some nd \<and> prev_all_nodes nd = pv \<and> dllseg h (Node n) (next_all_nodes nd) ns pv' cur')"

lemma rlist_upd_notin [simp]: "n \<notin> set ns \<Longrightarrow> rlist (h(n := x)) p ns = rlist h p ns"
  by (induction ns arbitrary: p) auto

lemma rlist_upd_same:
  assumes "h n = Some nd" and "next_readiness nd' = next_readiness nd"
  shows "rlist (h(n \<mapsto> nd')) p ns = rlist h p ns"
  using assms by (induction ns arbitrary: p) auto

lemma rlist_dom: "rlist h p ns \<Longrightarrow> set ns \<subseteq> dom h"
  by (induction ns arbitrary: p) auto

lemma dllseg_upd_notin [simp]:
  "n \<notin> set ns \<Longrightarrow> dllseg (h(n := x)) pv cur ns pv' cur' = dllseg h pv cur ns pv' cur'"
  by (induction ns arbitrary: pv cur) auto

lemma dllseg_upd_same:
  assumes "h n = Some nd" and "next_all_nodes nd' = next_all_nodes nd"
    and "prev_all_nodes nd' = prev_all_nodes nd"
  shows "dllseg (h(n \<mapsto> nd')) pv cur ns pv' cur' = dllseg h pv cur ns pv' cur'"
  using assms by (induction ns arbitrary: pv cur) auto

lemma dllseg_append:
  "dllseg h pv cur (xs @ ys) pv' cur' \<longleftrightarrow>
     (\<exists>pv1 cur1. dllseg h pv cur xs pv1 cur1 \<and> dllseg h pv1 cur1 ys pv' cur')"
  by (induction xs arbitrary: pv cur) auto

lemma dllseg_dom: "dllseg h pv cur ns pv' cur' \<Longrightarrow> set ns \<subseteq> dom h"
  by (induction ns arbitrary: pv cur) auto

lemma dllseg_snoc_prev: "dllseg h pv cur (xs @ [k]) pv' cur' \<Longrightarrow> pv' = Node k"
  by (auto simp: dllseg_append)

text \<open>Changing where a segment is entered from: the first node's back link.\<close>

lemma dllseg_reprev:
  assumes "dllseg h pv (Some m) (m # ys) pv' None" and "m \<notin> set ys" and "h m = Some nd"
  shows "dllseg (h(m \<mapsto> nd\<lparr>prev_all_nodes := p\<rparr>)) p (Some m) (m # ys) pv' None"
  using assms by simp

text \<open>Changing where a segment ends: the last node's forward link.\<close>

lemma dllseg_renext:
  assumes "dllseg h pv cur (xs @ [k]) (Node k) c" and "distinct (xs @ [k])" and "h k = Some nd"
  shows "dllseg (h(k \<mapsto> nd\<lparr>next_all_nodes := c'\<rparr>)) pv cur (xs @ [k]) (Node k) c'"
  using assms by (auto simp: dllseg_append)

section \<open>The simulation relation\<close>

definition norm_head :: "node_ptr \<Rightarrow> node_ptr" where
  "norm_head p = (if p = SleepToken then Null else p)"

definition all_nodes_ok :: "'w readiness_queue \<Rightarrow> bool" where
  "all_nodes_ok q \<longleftrightarrow>
     (\<exists>as e. dllseg (node_heap q) Null (head_all_nodes q) as e None \<and> distinct as \<and>
           set as = dom (node_heap q)) \<and>
     (\<forall>n \<in> dom (node_heap q). n < next_addr q)"

definition queue_rel :: "'w readiness_queue \<Rightarrow> 'w abs_queue \<Rightarrow> bool" where
  "queue_rel q a \<longleftrightarrow>
     rlist (node_heap q) (norm_head (head_readiness q)) (aq_ready a) \<and>
     (head_readiness q = SleepToken \<longleftrightarrow> aq_sleep a) \<and>
     aq_nodes a = map_option core \<circ> node_heap q \<and>
     aq_id a = queue_id q \<and> aq_awakener a = awakener q \<and> aq_fresh a = next_addr q \<and>
     all_nodes_ok q"

text \<open>The relation while a detached ready list \<open>ns\<close>, entered at \<open>p\<close>, is being worked through.\<close>

definition queue_rel_at ::
  "node_ptr \<Rightarrow> nat list \<Rightarrow> 'w readiness_queue \<Rightarrow> 'w abs_queue \<Rightarrow> bool" where
  "queue_rel_at p ns q a \<longleftrightarrow> queue_rel q a \<and> rlist (node_heap q) p ns"

lemma queue_rel_at_Nil: "queue_rel_at Null [] q a \<longleftrightarrow> queue_rel q a"
  by (simp add: queue_rel_at_def)

definition link_free :: "(readiness_node \<Rightarrow> readiness_node) \<Rightarrow> bool" where
  "link_free f \<longleftrightarrow> (\<forall>nd. next_all_nodes (f nd) = next_all_nodes nd \<and>
     prev_all_nodes (f nd) = prev_all_nodes nd \<and> next_readiness (f nd) = next_readiness nd \<and>
     core (f nd) = f (core nd))"

lemma core_fields [simp]:
  "node_data (core nd) = node_data nd" "node_events (core nd) = node_events nd"
  "node_queued (core nd) = node_queued nd" "ref_count (core nd) = ref_count nd"
  "node_token (core nd) = node_token nd" "node_poll_opts (core nd) = node_poll_opts nd"
  "node_poll_events (core nd) = node_poll_events nd" "node_interest (core nd) = node_interest nd"
  by (simp_all add: core_def node_token_def node_poll_opts_def node_poll_events_def node_interest_def)

lemma core_links [simp]:
  "core (nd\<lparr>next_readiness := p\<rparr>) = core nd" "core (nd\<lparr>next_all_nodes := x\<rparr>) = core nd"
  "core (nd\<lparr>prev_all_nodes := p\<rparr>) = core nd"
  by (simp_all add: core_def)

lemma link_free_intros [simp]:
  "link_free (\<lambda>x. x\<lparr>node_queued := v\<rparr>)"
  "link_free (\<lambda>x. x\<lparr>node_events := v\<rparr>)"
  "link_free (\<lambda>x. x\<lparr>node_data := g (node_data x)\<rparr>)"
  "link_free (\<lambda>x. x\<lparr>ref_count := ref_count x + 1\<rparr>)"
  "link_free (\<lambda>x. x\<lparr>ref_count := ref_count x - 1\<rparr>)"
  by (simp_all add: link_free_def core_def)

lemma all_nodes_ok_modify:
  assumes "all_nodes_ok q" and "node_heap q n = Some nd"
    and "next_all_nodes nd' = next_all_nodes nd" and "prev_all_nodes nd' = prev_all_nodes nd"
  shows "all_nodes_ok (q\<lparr>node_heap := (node_heap q)(n \<mapsto> nd')\<rparr>)"
  using assms dllseg_upd_same [where h = "node_heap q" and n = n and nd = nd and nd' = nd']
  by (auto simp: all_nodes_ok_def insert_absorb domI)

lemma lookup_rel:
  "queue_rel_at p ns q a \<Longrightarrow>
     rel_option (\<lambda>nd x. x = core nd) (ready_ref_as_ref q (Node n)) (aq_nodes a n)"
  by (cases "node_heap q n") (auto simp: queue_rel_at_def queue_rel_def ready_ref_as_ref_def)

lemma modify_rel:
  assumes rel: "queue_rel_at p ns q a" and f: "link_free f"
  shows "rel_option (queue_rel_at p ns) (ready_ref_modify f (Node n) q) (abs_modify f n a)"
proof (cases "node_heap q n")
  case None
  with rel show ?thesis
    by (auto simp: ready_ref_modify_def abs_modify_def queue_rel_at_def queue_rel_def)
next
  case (Some nd)
  let ?q' = "q\<lparr>node_heap := (node_heap q)(n \<mapsto> f nd)\<rparr>"
  have links: "next_all_nodes (f nd) = next_all_nodes nd" "prev_all_nodes (f nd) = prev_all_nodes nd"
    "next_readiness (f nd) = next_readiness nd" "core (f nd) = f (core nd)"
    using f by (auto simp: link_free_def)
  have "rlist (node_heap ?q') p ns = rlist (node_heap q) p ns" for p ns
    using rlist_upd_same [where h = "node_heap q" and n = n and nd = nd and nd' = "f nd"] Some links
    by simp
  then have "queue_rel_at p ns ?q' (a\<lparr>aq_nodes := (aq_nodes a)(n \<mapsto> f (core nd))\<rparr>)"
    using rel Some links all_nodes_ok_modify [of q n nd "f nd"]
    by (auto simp: queue_rel_at_def queue_rel_def fun_eq_iff)
  then show ?thesis
    using rel Some by (simp add: ready_ref_modify_def abs_modify_def queue_rel_at_def queue_rel_def)
qed

lemma prepend_rel:
  assumes rel: "queue_rel_at p ns q a" and n: "n \<notin> set (aq_ready a)" "n \<notin> set ns"
  shows "rel_option (rel_prod (=) (queue_rel_at p ns))
           (prepend_readiness_node q (Node n)) (abs_prepend a n)"
proof (cases "node_heap q n")
  case None
  with rel show ?thesis
    by (auto simp: prepend_readiness_node_def abs_prepend_def ready_ref_modify_def Let_def
        queue_rel_at_def queue_rel_def)
next
  case (Some nd)
  let ?nx = "norm_head (head_readiness q)"
  let ?h = "(node_heap q)(n \<mapsto> nd\<lparr>next_readiness := ?nx\<rparr>)"
  let ?q' = "q\<lparr>node_heap := ?h, head_readiness := Node n\<rparr>"
  have eq: "prepend_readiness_node q (Node n) = Some (aq_sleep a, ?q')"
    using rel Some by (simp add: prepend_readiness_node_def ready_ref_modify_def norm_head_def
        queue_rel_at_def queue_rel_def Let_def)
  have "all_nodes_ok ?q'"
    using rel all_nodes_ok_modify [of q n nd "nd\<lparr>next_readiness := ?nx\<rparr>"] Some
    by (simp add: queue_rel_at_def queue_rel_def all_nodes_ok_def)
  moreover have "rlist ?h ?nx (aq_ready a)" and "rlist ?h p ns"
    using rel n by (simp_all add: queue_rel_at_def queue_rel_def)
  ultimately have "queue_rel_at p ns ?q' (a\<lparr>aq_ready := n # aq_ready a, aq_sleep := False\<rparr>)"
    using rel Some by (auto simp: queue_rel_at_def queue_rel_def norm_head_def fun_eq_iff)
  then show ?thesis
    using eq rel Some by (auto simp: abs_prepend_def queue_rel_at_def queue_rel_def)
qed

subsection \<open>Adding and removing a node of the list of all nodes\<close>

text \<open>What the first half of \<open>unlink\<close> does to the heap: the successor's back link is redirected.\<close>

lemma unlink_successor:
  assumes seg: "dllseg (node_heap q) (Node n) (next_all_nodes nd) ys e None"
    and ok: "distinct ys"
  obtains h1 e1 where
    "(case next_all_nodes nd of None \<Rightarrow> Some q
      | Some m \<Rightarrow> ready_ref_modify (\<lambda>x. x\<lparr>prev_all_nodes := pv\<rparr>) (Node m) q) = Some (q\<lparr>node_heap := h1\<rparr>)"
    "dllseg h1 pv (next_all_nodes nd) ys e1 None"
    "map_option core \<circ> h1 = map_option core \<circ> node_heap q"
    "\<And>p ns. rlist h1 p ns = rlist (node_heap q) p ns"
    "\<And>k. k \<notin> set ys \<Longrightarrow> h1 k = node_heap q k"
proof (cases ys)
  case Nil
  then show thesis
    using seg that [of "node_heap q" pv] by auto
next
  case (Cons m ys')
  with seg obtain md where m: "next_all_nodes nd = Some m" "node_heap q m = Some md"
    by auto
  let ?h1 = "(node_heap q)(m \<mapsto> md\<lparr>prev_all_nodes := pv\<rparr>)"
  have "dllseg ?h1 pv (Some m) ys e None"
    using seg m Cons ok by auto
  moreover have "rlist ?h1 p ns = rlist (node_heap q) p ns" for p ns
    using m by (intro rlist_upd_same) auto
  moreover have "map_option core \<circ> ?h1 = map_option core \<circ> node_heap q"
    using m by (auto simp: fun_eq_iff)
  ultimately show thesis
    using that [of ?h1 e] m Cons by (simp add: ready_ref_modify_def)
qed

text \<open>What the second half does: the predecessor, or the head of the list, skips the node.\<close>

lemma unlink_predecessor:
  assumes xs: "dllseg h1 Null (head_all_nodes q) xs pv (Some n)" and ys: "dllseg h1 pv nx ys e1 None"
    and d: "distinct (xs @ n # ys)" and dm: "n \<in> dom h1"
  obtains h2 hn' e2 where
    "(case pv of
        Null \<Rightarrow> do {
          self \<leftarrow> head_all_nodes q;
          Some (q\<lparr>node_heap := h1, head_all_nodes := nx, node_heap := h1(self := None)\<rparr>) }
      | prev \<Rightarrow> do {
          pnd \<leftarrow> ready_ref_as_ref (q\<lparr>node_heap := h1\<rparr>) prev;
          self \<leftarrow> next_all_nodes pnd;
          q2 \<leftarrow> ready_ref_modify (\<lambda>x. x\<lparr>next_all_nodes := nx\<rparr>) prev (q\<lparr>node_heap := h1\<rparr>);
          Some (q2\<lparr>node_heap := (node_heap q2)(self := None)\<rparr>) })
     = Some (q\<lparr>node_heap := h2, head_all_nodes := hn'\<rparr>)"
    "dllseg h2 Null hn' (xs @ ys) e2 None"
    "map_option core \<circ> h2 = (map_option core \<circ> h1)(n := None)"
    "\<And>p ns. n \<notin> set ns \<Longrightarrow> rlist h2 p ns = rlist h1 p ns"
proof (cases xs rule: rev_cases)
  case Nil
  have "map_option core \<circ> h1(n := None) = (map_option core \<circ> h1)(n := None)"
    by (simp add: fun_eq_iff)
  then show thesis
    using Nil xs ys d that [of nx "h1(n := None)" e1] by auto
next
  case (snoc zs k)
  then have pv: "pv = Node k"
    using xs dllseg_snoc_prev by blast
  then obtain kd where k: "h1 k = Some kd" "next_all_nodes kd = Some n"
    using xs snoc by (auto simp: dllseg_append)
  let ?h2 = "(h1(k \<mapsto> kd\<lparr>next_all_nodes := nx\<rparr>))(n := None)"
  have "dllseg ?h2 Null (head_all_nodes q) xs pv nx"
    using dllseg_renext [of h1 Null "head_all_nodes q" zs k "Some n" kd nx] xs snoc pv k d by simp
  moreover have "dllseg ?h2 pv nx ys e1 None"
    using ys d snoc by simp
  ultimately have "dllseg ?h2 Null (head_all_nodes q) (xs @ ys) e1 None"
    by (auto simp: dllseg_append)
  moreover have "rlist ?h2 p ns = rlist h1 p ns" if "n \<notin> set ns" for p ns
    using that rlist_upd_same [of h1 k kd "kd\<lparr>next_all_nodes := nx\<rparr>" p ns] k by simp
  moreover have "map_option core \<circ> ?h2 = (map_option core \<circ> h1)(n := None)"
    using k by (auto simp: fun_eq_iff)
  ultimately show thesis
    using that [of "head_all_nodes q" ?h2 e1] pv k
    by (auto simp: ready_ref_as_ref_def ready_ref_modify_def)
qed

lemma dllseg_cong:
  "(\<And>k. k \<in> set ns \<Longrightarrow> h k = h' k) \<Longrightarrow> dllseg h pv cur ns pv' cur' = dllseg h' pv cur ns pv' cur'"
  by (induction ns arbitrary: pv cur) auto

lemma all_nodes_cut:
  assumes ok: "all_nodes_ok q" and nd: "node_heap q n = Some nd"
  obtains xs ys pv e where "distinct (xs @ n # ys)" "set (xs @ n # ys) = dom (node_heap q)" "\<forall>n \<in> dom (node_heap q). n < next_addr q"
    "dllseg (node_heap q) Null (head_all_nodes q) xs pv (Some n)" "prev_all_nodes nd = pv"
    "dllseg (node_heap q) (Node n) (next_all_nodes nd) ys e None"
proof -
  obtain as e where as: "dllseg (node_heap q) Null (head_all_nodes q) as e None" "distinct as" "set as = dom (node_heap q)"
    and fresh: "\<forall>n \<in> dom (node_heap q). n < next_addr q"
    using ok by (auto simp: all_nodes_ok_def)
  obtain xs ys where split: "as = xs @ n # ys" using as(3) nd by (metis domI split_list)
  obtain pv where "dllseg (node_heap q) Null (head_all_nodes q) xs pv (Some n)" "prev_all_nodes nd = pv"
    "dllseg (node_heap q) (Node n) (next_all_nodes nd) ys e None"
    using as(1) nd by (auto simp: split dllseg_append)
  then show thesis using that as(2,3) fresh by (simp add: split)
qed

lemma unlink_node_eq:
  assumes nd: "node_heap q n = Some nd" and pv: "prev_all_nodes nd = pv"
    and m1: "(case next_all_nodes nd of None \<Rightarrow> Some q
      | Some m \<Rightarrow> ready_ref_modify (\<lambda>x. x\<lparr>prev_all_nodes := pv\<rparr>) (Node m) q) = Some (q\<lparr>node_heap := h1\<rparr>)"
  shows "unlink_node q (Node n) = (case pv of
        Null \<Rightarrow> do {
          self \<leftarrow> head_all_nodes q;
          Some (q\<lparr>node_heap := h1, head_all_nodes := next_all_nodes nd, node_heap := h1(self := None)\<rparr>) }
      | prev \<Rightarrow> do {
          pnd \<leftarrow> ready_ref_as_ref (q\<lparr>node_heap := h1\<rparr>) prev;
          self \<leftarrow> next_all_nodes pnd;
          q2 \<leftarrow> ready_ref_modify (\<lambda>x. x\<lparr>next_all_nodes := next_all_nodes nd\<rparr>) prev (q\<lparr>node_heap := h1\<rparr>);
          Some (q2\<lparr>node_heap := (node_heap q2)(self := None)\<rparr>) })"
  using nd by (simp add: unlink_node_def ready_ref_as_ref_def m1 [folded pv] pv split: node_ptr.split)

lemma unlink_node_ok:
  assumes ok: "all_nodes_ok q" and nd: "node_heap q n = Some nd"
  obtains h hn where "unlink_node q (Node n) = Some (q\<lparr>node_heap := h, head_all_nodes := hn\<rparr>)"
    "all_nodes_ok (q\<lparr>node_heap := h, head_all_nodes := hn\<rparr>)"
    "map_option core \<circ> h = (map_option core \<circ> node_heap q)(n := None)"
    "\<And>p ns. n \<notin> set ns \<Longrightarrow> rlist h p ns = rlist (node_heap q) p ns"
proof -
  let ?h = "node_heap q"
  obtain xs ys pv e where as: "distinct (xs @ n # ys)" "set (xs @ n # ys) = dom ?h" and fresh: "\<forall>n \<in> dom ?h. n < next_addr q"
    and xs: "dllseg ?h Null (head_all_nodes q) xs pv (Some n)" and pv: "prev_all_nodes nd = pv"
    and ys: "dllseg ?h (Node n) (next_all_nodes nd) ys e None"
    by (rule all_nodes_cut [OF ok nd])
  from as(1) have dy: "distinct ys" by simp
  obtain h1 e1 where
    m1: "(case next_all_nodes nd of None \<Rightarrow> Some q
      | Some m \<Rightarrow> ready_ref_modify (\<lambda>x. x\<lparr>prev_all_nodes := pv\<rparr>) (Node m) q) = Some (q\<lparr>node_heap := h1\<rparr>)"
    and ys1: "dllseg h1 pv (next_all_nodes nd) ys e1 None"
    and core1: "map_option core \<circ> h1 = map_option core \<circ> ?h"
    and rl1: "\<And>p ns. rlist h1 p ns = rlist ?h p ns"
    and same1: "\<And>k. k \<notin> set ys \<Longrightarrow> h1 k = ?h k"
    using unlink_successor [OF ys dy] by metis
  have xs1: "dllseg h1 Null (head_all_nodes q) xs pv (Some n)"
  proof -
    have "h1 k = ?h k" if "k \<in> set xs" for k
      using that same1 as(1) by auto
    then show ?thesis
      using xs dllseg_cong [of xs h1 ?h] by simp
  qed
  have n1: "n \<in> dom h1"
    using same1 nd as(1) by auto
  show thesis
  proof (rule unlink_predecessor [OF xs1 ys1 as(1) n1])
    fix h2 hn e2
    assume m2: "(case pv of
        Null \<Rightarrow> do {
          self \<leftarrow> head_all_nodes q;
          Some (q\<lparr>node_heap := h1, head_all_nodes := next_all_nodes nd, node_heap := h1(self := None)\<rparr>) }
      | prev \<Rightarrow> do {
          pnd \<leftarrow> ready_ref_as_ref (q\<lparr>node_heap := h1\<rparr>) prev;
          self \<leftarrow> next_all_nodes pnd;
          q2 \<leftarrow> ready_ref_modify (\<lambda>x. x\<lparr>next_all_nodes := next_all_nodes nd\<rparr>) prev (q\<lparr>node_heap := h1\<rparr>);
          Some (q2\<lparr>node_heap := (node_heap q2)(self := None)\<rparr>) })
        = Some (q\<lparr>node_heap := h2, head_all_nodes := hn\<rparr>)"
      and seg2: "dllseg h2 Null hn (xs @ ys) e2 None"
      and core2: "map_option core \<circ> h2 = (map_option core \<circ> h1)(n := None)"
      and rl2: "\<And>p ns. n \<notin> set ns \<Longrightarrow> rlist h2 p ns = rlist h1 p ns"
    have "dom h2 = dom (map_option core \<circ> h2)" by auto
    also have "\<dots> = dom ?h - {n}" unfolding core2 core1 by auto
    finally have "all_nodes_ok (q\<lparr>node_heap := h2, head_all_nodes := hn\<rparr>)"
      using seg2 as fresh by (auto simp: all_nodes_ok_def intro!: exI [of _ "xs @ ys"])
    then show thesis
      using that [of hn h2] m2 unlink_node_eq [OF nd pv m1] core1 core2 rl1 rl2 by simp
  qed
qed

lemma unlink_rel:
  assumes rel: "queue_rel_at p ns q a" and n: "n \<notin> set (aq_ready a)" "n \<notin> set ns"
  shows "rel_option (queue_rel_at p ns) (unlink_node q (Node n)) (abs_remove a n)"
proof (cases "node_heap q n")
  case None
  with rel show ?thesis
    by (auto simp: unlink_node_def abs_remove_def ready_ref_as_ref_def queue_rel_at_def queue_rel_def)
next
  case (Some nd)
  have ok: "all_nodes_ok q" using rel by (simp add: queue_rel_at_def queue_rel_def)
  show ?thesis
  proof (rule unlink_node_ok [OF ok Some])
    fix h hn
    assume eq: "unlink_node q (Node n) = Some (q\<lparr>node_heap := h, head_all_nodes := hn\<rparr>)"
      and "all_nodes_ok (q\<lparr>node_heap := h, head_all_nodes := hn\<rparr>)"
      and "map_option core \<circ> h = (map_option core \<circ> node_heap q)(n := None)"
      and "\<And>p ns. n \<notin> set ns \<Longrightarrow> rlist h p ns = rlist (node_heap q) p ns"
    then have "queue_rel_at p ns (q\<lparr>node_heap := h, head_all_nodes := hn\<rparr>)
        (a\<lparr>aq_nodes := (aq_nodes a)(n := None)\<rparr>)"
      using rel n by (simp add: queue_rel_at_def queue_rel_def)
    then show ?thesis
      using eq rel Some by (auto simp: abs_remove_def queue_rel_at_def queue_rel_def)
  qed
qed

lemma new_node_rel:
  assumes rel: "queue_rel q a"
  obtains q' where "new_readiness_node q t i pr rc = Some (Node (aq_fresh a), q')"
    and "queue_rel q' (snd (abs_new_node a t i pr rc))"
proof -
  let ?n = "next_addr q"
  let ?nd = "(readiness_node_new t i pr rc)\<lparr>next_all_nodes := head_all_nodes q\<rparr>"
  obtain as e where as: "dllseg (node_heap q) Null (head_all_nodes q) as e None" "distinct as"
      "set as = dom (node_heap q)" and fresh: "\<forall>n \<in> dom (node_heap q). n < ?n"
    using rel by (auto simp: queue_rel_def all_nodes_ok_def)
  have new: "?n \<notin> set as" "?n \<notin> set (aq_ready a)"
    using as(3) fresh rel rlist_dom by (auto simp: queue_rel_def subset_iff) blast+
  have core: "core ?nd = readiness_node_new t i pr rc"
    by (simp add: core_def readiness_node_new_def)
  show thesis
  proof (cases as)
    case Nil
    let ?h = "(node_heap q)(?n \<mapsto> ?nd)"
    let ?q' = "q\<lparr>node_heap := ?h, next_addr := Suc ?n, head_all_nodes := Some ?n\<rparr>"
    have hd: "head_all_nodes q = None" and dom: "dom (node_heap q) = {}"
      using as Nil by auto
    have "map_option core \<circ> ?h = (map_option core \<circ> node_heap q)(?n \<mapsto> core ?nd)"
      by (auto simp: fun_eq_iff)
    moreover have "all_nodes_ok ?q'"
      using hd dom unfolding all_nodes_ok_def
      by (auto intro!: exI [of _ "[?n]"] simp: readiness_node_new_def)
    ultimately show thesis
      using that [of ?q'] hd rel new core
      by (simp add: new_readiness_node_def Let_def queue_rel_def abs_new_node_def)
  next
    case (Cons m ms)
    with as obtain md where m: "head_all_nodes q = Some m" "node_heap q m = Some md"
      by auto
    let ?h = "(node_heap q)(?n \<mapsto> ?nd, m \<mapsto> md\<lparr>prev_all_nodes := Node ?n\<rparr>)"
    have mn: "m \<noteq> ?n" using new Cons by auto
    have seg: "dllseg ?h Null (Some ?n) (?n # as) e None"
      using as m Cons new by (auto simp: readiness_node_new_def)
    have rl: "rlist ?h p ns = rlist (node_heap q) p ns" if "?n \<notin> set ns" for p ns
      using that m mn rlist_upd_same [of "(node_heap q)(?n \<mapsto> ?nd)" m md "md\<lparr>prev_all_nodes := Node ?n\<rparr>" p ns]
      by simp
    have "map_option core \<circ> ?h = (map_option core \<circ> node_heap q)(?n \<mapsto> core ?nd)"
      using m mn by (auto simp: fun_eq_iff)
    moreover have "all_nodes_ok (q\<lparr>node_heap := ?h, next_addr := Suc ?n, head_all_nodes := Some ?n\<rparr>)"
      using seg as new m fresh unfolding all_nodes_ok_def
      by (auto intro!: exI [of _ "?n # as"] exI [of _ e] less_SucI simp del: dllseg.simps)
    ultimately show thesis
      using that [of "q\<lparr>node_heap := ?h, next_addr := Suc ?n, head_all_nodes := Some ?n\<rparr>"]
        rel new rl m mn core
      by (simp add: new_readiness_node_def Let_def ready_ref_modify_def queue_rel_def abs_new_node_def)
  qed
qed

subsection \<open>The poll loop\<close>

lemma rel_option_bindI:
  assumes "rel_option R x y"
    and "\<And>u v. x = Some u \<Longrightarrow> y = Some v \<Longrightarrow> R u v \<Longrightarrow> rel_option S (f u) (g v)"
  shows "rel_option S (Option.bind x f) (Option.bind y g)"
  using assms by (cases x; cases y) auto

lemma poll_node_rel:
  assumes rel: "queue_rel_at p ns q a" and n: "n \<notin> set (aq_ready a)" "n \<notin> set ns"
  shows "rel_option (rel_prod (queue_rel_at p ns) (=))
           (queue_poll_node push q (Node n) dst) (abs_poll_node push a n dst)"
  unfolding queue_poll_node_def abs_poll_node_def
proof (rule rel_option_bindI [OF lookup_rel [OF rel]], goal_cases)
  case (1 nd x)
  let ?evts = "node_poll_events nd" and ?opts = "node_poll_opts nd"
  let ?step = "if event_is_drop ?evts then Some q
      else if pollopt_is_edge ?opts \<or> event_is_empty ?evts then
        ready_ref_modify (\<lambda>x. x\<lparr>node_queued := 0\<rparr>) (Node n) q
      else do {
        (needs_wakeup, q') \<leftarrow> prepend_readiness_node q (Node n);
        _ \<leftarrow> debug_assert (\<not> needs_wakeup);
        Some q' }"
  let ?astep = "if event_is_drop ?evts then Some a
      else if pollopt_is_edge ?opts \<or> event_is_empty ?evts then
        abs_modify (\<lambda>x. x\<lparr>node_queued := 0\<rparr>) n a
      else do {
        (needs_wakeup, a') \<leftarrow> abs_prepend a n;
        _ \<leftarrow> debug_assert (\<not> needs_wakeup);
        Some a' }"
  have step: "rel_option (\<lambda>q1 a1. queue_rel_at p ns q1 a1 \<and> (event_is_drop ?evts \<longrightarrow> a1 = a)) ?step ?astep"
    using rel modify_rel [OF rel, of "\<lambda>x. x\<lparr>node_queued := 0\<rparr>" n]
    by (auto intro!: rel_option_bindI [OF prepend_rel [OF rel n]] intro: option.rel_mono_strong
        simp: debug_assert_def)
  show ?case
    unfolding Let_def 1(3) core_fields
  proof (rule rel_option_bindI [OF step], goal_cases)
    case (1 q1 a1)
    then have rel1: "queue_rel_at p ns q1 a1" and drop: "event_is_drop ?evts \<Longrightarrow> a1 = a"
      by simp_all
    show ?case
    proof (cases "event_is_drop ?evts")
      case True
      then show ?thesis
        using drop n rel1 by (auto intro!: rel_option_bindI [OF unlink_rel])
    next
      case False
      then show ?thesis
        by (auto intro!: rel_option_bindI [OF lookup_rel [OF rel1]]
            rel_option_bindI [OF modify_rel [OF rel1]] simp: rel1)
    qed
  qed
qed

lemma abs_poll_node_ready:
  "abs_poll_node push a n dst = Some (a', dst') \<Longrightarrow> set (aq_ready a') \<subseteq> insert n (set (aq_ready a))"
  by (auto simp: abs_poll_node_def abs_modify_def abs_prepend_def abs_remove_def Let_def
      split: if_splits bind_splits)

lemma poll_loop_rel:
  assumes "queue_rel_at p ns q a" and "distinct ns" and "set ns \<inter> set (aq_ready a) = {}"
  shows "rel_option (rel_prod queue_rel (=))
           (queue_poll_loop push q p dst) (abs_poll_loop push a ns dst)"
  using assms
proof (induction ns arbitrary: p q a dst)
  case Nil
  then show ?case
    by (subst queue_poll_loop.simps) (simp add: queue_rel_at_def ready_list_next_def)
next
  case (Cons n ns)
  then obtain nd where p: "p = Node n" and nd: "node_heap q n = Some nd"
    and tl: "rlist (node_heap q) (next_readiness nd) ns"
    by (auto simp: queue_rel_at_def)
  let ?q1 = "q\<lparr>node_heap := (node_heap q)(n \<mapsto> nd\<lparr>next_readiness := Null\<rparr>)\<rparr>"
  have next_eq: "ready_list_next q p = Some (Some (Node n, next_readiness nd), ?q1)"
    using p nd by (simp add: ready_list_next_def ready_ref_as_ref_def ready_ref_modify_def)
  have n: "n \<notin> set (aq_ready a)" "n \<notin> set ns" using Cons.prems by auto
  have "all_nodes_ok ?q1"
    using Cons.prems nd all_nodes_ok_modify [of q n nd "nd\<lparr>next_readiness := Null\<rparr>"]
    by (simp add: queue_rel_at_def queue_rel_def)
  then have rel1: "queue_rel_at (next_readiness nd) ns ?q1 a"
    using Cons.prems tl n nd by (auto simp: queue_rel_at_def queue_rel_def fun_eq_iff)
  show ?case
    unfolding abs_poll_loop.simps
    apply (subst queue_poll_loop.simps)
    apply (simp add: next_eq)
    apply (rule rel_option_bindI [OF poll_node_rel [OF rel1 n]])
    using Cons.IH Cons.prems abs_poll_node_ready by fastforce
qed

lemma queue_poll_rel:
  assumes "queue_rel q a" and "distinct (aq_ready a)"
  shows "rel_option (rel_prod queue_rel (=)) (queue_poll push q dst) (abs_poll push a dst)"
proof -
  have "queue_rel_at (norm_head (head_readiness q)) (aq_ready a)
      (q\<lparr>head_readiness := Null\<rparr>) (a\<lparr>aq_ready := [], aq_sleep := False\<rparr>)"
    using assms by (auto simp: queue_rel_at_def queue_rel_def norm_head_def all_nodes_ok_def)
  then show ?thesis
    using assms poll_loop_rel by (fastforce simp: queue_poll_def take_ready_def abs_poll_def norm_head_def)
qed

section \<open>The invariant of the queue\<close>

text \<open>A node's queued flag says whether it is in the ready list; the drop flag is set exactly when no
  handle refers to the node any more, and such a node is in the ready list, so that the next poll
  frees it.\<close>

definition node_ok :: "nat list \<Rightarrow> nat \<Rightarrow> readiness_node \<Rightarrow> bool" where
  "node_ok rs n nd \<longleftrightarrow>
     node_queued nd = (if n \<in> set rs then NODE_QUEUED_FLAG else 0) \<and>
     (event_is_drop (event_from_usize (node_events nd)) \<longleftrightarrow> ref_count nd = 0) \<and>
     (ref_count nd = 0 \<longrightarrow> n \<in> set rs)"

definition abs_wf :: "'w abs_queue \<Rightarrow> bool" where
  "abs_wf a \<longleftrightarrow> distinct (aq_ready a) \<and> set (aq_ready a) \<subseteq> dom (aq_nodes a) \<and>
     (aq_sleep a \<longrightarrow> aq_ready a = []) \<and>
     (\<forall>n nd. aq_nodes a n = Some nd \<longrightarrow> node_ok (aq_ready a) n nd \<and> n < aq_fresh a)"

definition queue_wf :: "'w readiness_queue \<Rightarrow> bool" where
  "queue_wf q \<longleftrightarrow> (\<exists>a. queue_rel q a \<and> abs_wf a)"

text \<open>A handle refers to a live node of this queue.\<close>

definition handle_ok :: "'w readiness_queue \<Rightarrow> registration_inner \<Rightarrow> bool" where
  "handle_ok q ri \<longleftrightarrow> ri_queue ri = queue_id q \<and>
     (\<exists>n nd. ri_node ri = Node n \<and> node_heap q n = Some nd \<and> ref_count nd \<noteq> 0)"

lemma NODE_QUEUED_FLAG_nz [simp]: "NODE_QUEUED_FLAG \<noteq> 0"
  by (simp add: NODE_QUEUED_FLAG_def)

lemma queue_wfI: "queue_rel q a \<Longrightarrow> abs_wf a \<Longrightarrow> queue_wf q"
  by (auto simp: queue_wf_def)

lemma handle_ok_abs:
  assumes "queue_rel q a" "handle_ok q ri"
  obtains n nd where "ri_node ri = Node n" "ri_queue ri = aq_id a" "aq_nodes a n = Some nd"
    "ref_count nd \<noteq> 0"
proof -
  obtain n nd where n: "ri_node ri = Node n" "node_heap q n = Some nd" "ref_count nd \<noteq> 0"
    and id: "ri_queue ri = queue_id q"
    using assms(2) by (auto simp: handle_ok_def)
  have "aq_nodes a n = Some (core nd)" "aq_id a = queue_id q"
    using assms(1) n(2) by (simp_all add: queue_rel_def)
  with n id show thesis by (intro that [of n "core nd"]) simp_all
qed

lemma abs_wfD:
  assumes "abs_wf a"
  shows "distinct (aq_ready a)" and "set (aq_ready a) \<subseteq> dom (aq_nodes a)"
    and "aq_sleep a \<Longrightarrow> aq_ready a = []"
    and "aq_nodes a n = Some nd \<Longrightarrow> node_ok (aq_ready a) n nd"
    and "aq_nodes a n = Some nd \<Longrightarrow> n < aq_fresh a"
  using assms unfolding abs_wf_def by blast+

lemma abs_wfI:
  assumes "distinct (aq_ready a)" and "set (aq_ready a) \<subseteq> dom (aq_nodes a)"
    and "aq_sleep a \<Longrightarrow> aq_ready a = []"
    and "\<And>n nd. aq_nodes a n = Some nd \<Longrightarrow> node_ok (aq_ready a) n nd \<and> n < aq_fresh a"
  shows "abs_wf a"
  using assms unfolding abs_wf_def by blast

lemma abs_wf_queued_iff:
  "abs_wf a \<Longrightarrow> aq_nodes a n = Some nd \<Longrightarrow> node_queued nd = 0 \<longleftrightarrow> n \<notin> set (aq_ready a)"
  using abs_wfD(4) [of a n nd] by (simp add: node_ok_def)

subsection \<open>What a poll does, in closed form\<close>

definition stays_queued :: "readiness_node \<Rightarrow> bool" where
  "stays_queued nd \<longleftrightarrow> \<not> event_is_drop (node_poll_events nd) \<and>
     \<not> pollopt_is_edge (node_poll_opts nd) \<and> \<not> event_is_empty (node_poll_events nd)"

definition delivers :: "readiness_node \<Rightarrow> bool" where
  "delivers nd \<longleftrightarrow> \<not> event_is_drop (node_poll_events nd) \<and> \<not> ready_is_none (node_poll_events nd)"

definition delivered_event :: "readiness_node \<Rightarrow> event" where
  "delivered_event nd = event_new (node_poll_events nd) (node_token nd)"

definition node_after_poll :: "readiness_node \<Rightarrow> readiness_node option" where
  "node_after_poll nd =
     (if event_is_drop (node_poll_events nd) then None
      else Some (let nd1 = (if stays_queued nd then nd else nd\<lparr>node_queued := 0\<rparr>)
                 in if delivers nd \<and> pollopt_is_oneshot (node_poll_opts nd)
                    then nd1\<lparr>node_data := registration_data_disable (node_data nd1)\<rparr> else nd1))"

text \<open>The nodes, the ready list and the delivered events after the nodes \<open>ns\<close> have been worked through.\<close>

definition nodes_after :: "(nat \<rightharpoonup> readiness_node) \<Rightarrow> nat list \<Rightarrow> (nat \<rightharpoonup> readiness_node)" where
  "nodes_after m ns = (\<lambda>n. if n \<in> set ns then node_after_poll (the (m n)) else m n)"

definition requeued :: "(nat \<rightharpoonup> readiness_node) \<Rightarrow> nat list \<Rightarrow> nat list" where
  "requeued m ns = rev (filter (\<lambda>n. stays_queued (the (m n))) ns)"

definition delivered :: "(nat \<rightharpoonup> readiness_node) \<Rightarrow> nat list \<Rightarrow> event list" where
  "delivered m ns = map (\<lambda>n. delivered_event (the (m n))) (filter (\<lambda>n. delivers (the (m n))) ns)"

lemma after_Nil [simp]: "nodes_after m [] = m" "requeued m [] = []" "delivered m [] = []"
  by (simp_all add: nodes_after_def requeued_def delivered_def)

lemma filter_upd_notin:
  "n \<notin> set ns \<Longrightarrow> filter (\<lambda>k. P ((m(n := x)) k)) ns = filter (\<lambda>k. P (m k)) ns"
  by (induction ns) auto

lemma map_upd_notin: "n \<notin> set ns \<Longrightarrow> map (\<lambda>k. f ((m(n := x)) k)) ns = map (\<lambda>k. f (m k)) ns"
  by (induction ns) auto

lemma after_Cons:
  assumes "m n = Some nd" and "n \<notin> set ns"
  shows "nodes_after (m(n := node_after_poll nd)) ns = nodes_after m (n # ns)"
    and "requeued (m(n := node_after_poll nd)) ns @ (if stays_queued nd then n # rs else rs) =
      requeued m (n # ns) @ rs"
    and "delivered (m(n := node_after_poll nd)) ns = delivered m ns"
    and "delivered m (n # ns) =
      (if delivers nd then [delivered_event nd] else []) @ delivered m ns"
  using assms filter_upd_notin [of n ns "\<lambda>k. stays_queued (the k)" m "node_after_poll nd"]
    filter_upd_notin [of n ns "\<lambda>k. delivers (the k)" m "node_after_poll nd"]
    map_upd_notin [of n "filter (\<lambda>k. delivers (the (m k))) ns" "\<lambda>k. delivered_event (the k)" m
      "node_after_poll nd"]
  by (simp_all add: nodes_after_def requeued_def delivered_def fun_eq_iff del: fun_upd_apply)
    (auto simp: fun_upd_apply)

definition polled_events :: "'w abs_queue \<Rightarrow> event list" where
  "polled_events a = delivered (aq_nodes a) (aq_ready a)"

definition abs_after_poll :: "'w abs_queue \<Rightarrow> 'w abs_queue" where
  "abs_after_poll a = a\<lparr>aq_ready := requeued (aq_nodes a) (aq_ready a), aq_sleep := False,
     aq_nodes := nodes_after (aq_nodes a) (aq_ready a)\<rparr>"

lemma abs_poll_node_eq:
  assumes "aq_nodes a n = Some nd" and "\<not> aq_sleep a"
  shows "abs_poll_node push a n dst =
     Some (a\<lparr>aq_ready := (if stays_queued nd then n # aq_ready a else aq_ready a),
             aq_nodes := (aq_nodes a)(n := node_after_poll nd)\<rparr>,
           if delivers nd then push dst (delivered_event nd) else dst)"
proof -
  let ?e = "node_poll_events nd"
  have none: "event_is_empty ?e \<Longrightarrow> ready_is_none ?e"
    by (simp add: event_is_empty_iff ready_is_none_def rd.eq_iff rd.flags_simps)
  consider "event_is_drop ?e" | "\<not> event_is_drop ?e" "stays_queued nd"
    | "\<not> event_is_drop ?e" "\<not> stays_queued nd"
    by blast
  then show ?thesis
  proof cases
    case 1
    then show ?thesis
      using assms by (auto simp: abs_poll_node_def abs_remove_def stays_queued_def delivers_def
          node_after_poll_def Let_def)
  next
    case 2
    then show ?thesis
      using assms none
      by (cases a) (auto simp: abs_poll_node_def abs_modify_def abs_prepend_def stays_queued_def
          delivers_def node_after_poll_def delivered_event_def debug_assert_def Let_def map_upd_triv)
  next
    case 3
    then show ?thesis
      using assms none
      by (auto simp: abs_poll_node_def abs_modify_def stays_queued_def delivers_def node_token_def
          node_after_poll_def delivered_event_def Let_def)
  qed
qed

lemma abs_poll_loop_eq:
  assumes "distinct ns" and "set ns \<subseteq> dom (aq_nodes a)" and "\<not> aq_sleep a"
  shows "abs_poll_loop push a ns dst =
     Some (a\<lparr>aq_ready := requeued (aq_nodes a) ns @ aq_ready a,
             aq_nodes := nodes_after (aq_nodes a) ns\<rparr>,
           foldl push dst (delivered (aq_nodes a) ns))"
  using assms
proof (induction ns arbitrary: a dst)
  case Nil
  then show ?case by simp
next
  case (Cons n ns)
  then obtain nd where nd: "aq_nodes a n = Some nd" and n: "n \<notin> set ns" by auto
  let ?a = "a\<lparr>aq_ready := (if stays_queued nd then n # aq_ready a else aq_ready a),
             aq_nodes := (aq_nodes a)(n := node_after_poll nd)\<rparr>"
  have "set ns \<subseteq> dom (aq_nodes ?a)" using Cons.prems by auto
  with Cons have IH: "abs_poll_loop push ?a ns dst = Some (?a
      \<lparr>aq_ready := requeued (aq_nodes ?a) ns @ aq_ready ?a, aq_nodes := nodes_after (aq_nodes ?a) ns\<rparr>,
      foldl push dst (delivered (aq_nodes ?a) ns))" for dst
    by simp
  show ?case
    unfolding abs_poll_loop.simps abs_poll_node_eq [OF nd Cons.prems(3)]
    using after_Cons [where m = "aq_nodes a" and n = n and nd = nd and ns = ns] nd n by (simp add: IH)
qed

lemma abs_poll_eq:
  assumes "abs_wf a"
  shows "abs_poll push a dst = Some (abs_after_poll a, foldl push dst (polled_events a))"
  using abs_wfD(1,2) [OF assms]
    abs_poll_loop_eq [of "aq_ready a" "a\<lparr>aq_ready := [], aq_sleep := False\<rparr>" push dst]
  by (simp add: abs_poll_def abs_after_poll_def polled_events_def)

subsection \<open>Simulation of the handle operations\<close>

definition queued_sound :: "'w abs_queue \<Rightarrow> bool" where
  "queued_sound a \<longleftrightarrow> (\<forall>n nd. aq_nodes a n = Some nd \<longrightarrow> node_queued nd = 0 \<longrightarrow> n \<notin> set (aq_ready a))"

lemma abs_wf_queued_sound: "abs_wf a \<Longrightarrow> queued_sound a"
  using abs_wf_queued_iff unfolding queued_sound_def by blast

lemma queued_sound_modify:
  assumes "queued_sound a" "abs_modify f n a = Some a1" "\<And>x. node_queued (f x) = node_queued x"
  shows "queued_sound a1"
proof -
  obtain nd where nd: "aq_nodes a n = Some nd" and a1: "a1 = a\<lparr>aq_nodes := (aq_nodes a)(n \<mapsto> f nd)\<rparr>"
    using assms(2) by (auto simp: abs_modify_def)
  show ?thesis
    unfolding queued_sound_def a1 using assms(1,3) nd
    by (auto simp: queued_sound_def)
qed

lemmas rel_at_Nil = queue_rel_at_Nil [symmetric]

lemma queue_for_processing_rel:
  assumes rel: "queue_rel q a" and q: "queued_sound a" and ri: "ri_node ri = Node n"
  shows "rel_option (rel_prod (=) queue_rel) (queue_for_processing q ri) (abs_queue_for_processing a n)"
  unfolding queue_for_processing_def abs_queue_for_processing_def ri
proof (rule rel_option_bindI [OF lookup_rel [OF rel [unfolded rel_at_Nil]]], goal_cases)
  case (1 nd x)
  have n: "n \<notin> set (aq_ready a)" if "node_queued nd = 0"
    using q 1 that unfolding queued_sound_def by (metis core_fields(3))
  show ?case
  proof (cases "node_queued nd = 0")
    case True
    let ?f = "\<lambda>x. x\<lparr>node_queued := NODE_QUEUED_FLAG\<rparr>"
    have "rel_option (rel_prod (=) (queue_rel_at Null []))
        (Option.bind (ready_ref_modify ?f (Node n) q) (\<lambda>q1. prepend_readiness_node q1 (Node n)))
        (Option.bind (abs_modify ?f n a) (\<lambda>a1. abs_prepend a1 n))"
    proof (rule rel_option_bindI [OF modify_rel [OF rel [unfolded rel_at_Nil]]], goal_cases)
      case (2 u v)
      then have "n \<notin> set (aq_ready v)"
        using n [OF True] by (auto simp: abs_modify_def)
      with 2 show ?case by (intro prepend_rel) auto
    qed simp
    then show ?thesis
      using True 1(3) by (simp add: queue_rel_at_Nil [abs_def])
  next
    case False
    then show ?thesis using 1(3) rel by simp
  qed
qed

lemma set_readiness_rel:
  assumes rel: "queue_rel q a" and q: "queued_sound a" and ri: "ri_node ri = Node n"
  shows "rel_option (rel_prod (=) queue_rel)
           (inner_set_readiness wake q ri rdy) (abs_set_readiness wake a n rdy)"
  unfolding inner_set_readiness_def abs_set_readiness_def ri
proof (rule rel_option_bindI [OF modify_rel [OF rel [unfolded rel_at_Nil]]], goal_cases)
  case (2 q1 a1)
  then have rel1: "queue_rel q1 a1" and q1: "queued_sound a1"
    using queued_sound_modify [OF q] by (auto simp: queue_rel_at_Nil)
  have wake: "rel_prod (=) queue_rel (queue_wakeup wake q2) (abs_wakeup wake a2)"
    if "queue_rel q2 a2" for q2 a2
    using that by (auto simp: queue_wakeup_def abs_wakeup_def queue_rel_def all_nodes_ok_def
        Let_def split: prod.split)
  show ?case
    using rel1 wake
    by (auto intro!: rel_option_bindI [OF queue_for_processing_rel [OF rel1 q1 ri]])
qed simp

lemma update_rel:
  assumes rel: "queue_rel q a" and q: "queued_sound a" and ri: "ri_node ri = Node n"
    and id: "ri_queue ri = aq_id a"
  shows "rel_option (rel_prod (=) queue_rel) (inner_update q ri t i pr) (abs_update a n t i pr)"
proof -
  let ?f = "\<lambda>x. x\<lparr>node_data := registration_data_update t i pr (node_data x)\<rparr>"
  have "queue_identical (ri_queue ri) q"
    using id rel by (simp add: queue_identical_def queue_rel_def)
  then have unfold: "inner_update q ri t i pr = do {
        q1 \<leftarrow> ready_ref_modify ?f (Node n) q;
        nd \<leftarrow> ready_ref_as_ref q1 (Node n);
        if \<not> event_is_empty (event_from_usize (node_events nd)) then do {
          (needs_wakeup, q2) \<leftarrow> queue_for_processing q1 ri;
          _ \<leftarrow> debug_assert (\<not> needs_wakeup);
          Some (Inr (), q2) }
        else Some (Inr (), q1) }"
    by (simp add: inner_update_def inner_readiness_def ri map_option_bind split: bind_split)
  show ?thesis
    unfolding unfold abs_update_def
  proof (rule rel_option_bindI [OF modify_rel [OF rel [unfolded rel_at_Nil]]], goal_cases)
    case (2 q1 a1)
    then have rel1: "queue_rel q1 a1" and q1: "queued_sound a1"
      using queued_sound_modify [OF q] by (auto simp: queue_rel_at_Nil)
    show ?case
      using rel1
      by (auto intro!: rel_option_bindI [OF lookup_rel [OF rel1 [unfolded rel_at_Nil]]]
          rel_option_bindI [OF queue_for_processing_rel [OF rel1 q1 ri]] simp: debug_assert_def)
  qed simp
qed

lemma clone_rel:
  assumes rel: "queue_rel q a" and ri: "ri_node ri = Node n"
  shows "rel_option (\<lambda>(ri', q') a'. ri' = ri \<and> queue_rel q' a') (inner_clone q ri) (abs_clone a n)"
  unfolding inner_clone_def abs_clone_def ri Let_def
  using rel
  by (auto intro!: rel_option_bindI [OF lookup_rel [OF rel [unfolded rel_at_Nil]]]
      rel_option_bindI [OF modify_rel [OF rel [unfolded rel_at_Nil]]] simp: queue_rel_at_Nil)

lemma drop_rel:
  assumes rel: "queue_rel q a" and q: "queued_sound a" and ri: "ri_node ri = Node n"
  shows "rel_option queue_rel (inner_drop wake q ri) (abs_drop wake a n)"
  unfolding inner_drop_def abs_drop_def ri Let_def
proof (rule rel_option_bindI [OF lookup_rel [OF rel [unfolded rel_at_Nil]]], goal_cases)
  case (1 nd x)
  show ?case
  proof (rule rel_option_bindI [OF modify_rel [OF rel [unfolded rel_at_Nil]]], goal_cases)
    case (2 q1 a1)
    then have rel1: "queue_rel q1 a1" and q1: "queued_sound a1"
      using queued_sound_modify [OF q] by (auto simp: queue_rel_at_Nil)
    show ?case
      using rel1 1(3) set_readiness_rel [OF rel1 q1 ri, of wake ready_drop]
      by (cases "abs_set_readiness wake a1 n ready_drop"; cases "inner_set_readiness wake q1 ri ready_drop") auto
  qed simp
qed

subsection \<open>Preservation of the invariant\<close>

lemma node_ok_mono:
  "node_ok rs n nd \<Longrightarrow> n \<in> set rs \<longleftrightarrow> n \<in> set rs' \<Longrightarrow> node_ok rs' n nd"
  by (simp add: node_ok_def)

text \<open>Changing one node without moving it in or out of the ready list.\<close>

lemma abs_wf_upd:
  assumes wf: "abs_wf a" and nd: "aq_nodes a n = Some nd" and ok: "node_ok (aq_ready a) n nd'"
  shows "abs_wf (a\<lparr>aq_nodes := (aq_nodes a)(n \<mapsto> nd')\<rparr>)"
proof (rule abs_wfI)
  show "set (aq_ready (a\<lparr>aq_nodes := (aq_nodes a)(n \<mapsto> nd')\<rparr>)) \<subseteq>
      dom (aq_nodes (a\<lparr>aq_nodes := (aq_nodes a)(n \<mapsto> nd')\<rparr>))"
    using abs_wfD(2) [OF wf] by auto
  show "node_ok (aq_ready (a\<lparr>aq_nodes := (aq_nodes a)(n \<mapsto> nd')\<rparr>)) m md \<and>
      m < aq_fresh (a\<lparr>aq_nodes := (aq_nodes a)(n \<mapsto> nd')\<rparr>)"
    if "aq_nodes (a\<lparr>aq_nodes := (aq_nodes a)(n \<mapsto> nd')\<rparr>) m = Some md" for m md
    using that ok abs_wfD(4,5) [OF wf] nd by (auto split: if_splits)
qed (use abs_wfD(1,3) [OF wf] in simp_all)

text \<open>Changing one node and putting it at the head of the ready list.\<close>

lemma abs_wf_enqueue:
  assumes wf: "abs_wf a" and nd: "aq_nodes a n = Some nd" and n: "n \<notin> set (aq_ready a)"
    and ok: "node_ok (n # aq_ready a) n nd'"
  shows "abs_wf (a\<lparr>aq_nodes := (aq_nodes a)(n \<mapsto> nd'), aq_ready := n # aq_ready a, aq_sleep := False\<rparr>)"
    (is "abs_wf ?a")
proof (rule abs_wfI)
  show "set (aq_ready ?a) \<subseteq> dom (aq_nodes ?a)"
    using abs_wfD(2) [OF wf] by auto
  show "node_ok (aq_ready ?a) m md \<and> m < aq_fresh ?a" if "aq_nodes ?a m = Some md" for m md
    using that ok abs_wfD(4,5) [OF wf] nd node_ok_mono [of "aq_ready a" m md "n # aq_ready a"]
    by (auto split: if_splits)
qed (use abs_wfD(1) [OF wf] n in simp_all)

lemma not_drop_zero [simp]: "\<not> event_is_drop (event_from_usize 0)"
  using event_is_drop_simps(2) by (simp add: event_from_usize_def ready_none_def)

lemma node_ok_new:
  "rc \<noteq> 0 \<Longrightarrow> n \<notin> set rs \<Longrightarrow> node_ok rs n (readiness_node_new t i pr rc)"
  by (simp add: node_ok_def readiness_node_new_def)

lemma abs_wf_new_node:
  assumes wf: "abs_wf a" and rc: "rc \<noteq> 0"
  shows "abs_wf (snd (abs_new_node a t i pr rc))" (is "abs_wf ?a")
proof (rule abs_wfI)
  have fresh: "aq_fresh a \<notin> set (aq_ready a)"
    using abs_wfD(2,5) [OF wf] by blast
  show "set (aq_ready ?a) \<subseteq> dom (aq_nodes ?a)"
    using abs_wfD(2) [OF wf] by (auto simp: abs_new_node_def)
  show "node_ok (aq_ready ?a) m md \<and> m < aq_fresh ?a" if "aq_nodes ?a m = Some md" for m md
  proof (cases "m = aq_fresh a")
    case True
    then show ?thesis
      using that node_ok_new [OF rc fresh] by (auto simp: abs_new_node_def)
  next
    case False
    then have "aq_nodes a m = Some md"
      using that by (simp add: abs_new_node_def)
    then show ?thesis
      using abs_wfD(4,5) [OF wf] by (simp add: abs_new_node_def less_Suc_eq)
  qed
qed (use abs_wfD(1,3) [OF wf] in \<open>simp_all add: abs_new_node_def\<close>)

lemma poll_events_drop:
  "event_is_drop (node_poll_events nd) \<longleftrightarrow> event_is_drop (event_from_usize (node_events nd))"
  by (auto simp: node_poll_events_def event_is_drop_def rd.flags_contains rd.flags_simps)

lemma node_after_poll_ok:
  assumes ok: "node_ok rs n nd" and n: "n \<in> set rs" and after: "node_after_poll nd = Some nd'"
  shows "ref_count nd \<noteq> 0"
    and "node_ok rs' n nd' \<longleftrightarrow> (n \<in> set rs' \<longleftrightarrow> stays_queued nd)"
  using assms
  by (auto simp: node_ok_def node_after_poll_def poll_events_drop Let_def split: if_splits)

lemma abs_wf_after_poll:
  assumes wf: "abs_wf a"
  shows "abs_wf (abs_after_poll a)"
proof (rule abs_wfI)
  have dom: "node_after_poll (the (aq_nodes a n)) \<noteq> None" if "stays_queued (the (aq_nodes a n))" for n
    using that by (simp add: node_after_poll_def stays_queued_def)
  show "set (aq_ready (abs_after_poll a)) \<subseteq> dom (aq_nodes (abs_after_poll a))"
    using dom by (auto simp: abs_after_poll_def requeued_def nodes_after_def)
  show "distinct (aq_ready (abs_after_poll a))"
    using abs_wfD(1) [OF wf] by (simp add: abs_after_poll_def requeued_def)
  show "aq_ready (abs_after_poll a) = []" if "aq_sleep (abs_after_poll a)"
    using that by (simp add: abs_after_poll_def)
  show "node_ok (aq_ready (abs_after_poll a)) n nd' \<and> n < aq_fresh (abs_after_poll a)"
    if nd': "aq_nodes (abs_after_poll a) n = Some nd'" for n nd'
  proof (cases "n \<in> set (aq_ready a)")
    case True
    then obtain nd where nd: "aq_nodes a n = Some nd"
      using abs_wfD(2) [OF wf] by blast
    have after: "node_after_poll nd = Some nd'"
      using nd' True nd by (simp add: abs_after_poll_def nodes_after_def)
    have "n \<in> set (aq_ready (abs_after_poll a)) \<longleftrightarrow> stays_queued nd"
      using True nd by (auto simp: abs_after_poll_def requeued_def)
    then show ?thesis
      using node_after_poll_ok(2) [OF abs_wfD(4) [OF wf nd] True after] abs_wfD(5) [OF wf nd]
      by (simp add: abs_after_poll_def)
  next
    case False
    then have nd: "aq_nodes a n = Some nd'"
      using nd' by (simp add: abs_after_poll_def nodes_after_def)
    have "n \<notin> set (aq_ready (abs_after_poll a))"
      using False by (auto simp: abs_after_poll_def requeued_def)
    then show ?thesis
      using node_ok_mono [OF abs_wfD(4) [OF wf nd]] abs_wfD(5) [OF wf nd] False
      by (simp add: abs_after_poll_def)
  qed
qed

subsection \<open>The handle operations in closed form\<close>

lemma abs_queue_for_processing_eq:
  assumes "aq_nodes a n = Some nd"
  shows "abs_queue_for_processing a n = Some
     (if node_queued nd = 0
      then (aq_sleep a, a\<lparr>aq_nodes := (aq_nodes a)(n \<mapsto> nd\<lparr>node_queued := NODE_QUEUED_FLAG\<rparr>),
                          aq_ready := n # aq_ready a, aq_sleep := False\<rparr>)
      else (False, a))"
  using assms by (simp add: abs_queue_for_processing_def abs_modify_def abs_prepend_def)

text \<open>The abstract queue after \<open>set_readiness\<close>, before the awakener is called.\<close>

definition abs_marked :: "'w abs_queue \<Rightarrow> nat \<Rightarrow> readiness_node \<Rightarrow> 'w abs_queue" where
  "abs_marked a n nd =
     (if node_queued nd = 0
      then a\<lparr>aq_nodes := (aq_nodes a)(n \<mapsto> nd\<lparr>node_queued := NODE_QUEUED_FLAG\<rparr>),
             aq_ready := n # aq_ready a, aq_sleep := False\<rparr>
      else a\<lparr>aq_nodes := (aq_nodes a)(n \<mapsto> nd)\<rparr>)"

lemma abs_set_readiness_eq:
  assumes "aq_nodes a n = Some nd"
  shows "abs_set_readiness wake a n rdy = Some
     (if event_is_empty rdy then (Inr (), a\<lparr>aq_nodes := (aq_nodes a)(n \<mapsto> nd\<lparr>node_events := event_as_usize rdy\<rparr>)\<rparr>)
      else if aq_sleep a \<and> node_queued nd = 0
      then abs_wakeup wake (abs_marked a n (nd\<lparr>node_events := event_as_usize rdy\<rparr>))
      else (Inr (), abs_marked a n (nd\<lparr>node_events := event_as_usize rdy\<rparr>)))"
  using assms
  by (simp add: abs_set_readiness_def abs_modify_def abs_queue_for_processing_eq abs_marked_def)

lemma abs_wf_marked:
  assumes wf: "abs_wf a" and nd: "aq_nodes a n = Some nd"
    and same: "node_queued nd' = node_queued nd"
    and drop: "event_is_drop (event_from_usize (node_events nd')) \<longleftrightarrow> ref_count nd' = 0"
  shows "abs_wf (abs_marked a n nd')"
proof (cases "node_queued nd = 0")
  case True
  then have "n \<notin> set (aq_ready a)" using abs_wf_queued_iff [OF wf nd] by simp
  then show ?thesis
    using abs_wf_enqueue [OF wf nd, of "nd'\<lparr>node_queued := NODE_QUEUED_FLAG\<rparr>"] True same drop
    by (simp add: abs_marked_def node_ok_def)
next
  case False
  then have "n \<in> set (aq_ready a)" using abs_wf_queued_iff [OF wf nd] by simp
  moreover have "node_queued nd = NODE_QUEUED_FLAG"
    using abs_wfD(4) [OF wf nd] calculation by (simp add: node_ok_def)
  ultimately have "node_ok (aq_ready a) n nd'"
    using same drop by (simp add: node_ok_def)
  then show ?thesis
    using abs_wf_upd [OF wf nd] False same by (simp add: abs_marked_def)
qed

lemma abs_wf_awakener [simp]: "abs_wf (a\<lparr>aq_awakener := w\<rparr>) \<longleftrightarrow> abs_wf a"
  by (simp add: abs_wf_def)

lemma abs_wf_wakeup: "abs_wf a \<Longrightarrow> abs_wf (snd (abs_wakeup wake a))"
  by (simp add: abs_wakeup_def split: prod.split)

lemma abs_wf_set_readiness:
  assumes wf: "abs_wf a" and nd: "aq_nodes a n = Some nd"
    and drop: "\<not> event_is_drop rdy" "ref_count nd \<noteq> 0"
  shows "\<exists>r a'. abs_set_readiness wake a n rdy = Some (r, a') \<and> abs_wf a'"
proof -
  let ?nd = "nd\<lparr>node_events := event_as_usize rdy\<rparr>"
  have upd: "abs_wf (a\<lparr>aq_nodes := (aq_nodes a)(n \<mapsto> ?nd)\<rparr>)"
    using abs_wf_upd [OF wf nd] abs_wfD(4) [OF wf nd] drop by (simp add: node_ok_def)
  have marked: "abs_wf (abs_marked a n ?nd)"
    using abs_wf_marked [OF wf nd, of ?nd] drop by simp
  show ?thesis
    using upd marked abs_wf_wakeup [OF marked, of wake]
    by (cases "abs_wakeup wake (abs_marked a n ?nd)") (auto simp: abs_set_readiness_eq [OF nd])
qed

lemma abs_wf_drop:
  assumes wf: "abs_wf a" and nd: "aq_nodes a n = Some nd" and rc: "ref_count nd \<noteq> 0"
  shows "\<exists>a'. abs_drop wake a n = Some a' \<and> abs_wf a'"
proof (cases "ref_count nd = 1")
  case False
  then have "ref_count nd - 1 \<noteq> 0" by simp
  then have "abs_wf (a\<lparr>aq_nodes := (aq_nodes a)(n \<mapsto> nd\<lparr>ref_count := ref_count nd - 1\<rparr>)\<rparr>)"
    using abs_wf_upd [OF wf nd] abs_wfD(4) [OF wf nd] rc by (simp add: node_ok_def)
  with False nd show ?thesis
    by (simp add: abs_drop_def abs_modify_def)
next
  case True
  let ?a = "a\<lparr>aq_nodes := (aq_nodes a)(n \<mapsto> nd\<lparr>ref_count := 0\<rparr>)\<rparr>"
  let ?nd = "nd\<lparr>ref_count := 0, node_events := event_as_usize ready_drop\<rparr>"
  have eq: "abs_marked ?a n ?nd = abs_marked a n ?nd"
    by (simp add: abs_marked_def)
  have marked: "abs_wf (abs_marked a n ?nd)"
    using abs_wf_marked [OF wf nd, of ?nd] by simp
  have "abs_set_readiness wake ?a n ready_drop = Some
      (if aq_sleep a \<and> node_queued nd = 0 then abs_wakeup wake (abs_marked a n ?nd)
       else (Inr (), abs_marked a n ?nd))"
    using abs_set_readiness_eq [of ?a n "nd\<lparr>ref_count := 0\<rparr>" wake ready_drop] eq by simp
  then show ?thesis
    using True nd marked abs_wf_wakeup [OF marked, of wake]
    by (simp add: abs_drop_def abs_modify_def)
qed

end
