(* ===== verification/Mio_Queue_Props.thy ===== *)
theory Mio_Queue_Props
  imports Mio_Queue_Spec "HOL-Library.Multiset"
begin

text \<open>
  What the readiness queue of \<open>src/poll.rs\<close> promises to its users, stated on the heap model of
  \<open>Mio_Queue\<close> and proved through the simulation and the invariant of \<open>Mio_Queue_Spec\<close>: every
  operation on a live handle returns and keeps the queue well formed, a poll delivers exactly the
  pending events of the ready nodes, a readiness that is set reaches the next poll, a sleeping poller
  is woken exactly once, and a node is freed exactly when its last handle is gone.
\<close>

section \<open>The operations on a well-formed queue\<close>

lemma rel_option_Some2: "rel_option R x (Some y) \<longleftrightarrow> (\<exists>x'. x = Some x' \<and> R x' y)"
  by (cases x) auto

lemma rel_option_Some1: "rel_option R (Some x) y \<longleftrightarrow> (\<exists>y'. y = Some y' \<and> R x y')"
  by (cases y) auto

lemma queue_poll_abs:
  assumes "queue_rel q a" and "abs_wf a"
  obtains q' where "queue_poll push q dst = Some (q', foldl push dst (polled_events a))"
    and "queue_rel q' (abs_after_poll a)"
  using queue_poll_rel [OF assms(1) abs_wfD(1) [OF assms(2)], of push dst]
  by (auto simp: abs_poll_eq [OF assms(2)] rel_option_Some2)

lemma set_readiness_abs:
  assumes "queue_rel q a" and "abs_wf a" and "ri_node ri = Node n"
    and "abs_set_readiness wake a n rdy = Some (r, a')"
  obtains q' where "inner_set_readiness wake q ri rdy = Some (r, q')" and "queue_rel q' a'"
  using set_readiness_rel [OF assms(1) abs_wf_queued_sound [OF assms(2)] assms(3), of wake rdy] assms(4)
  by (auto simp: rel_option_Some2)

lemma drop_abs:
  assumes "queue_rel q a" and "abs_wf a" and "ri_node ri = Node n"
    and "abs_drop wake a n = Some a'"
  obtains q' where "inner_drop wake q ri = Some q'" and "queue_rel q' a'"
  using drop_rel [OF assms(1) abs_wf_queued_sound [OF assms(2)] assms(3), of wake] assms(4)
  by (auto simp: rel_option_Some2)

lemma queue_wf_new [simp]: "queue_wf (readiness_queue_new qid w)"
proof (rule queue_wfI)
  let ?a = "\<lparr>aq_id = qid, aq_awakener = w, aq_fresh = 0, aq_ready = [], aq_sleep = False,
    aq_nodes = Map.empty\<rparr>"
  show "queue_rel (readiness_queue_new qid w) ?a"
    by (auto simp: queue_rel_def readiness_queue_new_def all_nodes_ok_def norm_head_def
        intro: exI [of _ "[]"])
  show "abs_wf ?a" by (rule abs_wfI) simp_all
qed

lemma queue_wf_prepare_for_sleep:
  assumes "queue_wf q"
  shows "queue_wf (snd (prepare_for_sleep q))"
proof -
  obtain a where rel: "queue_rel q a" and wf: "abs_wf a"
    using assms by (auto simp: queue_wf_def)
  show ?thesis
  proof (cases "head_readiness q = Null")
    case True
    then have "aq_ready a = []"
      using rel by (cases "aq_ready a") (auto simp: queue_rel_def norm_head_def)
    moreover have "queue_rel (q\<lparr>head_readiness := SleepToken\<rparr>) (a\<lparr>aq_sleep := True\<rparr>)"
      using rel True calculation by (simp add: queue_rel_def norm_head_def all_nodes_ok_def)
    moreover have "abs_wf (a\<lparr>aq_sleep := True\<rparr>)"
      using wf calculation by (simp add: abs_wf_def)
    ultimately show ?thesis
      using True by (auto simp: prepare_for_sleep_def intro: queue_wfI)
  next
    case False
    then show ?thesis using assms by (simp add: prepare_for_sleep_def)
  qed
qed

subsection \<open>Reference counts\<close>

text \<open>The reference count of every node that is still allocated.\<close>

definition counts :: "'w readiness_queue \<Rightarrow> nat \<rightharpoonup> usize" where
  "counts q = (\<lambda>n. map_option ref_count (node_heap q n))"

definition abs_counts :: "'w abs_queue \<Rightarrow> nat \<rightharpoonup> usize" where
  "abs_counts a = (\<lambda>n. map_option ref_count (aq_nodes a n))"

lemma counts_rel: "queue_rel q a \<Longrightarrow> counts q = abs_counts a"
  by (auto simp: counts_def abs_counts_def queue_rel_def option.map_comp comp_def)

lemma queue_id_rel: "queue_rel q a \<Longrightarrow> queue_id q = aq_id a"
  by (simp add: queue_rel_def)

lemma counts_prepare_for_sleep [simp]:
  "counts (snd (prepare_for_sleep q)) = counts q"
  "queue_id (snd (prepare_for_sleep q)) = queue_id q"
  by (simp_all add: prepare_for_sleep_def counts_def)

lemma abs_counts_upd:
  "aq_nodes a n = Some nd \<Longrightarrow> abs_counts (a\<lparr>aq_nodes := (aq_nodes a)(n \<mapsto> nd')\<rparr>) =
     (abs_counts a)(n \<mapsto> ref_count nd')"
  by (auto simp: abs_counts_def)

lemma abs_counts_marked:
  "aq_nodes a n = Some nd \<Longrightarrow> abs_counts (abs_marked a n nd') = (abs_counts a)(n \<mapsto> ref_count nd')"
  by (auto simp: abs_counts_def abs_marked_def)

lemma abs_counts_same:
  "aq_nodes a n = Some nd \<Longrightarrow> (abs_counts a)(n \<mapsto> ref_count nd) = abs_counts a"
  by (auto simp: abs_counts_def)

lemma abs_wakeup_frame [simp]:
  "abs_counts (snd (abs_wakeup wake a)) = abs_counts a" "aq_id (snd (abs_wakeup wake a)) = aq_id a"
  by (simp_all add: abs_wakeup_def abs_counts_def split: prod.split)

lemma aq_id_marked [simp]: "aq_id (abs_marked a n nd) = aq_id a"
  by (simp add: abs_marked_def)

lemma abs_set_readiness_frame:
  assumes "aq_nodes a n = Some nd" and "abs_set_readiness wake a n rdy = Some (r, a')"
  shows "abs_counts a' = abs_counts a" and "aq_id a' = aq_id a"
proof -
  let ?nd = "nd\<lparr>node_events := event_as_usize rdy\<rparr>"
  have "a' \<in> {a\<lparr>aq_nodes := (aq_nodes a)(n \<mapsto> ?nd)\<rparr>, snd (abs_wakeup wake (abs_marked a n ?nd)),
      abs_marked a n ?nd}"
    using assms(2) by (auto simp: abs_set_readiness_eq [OF assms(1)] split: if_splits)
  then show "abs_counts a' = abs_counts a" "aq_id a' = aq_id a"
    using assms(1) by (auto simp: abs_counts_upd abs_counts_marked abs_counts_same)
qed

lemma abs_drop_frame:
  assumes nd: "aq_nodes a n = Some nd" and eq: "abs_drop wake a n = Some a'"
  shows "abs_counts a' = (abs_counts a)(n \<mapsto> ref_count nd - 1)" and "aq_id a' = aq_id a"
proof -
  let ?a = "a\<lparr>aq_nodes := (aq_nodes a)(n \<mapsto> nd\<lparr>ref_count := ref_count nd - 1\<rparr>)\<rparr>"
  have "a' = ?a \<or> (\<exists>r. abs_set_readiness wake ?a n ready_drop = Some (r, a'))"
    using eq nd by (auto simp: abs_drop_def abs_modify_def split: if_splits)
  then have "abs_counts a' = abs_counts ?a \<and> aq_id a' = aq_id ?a"
    using abs_set_readiness_frame [of ?a n "nd\<lparr>ref_count := ref_count nd - 1\<rparr>" wake ready_drop]
    by auto
  then show "abs_counts a' = (abs_counts a)(n \<mapsto> ref_count nd - 1)" "aq_id a' = aq_id a"
    using nd by (simp_all add: abs_counts_upd)
qed

lemma abs_counts_after_poll:
  assumes wf: "abs_wf a"
  shows "abs_counts (abs_after_poll a) = (\<lambda>n. if abs_counts a n = Some 0 then None else abs_counts a n)"
proof
  fix n
  show "abs_counts (abs_after_poll a) n = (if abs_counts a n = Some 0 then None else abs_counts a n)"
  proof (cases "aq_nodes a n")
    case None
    then have "n \<notin> set (aq_ready a)" using abs_wfD(2) [OF wf] by blast
    with None show ?thesis by (simp add: abs_counts_def abs_after_poll_def nodes_after_def)
  next
    case (Some nd)
    have ok: "node_ok (aq_ready a) n nd" using abs_wfD(4) [OF wf Some] .
    show ?thesis
      using ok Some
      by (auto simp: abs_counts_def abs_after_poll_def nodes_after_def node_ok_def node_after_poll_def
          poll_events_drop Let_def)
  qed
qed

subsection \<open>Every operation returns and keeps the invariant\<close>

lemma queue_wf_poll:
  assumes "queue_wf q"
  shows "\<exists>q' dst'. queue_poll push q dst = Some (q', dst') \<and> queue_wf q' \<and> queue_id q' = queue_id q \<and>
    counts q' = (\<lambda>n. if counts q n = Some 0 then None else counts q n)"
proof -
  obtain a where rel: "queue_rel q a" and wf: "abs_wf a"
    using assms by (auto simp: queue_wf_def)
  then obtain q' where "queue_poll push q dst = Some (q', foldl push dst (polled_events a))"
    and "queue_rel q' (abs_after_poll a)"
    by (rule queue_poll_abs)
  moreover have "queue_id q' = queue_id q"
    using calculation(2) rel by (simp add: queue_id_rel abs_after_poll_def)
  ultimately show ?thesis
    using queue_wfI [OF _ abs_wf_after_poll [OF wf]] abs_counts_after_poll [OF wf]
      counts_rel [OF rel] counts_rel [of q' "abs_after_poll a"] by auto
qed

lemma queue_wf_set_readiness:
  assumes "queue_wf q" and "handle_ok q ri" and "\<not> event_is_drop rdy"
  shows "\<exists>r q'. inner_set_readiness wake q ri rdy = Some (r, q') \<and> queue_wf q' \<and>
    queue_id q' = queue_id q \<and> counts q' = counts q"
proof -
  obtain a where rel: "queue_rel q a" and wf: "abs_wf a"
    using assms by (auto simp: queue_wf_def)
  obtain n nd where n: "ri_node ri = Node n" "aq_nodes a n = Some nd" "ref_count nd \<noteq> 0"
    using handle_ok_abs [OF rel assms(2)] .
  obtain r a' where a': "abs_set_readiness wake a n rdy = Some (r, a')" "abs_wf a'"
    using abs_wf_set_readiness [OF wf n(2) assms(3) n(3)] by blast
  obtain q' where "inner_set_readiness wake q ri rdy = Some (r, q')" and rel': "queue_rel q' a'"
    by (rule set_readiness_abs [OF rel wf n(1) a'(1)])
  then show ?thesis
    using queue_wfI [OF rel' a'(2)] abs_set_readiness_frame [OF n(2) a'(1)]
    by (simp add: counts_rel [OF rel] counts_rel [OF rel'] queue_id_rel [OF rel] queue_id_rel [OF rel'])
qed

lemma queue_wf_drop:
  assumes "queue_wf q" and "handle_ok q ri"
  shows "\<exists>q' n rc. inner_drop wake q ri = Some q' \<and> queue_wf q' \<and> queue_id q' = queue_id q \<and>
    ri_node ri = Node n \<and> counts q n = Some rc \<and> counts q' = (counts q)(n \<mapsto> rc - 1)"
proof -
  obtain a where rel: "queue_rel q a" and wf: "abs_wf a"
    using assms by (auto simp: queue_wf_def)
  obtain n nd where n: "ri_node ri = Node n" "aq_nodes a n = Some nd" "ref_count nd \<noteq> 0"
    using handle_ok_abs [OF rel assms(2)] .
  obtain a' where a': "abs_drop wake a n = Some a'" "abs_wf a'"
    using abs_wf_drop [OF wf n(2,3)] by blast
  obtain q' where q': "inner_drop wake q ri = Some q'" and rel': "queue_rel q' a'"
    by (rule drop_abs [OF rel wf n(1) a'(1)])
  have "counts q n = Some (ref_count nd)"
    using n(2) by (simp add: counts_rel [OF rel] abs_counts_def)
  then show ?thesis
    using q' n(1) queue_wfI [OF rel' a'(2)] abs_drop_frame [OF n(2) a'(1)]
    by (simp add: counts_rel [OF rel] counts_rel [OF rel'] queue_id_rel [OF rel] queue_id_rel [OF rel'])
qed

lemma handle_okI:
  assumes "queue_rel q a" and "ri_node ri = Node n" and "ri_queue ri = aq_id a"
    and "aq_nodes a n = Some nd" and "ref_count nd \<noteq> 0"
  shows "handle_ok q ri"
  using assms by (auto simp: handle_ok_def queue_rel_def)

lemma handle_ok_counts:
  assumes "handle_ok q ri" and "queue_id q' = queue_id q" and "counts q' = counts q"
  shows "handle_ok q' ri"
proof -
  obtain n nd where n: "ri_node ri = Node n" "node_heap q n = Some nd" "ref_count nd \<noteq> 0"
    "ri_queue ri = queue_id q"
    using assms(1) by (auto simp: handle_ok_def)
  have "map_option ref_count (node_heap q' n) = Some (ref_count nd)"
    using fun_cong [OF assms(3), of n] n(2) by (simp add: counts_def)
  then show ?thesis using n assms(2) by (auto simp: handle_ok_def)
qed

text \<open>\<open>RegistrationInner::update\<close> fails its assertion in exactly one situation: the poller has
  announced that it sleeps while the node carries a readiness but is not queued.\<close>

definition update_asserts :: "'w abs_queue \<Rightarrow> readiness_node \<Rightarrow> bool" where
  "update_asserts a nd \<longleftrightarrow>
     aq_sleep a \<and> node_queued nd = 0 \<and> \<not> event_is_empty (event_from_usize (node_events nd))"

lemma abs_update_eq:
  assumes "aq_nodes a n = Some nd"
  shows "abs_update a n t i pr =
     (let nd' = nd\<lparr>node_data := registration_data_update t i pr (node_data nd)\<rparr>
      in if update_asserts a nd then None
         else if event_is_empty (event_from_usize (node_events nd))
         then Some (Inr (), a\<lparr>aq_nodes := (aq_nodes a)(n \<mapsto> nd')\<rparr>)
         else Some (Inr (), abs_marked a n nd'))"
  using assms
  by (simp add: abs_update_def abs_modify_def abs_queue_for_processing_eq abs_marked_def
      update_asserts_def debug_assert_def Let_def)

lemma abs_wf_update:
  assumes wf: "abs_wf a" and nd: "aq_nodes a n = Some nd" and ok: "\<not> update_asserts a nd"
  shows "\<exists>a'. abs_update a n t i pr = Some (Inr (), a') \<and> abs_wf a' \<and> aq_id a' = aq_id a \<and>
    abs_counts a' = abs_counts a"
proof -
  let ?nd = "nd\<lparr>node_data := registration_data_update t i pr (node_data nd)\<rparr>"
  have "node_ok (aq_ready a) n ?nd"
    using abs_wfD(4) [OF wf nd] by (simp add: node_ok_def)
  moreover have "abs_wf (abs_marked a n ?nd)"
    using abs_wf_marked [OF wf nd, of ?nd] abs_wfD(4) [OF wf nd] by (simp add: node_ok_def)
  ultimately show ?thesis
    using abs_wf_upd [OF wf nd] ok nd
    by (simp add: abs_update_eq Let_def abs_counts_upd abs_counts_marked abs_counts_same)
qed

lemma queue_wf_update:
  assumes "queue_wf q" and "handle_ok q ri" and "head_readiness q \<noteq> SleepToken"
  shows "\<exists>q'. inner_update q ri t i pr = Some (Inr (), q') \<and> queue_wf q' \<and> queue_id q' = queue_id q \<and>
    counts q' = counts q"
proof -
  obtain a where rel: "queue_rel q a" and wf: "abs_wf a"
    using assms by (auto simp: queue_wf_def)
  obtain n nd where n: "ri_node ri = Node n" "ri_queue ri = aq_id a" "aq_nodes a n = Some nd"
    using handle_ok_abs [OF rel assms(2)] .
  have "\<not> update_asserts a nd"
    using rel assms(3) by (simp add: update_asserts_def queue_rel_def)
  then obtain a' where a': "abs_update a n t i pr = Some (Inr (), a')" "abs_wf a'"
    "aq_id a' = aq_id a" "abs_counts a' = abs_counts a"
    using abs_wf_update [OF wf n(3)] by blast
  then obtain q' where "inner_update q ri t i pr = Some (Inr (), q')" and rel': "queue_rel q' a'"
    using update_rel [OF rel abs_wf_queued_sound [OF wf] n(1,2), of t i pr]
    by (auto simp: rel_option_Some2)
  then show ?thesis
    using queue_wfI [OF rel' a'(2)] a'(3,4)
    by (simp add: counts_rel [OF rel] counts_rel [OF rel'] queue_id_rel [OF rel] queue_id_rel [OF rel'])
qed

lemma max_refcount_not_max:
  assumes "rc AND NOT MAX_REFCOUNT = 0"
  shows "rc + 1 \<noteq> 0"
proof -
  have "rc \<noteq> - 1"
    using assms by (auto simp: MAX_REFCOUNT_def)
  then show ?thesis
    by (metis add_diff_cancel_right' diff_0)
qed

lemma abs_wf_clone:
  assumes wf: "abs_wf a" and nd: "aq_nodes a n = Some nd" and rc: "ref_count nd \<noteq> 0"
    and guard: "ref_count nd AND NOT MAX_REFCOUNT = 0"
  shows "abs_clone a n = Some (a\<lparr>aq_nodes := (aq_nodes a)(n \<mapsto> nd\<lparr>ref_count := ref_count nd + 1\<rparr>)\<rparr>)"
    and "abs_wf (a\<lparr>aq_nodes := (aq_nodes a)(n \<mapsto> nd\<lparr>ref_count := ref_count nd + 1\<rparr>)\<rparr>)"
    and "ref_count nd + 1 \<noteq> 0"
proof -
  show nz: "ref_count nd + 1 \<noteq> 0"
    by (rule max_refcount_not_max [OF guard])
  show "abs_wf (a\<lparr>aq_nodes := (aq_nodes a)(n \<mapsto> nd\<lparr>ref_count := ref_count nd + 1\<rparr>)\<rparr>)"
    using abs_wf_upd [OF wf nd] abs_wfD(4) [OF wf nd] nz rc by (simp add: node_ok_def)
qed (use guard nd in \<open>simp add: abs_clone_def abs_modify_def\<close>)

lemma queue_wf_clone:
  assumes "queue_wf q" and "handle_ok q ri" and "ri_node ri = Node n" and "counts q n = Some rc"
    and guard: "rc AND NOT MAX_REFCOUNT = 0"
  shows "\<exists>q'. inner_clone q ri = Some (ri, q') \<and> queue_wf q' \<and> queue_id q' = queue_id q \<and>
    counts q' = (counts q)(n \<mapsto> rc + 1)"
proof -
  obtain a where rel: "queue_rel q a" and wf: "abs_wf a"
    using assms by (auto simp: queue_wf_def)
  obtain nd where n: "aq_nodes a n = Some nd" "ref_count nd \<noteq> 0"
    using handle_ok_abs [OF rel assms(2)] assms(3) by auto
  have rc: "ref_count nd = rc"
    using assms(4) n(1) by (simp add: counts_rel [OF rel] abs_counts_def)
  note clone = abs_wf_clone [OF wf n, unfolded rc, OF guard]
  obtain q' where "inner_clone q ri = Some (ri, q')"
    "queue_rel q' (a\<lparr>aq_nodes := (aq_nodes a)(n \<mapsto> nd\<lparr>ref_count := rc + 1\<rparr>)\<rparr>)"
    using clone_rel [OF rel assms(3)] clone(1) by (auto simp: rel_option_Some2)
  then show ?thesis
    using queue_wfI [OF _ clone(2)] rel n(1) by (simp add: counts_rel queue_id_rel abs_counts_upd)
qed

lemma abs_new_node_count:
  "abs_clone (snd (abs_new_node a t i pr 1)) (aq_fresh a) = Some (snd (abs_new_node a t i pr 2))"
  "abs_clone (snd (abs_new_node a t i pr 2)) (aq_fresh a) = Some (snd (abs_new_node a t i pr 3))"
  "abs_drop wake (snd (abs_new_node a t i pr 3)) (aq_fresh a) = Some (snd (abs_new_node a t i pr 2))"
  by (simp_all add: abs_clone_def abs_drop_def abs_modify_def abs_new_node_def readiness_node_new_def
      MAX_REFCOUNT_def)

lemma registration_new_abs:
  assumes rel: "queue_rel q a" and wf: "abs_wf a"
  obtains q' where "registration_new wake q t i pr =
      Some ((\<lparr>ri_queue = queue_id q, ri_node = Node (aq_fresh a)\<rparr>,
             \<lparr>ri_queue = queue_id q, ri_node = Node (aq_fresh a)\<rparr>), q')"
    and "queue_rel q' (snd (abs_new_node a t i pr 2))"
proof -
  let ?ri = "\<lparr>ri_queue = queue_id q, ri_node = Node (aq_fresh a)\<rparr>"
  obtain q1 where q1: "new_readiness_node q t i pr 1 = Some (Node (aq_fresh a), q1)"
    "queue_rel q1 (snd (abs_new_node a t i pr 1))"
    by (rule new_node_rel [OF rel])
  obtain q2 where q2: "inner_clone q1 ?ri = Some (?ri, q2)" "queue_rel q2 (snd (abs_new_node a t i pr 2))"
    using clone_rel [OF q1(2), of ?ri "aq_fresh a"] by (auto simp: abs_new_node_count rel_option_Some2)
  obtain q3 where q3: "inner_clone q2 ?ri = Some (?ri, q3)" "queue_rel q3 (snd (abs_new_node a t i pr 3))"
    using clone_rel [OF q2(2), of ?ri "aq_fresh a"] by (auto simp: abs_new_node_count rel_option_Some2)
  have wf3: "abs_wf (snd (abs_new_node a t i pr 3))"
    by (rule abs_wf_new_node [OF wf]) simp
  obtain q4 where "inner_drop wake q3 ?ri = Some q4" "queue_rel q4 (snd (abs_new_node a t i pr 2))"
    by (rule drop_abs [OF q3(2) wf3, of ?ri "aq_fresh a" wake]) (simp_all add: abs_new_node_count)
  then show thesis
    using q1(1) q2(1) q3(1) by (intro that [of q4]) (simp_all add: registration_new_def inner_new_def)
qed

lemma queue_wf_registration_new:
  assumes "queue_wf q"
  shows "\<exists>n q'. registration_new wake q t i pr =
      Some ((\<lparr>ri_queue = queue_id q, ri_node = Node n\<rparr>, \<lparr>ri_queue = queue_id q, ri_node = Node n\<rparr>), q') \<and>
    queue_wf q' \<and> queue_id q' = queue_id q \<and> counts q n = None \<and> counts q' = (counts q)(n \<mapsto> 2)"
proof -
  obtain a where rel: "queue_rel q a" and wf: "abs_wf a"
    using assms by (auto simp: queue_wf_def)
  let ?ri = "\<lparr>ri_queue = queue_id q, ri_node = Node (aq_fresh a)\<rparr>"
  obtain q' where q': "registration_new wake q t i pr = Some ((?ri, ?ri), q')"
    and rel': "queue_rel q' (snd (abs_new_node a t i pr 2))"
    by (rule registration_new_abs [OF rel wf])
  have "queue_wf q'"
    by (rule queue_wfI [OF rel' abs_wf_new_node [OF wf]]) simp
  moreover have "counts q (aq_fresh a) = None"
    using abs_wfD(5) [OF wf] by (fastforce simp: counts_rel [OF rel] abs_counts_def)
  moreover have "counts q' = (counts q)(aq_fresh a \<mapsto> 2)" "queue_id q' = queue_id q"
    using rel by (auto simp: counts_rel counts_rel [OF rel'] abs_counts_def abs_new_node_def
        readiness_node_new_def queue_id_rel [OF rel'] queue_id_rel)
  ultimately show ?thesis using q' by blast
qed

lemma queue_wf_registration_drop:
  assumes "queue_wf q" and "handle_ok q ri"
  shows "\<exists>q' n rc. registration_drop wake q ri = Some q' \<and> queue_wf q' \<and> queue_id q' = queue_id q \<and>
    ri_node ri = Node n \<and> counts q n = Some rc \<and> counts q' = (counts q)(n \<mapsto> rc - 1)"
proof -
  let ?f = "\<lambda>x. x\<lparr>node_data := registration_data_disable (node_data x)\<rparr>"
  obtain a where rel: "queue_rel q a" and wf: "abs_wf a"
    using assms by (auto simp: queue_wf_def)
  obtain n nd where n: "ri_node ri = Node n" "ri_queue ri = aq_id a" "aq_nodes a n = Some nd"
    "ref_count nd \<noteq> 0"
    using handle_ok_abs [OF rel assms(2)] .
  let ?a = "a\<lparr>aq_nodes := (aq_nodes a)(n \<mapsto> ?f nd)\<rparr>"
  obtain q1 where q1: "ready_ref_modify ?f (ri_node ri) q = Some q1" "queue_rel q1 ?a"
    using modify_rel [of Null "[]" q a ?f n] rel n(1,3)
    by (auto simp: queue_rel_at_Nil abs_modify_def rel_option_Some2)
  have "abs_wf ?a"
    using abs_wf_upd [OF wf n(3)] abs_wfD(4) [OF wf n(3)] by (simp add: node_ok_def)
  then have "queue_wf q1"
    by (rule queue_wfI [OF q1(2)])
  moreover have "handle_ok q1 ri"
    using handle_okI [OF q1(2) n(1), of "?f nd"] n(2,4) by simp
  moreover have "counts q1 = counts q" "queue_id q1 = queue_id q"
    using rel q1(2) n(3) abs_counts_upd [OF n(3), of "?f nd"]
    by (simp_all add: counts_rel queue_id_rel abs_counts_same)
  ultimately show ?thesis
    using queue_wf_drop [of q1 ri wake] q1(1) by (simp add: registration_drop_def)
qed

section \<open>The queue and its handles as a system\<close>

text \<open>The queue together with the handles the program owns: \<open>Registration\<close> values and
  \<open>SetReadiness\<close> values.  Rust's ownership is the discipline of the step relation: an operation needs
  a handle that is still owned, a clone adds one and a drop takes one away.  A \<open>SetReadiness\<close> cannot
  store the internal drop bit (\<open>Ready\<close> values of the public interface do not have it).\<close>

record 'w queue_system =
  qs_queue :: "'w readiness_queue"
  qs_registrations :: "registration_inner multiset"
  qs_set_readiness :: "registration_inner multiset"

definition qs_handles :: "'w queue_system \<Rightarrow> registration_inner multiset" where
  "qs_handles s = qs_registrations s + qs_set_readiness s"

inductive queue_step ::
  "('w \<Rightarrow> unit io_result \<times> 'w) \<Rightarrow> 'w queue_system \<Rightarrow> 'w queue_system \<Rightarrow> bool"
  for wake :: "'w \<Rightarrow> unit io_result \<times> 'w" where
  step_new: "registration_new wake (qs_queue s) t i pr = Some ((r, h), q') \<Longrightarrow>
    queue_step wake s (s\<lparr>qs_queue := q', qs_registrations := add_mset r (qs_registrations s),
      qs_set_readiness := add_mset h (qs_set_readiness s)\<rparr>)"
| step_set: "h \<in># qs_set_readiness s \<Longrightarrow> \<not> event_is_drop rdy \<Longrightarrow>
    inner_set_readiness wake (qs_queue s) h rdy = Some (res, q') \<Longrightarrow> queue_step wake s (s\<lparr>qs_queue := q'\<rparr>)"
| step_update: "r \<in># qs_registrations s \<Longrightarrow> head_readiness (qs_queue s) \<noteq> SleepToken \<Longrightarrow>
    registration_update (qs_queue s) r t i pr = Some (res, q') \<Longrightarrow> queue_step wake s (s\<lparr>qs_queue := q'\<rparr>)"
| step_deregister: "r \<in># qs_registrations s \<Longrightarrow> head_readiness (qs_queue s) \<noteq> SleepToken \<Longrightarrow>
    registration_deregister (qs_queue s) r = Some (res, q') \<Longrightarrow> queue_step wake s (s\<lparr>qs_queue := q'\<rparr>)"
| step_clone: "h \<in># qs_set_readiness s \<Longrightarrow> set_readiness_clone (qs_queue s) h = Some (h', q') \<Longrightarrow>
    queue_step wake s (s\<lparr>qs_queue := q', qs_set_readiness := add_mset h' (qs_set_readiness s)\<rparr>)"
| step_drop_set: "h \<in># qs_set_readiness s \<Longrightarrow> set_readiness_drop wake (qs_queue s) h = Some q' \<Longrightarrow>
    queue_step wake s (s\<lparr>qs_queue := q', qs_set_readiness := qs_set_readiness s - {#h#}\<rparr>)"
| step_drop_reg: "r \<in># qs_registrations s \<Longrightarrow> registration_drop wake (qs_queue s) r = Some q' \<Longrightarrow>
    queue_step wake s (s\<lparr>qs_queue := q', qs_registrations := qs_registrations s - {#r#}\<rparr>)"
| step_sleep: "queue_step wake s (s\<lparr>qs_queue := snd (prepare_for_sleep (qs_queue s))\<rparr>)"
| step_poll: "queue_poll (\<lambda>evs e. evs @ [e]) (qs_queue s) [] = Some (q', evs) \<Longrightarrow>
    queue_step wake s (s\<lparr>qs_queue := q'\<rparr>)"

definition queue_reachable :: "('w \<Rightarrow> unit io_result \<times> 'w) \<Rightarrow> nat \<Rightarrow> 'w \<Rightarrow> 'w queue_system \<Rightarrow> bool" where
  "queue_reachable wake qid w s \<longleftrightarrow> (queue_step wake)\<^sup>*\<^sup>*
     \<lparr>qs_queue = readiness_queue_new qid w, qs_registrations = {#}, qs_set_readiness = {#}\<rparr> s"

text \<open>The invariant: the count of every allocated node is the number of handles to it, and every
  handle refers to an allocated node of this queue.\<close>

definition handles_ok :: "'w readiness_queue \<Rightarrow> registration_inner multiset \<Rightarrow> bool" where
  "handles_ok q H \<longleftrightarrow>
     (\<forall>n rc. counts q n = Some rc \<longrightarrow> unat rc = count H \<lparr>ri_queue = queue_id q, ri_node = Node n\<rparr>) \<and>
     (\<forall>h \<in># H. \<exists>n \<in> dom (counts q). h = \<lparr>ri_queue = queue_id q, ri_node = Node n\<rparr>)"

definition qs_ok :: "'w queue_system \<Rightarrow> bool" where
  "qs_ok s \<longleftrightarrow> queue_wf (qs_queue s) \<and> handles_ok (qs_queue s) (qs_handles s)"

lemma handles_okD:
  assumes "handles_ok q H"
  shows "counts q n = Some rc \<Longrightarrow> unat rc = count H \<lparr>ri_queue = queue_id q, ri_node = Node n\<rparr>"
    and "h \<in># H \<Longrightarrow> \<exists>n rc. counts q n = Some rc \<and> h = \<lparr>ri_queue = queue_id q, ri_node = Node n\<rparr>"
  using assms unfolding handles_ok_def by blast+

lemma handles_ok_nz:
  assumes "handles_ok q H" and "h \<in># H"
  obtains n rc where "counts q n = Some rc" and "h = \<lparr>ri_queue = queue_id q, ri_node = Node n\<rparr>"
    and "unat rc = count H h" and "rc \<noteq> 0"
proof -
  obtain n rc where n: "counts q n = Some rc" "h = \<lparr>ri_queue = queue_id q, ri_node = Node n\<rparr>"
    using handles_okD(2) [OF assms] by blast
  moreover have "unat rc = count H h"
    using handles_okD(1) [OF assms(1)] n by simp
  moreover have "rc \<noteq> 0"
    using calculation(3) assms(2) by (auto simp: count_eq_zero_iff)
  ultimately show thesis by (rule that)
qed

lemma handles_ok_live:
  assumes "handles_ok q H" and "h \<in># H"
  shows "handle_ok q h"
proof -
  obtain n rc where "counts q n = Some rc" "h = \<lparr>ri_queue = queue_id q, ri_node = Node n\<rparr>" "rc \<noteq> 0"
    using handles_ok_nz [OF assms] .
  then show ?thesis by (auto simp: handle_ok_def counts_def)
qed

lemma handles_ok_same:
  "handles_ok q H \<Longrightarrow> queue_id q' = queue_id q \<Longrightarrow> counts q' = counts q \<Longrightarrow> handles_ok q' H"
  by (simp add: handles_ok_def)

lemma handles_ok_new:
  assumes ok: "handles_ok q H" and "queue_id q' = queue_id q" and fresh: "counts q n = None"
    and upd: "counts q' = (counts q)(n \<mapsto> 2)" and h: "h = \<lparr>ri_queue = queue_id q, ri_node = Node n\<rparr>"
  shows "handles_ok q' (add_mset h (add_mset h H))"
proof -
  have "h \<notin># H"
    using handles_okD(2) [OF ok, of h] fresh h by auto
  then show ?thesis
    using assms by (auto simp: handles_ok_def not_in_iff)
qed

lemma handles_ok_add:
  assumes ok: "handles_ok q H" and "queue_id q' = queue_id q" and rc: "counts q n = Some rc" "rc + 1 \<noteq> 0"
    and upd: "counts q' = (counts q)(n \<mapsto> rc + 1)" and h: "h = \<lparr>ri_queue = queue_id q, ri_node = Node n\<rparr>"
  shows "handles_ok q' (add_mset h H)"
proof -
  have "unat (rc + 1) = Suc (unat rc)"
    using rc(2) unatSuc [of rc] by (simp add: add.commute)
  then show ?thesis
    using ok assms(2) rc(1) upd h by (auto simp: handles_ok_def)
qed

lemma handles_ok_remove:
  assumes ok: "handles_ok q H" and id: "queue_id q' = queue_id q" and mem: "h \<in># H"
    and n: "ri_node h = Node n" and rc: "counts q n = Some rc" and upd: "counts q' = (counts q)(n \<mapsto> rc - 1)"
  shows "handles_ok q' (H - {#h#})"
proof -
  have h: "h = \<lparr>ri_queue = queue_id q, ri_node = Node n\<rparr>"
    using handles_okD(2) [OF ok mem] n by auto
  have cnt: "unat rc = count H h"
    using handles_okD(1) [OF ok rc] h by simp
  then have "rc \<noteq> 0"
    using mem by (auto simp: count_eq_zero_iff)
  then have "unat (rc - 1) = count H h - 1"
    using cnt by (simp add: unat_minus_one)
  then show ?thesis
    using ok id upd h by (auto simp: handles_ok_def dest!: in_diffD)
qed

lemma handles_ok_poll:
  assumes ok: "handles_ok q H" and id: "queue_id q' = queue_id q"
    and upd: "counts q' = (\<lambda>n. if counts q n = Some 0 then None else counts q n)"
  shows "handles_ok q' H"
proof -
  have "\<exists>n \<in> dom (counts q'). h = \<lparr>ri_queue = queue_id q', ri_node = Node n\<rparr>" if "h \<in># H" for h
    using handles_ok_nz [OF ok that] id upd by (metis (no_types, lifting) domI option.inject)
  then show ?thesis
    using handles_okD(1) [OF ok] id upd by (auto simp: handles_ok_def split: if_splits)
qed

lemma qs_handles_upd [simp]:
  "qs_handles (s\<lparr>qs_queue := q\<rparr>) = qs_handles s"
  "qs_handles (s\<lparr>qs_queue := q, qs_set_readiness := S\<rparr>) = qs_registrations s + S"
  "qs_handles (s\<lparr>qs_queue := q, qs_registrations := R\<rparr>) = R + qs_set_readiness s"
  "qs_handles (s\<lparr>qs_queue := q, qs_registrations := R, qs_set_readiness := S\<rparr>) = R + S"
  by (simp_all add: qs_handles_def)

lemma qs_handles_mem:
  "h \<in># qs_set_readiness s \<Longrightarrow> h \<in># qs_handles s" "h \<in># qs_registrations s \<Longrightarrow> h \<in># qs_handles s"
  by (simp_all add: qs_handles_def)

lemma inner_clone_guard:
  assumes "inner_clone q h = Some (h', q')" and "ri_node h = Node n"
  shows "\<exists>rc. counts q n = Some rc \<and> rc AND NOT MAX_REFCOUNT = 0"
  using assms by (auto simp: inner_clone_def counts_def ready_ref_as_ref_def Option.bind_eq_Some_conv
      split: if_splits)

lemma qs_ok_clone:
  assumes ok: "qs_ok s" and h: "h \<in># qs_set_readiness s" and run: "set_readiness_clone (qs_queue s) h = Some (h', q')"
  shows "qs_ok (s\<lparr>qs_queue := q', qs_set_readiness := add_mset h' (qs_set_readiness s)\<rparr>)"
proof -
  obtain n rc where n: "counts (qs_queue s) n = Some rc" "h = \<lparr>ri_queue = queue_id (qs_queue s), ri_node = Node n\<rparr>"
    using ok h qs_handles_mem(1) handles_ok_nz unfolding qs_ok_def by metis
  have guard: "rc AND NOT MAX_REFCOUNT = 0"
    using inner_clone_guard [of "qs_queue s" h h' q' n] run n by (simp add: set_readiness_clone_def)
  obtain q'' where q'': "inner_clone (qs_queue s) h = Some (h, q'')" "queue_wf q''"
    "queue_id q'' = queue_id (qs_queue s)" "counts q'' = (counts (qs_queue s))(n \<mapsto> rc + 1)"
    using queue_wf_clone [OF _ _ _ n(1) guard, of h] ok n(2)
      handles_ok_live [OF _ qs_handles_mem(1) [OF h]] by (auto simp: qs_ok_def)
  then show ?thesis
    using run ok handles_ok_add [OF _ q''(3) n(1) max_refcount_not_max [OF guard] q''(4) n(2)]
    by (auto simp: qs_ok_def qs_handles_def set_readiness_clone_def)
qed

lemma qs_ok_drop:
  assumes ok: "qs_ok s"
  shows "h \<in># qs_set_readiness s \<Longrightarrow> set_readiness_drop wake (qs_queue s) h = Some q' \<Longrightarrow>
      qs_ok (s\<lparr>qs_queue := q', qs_set_readiness := qs_set_readiness s - {#h#}\<rparr>)"
    and "r \<in># qs_registrations s \<Longrightarrow> registration_drop wake (qs_queue s) r = Some q' \<Longrightarrow>
      qs_ok (s\<lparr>qs_queue := q', qs_registrations := qs_registrations s - {#r#}\<rparr>)"
proof -
  assume h: "h \<in># qs_set_readiness s" and run: "set_readiness_drop wake (qs_queue s) h = Some q'"
  have "qs_registrations s + (qs_set_readiness s - {#h#}) = qs_handles s - {#h#}" using h by (simp add: qs_handles_def)
  then show "qs_ok (s\<lparr>qs_queue := q', qs_set_readiness := qs_set_readiness s - {#h#}\<rparr>)"
    using queue_wf_drop [of "qs_queue s" h wake] ok handles_ok_live handles_ok_remove qs_handles_mem(1) [OF h] run
    by (fastforce simp: qs_ok_def qs_handles_def set_readiness_drop_def)
next
  assume r: "r \<in># qs_registrations s" and run: "registration_drop wake (qs_queue s) r = Some q'"
  have "qs_registrations s - {#r#} + qs_set_readiness s = qs_handles s - {#r#}" using r by (simp add: qs_handles_def)
  then show "qs_ok (s\<lparr>qs_queue := q', qs_registrations := qs_registrations s - {#r#}\<rparr>)"
    using queue_wf_registration_drop [of "qs_queue s" r wake] ok handles_ok_live handles_ok_remove qs_handles_mem(2) [OF r] run
    by (fastforce simp: qs_ok_def qs_handles_def)
qed

lemma queue_step_ok:
  assumes "queue_step wake s s'" and ok: "qs_ok s"
  shows "qs_ok s'"
  using assms(1)
proof cases
  case (step_new t i pr r h q')
  then show ?thesis
    using queue_wf_registration_new [of "qs_queue s" wake t i pr] ok
      handles_ok_new [of "qs_queue s" "qs_handles s" q']
    by (auto simp: qs_ok_def qs_handles_def)
next
  case (step_set h rdy res q')
  then show ?thesis
    using queue_wf_set_readiness [of "qs_queue s" h rdy wake] ok handles_ok_live qs_handles_mem(1)
      handles_ok_same [of "qs_queue s" "qs_handles s" q']
    by (fastforce simp: qs_ok_def)
next
  case (step_update r t i pr res q')
  then show ?thesis
    using queue_wf_update [of "qs_queue s" r t i pr] ok handles_ok_live qs_handles_mem(2)
      handles_ok_same [of "qs_queue s" "qs_handles s" q']
    by (fastforce simp: qs_ok_def registration_update_def)
next
  case (step_deregister r res q')
  then show ?thesis
    using queue_wf_update [of "qs_queue s" r "Token 0" ready_none pollopt_empty] ok handles_ok_live
      qs_handles_mem(2) handles_ok_same [of "qs_queue s" "qs_handles s" q']
    by (fastforce simp: qs_ok_def registration_deregister_def)
next
  case (step_clone h h' q')
  then show ?thesis using qs_ok_clone [OF ok step_clone(2,3)] by simp
next
  case (step_drop_set h q')
  then show ?thesis using qs_ok_drop(1) [OF ok step_drop_set(2,3)] by simp
next
  case (step_drop_reg r q')
  then show ?thesis using qs_ok_drop(2) [OF ok step_drop_reg(2,3)] by simp
next
  case step_sleep
  then show ?thesis
    using ok queue_wf_prepare_for_sleep [of "qs_queue s"]
      handles_ok_same [of "qs_queue s" "qs_handles s" "snd (prepare_for_sleep (qs_queue s))"]
    by (simp add: qs_ok_def)
next
  case (step_poll q' evs)
  then show ?thesis
    using queue_wf_poll [of "qs_queue s" "\<lambda>evs e. evs @ [e]" "[]"] ok
      handles_ok_poll [of "qs_queue s" "qs_handles s" q']
    by (auto simp: qs_ok_def)
qed

lemma queue_reachable_ok:
  assumes "queue_reachable wake qid w s"
  shows "qs_ok s"
  using assms[unfolded queue_reachable_def]
proof (induction rule: rtranclp_induct)
  case base
  show ?case
    by (auto simp: qs_ok_def qs_handles_def handles_ok_def counts_def)
      (simp add: readiness_queue_new_def)
next
  case (step s s')
  then show ?case by (blast intro: queue_step_ok)
qed

section \<open>Properties\<close>

lemma foldl_snoc: "foldl (\<lambda>evs e. evs @ [e]) acc es = acc @ es"
  by (induction es arbitrary: acc) simp_all

lemma polled_events_mem:
  "n \<in> set (aq_ready a) \<Longrightarrow> aq_nodes a n = Some nd \<Longrightarrow> delivers nd \<Longrightarrow>
     delivered_event nd \<in> set (polled_events a)"
  by (force simp: polled_events_def delivered_def)

lemma node_poll_events_no_drop:
  "\<not> event_is_drop rdy \<Longrightarrow> node_poll_events (nd\<lparr>node_events := event_as_usize rdy\<rparr>) =
     ready_bitand (node_interest nd) rdy"
  by (auto simp: node_poll_events_def node_interest_def event_is_drop_def rd.flags_contains rd.eq_iff
      rd.flags_simps ready_drop_def flags_of_numerals)

lemma abs_marked_node:
  "abs_wf a \<Longrightarrow> aq_nodes a n = Some nd \<Longrightarrow> node_queued nd' = node_queued nd \<Longrightarrow>
     n \<in> set (aq_ready (abs_marked a n nd')) \<and>
     aq_nodes (abs_marked a n nd') n = Some (nd'\<lparr>node_queued := NODE_QUEUED_FLAG\<rparr>)"
  using abs_wfD(4) [of a n nd] by (cases nd') (auto simp: abs_marked_def node_ok_def split: if_splits)

lemma abs_set_readiness_ready:
  assumes wf: "abs_wf a" and nd: "aq_nodes a n = Some nd" and ne: "\<not> event_is_empty rdy"
    and set: "abs_set_readiness wake a n rdy = Some (r, a')"
  shows "n \<in> set (aq_ready a')"
    and "aq_nodes a' n = Some (nd\<lparr>node_events := event_as_usize rdy, node_queued := NODE_QUEUED_FLAG\<rparr>)"
  using set ne abs_marked_node [OF wf nd, of "nd\<lparr>node_events := event_as_usize rdy\<rparr>"]
  by (auto simp: abs_set_readiness_eq [OF nd] abs_wakeup_def split: if_splits prod.splits)

text \<open>A concrete queue for the witnesses: one edge triggered registration for readable events with
  token 7, with and without a pending readiness, and an awakener that counts its wakeups.\<close>

definition wake_count :: "nat \<Rightarrow> unit io_result \<times> nat" where
  "wake_count w = (Inr (), Suc w)"

definition sample_node :: "usize \<Rightarrow> usize \<Rightarrow> readiness_node" where
  "sample_node evs queued =
     (readiness_node_new (Token 7) ready_readable pollopt_edge 2)\<lparr>node_events := evs, node_queued := queued\<rparr>"

definition sample_handle :: registration_inner where
  "sample_handle = \<lparr>ri_queue = 0, ri_node = Node 0\<rparr>"

definition sample_queue :: "node_ptr \<Rightarrow> readiness_node \<Rightarrow> nat readiness_queue" where
  "sample_queue p nd = \<lparr>queue_id = 0, awakener = 0, node_heap = [0 \<mapsto> nd], next_addr = 1,
     head_all_nodes = Some 0, head_readiness = p\<rparr>"

definition sample_abs :: "bool \<Rightarrow> nat list \<Rightarrow> readiness_node \<Rightarrow> nat abs_queue" where
  "sample_abs sl ns nd = \<lparr>aq_id = 0, aq_awakener = 0, aq_fresh = 1, aq_ready = ns, aq_sleep = sl,
     aq_nodes = [0 \<mapsto> nd]\<rparr>"

lemmas sample_defs = sample_node_def sample_handle_def sample_queue_def sample_abs_def
  readiness_node_new_def

lemma sample_rel:
  "queue_rel (sample_queue (Node 0) (sample_node e 1)) (sample_abs False [0] (sample_node e 1))"
  "queue_rel (sample_queue Null (sample_node e 0)) (sample_abs False [] (sample_node e 0))"
  "queue_rel (sample_queue SleepToken (sample_node e 0)) (sample_abs True [] (sample_node e 0))"
  by (auto simp: queue_rel_def sample_defs norm_head_def all_nodes_ok_def core_def fun_eq_iff
      intro!: exI [of _ "[0::nat]"])

lemma sample_wf:
  assumes "\<not> event_is_drop (event_from_usize e)"
  shows "abs_wf (sample_abs False [0] (sample_node e 1))" "abs_wf (sample_abs False [] (sample_node e 0))"
    "abs_wf (sample_abs True [] (sample_node e 0))"
  by (rule abs_wfI; use assms in \<open>auto simp: sample_defs node_ok_def NODE_QUEUED_FLAG_def split: if_splits\<close>)+

lemma sample_new:
  "registration_new wake_count (readiness_queue_new 0 0) (Token 7) ready_readable pollopt_edge =
     Some ((sample_handle, sample_handle), sample_queue Null (sample_node 0 0))"
  by (simp add: registration_new_def inner_new_def new_readiness_node_def readiness_queue_new_def
      inner_clone_def inner_drop_def ready_ref_as_ref_def ready_ref_modify_def sample_defs
      MAX_REFCOUNT_def Let_def)

lemma sample_handle_ok: "handle_ok (sample_queue p (sample_node e d)) sample_handle"
  by (simp add: handle_ok_def sample_defs)

lemma ready_not_drop: "\<not> event_is_drop ready_readable" "\<not> event_is_drop (event_from_usize 1)"
  by code_simp+

definition sample_system :: "nat queue_system" where
  "sample_system = \<lparr>qs_queue = sample_queue Null (sample_node 0 0),
      qs_registrations = {#sample_handle#}, qs_set_readiness = {#sample_handle#}\<rparr>"

lemma sample_reachable: "queue_reachable wake_count 0 0 sample_system"
  unfolding queue_reachable_def sample_system_def
  using step_new [of wake_count "\<lparr>qs_queue = readiness_queue_new 0 0, qs_registrations = {#},
      qs_set_readiness = {#}\<rparr>"] sample_new
  by (intro r_into_rtranclp) fastforce

text \<open>The same system after both handles have been dropped.\<close>

definition dropped_node :: readiness_node where
  "dropped_node = (sample_node 16 1)\<lparr>ref_count := 0,
     node_data := registration_data_new (Token 7) ready_none pollopt_empty\<rparr>"

definition dropped_system :: "nat queue_system" where
  "dropped_system = \<lparr>qs_queue = sample_queue (Node 0) dropped_node,
      qs_registrations = {#}, qs_set_readiness = {#}\<rparr>"

lemma sample_drops:
  "set_readiness_drop wake_count (sample_queue Null (sample_node 0 0)) sample_handle =
     Some (sample_queue Null ((sample_node 0 0)\<lparr>ref_count := 1\<rparr>))"
  "registration_drop wake_count (sample_queue Null ((sample_node 0 0)\<lparr>ref_count := 1\<rparr>)) sample_handle =
     Some (sample_queue (Node 0) dropped_node)"
  by (simp_all add: set_readiness_drop_def registration_drop_def inner_drop_def ready_ref_as_ref_def
      ready_ref_modify_def inner_set_readiness_def queue_for_processing_def prepend_readiness_node_def
      sample_defs dropped_node_def registration_data_disable_def registration_data_new_def
      NODE_QUEUED_FLAG_def event_as_usize_def ready_drop_def event_is_empty_def Let_def)

lemma dropped_reachable: "queue_reachable wake_count 0 0 dropped_system"
proof -
  let ?s = "sample_system\<lparr>qs_queue := sample_queue Null ((sample_node 0 0)\<lparr>ref_count := 1\<rparr>),
      qs_set_readiness := {#}\<rparr>"
  have "queue_step wake_count sample_system ?s"
    using step_drop_set [of sample_handle sample_system wake_count] sample_drops(1)
    by (fastforce simp: sample_system_def)
  moreover have "queue_step wake_count ?s dropped_system"
    using step_drop_reg [of sample_handle ?s wake_count] sample_drops(2)
    by (fastforce simp: sample_system_def dropped_system_def)
  ultimately show ?thesis
    using sample_reachable unfolding queue_reachable_def by auto
qed

text \<open>C1.  \<open>ReadinessQueue::poll\<close> implements the abstract queue.  On a well-formed queue it returns
  (it neither loops, panics nor touches a freed node); it pushes, in the order of the ready list, one
  event per ready node whose readiness meets its interest; level triggered nodes are queued again and
  all others leave the list; dropped nodes are freed; and the invariant holds again.\<close>

theorem queue_poll_refines:
  assumes "queue_rel q a" and "abs_wf a"
  shows "\<exists>q'. queue_poll push q dst = Some (q', foldl push dst (polled_events a)) \<and>
    queue_rel q' (abs_after_poll a) \<and> abs_wf (abs_after_poll a)"
  using queue_poll_abs [OF assms] abs_wf_after_poll [OF assms(2)] by metis

theorem queue_poll_refines_witness:
  "\<exists>q'. queue_poll (\<lambda>es e. es @ [e]) (sample_queue (Node 0) (sample_node 1 1)) [] =
      Some (q', [event_new ready_readable (Token 7)]) \<and> head_readiness q' = Null \<and>
    queue_rel q' (abs_after_poll (sample_abs False [0] (sample_node 1 1)))"
proof -
  have "polled_events (sample_abs False [0] (sample_node 1 1)) = [event_new ready_readable (Token 7)]"
    by code_simp
  moreover have "aq_ready (abs_after_poll (sample_abs False [0] (sample_node 1 1))) = []"
    by code_simp
  moreover have "\<not> aq_sleep (abs_after_poll (sample_abs False [0] (sample_node 1 1)))"
    by code_simp
  ultimately show ?thesis
    using queue_poll_refines [OF sample_rel(1) sample_wf(1) [OF ready_not_drop(2)], of "\<lambda>es e. es @ [e]" "[]"]
    by (auto simp: foldl_snoc queue_rel_def norm_head_def split: if_splits)
qed



text \<open>C3.  No leak and no early free: after a poll the allocated nodes of the queue are exactly the
  nodes some handle still refers to.\<close>

theorem poll_frees_unreferenced:
  assumes "queue_reachable wake qid w s" and "queue_poll (\<lambda>es e. es @ [e]) (qs_queue s) [] = Some (q', evs)"
  shows "dom (node_heap q') = {n. \<lparr>ri_queue = queue_id (qs_queue s), ri_node = Node n\<rparr> \<in># qs_handles s}"
proof -
  have wf: "queue_wf (qs_queue s)" and ok: "handles_ok (qs_queue s) (qs_handles s)"
    using queue_reachable_ok [OF assms(1)] by (simp_all add: qs_ok_def)
  have eq: "counts q' = (\<lambda>n. if counts (qs_queue s) n = Some 0 then None else counts (qs_queue s) n)"
    using queue_wf_poll [OF wf, of "\<lambda>es e. es @ [e]" "[]"] assms(2) by auto
  have "n \<in> dom (counts q') \<longleftrightarrow> \<lparr>ri_queue = queue_id (qs_queue s), ri_node = Node n\<rparr> \<in># qs_handles s" for n
  proof (cases "counts (qs_queue s) n")
    case None
    then show ?thesis using handles_okD(2) [OF ok] eq by fastforce
  next
    case (Some rc)
    have "rc = 0 \<longleftrightarrow> count (qs_handles s) \<lparr>ri_queue = queue_id (qs_queue s), ri_node = Node n\<rparr> = 0"
      using handles_okD(1) [OF ok Some] by (metis unat_eq_zero)
    then show ?thesis using Some eq by (auto simp: count_eq_zero_iff dom_def)
  qed
  moreover have "dom (counts q') = dom (node_heap q')"
    by (auto simp: counts_def)
  ultimately show ?thesis by blast
qed

theorem poll_frees_unreferenced_witness:
  "\<exists>q' evs. queue_poll (\<lambda>es e. es @ [e]) (qs_queue dropped_system) [] = Some (q', evs) \<and>
     dom (node_heap q') = {}"
proof -
  obtain q' evs where "queue_poll (\<lambda>es e. es @ [e]) (qs_queue dropped_system) [] = Some (q', evs)"
    using queue_wf_poll [of "qs_queue dropped_system"] queue_reachable_ok [OF dropped_reachable]
    by (fastforce simp: qs_ok_def)
  then show ?thesis
    using poll_frees_unreferenced [OF dropped_reachable] by (simp add: qs_handles_def dropped_system_def)
qed

text \<open>C4.  A readiness that is set reaches the next poll: \<open>SetReadiness::set_readiness\<close> followed by a
  poll delivers the event with the part of the readiness the registration is interested in and with the
  registration's token.\<close>

theorem set_readiness_then_poll:
  assumes "queue_wf q" and "handle_ok q ri" and "\<not> event_is_drop rdy"
    and "ready_ref_as_ref q (ri_node ri) = Some nd"
    and "\<not> ready_is_none (ready_bitand (node_interest nd) rdy)"
  shows "\<exists>r q1 q2 evs. inner_set_readiness wake q ri rdy = Some (r, q1) \<and>
    queue_poll (\<lambda>es e. es @ [e]) q1 [] = Some (q2, evs) \<and>
    event_new (ready_bitand (node_interest nd) rdy) (node_token nd) \<in> set evs"
proof -
  obtain a where rel: "queue_rel q a" and wf: "abs_wf a"
    using assms by (auto simp: queue_wf_def)
  obtain n nd0 where n: "ri_node ri = Node n" "aq_nodes a n = Some nd0" "ref_count nd0 \<noteq> 0"
    using handle_ok_abs [OF rel assms(2)] .
  have nd0: "nd0 = core nd"
    using lookup_rel [of Null "[]" q a n] rel assms(4) n(1,2) by (simp add: queue_rel_at_Nil)
  obtain r a' where a': "abs_set_readiness wake a n rdy = Some (r, a')" "abs_wf a'"
    using abs_wf_set_readiness [OF wf n(2) assms(3) n(3)] by blast
  obtain q1 where q1: "inner_set_readiness wake q ri rdy = Some (r, q1)" and rel1: "queue_rel q1 a'"
    by (rule set_readiness_abs [OF rel wf n(1) a'(1)])
  obtain q2 where q2: "queue_poll (\<lambda>es e. es @ [e]) q1 [] = Some (q2, polled_events a')"
    using queue_poll_abs [OF rel1 a'(2), of "\<lambda>es e. es @ [e]" "[]"] by (metis foldl_snoc append_Nil)
  let ?nd = "nd0\<lparr>node_events := event_as_usize rdy, node_queued := NODE_QUEUED_FLAG\<rparr>"
  have evts: "node_poll_events ?nd = ready_bitand (node_interest nd) rdy" "node_token ?nd = node_token nd"
    using node_poll_events_no_drop [OF assms(3), of nd0] nd0
    by (simp_all add: node_poll_events_def node_interest_def node_token_def)
  have "\<not> event_is_empty rdy"
    using assms(5) by (auto simp: event_is_empty_iff ready_is_none_def rd.eq_iff rd.flags_simps)
  then have "delivered_event ?nd \<in> set (polled_events a')"
    using polled_events_mem [OF abs_set_readiness_ready [OF wf n(2) _ a'(1)]] evts(1) assms(3,5)
      poll_events_drop [of ?nd] by (simp add: delivers_def)
  then show ?thesis
    using q1 q2 evts by (auto simp: delivered_event_def)
qed

theorem set_readiness_then_poll_witness:
  "\<exists>r q1 q2 evs.
    inner_set_readiness wake_count (sample_queue SleepToken (sample_node 0 0)) sample_handle ready_readable = Some (r, q1) \<and>
    queue_poll (\<lambda>es e. es @ [e]) q1 [] = Some (q2, evs) \<and>
    event_new ready_readable (Token 7) \<in> set evs"
proof -
  have "ready_bitand (node_interest (sample_node 0 0)) ready_readable = ready_readable"
    "node_token (sample_node 0 0) = Token 7" "\<not> ready_is_none ready_readable"
    by code_simp+
  then show ?thesis
    using set_readiness_then_poll [OF queue_wfI [OF sample_rel(3) sample_wf(3)] sample_handle_ok
        ready_not_drop(1), of 0 "sample_node 0 0" wake_count]
    by (simp add: sample_handle_def sample_queue_def ready_ref_as_ref_def)
qed

text \<open>A sleeping poller is woken exactly when it has to be: setting a nonempty readiness calls the
  awakener once if the poller has announced sleep, takes the announcement back, and hands the
  awakener's result to the caller; in every other case the awakener is left alone.\<close>

lemma set_readiness_wakes_sleeper:
  assumes "queue_wf q" and "handle_ok q ri" and "\<not> event_is_drop rdy"
    and "inner_set_readiness wake q ri rdy = Some (r, q')"
  shows "if head_readiness q = SleepToken \<and> \<not> event_is_empty rdy
    then (r, awakener q') = wake (awakener q) \<and> head_readiness q' = ri_node ri
    else r = Inr () \<and> awakener q' = awakener q \<and>
      (head_readiness q' = SleepToken \<longleftrightarrow> head_readiness q = SleepToken)"
proof -
  obtain a where rel: "queue_rel q a" and wf: "abs_wf a"
    using assms by (auto simp: queue_wf_def)
  obtain n nd where n: "ri_node ri = Node n" "aq_nodes a n = Some nd" "ref_count nd \<noteq> 0"
    using handle_ok_abs [OF rel assms(2)] .
  obtain a' where a': "abs_set_readiness wake a n rdy = Some (r, a')"
    using set_readiness_rel [OF rel abs_wf_queued_sound [OF wf] n(1), of wake rdy] assms(4)
    by (auto simp: rel_option_Some1)
  obtain q'' where "inner_set_readiness wake q ri rdy = Some (r, q'')" and rel': "queue_rel q'' a'"
    by (rule set_readiness_abs [OF rel wf n(1) a'])
  then have rel': "queue_rel q' a'" using assms(4) by simp
  have unqueued: "node_queued nd = 0" if "aq_sleep a"
    using abs_wf_queued_iff [OF wf n(2)] abs_wfD(3) [OF wf that] by simp
  show ?thesis
    using a' n(1) rel rel' unqueued
    by (auto simp: abs_set_readiness_eq [OF n(2)] abs_wakeup_def abs_marked_def queue_rel_def norm_head_def
        split: if_splits prod.splits)
qed

text \<open>C5.  The trigger modes.  A poll leaves the readiness and the count of a referenced node alone and
  delivers its event if it is queued with a readiness that meets its interest.  Afterwards a level
  triggered node with such a readiness is still queued, an edge triggered one is not; a one-shot node
  that delivered has lost its interest and options, every other node keeps its registration data.\<close>

theorem poll_trigger_modes:
  assumes "queue_wf q" and "node_heap q n = Some nd" and "ref_count nd \<noteq> 0"
  shows "\<exists>q' evs nd'. queue_poll (\<lambda>es e. es @ [e]) q [] = Some (q', evs) \<and> node_heap q' n = Some nd' \<and>
    node_events nd' = node_events nd \<and> ref_count nd' = ref_count nd \<and>
    node_queued nd' = (if node_queued nd \<noteq> 0 \<and> \<not> pollopt_is_edge (node_poll_opts nd) \<and>
      node_poll_events nd \<noteq> ready_none then NODE_QUEUED_FLAG else 0) \<and>
    node_data nd' = (if node_queued nd \<noteq> 0 \<and> \<not> ready_is_none (node_poll_events nd) \<and>
      pollopt_is_oneshot (node_poll_opts nd) then registration_data_disable (node_data nd) else node_data nd) \<and>
    (node_queued nd \<noteq> 0 \<and> \<not> ready_is_none (node_poll_events nd) \<longrightarrow>
      event_new (node_poll_events nd) (node_token nd) \<in> set evs)"
proof -
  obtain a where rel: "queue_rel q a" and wf: "abs_wf a"
    using assms by (auto simp: queue_wf_def)
  obtain q' where q': "queue_poll (\<lambda>es e. es @ [e]) q [] = Some (q', polled_events a)"
    and rel': "queue_rel q' (abs_after_poll a)"
    using queue_poll_abs [OF rel wf, of "\<lambda>es e. es @ [e]" "[]"] by (metis foldl_snoc append_Nil)
  have nd: "aq_nodes a n = Some (core nd)"
    using rel assms(2) by (simp add: queue_rel_def)
  have ok: "node_ok (aq_ready a) n (core nd)" using abs_wfD(4) [OF wf nd] .
  then have queued: "node_queued nd \<noteq> 0 \<longleftrightarrow> n \<in> set (aq_ready a)"
    and drop: "\<not> event_is_drop (node_poll_events nd)"
    and flag: "node_queued nd \<noteq> 0 \<Longrightarrow> node_queued nd = NODE_QUEUED_FLAG"
    using assms(3) poll_events_drop [of nd] by (auto simp: node_ok_def split: if_splits)
  have "aq_nodes (abs_after_poll a) n = (if node_queued nd \<noteq> 0 then node_after_poll (core nd) else Some (core nd))"
    using nd queued by (simp add: abs_after_poll_def nodes_after_def)
  moreover have "aq_nodes (abs_after_poll a) n = map_option core (node_heap q' n)"
    using rel' by (simp add: queue_rel_def)
  ultimately obtain nd' where nd': "node_heap q' n = Some nd'"
    and core: "core nd' = (if node_queued nd \<noteq> 0 then the (node_after_poll (core nd)) else core nd)"
    using drop by (auto simp: node_after_poll_def split: if_splits)
  have "node_events nd' = node_events nd" "ref_count nd' = ref_count nd"
    using arg_cong [OF core, of node_events] arg_cong [OF core, of ref_count] drop
    by (auto simp: node_after_poll_def Let_def split: if_splits)
  moreover have "node_queued nd' = (if node_queued nd \<noteq> 0 \<and> \<not> pollopt_is_edge (node_poll_opts nd) \<and>
      node_poll_events nd \<noteq> ready_none then NODE_QUEUED_FLAG else 0)"
    using arg_cong [OF core, of node_queued] drop flag
    by (simp add: node_after_poll_def stays_queued_def event_is_empty_iff Let_def split: if_splits)
  moreover have "node_data nd' = (if node_queued nd \<noteq> 0 \<and> \<not> ready_is_none (node_poll_events nd) \<and>
      pollopt_is_oneshot (node_poll_opts nd) then registration_data_disable (node_data nd) else node_data nd)"
    using arg_cong [OF core, of node_data] drop
    by (simp add: node_after_poll_def delivers_def Let_def split: if_splits)
  moreover have "event_new (node_poll_events nd) (node_token nd) \<in> set (polled_events a)"
    if "node_queued nd \<noteq> 0" "\<not> ready_is_none (node_poll_events nd)"
    using polled_events_mem [OF _ nd] that queued drop by (simp add: delivers_def delivered_event_def)
  ultimately show ?thesis
    using q' nd' by blast
qed

theorem poll_trigger_modes_witness:
  "\<exists>q' evs nd'. queue_poll (\<lambda>es e. es @ [e]) (sample_queue (Node 0) (sample_node 1 1)) [] = Some (q', evs) \<and>
    node_heap q' 0 = Some nd' \<and> node_queued nd' = 0 \<and> event_new ready_readable (Token 7) \<in> set evs"
proof -
  have "pollopt_is_edge (node_poll_opts (sample_node 1 1))" "\<not> ready_is_none (node_poll_events (sample_node 1 1))"
    "node_poll_events (sample_node 1 1) = ready_readable" "node_token (sample_node 1 1) = Token 7"
    "node_queued (sample_node 1 1) \<noteq> 0" "ref_count (sample_node 1 1) \<noteq> 0"
    by code_simp+
  moreover have "node_heap (sample_queue (Node 0) (sample_node 1 1)) 0 = Some (sample_node 1 1)"
    by (simp add: sample_queue_def)
  ultimately show ?thesis
    using poll_trigger_modes [OF queue_wfI [OF sample_rel(1) sample_wf(1) [OF ready_not_drop(2)]],
        of 0 "sample_node 1 1"] by auto
qed

end
