(* ===== verification/Mio_Convert.thy ===== *)
theory Mio_Convert
  imports Mio_Prelude
begin

text \<open>
  Durations and their conversion to milliseconds (the module \<open>convert\<close> of \<open>src/lib.rs\<close>), the
  interfaces of the third-party containers the crate stores its state in, and bounds-checked
  indexing of vectors.  A \<open>Duration\<close> of the standard library is a number of seconds and a number of
  nanoseconds below one second; a point of the monotonic clock is a number of nanoseconds.
\<close>

section \<open>Durations\<close>

record duration =
  dur_secs :: u64
  dur_nanos :: u32

type_synonym instant = int

definition duration_ok :: "duration \<Rightarrow> bool" where
  "duration_ok d \<longleftrightarrow> unat (dur_nanos d) < 10 ^ 9"

definition duration_nanos :: "duration \<Rightarrow> nat" where
  "duration_nanos d = unat (dur_secs d) * 10 ^ 9 + unat (dur_nanos d)"

definition duration_from_millis :: "u64 \<Rightarrow> duration" where
  "duration_from_millis m = \<lparr>dur_secs = m div 1000, dur_nanos = ucast (m mod 1000) * 1000000\<rparr>"

definition duration_of_nanos :: "int \<Rightarrow> duration" where
  "duration_of_nanos n = \<lparr>dur_secs = of_int (n div 10 ^ 9), dur_nanos = of_int (n mod 10 ^ 9)\<rparr>"

text \<open>\<open>Duration + Duration\<close> panics when the seconds overflow.\<close>

definition duration_add :: "duration \<Rightarrow> duration \<Rightarrow> duration option" where
  "duration_add a b =
     (let n = uint (dur_nanos a) + uint (dur_nanos b);
          s = uint (dur_secs a) + uint (dur_secs b) + n div 10 ^ 9
      in if s < 2 ^ 64 then Some \<lparr>dur_secs = of_int s, dur_nanos = of_int (n mod 10 ^ 9)\<rparr> else None)"

definition elapsed :: "instant \<Rightarrow> instant \<Rightarrow> duration" where
  "elapsed start now = duration_of_nanos (now - start)"

definition NANOS_PER_MILLI :: u32 where "NANOS_PER_MILLI = 1000000"

definition MILLIS_PER_SEC :: u64 where "MILLIS_PER_SEC = 1000"

definition millis :: "duration \<Rightarrow> u64" where
  "millis d =
     (let ms = (dur_nanos d + NANOS_PER_MILLI - 1) div NANOS_PER_MILLI
      in saturating_add (saturating_mul (dur_secs d) MILLIS_PER_SEC) (ucast ms))"

section \<open>Vectors\<close>

text \<open>\<open>v[i]\<close> and \<open>v[i] = x\<close>, which panic out of range.\<close>

definition vec_get :: "'a list \<Rightarrow> nat \<Rightarrow> 'a option" where
  "vec_get xs i = (if i < length xs then Some (xs ! i) else None)"

definition vec_set :: "'a list \<Rightarrow> nat \<Rightarrow> 'a \<Rightarrow> 'a list option" where
  "vec_set xs i x = (if i < length xs then Some (xs[i := x]) else None)"

lemma vec_simps [simp]:
  "i < length xs \<Longrightarrow> vec_get xs i = Some (xs ! i)"
  "i < length xs \<Longrightarrow> vec_set xs i x = Some (xs[i := x])"
  by (simp_all add: vec_get_def vec_set_def)

text \<open>\<open>usize::next_power_of_two\<close>; the overflow case panics.\<close>

definition next_power_of_two :: "usize \<Rightarrow> usize option" where
  "next_power_of_two n = map_option (\<lambda>k. 2 ^ k) (find (\<lambda>k. unat n \<le> 2 ^ k) [0..<64])"

section \<open>Third-party containers\<close>

text \<open>\<open>slab::Slab<T, Token>\<close>: a store of a fixed capacity that hands out tokens.  \<open>slab_insert\<close> fails
  when the slab is full; \<open>slab_set\<close> is an assignment through \<open>IndexMut\<close>.\<close>

record ('s, 'k, 'e) slab_ops =
  slab_with_capacity :: "usize \<Rightarrow> 's"
  slab_insert :: "'s \<Rightarrow> 'e \<Rightarrow> ('k \<times> 's) option"
  slab_get :: "'s \<Rightarrow> 'k \<Rightarrow> 'e option"
  slab_set :: "'s \<Rightarrow> 'k \<Rightarrow> 'e \<Rightarrow> 's"
  slab_remove :: "'s \<Rightarrow> 'k \<Rightarrow> 'e option \<times> 's"

text \<open>What the crate relies on: a slab is a finite map from tokens other than \<open>nil\<close> to entries, with a
  bound on the number of entries.  \<open>valid\<close> is the slab's own representation invariant.\<close>

record ('s, 'k, 'e) slab_view =
  slab_valid :: "'s \<Rightarrow> bool"
  slab_map :: "'s \<Rightarrow> 'k \<rightharpoonup> 'e"
  slab_cap :: "'s \<Rightarrow> nat"

definition slab_laws :: "('s, 'k, 'e) slab_ops \<Rightarrow> ('s, 'k, 'e) slab_view \<Rightarrow> 'k \<Rightarrow> bool" where
  "slab_laws sl v nil \<longleftrightarrow>
     (\<forall>c. slab_valid v (slab_with_capacity sl c) \<and> slab_map v (slab_with_capacity sl c) = Map.empty \<and>
        slab_cap v (slab_with_capacity sl c) = unat c) \<and>
     (\<forall>s. slab_valid v s \<longrightarrow> finite (dom (slab_map v s)) \<and> card (dom (slab_map v s)) \<le> slab_cap v s) \<and>
     (\<forall>s k. slab_valid v s \<longrightarrow> slab_get sl s k = slab_map v s k) \<and>
     (\<forall>s e k s'. slab_valid v s \<longrightarrow> slab_insert sl s e = Some (k, s') \<longrightarrow>
        slab_valid v s' \<and> slab_map v s k = None \<and> k \<noteq> nil \<and> slab_map v s' = (slab_map v s)(k \<mapsto> e) \<and>
        slab_cap v s' = slab_cap v s) \<and>
     (\<forall>s e. slab_valid v s \<longrightarrow> (slab_insert sl s e = None \<longleftrightarrow> card (dom (slab_map v s)) = slab_cap v s)) \<and>
     (\<forall>s k e. slab_valid v s \<longrightarrow> k \<in> dom (slab_map v s) \<longrightarrow>
        slab_valid v (slab_set sl s k e) \<and> slab_map v (slab_set sl s k e) = (slab_map v s)(k \<mapsto> e) \<and>
        slab_cap v (slab_set sl s k e) = slab_cap v s) \<and>
     (\<forall>s k. slab_valid v s \<longrightarrow> fst (slab_remove sl s k) = slab_map v s k \<and>
        slab_valid v (snd (slab_remove sl s k)) \<and>
        slab_map v (snd (slab_remove sl s k)) = (slab_map v s)(k := None) \<and>
        slab_cap v (snd (slab_remove sl s k)) = slab_cap v s)"

text \<open>\<open>lazycell::LazyCell<T>\<close>: empty at first, filled at most once; \<open>lazy_fill\<close> fails (\<open>None\<close>) on a
  filled cell.\<close>

record ('c, 'a) lazycell_ops =
  lazy_new :: 'c
  lazy_borrow :: "'c \<Rightarrow> 'a option"
  lazy_fill :: "'c \<Rightarrow> 'a \<Rightarrow> 'c option"

definition lazycell_laws :: "('c, 'a) lazycell_ops \<Rightarrow> bool" where
  "lazycell_laws lc \<longleftrightarrow> lazy_borrow lc (lazy_new lc) = None \<and>
     (\<forall>c v. case lazy_borrow lc c of
        None \<Rightarrow> (\<exists>c'. lazy_fill lc c v = Some c' \<and> lazy_borrow lc c' = Some v)
      | Some _ \<Rightarrow> lazy_fill lc c v = None)"

section \<open>Lemmas\<close>

lemma duration_ok_of_nanos [simp]: "duration_ok (duration_of_nanos n)"
proof -
  have "0 \<le> n mod 10 ^ 9" "n mod 10 ^ 9 < 10 ^ 9" by simp_all
  then have "uint (of_int (n mod 10 ^ 9) :: u32) < 10 ^ 9"
    by (subst uint_word_of_int) (simp add: mod_pos_pos_trivial)
  then have "int (unat (of_int (n mod 10 ^ 9) :: u32)) < int (10 ^ 9)" by simp
  then show ?thesis
    unfolding of_nat_less_iff by (simp add: duration_ok_def duration_of_nanos_def)
qed

lemma unat_millis:
  assumes "duration_ok d"
  shows "unat (millis d) = min ((duration_nanos d + 999999) div 1000000) (2 ^ 64 - 1)"
proof -
  let ?n = "unat (dur_nanos d)"
  have n: "?n < 10 ^ 9" using assms by (simp add: duration_ok_def)
  then have "unat (dur_nanos d + NANOS_PER_MILLI - 1) = ?n + 999999"
    by (simp add: NANOS_PER_MILLI_def unat_word_ariths)
  then have ms: "unat ((dur_nanos d + NANOS_PER_MILLI - 1) div NANOS_PER_MILLI) = (?n + 999999) div 1000000"
    by (simp add: unat_div NANOS_PER_MILLI_def)
  have "unat (ucast ((dur_nanos d + NANOS_PER_MILLI - 1) div NANOS_PER_MILLI) :: u64) =
      (?n + 999999) div 1000000"
    using ms n by (simp add: unsigned_ucast_eq take_bit_eq_mod)
  moreover have "(duration_nanos d + 999999) div 1000000 = unat (dur_secs d) * 1000 + (?n + 999999) div 1000000"
    by (simp add: duration_nanos_def)
  ultimately show ?thesis
    by (simp add: millis_def Let_def unat_saturating_add unat_saturating_mul MILLIS_PER_SEC_def)
qed

lemma find_upt_pow2:
  fixes n :: nat
  assumes "find (\<lambda>k. n \<le> 2 ^ k) [0..<m] = Some k"
  shows "k < m" and "n \<le> 2 ^ k" and "\<forall>j < k. 2 ^ j < n"
  using assms by (auto simp: find_Some_iff not_le)

lemma next_power_of_two_Some:
  assumes "next_power_of_two n = Some p"
  shows "unat n \<le> unat p" and "\<exists>k < 64. p = 2 ^ k" and "0 < unat p"
proof -
  obtain k where k: "find (\<lambda>k. unat n \<le> 2 ^ k) [0..<64] = Some k" and p: "p = 2 ^ k"
    using assms by (auto simp: next_power_of_two_def)
  note f = find_upt_pow2 [OF k]
  show "\<exists>k < 64. p = 2 ^ k" using f(1) p by blast
  have "(2::nat) ^ k < 2 ^ 64" using f(1) by (intro power_strict_increasing) simp_all
  then have "unat (of_nat (2 ^ k) :: usize) = 2 ^ k" by (subst unat_of_nat) simp
  then have "unat p = 2 ^ k" using p by simp
  then show "unat n \<le> unat p" "0 < unat p" using f(2) by simp_all
qed

lemma next_power_of_two_small:
  assumes "unat n \<le> 2 ^ 63"
  shows "\<exists>p. next_power_of_two n = Some p"
proof -
  have "\<exists>k \<in> set [0..<64]. unat n \<le> 2 ^ k"
    using assms by (intro bexI [of _ 63]) simp_all
  then show ?thesis
    by (cases "find (\<lambda>k. unat n \<le> 2 ^ k) [0..<64]") (auto simp: next_power_of_two_def find_None_iff)
qed

end
