(* ===== verification/Mio_Timer.thy ===== *)
theory Mio_Timer
  imports Mio_Queue Mio_Convert
begin

text \<open>
  The hashed timer wheel of \<open>src/timer.rs\<close>.  Timeouts live in a slab; every slot of the wheel heads a
  doubly linked list threaded through the slab by tokens.  The slab (\<open>sl\<close>) and the lazy cell (\<open>lc\<close>)
  are third-party code and enter as records of operations.  An operation returns \<open>None\<close> where the
  code would panic: an index out of range, an absent slab entry, a division by a zero tick.

  What a registered timer shares with other threads is the \<open>timer_world\<close>: the readiness queue of its
  \<open>Poll\<close>, the atomic \<open>wakeup_state\<close>, the park token of the wakeup thread and that thread's own control
  state.  \<open>wake\<close> is the awakener of the platform, \<open>now\<close> the reading of the monotonic clock.
\<close>

section \<open>Data\<close>

record entry_links =
  lk_tick :: u64
  lk_prev :: token
  lk_next :: token

record 'a timer_entry =
  te_state :: 'a
  te_links :: entry_links

record wheel_entry =
  we_next_tick :: u64
  we_head :: token

record timeout =
  to_token :: token
  to_tick :: u64

record timer_inner =
  ti_registration :: registration_inner
  ti_set_readiness :: registration_inner

record ('s, 'c) timer =
  tm_tick_ms :: u64
  tm_entries :: 's
  tm_wheel :: "wheel_entry list"
  tm_start :: instant
  tm_tick :: u64
  tm_next :: token
  tm_mask :: u64
  tm_inner :: 'c

record timer_builder =
  tb_tick :: duration
  tb_num_slots :: usize
  tb_capacity :: usize

datatype timer_error = TimerOverflow

text \<open>The control state of the wakeup thread: about to read \<open>wakeup_state\<close>, at the
  head of its loop with the value of \<open>sleep_until_tick\<close>, parked (for a number of milliseconds, or
  without limit), before the compare-and-swap, before setting the readiness, returned.\<close>

datatype wakeup_pc = WRead | WLoop u64 | WParked "u64 option" | WCas u64 | WSet | WDone

record 'w timer_world =
  tw_queue :: "'w readiness_queue"
  tw_wakeup_state :: usize
  tw_unparked :: bool
  tw_thread :: "wakeup_pc option"

definition TICK_MAX :: u64 where "TICK_MAX = - 1"

definition TERMINATE_THREAD :: usize where "TERMINATE_THREAD = 0"

definition EMPTY :: token where "EMPTY = Token (- 1)"

definition timer_error_desc :: "timer_error \<Rightarrow> string" where
  "timer_error_desc e = (case e of TimerOverflow \<Rightarrow> ''too many timer entries'')"

definition timer_error_fmt :: "timer_error \<Rightarrow> string" where
  "timer_error_fmt e = (case e of TimerOverflow \<Rightarrow> ''TimerOverflow'') @ '': '' @ timer_error_desc e"

section \<open>Ticks\<close>

definition duration_to_tick :: "duration \<Rightarrow> u64 \<Rightarrow> u64 option" where
  "duration_to_tick d tick_ms =
     (if tick_ms = 0 then None
      else Some (saturating_add (millis d) (tick_ms div 2) div tick_ms))"

definition current_tick :: "instant \<Rightarrow> instant \<Rightarrow> u64 \<Rightarrow> u64 option" where
  "current_tick start now tick_ms = duration_to_tick (elapsed start now) tick_ms"

section \<open>Construction\<close>

definition entry_new :: "'a \<Rightarrow> u64 \<Rightarrow> token \<Rightarrow> 'a timer_entry" where
  "entry_new state tick nxt =
     \<lparr>te_state = state, te_links = \<lparr>lk_tick = tick, lk_prev = EMPTY, lk_next = nxt\<rparr>\<rparr>"

definition timer_new ::
  "('s, token, 'a timer_entry) slab_ops \<Rightarrow> ('c, timer_inner) lazycell_ops \<Rightarrow>
     u64 \<Rightarrow> usize \<Rightarrow> usize \<Rightarrow> instant \<Rightarrow> ('s, 'c) timer option" where
  "timer_new sl lc tick_ms num_slots capacity start = do {
     num_slots \<leftarrow> next_power_of_two num_slots;
     capacity \<leftarrow> next_power_of_two capacity;
     Some \<lparr>tm_tick_ms = tick_ms, tm_entries = slab_with_capacity sl capacity,
           tm_wheel = replicate (unat num_slots) \<lparr>we_next_tick = TICK_MAX, we_head = EMPTY\<rparr>,
           tm_start = start, tm_tick = 0, tm_next = EMPTY, tm_mask = num_slots - 1,
           tm_inner = lazy_new lc\<rparr> }"

definition builder_tick_duration :: "duration \<Rightarrow> timer_builder \<Rightarrow> timer_builder" where
  "builder_tick_duration d b = b\<lparr>tb_tick := d\<rparr>"

definition builder_num_slots :: "usize \<Rightarrow> timer_builder \<Rightarrow> timer_builder" where
  "builder_num_slots n b = b\<lparr>tb_num_slots := n\<rparr>"

definition builder_capacity :: "usize \<Rightarrow> timer_builder \<Rightarrow> timer_builder" where
  "builder_capacity n b = b\<lparr>tb_capacity := n\<rparr>"

definition builder_default :: timer_builder where
  "builder_default =
     \<lparr>tb_tick = duration_from_millis 100, tb_num_slots = 256, tb_capacity = 65536\<rparr>"

definition builder_build ::
  "('s, token, 'a timer_entry) slab_ops \<Rightarrow> ('c, timer_inner) lazycell_ops \<Rightarrow> instant \<Rightarrow>
     timer_builder \<Rightarrow> ('s, 'c) timer option" where
  "builder_build sl lc now b =
     timer_new sl lc (millis (tb_tick b)) (tb_num_slots b) (tb_capacity b) now"

definition timer_default ::
  "('s, token, 'a timer_entry) slab_ops \<Rightarrow> ('c, timer_inner) lazycell_ops \<Rightarrow> instant \<Rightarrow>
     ('s, 'c) timer option" where
  "timer_default sl lc now = builder_build sl lc now builder_default"

section \<open>The wheel\<close>

definition slot_for :: "('s, 'c) timer \<Rightarrow> u64 \<Rightarrow> nat" where
  "slot_for t tick = unat (tm_mask t AND tick)"

text \<open>\<open>self.entries[k]\<close> and an assignment to a field of its links; both panic on an absent entry.\<close>

definition get_links ::
  "('s, token, 'a timer_entry) slab_ops \<Rightarrow> ('s, 'c) timer \<Rightarrow> token \<Rightarrow> entry_links option" where
  "get_links sl t k = map_option te_links (slab_get sl (tm_entries t) k)"

definition update_links ::
  "('s, token, 'a timer_entry) slab_ops \<Rightarrow> (entry_links \<Rightarrow> entry_links) \<Rightarrow> token \<Rightarrow>
     ('s, 'c) timer \<Rightarrow> ('s, 'c) timer option" where
  "update_links sl f k t = map_option
     (\<lambda>e. t\<lparr>tm_entries := slab_set sl (tm_entries t) k (e\<lparr>te_links := f (te_links e)\<rparr>)\<rparr>)
     (slab_get sl (tm_entries t) k)"

definition update_wheel ::
  "nat \<Rightarrow> (wheel_entry \<Rightarrow> wheel_entry) \<Rightarrow> ('s, 'c) timer \<Rightarrow> ('s, 'c) timer option" where
  "update_wheel slot f t = do {
     we \<leftarrow> vec_get (tm_wheel t) slot;
     wh \<leftarrow> vec_set (tm_wheel t) slot (f we);
     Some (t\<lparr>tm_wheel := wh\<rparr>) }"

definition timer_unlink ::
  "('s, token, 'a timer_entry) slab_ops \<Rightarrow> entry_links \<Rightarrow> token \<Rightarrow> ('s, 'c) timer \<Rightarrow> ('s, 'c) timer option"
  where
  "timer_unlink sl links tok t = do {
     t1 \<leftarrow> (if lk_prev links = EMPTY
            then update_wheel (slot_for t (lk_tick links)) (\<lambda>we. we\<lparr>we_head := lk_next links\<rparr>) t
            else update_links sl (\<lambda>l. l\<lparr>lk_next := lk_next links\<rparr>) (lk_prev links) t);
     if lk_next links \<noteq> EMPTY then do {
       t2 \<leftarrow> update_links sl (\<lambda>l. l\<lparr>lk_prev := lk_prev links\<rparr>) (lk_next links) t1;
       Some (if tok = tm_next t2 then t2\<lparr>tm_next := lk_next links\<rparr> else t2) }
     else Some (if tok = tm_next t1 then t1\<lparr>tm_next := EMPTY\<rparr> else t1) }"

section \<open>Scheduling the readiness\<close>

text \<open>\<open>next_tick\<close>: the earliest tick the wheel knows of.\<close>

definition wheel_min :: "wheel_entry list \<Rightarrow> u64 option" where
  "wheel_min wh =
     (case map we_next_tick wh of [] \<Rightarrow> None | x # xs \<Rightarrow> Some (fold min xs x))"

definition timer_next_tick ::
  "('s, token, 'a timer_entry) slab_ops \<Rightarrow> ('s, 'c) timer \<Rightarrow> u64 option option" where
  "timer_next_tick sl t =
     (if tm_next t \<noteq> EMPTY then do {
        links \<leftarrow> get_links sl t (tm_next t);
        we \<leftarrow> vec_get (tm_wheel t) (slot_for t (lk_tick links));
        Some (if we_next_tick we = tm_tick t then Some (tm_tick t) else wheel_min (tm_wheel t)) }
      else Some (wheel_min (tm_wheel t)))"

text \<open>The loop around \<open>compare_and_swap\<close>: no other thread steps in between here, so it takes one
  round.\<close>

definition schedule_readiness ::
  "('c, timer_inner) lazycell_ops \<Rightarrow> ('s, 'c) timer \<Rightarrow> u64 \<Rightarrow> 'w timer_world \<Rightarrow> 'w timer_world" where
  "schedule_readiness lc t tick wd =
     (case lazy_borrow lc (tm_inner t) of
        None \<Rightarrow> wd
      | Some inner \<Rightarrow>
          if tw_wakeup_state wd \<le> tick then wd
          else wd\<lparr>tw_wakeup_state := tick, tw_unparked := True\<rparr>)"

section \<open>Timeouts\<close>

definition timer_insert ::
  "('s, token, 'a timer_entry) slab_ops \<Rightarrow> ('c, timer_inner) lazycell_ops \<Rightarrow> u64 \<Rightarrow> 'a \<Rightarrow>
     ('s, 'c) timer \<Rightarrow> 'w timer_world \<Rightarrow> ((timer_error + timeout) \<times> ('s, 'c) timer \<times> 'w timer_world) option"
  where
  "timer_insert sl lc tick state t wd = do {
     let slot = slot_for t tick;
     curr \<leftarrow> vec_get (tm_wheel t) slot;
     (case slab_insert sl (tm_entries t) (entry_new state tick (we_head curr)) of
        None \<Rightarrow> Some (Inl TimerOverflow, t, wd)
      | Some (tok, entries) \<Rightarrow> do {
          let t1 = t\<lparr>tm_entries := entries\<rparr>;
          t2 \<leftarrow> (if we_head curr \<noteq> EMPTY
                 then update_links sl (\<lambda>l. l\<lparr>lk_prev := tok\<rparr>) (we_head curr) t1
                 else Some t1);
          t3 \<leftarrow> update_wheel slot
                  (\<lambda>we. \<lparr>we_next_tick = min tick (we_next_tick curr), we_head = tok\<rparr>) t2;
          Some (Inr \<lparr>to_token = tok, to_tick = tick\<rparr>, t3, schedule_readiness lc t3 tick wd) }) }"

definition set_timeout_at ::
  "('s, token, 'a timer_entry) slab_ops \<Rightarrow> ('c, timer_inner) lazycell_ops \<Rightarrow> duration \<Rightarrow> 'a \<Rightarrow>
     ('s, 'c) timer \<Rightarrow> 'w timer_world \<Rightarrow> ((timer_error + timeout) \<times> ('s, 'c) timer \<times> 'w timer_world) option"
  where
  "set_timeout_at sl lc delay_from_start state t wd = do {
     tick \<leftarrow> duration_to_tick delay_from_start (tm_tick_ms t);
     timer_insert sl lc (if tick \<le> tm_tick t then tm_tick t + 1 else tick) state t wd }"

definition set_timeout ::
  "('s, token, 'a timer_entry) slab_ops \<Rightarrow> ('c, timer_inner) lazycell_ops \<Rightarrow> instant \<Rightarrow> duration \<Rightarrow> 'a \<Rightarrow>
     ('s, 'c) timer \<Rightarrow> 'w timer_world \<Rightarrow> ((timer_error + timeout) \<times> ('s, 'c) timer \<times> 'w timer_world) option"
  where
  "set_timeout sl lc now delay_from_now state t wd = do {
     delay_from_start \<leftarrow> duration_add (elapsed (tm_start t) now) delay_from_now;
     set_timeout_at sl lc delay_from_start state t wd }"

definition cancel_timeout ::
  "('s, token, 'a timer_entry) slab_ops \<Rightarrow> timeout \<Rightarrow> ('s, 'c) timer \<Rightarrow> ('a option \<times> ('s, 'c) timer) option"
  where
  "cancel_timeout sl to t =
     (case get_links sl t (to_token to) of
        None \<Rightarrow> Some (None, t)
      | Some links \<Rightarrow>
          if lk_tick links \<noteq> to_tick to then Some (None, t)
          else do {
            t1 \<leftarrow> timer_unlink sl links (to_token to) t;
            let (e, entries) = slab_remove sl (tm_entries t1) (to_token to);
            Some (map_option te_state e, t1\<lparr>tm_entries := entries\<rparr>) })"

text \<open>The loop of \<open>poll_to\<close>: \<open>Inr\<close> when it returns from inside, \<open>Inl\<close> when the condition fails.\<close>

partial_function (option) poll_to_loop ::
  "('s, token, 'a timer_entry) slab_ops \<Rightarrow> u64 \<Rightarrow> ('s, 'c) timer \<Rightarrow> ((unit + 'a option) \<times> ('s, 'c) timer) option"
  where
  "poll_to_loop sl target t =
     (if \<not> tm_tick t \<le> target then Some (Inl (), t)
      else if tm_next t = EMPTY then
        Option.bind (vec_get (tm_wheel t) (slot_for t (tm_tick t + 1))) (\<lambda>we.
        Option.bind (if we_head we = EMPTY
                     then update_wheel (slot_for t (tm_tick t + 1)) (\<lambda>we. we\<lparr>we_next_tick := TICK_MAX\<rparr>)
                            (t\<lparr>tm_tick := tm_tick t + 1, tm_next := we_head we\<rparr>)
                     else Some (t\<lparr>tm_tick := tm_tick t + 1, tm_next := we_head we\<rparr>)) (\<lambda>t1.
        poll_to_loop sl target t1))
      else
        Option.bind (vec_get (tm_wheel t) (slot_for t (tm_tick t))) (\<lambda>we.
        Option.bind (if tm_next t = we_head we
                     then update_wheel (slot_for t (tm_tick t)) (\<lambda>we. we\<lparr>we_next_tick := TICK_MAX\<rparr>) t
                     else Some t) (\<lambda>t1.
        Option.bind (get_links sl t1 (tm_next t)) (\<lambda>links.
          if lk_tick links \<le> tm_tick t1 then
            Option.bind (timer_unlink sl links (tm_next t) t1) (\<lambda>t2.
              Some (Inr (map_option te_state (fst (slab_remove sl (tm_entries t2) (tm_next t)))),
                    t2\<lparr>tm_entries := snd (slab_remove sl (tm_entries t2) (tm_next t))\<rparr>))
          else
            Option.bind (update_wheel (slot_for t (tm_tick t))
                           (\<lambda>we. we\<lparr>we_next_tick := min (we_next_tick we) (lk_tick links)\<rparr>) t1) (\<lambda>t2.
              poll_to_loop sl target (t2\<lparr>tm_next := lk_next links\<rparr>))))))"

declare poll_to_loop.simps [code]

text \<open>\<open>poll_to\<close>: after the loop a registered timer clears its readiness and schedules the next
  wakeup.\<close>

definition poll_to ::
  "('s, token, 'a timer_entry) slab_ops \<Rightarrow> ('c, timer_inner) lazycell_ops \<Rightarrow>
     ('w \<Rightarrow> unit io_result \<times> 'w) \<Rightarrow> u64 \<Rightarrow> ('s, 'c) timer \<Rightarrow> 'w timer_world \<Rightarrow>
     ('a option \<times> ('s, 'c) timer \<times> 'w timer_world) option" where
  "poll_to sl lc wake target_tick t wd = do {
     let target = (if target_tick < tm_tick t then tm_tick t else target_tick);
     (r, t1) \<leftarrow> poll_to_loop sl target t;
     (case r of
        Inr res \<Rightarrow> Some (res, t1, wd)
      | Inl _ \<Rightarrow>
          (case lazy_borrow lc (tm_inner t1) of
             None \<Rightarrow> Some (None, t1, wd)
           | Some inner \<Rightarrow> do {
               (_, q) \<leftarrow> inner_set_readiness wake (tw_queue wd) (ti_set_readiness inner) ready_none;
               let wd1 = wd\<lparr>tw_queue := q\<rparr>;
               nt \<leftarrow> timer_next_tick sl t1;
               Some (None, t1, (case nt of None \<Rightarrow> wd1 | Some tick \<Rightarrow> schedule_readiness lc t1 tick wd1)) })) }"

definition timer_poll ::
  "('s, token, 'a timer_entry) slab_ops \<Rightarrow> ('c, timer_inner) lazycell_ops \<Rightarrow>
     ('w \<Rightarrow> unit io_result \<times> 'w) \<Rightarrow> instant \<Rightarrow> ('s, 'c) timer \<Rightarrow> 'w timer_world \<Rightarrow>
     ('a option \<times> ('s, 'c) timer \<times> 'w timer_world) option" where
  "timer_poll sl lc wake now t wd = do {
     target_tick \<leftarrow> current_tick (tm_start t) now (tm_tick_ms t);
     poll_to sl lc wake target_tick t wd }"

section \<open>Registration with a poll\<close>

definition timer_register ::
  "('s, token, 'a timer_entry) slab_ops \<Rightarrow> ('c, timer_inner) lazycell_ops \<Rightarrow>
     ('w \<Rightarrow> unit io_result \<times> 'w) \<Rightarrow> token \<Rightarrow> ready \<Rightarrow> poll_opt \<Rightarrow> ('s, 'c) timer \<Rightarrow> 'w timer_world \<Rightarrow>
     (unit io_result \<times> ('s, 'c) timer \<times> 'w timer_world) option" where
  "timer_register sl lc wake tok interest opts t wd =
     (if lazy_borrow lc (tm_inner t) \<noteq> None then
        Some (Inl (CustomError Other ''timer already registered''), t, wd)
      else do {
        ((registration, set_readiness), q1) \<leftarrow> registration_new wake (tw_queue wd) tok interest opts;
        (_, q2) \<leftarrow> set_readiness_clone q1 set_readiness;
        let wd1 = wd\<lparr>tw_queue := q2, tw_wakeup_state := - 1, tw_unparked := False, tw_thread := Some WRead\<rparr>;
        inner \<leftarrow> lazy_fill lc (tm_inner t)
                  \<lparr>ti_registration = registration, ti_set_readiness = set_readiness\<rparr>;
        let t1 = t\<lparr>tm_inner := inner\<rparr>;
        nt \<leftarrow> timer_next_tick sl t1;
        Some (Inr (), t1,
              (case nt of None \<Rightarrow> wd1 | Some tick \<Rightarrow> schedule_readiness lc t1 tick wd1)) })"

definition timer_reregister ::
  "('c, timer_inner) lazycell_ops \<Rightarrow> token \<Rightarrow> ready \<Rightarrow> poll_opt \<Rightarrow> ('s, 'c) timer \<Rightarrow> 'w timer_world \<Rightarrow>
     (unit io_result \<times> 'w timer_world) option" where
  "timer_reregister lc tok interest opts t wd =
     (case lazy_borrow lc (tm_inner t) of
        Some inner \<Rightarrow> do {
          (r, q) \<leftarrow> registration_update (tw_queue wd) (ti_registration inner) tok interest opts;
          Some (r, wd\<lparr>tw_queue := q\<rparr>) }
      | None \<Rightarrow> Some (Inl (CustomError Other ''receiver not registered''), wd))"

definition timer_deregister ::
  "('c, timer_inner) lazycell_ops \<Rightarrow> ('s, 'c) timer \<Rightarrow> 'w timer_world \<Rightarrow> (unit io_result \<times> 'w timer_world) option"
  where
  "timer_deregister lc t wd =
     (case lazy_borrow lc (tm_inner t) of
        Some inner \<Rightarrow> do {
          (r, q) \<leftarrow> registration_deregister (tw_queue wd) (ti_registration inner);
          Some (r, wd\<lparr>tw_queue := q\<rparr>) }
      | None \<Rightarrow> Some (Inl (CustomError Other ''receiver not registered''), wd))"

section \<open>The wakeup thread\<close>

text \<open>One step of the thread: every read or write of shared state is a step of its own.  A parked
  thread may return at any time; it consumes the park token and goes on to read \<open>wakeup_state\<close>.  \<open>sr\<close> is
  the thread's own \<open>SetReadiness\<close>.\<close>

definition wakeup_thread_step ::
  "('w \<Rightarrow> unit io_result \<times> 'w) \<Rightarrow> registration_inner \<Rightarrow> instant \<Rightarrow> u64 \<Rightarrow> instant \<Rightarrow> wakeup_pc \<Rightarrow>
     'w timer_world \<Rightarrow> 'w timer_world option" where
  "wakeup_thread_step wake sr start tick_ms now pc wd =
     (case pc of
        WRead \<Rightarrow> Some (wd\<lparr>tw_thread := Some (WLoop (tw_wakeup_state wd))\<rparr>)
      | WLoop sleep_until_tick \<Rightarrow>
          if sleep_until_tick = TERMINATE_THREAD then Some (wd\<lparr>tw_thread := Some WDone\<rparr>)
          else do {
            now_tick \<leftarrow> current_tick start now tick_ms;
            if now_tick < sleep_until_tick
            then Some (wd\<lparr>tw_thread := Some (WParked (checked_mul tick_ms (sleep_until_tick - now_tick)))\<rparr>)
            else Some (wd\<lparr>tw_thread := Some (WCas sleep_until_tick)\<rparr>) }
      | WParked _ \<Rightarrow> Some (wd\<lparr>tw_unparked := False, tw_thread := Some WRead\<rparr>)
      | WCas sleep_until_tick \<Rightarrow>
          if tw_wakeup_state wd = sleep_until_tick
          then Some (wd\<lparr>tw_wakeup_state := - 1, tw_thread := Some WSet\<rparr>)
          else Some (wd\<lparr>tw_thread := Some (WLoop (tw_wakeup_state wd))\<rparr>)
      | WSet \<Rightarrow> do {
          (_, q) \<leftarrow> inner_set_readiness wake (tw_queue wd) sr ready_readable;
          Some (wd\<lparr>tw_queue := q, tw_thread := Some (WLoop (- 1))\<rparr>) }
      | WDone \<Rightarrow> Some wd)"

end
