(* ===== verification/Mio_Timer_Spec.thy ===== *)
theory Mio_Timer_Spec
  imports Mio_Timer
begin

text \<open>
  The invariant of the timer wheel and the abstract timer it implements: a map from tokens to pending
  timeouts (tick and state) together with the current tick.
\<close>

section \<open>Doubly linked slot lists\<close>

type_synonym 'a tmap = "token \<Rightarrow> 'a timer_entry option"

abbreviation e_tick :: "'a timer_entry \<Rightarrow> u64" where "e_tick e \<equiv> lk_tick (te_links e)"
abbreviation e_prev :: "'a timer_entry \<Rightarrow> token" where "e_prev e \<equiv> lk_prev (te_links e)"
abbreviation e_next :: "'a timer_entry \<Rightarrow> token" where "e_next e \<equiv> lk_next (te_links e)"

primrec tseg :: "'a tmap \<Rightarrow> token \<Rightarrow> token \<Rightarrow> token list \<Rightarrow> token \<Rightarrow> token \<Rightarrow> bool" where
  "tseg m pv p [] l q \<longleftrightarrow> p = q \<and> l = pv"
| "tseg m pv p (x # xs) l q \<longleftrightarrow> p = x \<and> x \<noteq> EMPTY \<and>
     (\<exists>e. m x = Some e \<and> e_prev e = pv \<and> tseg m x (e_next e) xs l q)"

definition upd_links :: "'a tmap \<Rightarrow> (entry_links \<Rightarrow> entry_links) \<Rightarrow> token \<Rightarrow> 'a tmap" where
  "upd_links m f k = m(k := map_option (\<lambda>e. e\<lparr>te_links := f (te_links e)\<rparr>) (m k))"

lemma tseg_append:
  "tseg m pv p (xs @ ys) l q \<longleftrightarrow> (\<exists>l' r. tseg m pv p xs l' r \<and> tseg m l' r ys l q)"
  by (induction xs arbitrary: pv p) auto

lemma tseg_upd_notin: "x \<notin> set xs \<Longrightarrow> tseg (m(x := v)) pv p xs l q \<longleftrightarrow> tseg m pv p xs l q"
  by (induction xs arbitrary: pv p) auto

lemma tseg_upd_links_notin:
  "x \<notin> set xs \<Longrightarrow> tseg (upd_links m f x) pv p xs l q \<longleftrightarrow> tseg m pv p xs l q"
  by (simp add: upd_links_def tseg_upd_notin)

lemma tseg_mem: "tseg m pv p xs l q \<Longrightarrow> x \<in> set xs \<Longrightarrow> x \<noteq> EMPTY \<and> x \<in> dom m"
  by (induction xs arbitrary: pv p) auto

lemma tseg_first: "tseg m pv p xs l q \<Longrightarrow> p = (if xs = [] then q else hd xs)"
  by (cases xs) auto

lemma tseg_last: "tseg m pv p xs l q \<Longrightarrow> l = (if xs = [] then pv else last xs)"
  by (induction xs arbitrary: pv p) auto

lemma tseg_set_prev:
  assumes "tseg m pv p (x # xs) l q" and "x \<notin> set xs"
  shows "tseg (upd_links m (\<lambda>k. k\<lparr>lk_prev := pv'\<rparr>) x) pv' p (x # xs) l q"
  using assms by (auto simp: tseg_upd_links_notin) (auto simp: upd_links_def)

lemma tseg_set_next:
  assumes "tseg m pv p (xs @ [x]) l q" and "x \<notin> set xs"
  shows "tseg (upd_links m (\<lambda>k. k\<lparr>lk_next := q'\<rparr>) x) pv p (xs @ [x]) l q'"
  using assms by (auto simp: tseg_append tseg_upd_links_notin) (auto simp: upd_links_def)

text \<open>Taking one element out of a list: the neighbours are linked to each other.\<close>

definition relink :: "'a tmap \<Rightarrow> entry_links \<Rightarrow> 'a tmap" where
  "relink m ln =
     (let m1 = (if lk_prev ln = EMPTY then m else upd_links m (\<lambda>k. k\<lparr>lk_next := lk_next ln\<rparr>) (lk_prev ln))
      in if lk_next ln = EMPTY then m1 else upd_links m1 (\<lambda>k. k\<lparr>lk_prev := lk_prev ln\<rparr>) (lk_next ln))"

lemma tseg_unlink_links:
  assumes "tseg m EMPTY p (xs @ k # ys) l EMPTY" and "m k = Some e"
  shows "e_prev e = (if xs = [] then EMPTY else last xs)" and "e_next e = (if ys = [] then EMPTY else hd ys)"
    and "e_prev e = EMPTY \<longleftrightarrow> xs = []" and "e_next e = EMPTY \<longleftrightarrow> ys = []"
proof -
  obtain l' r where seg: "tseg m EMPTY p xs l' r" "tseg m l' r (k # ys) l EMPTY"
    using assms(1) by (auto simp: tseg_append)
  then have "e_prev e = l'" "tseg m k (e_next e) ys l EMPTY"
    using assms(2) by auto
  then show pv: "e_prev e = (if xs = [] then EMPTY else last xs)"
    and nx: "e_next e = (if ys = [] then EMPTY else hd ys)"
    using tseg_last [OF seg(1)] tseg_first [of m k "e_next e" ys l EMPTY] by auto
  have "x \<noteq> EMPTY" if "x \<in> set (xs @ ys)" for x
    using tseg_mem [OF assms(1), of x] that by auto
  then show "e_prev e = EMPTY \<longleftrightarrow> xs = []" "e_next e = EMPTY \<longleftrightarrow> ys = []"
    using pv nx by auto
qed

lemma tseg_relink:
  assumes seg: "tseg m EMPTY p (xs @ k # ys) l EMPTY" and dist: "distinct (xs @ k # ys)" and k: "m k = Some e"
  shows "\<exists>l'. tseg (relink m (te_links e)) EMPTY (if xs = [] then e_next e else p) (xs @ ys) l' EMPTY"
proof -
  note ln = tseg_unlink_links [OF seg k]
  obtain l1 where s1: "tseg m EMPTY p xs l1 k" and s2: "tseg m k (e_next e) ys l EMPTY"
    using seg k by (auto simp: tseg_append)
  have l1: "l1 = e_prev e" using tseg_last [OF s1] ln(1) by simp
  let ?m1 = "if xs = [] then m else upd_links m (\<lambda>k. k\<lparr>lk_next := e_next e\<rparr>) (last xs)"
  have m1: "relink m (te_links e) =
      (if ys = [] then ?m1 else upd_links ?m1 (\<lambda>k. k\<lparr>lk_prev := e_prev e\<rparr>) (hd ys))"
    using ln by (simp add: relink_def)
  have s1': "tseg ?m1 EMPTY (if xs = [] then e_next e else p) xs l1 (e_next e)"
  proof (cases "xs = []")
    case False
    then obtain zs z where "xs = zs @ [z]" by (metis rev_exhaust)
    then show ?thesis using tseg_set_next [of m EMPTY p zs z l1 k] s1 dist by auto
  qed (use s1 in simp)
  have s2': "tseg ?m1 k (e_next e) ys l EMPTY"
    using s2 dist last_in_set [of xs] by (auto simp: tseg_upd_links_notin disjoint_iff)
  show ?thesis
  proof (cases ys)
    case Nil
    then show ?thesis using s1' m1 s2' by auto
  next
    case (Cons y zs)
    have "tseg (relink m (te_links e)) EMPTY (if xs = [] then e_next e else p) xs l1 (e_next e)"
      using s1' dist Cons m1 by (auto simp: tseg_upd_links_notin)
    moreover have "tseg (relink m (te_links e)) l1 (e_next e) ys l EMPTY"
      using s2' tseg_set_prev [of ?m1 k "e_next e" y zs l EMPTY "e_prev e"] dist Cons m1 l1 by simp
    ultimately show ?thesis unfolding tseg_append by blast
  qed
qed

text \<open>Relinking changes neither ticks nor states, and touches only members of the same list.\<close>

lemma upd_links_frame:
  assumes "\<And>l. lk_tick (f l) = lk_tick l"
  shows "map_option (\<lambda>e. (e_tick e, te_state e)) (upd_links m f k j) = map_option (\<lambda>e. (e_tick e, te_state e)) (m j)"
  using assms by (cases "m j") (auto simp: upd_links_def)

lemma relink_frame:
  "map_option (\<lambda>e. (e_tick e, te_state e)) (relink m ln j) = map_option (\<lambda>e. (e_tick e, te_state e)) (m j)"
  by (simp add: relink_def Let_def upd_links_frame)

lemma relink_other:
  "lk_prev ln \<notin> set zs \<Longrightarrow> lk_next ln \<notin> set zs \<Longrightarrow> tseg (relink m ln) pv p zs l q \<longleftrightarrow> tseg m pv p zs l q"
  by (simp add: relink_def Let_def tseg_upd_links_notin)

section \<open>The invariant\<close>

abbreviation ents :: "('s, token, 'a timer_entry) slab_view \<Rightarrow> ('s, 'c) timer \<Rightarrow> 'a tmap" where
  "ents v t \<equiv> slab_map v (tm_entries t)"

text \<open>What a client sees: the pending timeouts with their ticks and states.\<close>

definition pending :: "('s, token, 'a timer_entry) slab_view \<Rightarrow> ('s, 'c) timer \<Rightarrow> token \<rightharpoonup> u64 \<times> 'a" where
  "pending v t = (\<lambda>k. map_option (\<lambda>e. (e_tick e, te_state e)) (ents v t k))"

text \<open>The slot lists \<open>L\<close>: a token is in the list of a slot exactly if it is pending for a tick of that
  slot.\<close>

definition wheel_ok ::
  "('s, token, 'a timer_entry) slab_view \<Rightarrow> ('s, 'c) timer \<Rightarrow> (nat \<Rightarrow> token list) \<Rightarrow> bool" where
  "wheel_ok v t L \<longleftrightarrow> slab_valid v (tm_entries t) \<and> length (tm_wheel t) = Suc (unat (tm_mask t)) \<and>
     (\<forall>s < length (tm_wheel t).
        (\<exists>l. tseg (ents v t) EMPTY (we_head (tm_wheel t ! s)) (L s) l EMPTY) \<and> distinct (L s) \<and>
        (\<forall>k. k \<in> set (L s) \<longleftrightarrow> (\<exists>tk x. pending v t k = Some (tk, x) \<and> slot_for t tk = s)))"

text \<open>The cursor: \<open>post\<close> is the part of the current slot's list that has not been visited in this tick.
  No pending timeout lies in the past, and those of the current tick are still ahead of the cursor.\<close>

definition cursor_ok ::
  "('s, token, 'a timer_entry) slab_view \<Rightarrow> ('s, 'c) timer \<Rightarrow> (nat \<Rightarrow> token list) \<Rightarrow> token list \<Rightarrow> bool" where
  "cursor_ok v t L post \<longleftrightarrow> (\<exists>pre. L (slot_for t (tm_tick t)) = pre @ post) \<and>
     tm_next t = (if post = [] then EMPTY else hd post) \<and>
     (\<forall>k tk x. pending v t k = Some (tk, x) \<longrightarrow> tm_tick t \<le> tk \<and> (tk = tm_tick t \<longrightarrow> k \<in> set post))"

text \<open>The cached \<open>next_tick\<close> of a slot is a lower bound for every entry the cursor has passed.\<close>

definition bounds_ok ::
  "('s, token, 'a timer_entry) slab_view \<Rightarrow> ('s, 'c) timer \<Rightarrow> token list \<Rightarrow> bool" where
  "bounds_ok v t post \<longleftrightarrow> (\<forall>k tk x. pending v t k = Some (tk, x) \<longrightarrow> k \<notin> set post \<longrightarrow>
     we_next_tick (tm_wheel t ! slot_for t tk) \<le> tk)"

definition timer_inv ::
  "('s, token, 'a timer_entry) slab_view \<Rightarrow> ('s, 'c) timer \<Rightarrow> (nat \<Rightarrow> token list) \<Rightarrow> token list \<Rightarrow> bool" where
  "timer_inv v t L post \<longleftrightarrow> wheel_ok v t L \<and> cursor_ok v t L post \<and> bounds_ok v t post"

definition timer_wf :: "('s, token, 'a timer_entry) slab_view \<Rightarrow> ('s, 'c) timer \<Rightarrow> bool" where
  "timer_wf v t \<longleftrightarrow> (\<exists>L post. timer_inv v t L post)"

subsection \<open>Consequences of the slab laws\<close>

lemma slab_lawsD:
  assumes "slab_laws sl v nil" and "slab_valid v s"
  shows "slab_get sl s k = slab_map v s k"
    and "slab_insert sl s e = Some (k, s') \<Longrightarrow> slab_valid v s' \<and> slab_map v s k = None \<and> k \<noteq> nil \<and>
      slab_map v s' = (slab_map v s)(k \<mapsto> e) \<and> slab_cap v s' = slab_cap v s"
    and "slab_insert sl s e = None \<longleftrightarrow> card (dom (slab_map v s)) = slab_cap v s"
    and "k \<in> dom (slab_map v s) \<Longrightarrow> slab_valid v (slab_set sl s k e) \<and>
      slab_map v (slab_set sl s k e) = (slab_map v s)(k \<mapsto> e) \<and> slab_cap v (slab_set sl s k e) = slab_cap v s"
    and "fst (slab_remove sl s k) = slab_map v s k" and "slab_valid v (snd (slab_remove sl s k))"
    and "slab_map v (snd (slab_remove sl s k)) = (slab_map v s)(k := None)"
    and "finite (dom (slab_map v s))"
  using assms unfolding slab_laws_def by blast+

lemma update_links_map:
  assumes "slab_laws sl v nil" and "slab_valid v (tm_entries t)" and "k \<in> dom (ents v t)"
  obtains s' where "update_links sl f k t = Some (t\<lparr>tm_entries := s'\<rparr>)" and "slab_valid v s'"
    and "slab_map v s' = upd_links (ents v t) f k"
proof -
  obtain e where e: "ents v t k = Some e" using assms(3) by blast
  show thesis
    using that [of "slab_set sl (tm_entries t) k (e\<lparr>te_links := f (te_links e)\<rparr>)"]
      slab_lawsD(1,4) [OF assms(1,2)] assms(3) e
    by (simp add: update_links_def upd_links_def)
qed

lemma slot_for_less: "wheel_ok v t L \<Longrightarrow> slot_for t x < length (tm_wheel t)"
  by (simp add: wheel_ok_def slot_for_def word_and_le1 word_and_le2 less_Suc_eq_le word_le_nat_alt [symmetric])

lemma update_wheel_eq:
  "wheel_ok v t L \<Longrightarrow> update_wheel (slot_for t x) f t =
     Some (t\<lparr>tm_wheel := (tm_wheel t)[slot_for t x := f (tm_wheel t ! slot_for t x)]\<rparr>)"
  by (simp add: update_wheel_def slot_for_less)

lemma wheel_okD:
  assumes "wheel_ok v t L"
  shows "slab_valid v (tm_entries t)"
    and "\<exists>l. tseg (ents v t) EMPTY (we_head (tm_wheel t ! slot_for t x)) (L (slot_for t x)) l EMPTY"
    and "distinct (L (slot_for t x))"
    and "k \<in> set (L (slot_for t x)) \<longleftrightarrow>
      (\<exists>tk y. pending v t k = Some (tk, y) \<and> slot_for t tk = slot_for t x)"
  using assms slot_for_less [OF assms, of x] unfolding wheel_ok_def by blast+

lemma wheel_okI:
  assumes "slab_valid v (tm_entries t)" and "length (tm_wheel t) = Suc (unat (tm_mask t))"
    and "\<And>s. s < length (tm_wheel t) \<Longrightarrow>
      \<exists>l. tseg (ents v t) EMPTY (we_head (tm_wheel t ! s)) (L s) l EMPTY"
    and "\<And>s. s < length (tm_wheel t) \<Longrightarrow> distinct (L s)"
    and "\<And>s k. s < length (tm_wheel t) \<Longrightarrow>
      k \<in> set (L s) \<longleftrightarrow> (\<exists>tk x. pending v t k = Some (tk, x) \<and> slot_for t tk = s)"
  shows "wheel_ok v t L"
  using assms unfolding wheel_ok_def by blast

lemma pending_not_EMPTY:
  assumes ok: "wheel_ok v t L" and k: "pending v t k = Some (tk, x)"
  shows "k \<noteq> EMPTY"
proof -
  obtain l where "tseg (ents v t) EMPTY (we_head (tm_wheel t ! slot_for t tk)) (L (slot_for t tk)) l EMPTY"
    using wheel_okD(2) [OF ok] by blast
  moreover have "k \<in> set (L (slot_for t tk))" using wheel_okD(4) [OF ok] k by blast
  ultimately show ?thesis using tseg_mem by blast
qed

subsection \<open>Unlinking and removing a timeout\<close>

text \<open>The predecessor of the entry, or the slot, skips it.\<close>

lemma unlink_predecessor_link:
  assumes laws: "slab_laws sl v EMPTY" and ok: "wheel_ok v t L"
    and dom: "e_prev e \<noteq> EMPTY \<Longrightarrow> e_prev e \<in> dom (ents v t)"
  obtains s1 where "(if e_prev e = EMPTY
      then update_wheel (slot_for t (e_tick e)) (\<lambda>we. we\<lparr>we_head := e_next e\<rparr>) t
      else update_links sl (\<lambda>l. l\<lparr>lk_next := e_next e\<rparr>) (e_prev e) t) = Some (t\<lparr>tm_entries := s1, tm_wheel :=
        (if e_prev e = EMPTY
         then (tm_wheel t)[slot_for t (e_tick e) := (tm_wheel t ! slot_for t (e_tick e))\<lparr>we_head := e_next e\<rparr>]
         else tm_wheel t)\<rparr>)"
    and "slab_valid v s1"
    and "slab_map v s1 = (if e_prev e = EMPTY then ents v t else upd_links (ents v t) (\<lambda>k. k\<lparr>lk_next := e_next e\<rparr>) (e_prev e))"
proof (cases "e_prev e = EMPTY")
  case True
  then show thesis using that [of "tm_entries t"] update_wheel_eq [OF ok] wheel_okD(1) [OF ok] by simp
next
  case False
  obtain s' where "update_links sl (\<lambda>l. l\<lparr>lk_next := e_next e\<rparr>) (e_prev e) t = Some (t\<lparr>tm_entries := s'\<rparr>)"
    "slab_valid v s'" "slab_map v s' = upd_links (ents v t) (\<lambda>l. l\<lparr>lk_next := e_next e\<rparr>) (e_prev e)"
    by (rule update_links_map [OF laws wheel_okD(1) [OF ok] dom [OF False]])
  then show thesis using that [of s'] False by simp
qed

lemma timer_unlink_eq:
  assumes laws: "slab_laws sl v EMPTY" and ok: "wheel_ok v t L" and k: "ents v t k = Some e"
  obtains s' where "timer_unlink sl (te_links e) k t = Some (t\<lparr>tm_entries := s',
      tm_wheel := (if e_prev e = EMPTY
        then (tm_wheel t)[slot_for t (e_tick e) := (tm_wheel t ! slot_for t (e_tick e))\<lparr>we_head := e_next e\<rparr>]
        else tm_wheel t),
      tm_next := (if k = tm_next t then e_next e else tm_next t)\<rparr>)"
    and "slab_valid v s'" and "slab_map v s' = relink (ents v t) (te_links e)"
proof -
  have kL: "k \<in> set (L (slot_for t (e_tick e)))"
    using wheel_okD(4) [OF ok] k by (auto simp: pending_def)
  then obtain xs ys where L: "L (slot_for t (e_tick e)) = xs @ k # ys"
    by (auto simp: in_set_conv_decomp)
  obtain l where seg: "tseg (ents v t) EMPTY (we_head (tm_wheel t ! slot_for t (e_tick e))) (xs @ k # ys) l EMPTY"
    using wheel_okD(2) [OF ok, of "e_tick e"] L by auto
  note ln = tseg_unlink_links [OF seg k]
  have dom: "e_prev e \<noteq> EMPTY \<Longrightarrow> e_prev e \<in> dom (ents v t)" "e_next e \<noteq> EMPTY \<Longrightarrow> e_next e \<in> dom (ents v t)"
    using ln tseg_mem [OF seg, of "e_prev e"] tseg_mem [OF seg, of "e_next e"] by (auto split: if_splits)
  let ?w = "if e_prev e = EMPTY
    then (tm_wheel t)[slot_for t (e_tick e) := (tm_wheel t ! slot_for t (e_tick e))\<lparr>we_head := e_next e\<rparr>]
    else tm_wheel t"
  let ?m1 = "if e_prev e = EMPTY then ents v t else upd_links (ents v t) (\<lambda>k. k\<lparr>lk_next := e_next e\<rparr>) (e_prev e)"
  obtain s1 where s1: "(if e_prev e = EMPTY
      then update_wheel (slot_for t (e_tick e)) (\<lambda>we. we\<lparr>we_head := e_next e\<rparr>) t
      else update_links sl (\<lambda>l. l\<lparr>lk_next := e_next e\<rparr>) (e_prev e) t) = Some (t\<lparr>tm_entries := s1, tm_wheel := ?w\<rparr>)"
    and v1: "slab_valid v s1" and m1: "slab_map v s1 = ?m1"
    by (rule unlink_predecessor_link [OF laws ok dom(1)])
  let ?t1 = "t\<lparr>tm_entries := s1, tm_wheel := ?w\<rparr>"
  show thesis
  proof (cases "e_next e = EMPTY")
    case True
    then show thesis
      using that [of s1] s1 v1 m1 by (simp add: timer_unlink_def relink_def Let_def)
  next
    case False
    have "e_next e \<in> dom (ents v ?t1)"
      using dom(2) [OF False] m1 by (auto simp: upd_links_def)
    moreover have "slab_valid v (tm_entries ?t1)" using v1 by simp
    ultimately obtain s2 where
      s2: "update_links sl (\<lambda>l. l\<lparr>lk_prev := e_prev e\<rparr>) (e_next e) ?t1 = Some (?t1\<lparr>tm_entries := s2\<rparr>)"
      "slab_valid v s2" "slab_map v s2 = upd_links (ents v ?t1) (\<lambda>l. l\<lparr>lk_prev := e_prev e\<rparr>) (e_next e)"
      using update_links_map [OF laws] by blast
    have "slab_map v s2 = relink (ents v t) (te_links e)"
      using s2(3) False m1 by (simp add: relink_def Let_def)
    then show thesis
      using that [of s2] s1 s2(1,2) False by (simp add: timer_unlink_def)
  qed
qed

text \<open>The timer after the entry \<open>e\<close> at \<open>k\<close> has been unlinked and removed, with \<open>s'\<close> the new slab.\<close>

definition without ::
  "('s, 'c) timer \<Rightarrow> token \<Rightarrow> 'a timer_entry \<Rightarrow> 's \<Rightarrow> ('s, 'c) timer" where
  "without t k e s' = t\<lparr>tm_entries := s',
      tm_wheel := (if e_prev e = EMPTY
        then (tm_wheel t)[slot_for t (e_tick e) := (tm_wheel t ! slot_for t (e_tick e))\<lparr>we_head := e_next e\<rparr>]
        else tm_wheel t),
      tm_next := (if k = tm_next t then e_next e else tm_next t)\<rparr>"

lemma without_fields [simp]:
  "tm_entries (without t k e s') = s'" "tm_tick (without t k e s') = tm_tick t"
  "tm_mask (without t k e s') = tm_mask t" "tm_inner (without t k e s') = tm_inner t"
  "tm_tick_ms (without t k e s') = tm_tick_ms t" "tm_start (without t k e s') = tm_start t"
  "slot_for (without t k e s') = slot_for t" "length (tm_wheel (without t k e s')) = length (tm_wheel t)"
  by (simp_all add: without_def slot_for_def fun_eq_iff)

lemma without_next_tick [simp]:
  "slot_for t x < length (tm_wheel t) \<Longrightarrow>
     we_next_tick (tm_wheel (without t k e s') ! slot_for t x) = we_next_tick (tm_wheel t ! slot_for t x)"
  by (cases "slot_for t x = slot_for t (e_tick e)") (simp_all add: without_def)

lemma pending_without:
  assumes "slab_map v s' = (relink (ents v t) ln)(k := None)"
  shows "pending v (without t k e s') = (pending v t)(k := None)"
  using assms by (auto simp: pending_def relink_frame)

lemma wheel_ok_without:
  assumes ok: "wheel_ok v t L" and k: "ents v t k = Some e" and sv: "slab_valid v s'"
    and m': "slab_map v s' = (relink (ents v t) (te_links e))(k := None)"
  shows "wheel_ok v (without t k e s') (L(slot_for t (e_tick e) := remove1 k (L (slot_for t (e_tick e)))))"
proof -
  let ?s = "slot_for t (e_tick e)" and ?t = "without t k e s'"
  have "k \<in> set (L ?s)"
    using wheel_okD(4) [OF ok] k by (auto simp: pending_def)
  then obtain xs ys where L: "L ?s = xs @ k # ys"
    by (auto simp: in_set_conv_decomp)
  have dist: "distinct (xs @ k # ys)" using wheel_okD(3) [OF ok, of "e_tick e"] L by simp
  have rem: "remove1 k (L ?s) = xs @ ys" using L dist by (simp add: remove1_append)
  obtain l where seg: "tseg (ents v t) EMPTY (we_head (tm_wheel t ! ?s)) (xs @ k # ys) l EMPTY"
    using wheel_okD(2) [OF ok, of "e_tick e"] L by auto
  note ln = tseg_unlink_links [OF seg k]
  have head: "we_head (tm_wheel ?t ! ?s) = (if xs = [] then e_next e else we_head (tm_wheel t ! ?s))"
    using ln(3) slot_for_less [OF ok] by (simp add: without_def)
  have other: "tm_wheel ?t ! i = tm_wheel t ! i" if "i \<noteq> ?s" for i
    using that by (simp add: without_def)
  have tick: "tk = e_tick e" if "pending v t k = Some (tk, x)" for tk x
    using that k by (simp add: pending_def)
  show ?thesis
  proof (rule wheel_okI)
    fix i assume i: "i < length (tm_wheel ?t)"
    have mem: "j \<in> set (L i) \<longleftrightarrow> (\<exists>tk x. pending v t j = Some (tk, x) \<and> slot_for t tk = i)" for j
      using ok i unfolding wheel_ok_def by simp
    obtain l' where l': "tseg (ents v t) EMPTY (we_head (tm_wheel t ! i)) (L i) l' EMPTY"
      using ok i unfolding wheel_ok_def by auto
    show "\<exists>l. tseg (ents v ?t) EMPTY (we_head (tm_wheel ?t ! i)) ((L(?s := remove1 k (L ?s))) i) l EMPTY"
    proof (cases "i = ?s")
      case True
      then show ?thesis
        using tseg_relink [OF seg dist k] dist rem head m' by (simp add: tseg_upd_notin)
    next
      case False
      have "j \<notin> set (L i)" if "j \<in> set (L ?s)" for j
        using that mem wheel_okD(4) [OF ok] False by fastforce
      then have "set (L i) \<inter> set (xs @ k # ys) = {}" using L by auto
      moreover have "EMPTY \<notin> set (L i)" using tseg_mem [OF l'] by blast
      ultimately have "e_prev e \<notin> set (L i)" "e_next e \<notin> set (L i)" "k \<notin> set (L i)"
        using ln(1,2) last_in_set [of xs] hd_in_set [of ys] by (auto split: if_splits)
      then show ?thesis
        using l' False m' other by (auto simp: tseg_upd_notin relink_other)
    qed
    show "distinct ((L(?s := remove1 k (L ?s))) i)"
      using ok i unfolding wheel_ok_def by (simp add: distinct_remove1)
    show "j \<in> set ((L(?s := remove1 k (L ?s))) i) \<longleftrightarrow>
        (\<exists>tk x. pending v ?t j = Some (tk, x) \<and> slot_for ?t tk = i)" for j
      using mem [of j] tick dist L rem pending_without [OF m', of e] by (auto split: if_splits)
  qed (use ok sv in \<open>auto simp: wheel_ok_def\<close>)
qed

lemma timer_inv_without:
  assumes inv: "timer_inv v t L post" and k: "ents v t k = Some e" and sv: "slab_valid v s'"
    and m': "slab_map v s' = (relink (ents v t) (te_links e))(k := None)"
  shows "timer_inv v (without t k e s')
    (L(slot_for t (e_tick e) := remove1 k (L (slot_for t (e_tick e))))) (remove1 k post)"
proof -
  let ?s = "slot_for t (e_tick e)" and ?T = "slot_for t (tm_tick t)" and ?t = "without t k e s'"
  have ok: "wheel_ok v t L" and cur: "cursor_ok v t L post" and bnd: "bounds_ok v t post"
    using inv by (simp_all add: timer_inv_def)
  obtain pre where pre: "L ?T = pre @ post"
    using cur by (auto simp: cursor_ok_def)
  have dist: "distinct (pre @ post)" using wheel_okD(3) [OF ok, of "tm_tick t"] pre by simp
  obtain l where seg: "tseg (ents v t) EMPTY (we_head (tm_wheel t ! ?T)) (pre @ post) l EMPTY"
    using wheel_okD(2) [OF ok, of "tm_tick t"] pre by auto
  have pend: "pending v ?t = (pending v t)(k := None)" by (rule pending_without [OF m'])
  have "tm_next ?t = (if remove1 k post = [] then EMPTY else hd (remove1 k post))"
  proof (cases post)
    case Nil
    then have "tm_next t = EMPTY" using cur by (simp add: cursor_ok_def)
    moreover have "k \<noteq> EMPTY"
      using pending_not_EMPTY [OF ok] k by (simp add: pending_def)
    ultimately show ?thesis using Nil by (simp add: without_def)
  next
    case (Cons y zs)
    then have "tm_next t = y" using cur by (simp add: cursor_ok_def)
    moreover have "e_next e = (if zs = [] then EMPTY else hd zs)" if "y = k"
      using tseg_unlink_links(2) [of "ents v t" _ pre k zs l e] seg k Cons that by simp
    ultimately show ?thesis using Cons by (auto simp: without_def)
  qed
  moreover have "\<exists>pre'. (L(?s := remove1 k (L ?s))) ?T = pre' @ remove1 k post"
  proof (cases "?s = ?T")
    case True
    moreover have "k \<in> set pre \<Longrightarrow> remove1 k post = post"
      using dist by (auto intro: remove1_idem)
    ultimately show ?thesis using pre by (auto simp: remove1_append)
  next
    case False
    then have "k \<notin> set (L ?T)"
      using wheel_okD(4) [OF ok, of k "tm_tick t"] k by (auto simp: pending_def)
    then show ?thesis using pre False by (simp add: remove1_idem)
  qed
  ultimately have "cursor_ok v ?t (L(?s := remove1 k (L ?s))) (remove1 k post)"
    using cur pend by (auto simp: cursor_ok_def split: if_splits)
  moreover have "bounds_ok v ?t (remove1 k post)"
    using bnd pend slot_for_less [OF ok] by (auto simp: bounds_ok_def split: if_splits)
  ultimately show ?thesis
    using wheel_ok_without [OF ok k sv m'] by (simp add: timer_inv_def)
qed

lemma unlink_remove:
  assumes laws: "slab_laws sl v EMPTY" and ok: "wheel_ok v t L" and k: "ents v t k = Some e"
  obtains t1 where "timer_unlink sl (te_links e) k t = Some t1"
    and "map_option te_state (fst (slab_remove sl (tm_entries t1) k)) = Some (te_state e)"
    and "t1\<lparr>tm_entries := snd (slab_remove sl (tm_entries t1) k)\<rparr> =
      without t k e (snd (slab_remove sl (tm_entries t1) k))"
    and "slab_valid v (snd (slab_remove sl (tm_entries t1) k))"
    and "slab_map v (snd (slab_remove sl (tm_entries t1) k)) = (relink (ents v t) (te_links e))(k := None)"
proof -
  obtain s1 where s1: "timer_unlink sl (te_links e) k t = Some (without t k e s1)"
    and v1: "slab_valid v s1" and m1: "slab_map v s1 = relink (ents v t) (te_links e)"
    using timer_unlink_eq [OF laws ok k] unfolding without_def by blast
  have "map_option te_state (slab_map v s1 k) = Some (te_state e)"
    using relink_frame [of "ents v t" "te_links e" k] k m1 by auto
  then show thesis
    using that [OF s1] slab_lawsD(5,6,7) [OF laws v1] v1 m1 by (simp add: without_def)
qed

section \<open>Cancelling\<close>

lemma cancel_timeout_eq:
  assumes laws: "slab_laws sl v EMPTY" and inv: "timer_inv v t L post"
  shows "\<exists>t' L' post'. cancel_timeout sl to t =
      Some (case pending v t (to_token to) of
              Some (tk, x) \<Rightarrow> if tk = to_tick to then Some x else None | None \<Rightarrow> None, t') \<and>
    timer_inv v t' L' post' \<and>
    pending v t' = (case pending v t (to_token to) of
        Some (tk, x) \<Rightarrow> if tk = to_tick to then (pending v t)(to_token to := None) else pending v t
      | None \<Rightarrow> pending v t) \<and>
    tm_tick t' = tm_tick t \<and> tm_inner t' = tm_inner t"
proof -
  have ok: "wheel_ok v t L" using inv by (simp add: timer_inv_def)
  note get = slab_lawsD(1) [OF laws wheel_okD(1) [OF ok]]
  show ?thesis
  proof (cases "ents v t (to_token to)")
    case None
    then show ?thesis
      using inv by (auto simp: cancel_timeout_def get_links_def get pending_def)
  next
    case (Some e)
    show ?thesis
    proof (cases "e_tick e = to_tick to")
      case False
      then show ?thesis
        using inv Some by (auto simp: cancel_timeout_def get_links_def get pending_def)
    next
      case True
      obtain t1 where t1: "timer_unlink sl (te_links e) (to_token to) t = Some t1"
        "map_option te_state (fst (slab_remove sl (tm_entries t1) (to_token to))) = Some (te_state e)"
        "t1\<lparr>tm_entries := snd (slab_remove sl (tm_entries t1) (to_token to))\<rparr> =
          without t (to_token to) e (snd (slab_remove sl (tm_entries t1) (to_token to)))"
        "slab_valid v (snd (slab_remove sl (tm_entries t1) (to_token to)))"
        "slab_map v (snd (slab_remove sl (tm_entries t1) (to_token to))) =
          (relink (ents v t) (te_links e))(to_token to := None)"
        by (rule unlink_remove [OF laws ok Some])
      let ?t = "without t (to_token to) e (snd (slab_remove sl (tm_entries t1) (to_token to)))"
      have "cancel_timeout sl to t = Some (Some (te_state e), ?t)"
        using True Some t1(1-3) by (simp add: cancel_timeout_def get_links_def get split_beta)
      then show ?thesis
        using timer_inv_without [OF inv Some t1(4,5)] pending_without [OF t1(5), of e] True Some
        by (auto simp: pending_def)
    qed
  qed
qed

section \<open>Inserting\<close>

text \<open>The timer after a new entry for \<open>tick\<close> has been put at the head of its slot.\<close>

definition with_head :: "('s, 'c) timer \<Rightarrow> u64 \<Rightarrow> token \<Rightarrow> 's \<Rightarrow> ('s, 'c) timer" where
  "with_head t tick tok s' = t\<lparr>tm_entries := s', tm_wheel := (tm_wheel t)[slot_for t tick :=
     \<lparr>we_next_tick = min tick (we_next_tick (tm_wheel t ! slot_for t tick)), we_head = tok\<rparr>]\<rparr>"

definition link_in :: "'a tmap \<Rightarrow> token \<Rightarrow> u64 \<Rightarrow> 'a \<Rightarrow> token \<Rightarrow> 'a tmap" where
  "link_in m tok tick x hp =
     (let m1 = m(tok \<mapsto> entry_new x tick hp)
      in if hp = EMPTY then m1 else upd_links m1 (\<lambda>l. l\<lparr>lk_prev := tok\<rparr>) hp)"

lemma with_head_fields [simp]:
  "tm_entries (with_head t tick tok s') = s'" "tm_tick (with_head t tick tok s') = tm_tick t"
  "tm_mask (with_head t tick tok s') = tm_mask t" "tm_inner (with_head t tick tok s') = tm_inner t"
  "tm_next (with_head t tick tok s') = tm_next t" "slot_for (with_head t tick tok s') = slot_for t"
  "length (tm_wheel (with_head t tick tok s')) = length (tm_wheel t)"
  by (simp_all add: with_head_def slot_for_def fun_eq_iff)

lemma link_in_frame:
  "m tok = None \<Longrightarrow> hp \<noteq> tok \<Longrightarrow> map_option (\<lambda>e. (e_tick e, te_state e)) (link_in m tok tick x hp j) =
     (if j = tok then Some (tick, x) else map_option (\<lambda>e. (e_tick e, te_state e)) (m j))"
  by (cases "m j") (auto simp: link_in_def Let_def upd_links_def entry_new_def)

lemma pending_with_head:
  assumes "slab_map v s' = link_in (ents v t) tok tick x hp" and "ents v t tok = None" and "hp \<noteq> tok"
  shows "pending v (with_head t tick tok s') = (pending v t)(tok \<mapsto> (tick, x))"
  using assms by (auto simp: pending_def link_in_frame)

lemma tseg_link_in:
  assumes seg: "tseg m EMPTY hp xs l EMPTY" and dist: "distinct xs" and fresh: "m tok = None" and ne: "tok \<noteq> EMPTY"
  shows "\<exists>l'. tseg (link_in m tok tick x hp) EMPTY tok (tok # xs) l' EMPTY"
proof -
  have tok: "tok \<notin> set xs" using tseg_mem [OF seg] fresh by auto
  let ?m = "m(tok \<mapsto> entry_new x tick hp)"
  have seg': "tseg ?m EMPTY hp xs l EMPTY" using seg tok by (simp add: tseg_upd_notin)
  show ?thesis
  proof (cases xs)
    case Nil
    then show ?thesis using seg' ne by (simp add: link_in_def entry_new_def)
  next
    case (Cons y ys)
    then have hp: "hp = y" "y \<noteq> EMPTY" "y \<noteq> tok" using seg' tok by auto
    have "tseg (upd_links ?m (\<lambda>l. l\<lparr>lk_prev := tok\<rparr>) y) tok hp xs l EMPTY"
      unfolding Cons by (rule tseg_set_prev [where m = ?m and pv = EMPTY]) (use seg' Cons dist in auto)
    then show ?thesis
      using hp ne Cons by (intro exI [of _ l]) (simp add: link_in_def upd_links_def entry_new_def)
  qed
qed

lemma link_in_other:
  "tok \<notin> set zs \<Longrightarrow> hp \<notin> set zs \<Longrightarrow>
     tseg (link_in m tok tick x hp) pv p zs l q \<longleftrightarrow> tseg m pv p zs l q"
  by (simp add: link_in_def Let_def tseg_upd_links_notin tseg_upd_notin)

lemma wheel_head:
  assumes "wheel_ok v t L" "s < length (tm_wheel t)"
  shows "we_head (tm_wheel t ! s) = (if L s = [] then EMPTY else hd (L s))"
proof -
  obtain l where "tseg (ents v t) EMPTY (we_head (tm_wheel t ! s)) (L s) l EMPTY"
    using assms unfolding wheel_ok_def by blast
  then show ?thesis by (rule tseg_first)
qed

lemma wheel_ok_with_head:
  assumes ok: "wheel_ok v t L" and fresh: "ents v t tok = None" and ne: "tok \<noteq> EMPTY" and sv: "slab_valid v s'"
    and m': "slab_map v s' = link_in (ents v t) tok tick x (we_head (tm_wheel t ! slot_for t tick))"
  shows "wheel_ok v (with_head t tick tok s') (L(slot_for t tick := tok # L (slot_for t tick)))"
proof -
  let ?s = "slot_for t tick" and ?t = "with_head t tick tok s'"
  let ?hd = "we_head (tm_wheel t ! ?s)"
  have lists: "\<exists>l. tseg (ents v t) EMPTY (we_head (tm_wheel t ! i)) (L i) l EMPTY" "distinct (L i)"
    and mem: "\<And>j. j \<in> set (L i) \<longleftrightarrow> (\<exists>tk x. pending v t j = Some (tk, x) \<and> slot_for t tk = i)"
    if "i < length (tm_wheel t)" for i
    using ok that unfolding wheel_ok_def by blast+
  have s: "?s < length (tm_wheel t)" by (rule slot_for_less [OF ok])
  have tok: "tok \<notin> set (L i)" if "i < length (tm_wheel t)" for i
    using mem [OF that] fresh by (simp add: pending_def)
  have hd: "?hd \<noteq> tok" "?hd \<noteq> EMPTY \<Longrightarrow> ?hd \<in> set (L ?s)"
    using wheel_head [OF ok s] tok [OF s] ne by auto
  have pend: "pending v ?t = (pending v t)(tok \<mapsto> (tick, x))"
    by (rule pending_with_head [OF m' fresh hd(1)])
  show ?thesis
  proof (rule wheel_okI)
    fix i assume "i < length (tm_wheel ?t)"
    then have i: "i < length (tm_wheel t)" by simp
    show "\<exists>l. tseg (ents v ?t) EMPTY (we_head (tm_wheel ?t ! i)) ((L(?s := tok # L ?s)) i) l EMPTY"
    proof (cases "i = ?s")
      case True
      obtain l where "tseg (ents v t) EMPTY ?hd (L ?s) l EMPTY" using lists(1) [OF s] by blast
      then show ?thesis
        using tseg_link_in [where hp = ?hd and xs = "L ?s" and tok = tok] lists(2) [OF s] fresh ne True m' s
        by (simp add: with_head_def)
    next
      case False
      obtain l where l: "tseg (ents v t) EMPTY (we_head (tm_wheel t ! i)) (L i) l EMPTY"
        using lists(1) [OF i] by blast
      have "?hd \<notin> set (L i)"
      proof (cases "?hd = EMPTY")
        case True
        then show ?thesis using tseg_mem [OF l] by auto
      next
        case F: False
        then show ?thesis using hd(2) mem [OF s] mem [OF i] False by auto
      qed
      then show ?thesis
        using l False m' tok [OF i] by (auto simp: link_in_other with_head_def)
    qed
    show "distinct ((L(?s := tok # L ?s)) i)" using lists(2) [OF i] tok [OF i] by auto
    show "j \<in> set ((L(?s := tok # L ?s)) i) \<longleftrightarrow>
        (\<exists>tk y. pending v ?t j = Some (tk, y) \<and> slot_for ?t tk = i)" for j
      using mem [OF i] pend fresh tok [OF i] by (auto simp: pending_def)
  qed (use ok sv in \<open>auto simp: wheel_ok_def\<close>)
qed

text \<open>The entry that was at the head of the slot points back to the new one.\<close>

lemma insert_head_link:
  assumes laws: "slab_laws sl v EMPTY" and s1: "slab_valid v s1" and m1: "slab_map v s1 = (ents v t)(tok \<mapsto> entry_new x tick h)"
    and h: "h \<noteq> EMPTY \<Longrightarrow> h \<in> dom (ents v t)"
  obtains s2 where "(if h \<noteq> EMPTY then update_links sl (\<lambda>l. l\<lparr>lk_prev := tok\<rparr>) h (t\<lparr>tm_entries := s1\<rparr>)
      else Some (t\<lparr>tm_entries := s1\<rparr>)) = Some (t\<lparr>tm_entries := s2\<rparr>)" and "slab_valid v s2"
    and "slab_map v s2 = link_in (ents v t) tok tick x h"
proof (cases "h = EMPTY")
  case True
  then show thesis using that [of s1] s1 m1 by (simp add: link_in_def)
next
  case False
  have "h \<in> dom (ents v (t\<lparr>tm_entries := s1\<rparr>))" using h [OF False] m1 by auto
  moreover have "slab_valid v (tm_entries (t\<lparr>tm_entries := s1\<rparr>))" using s1 by simp
  ultimately obtain s2 where "update_links sl (\<lambda>l. l\<lparr>lk_prev := tok\<rparr>) h (t\<lparr>tm_entries := s1\<rparr>) =
      Some (t\<lparr>tm_entries := s1\<rparr>\<lparr>tm_entries := s2\<rparr>)" "slab_valid v s2"
    "slab_map v s2 = upd_links (ents v (t\<lparr>tm_entries := s1\<rparr>)) (\<lambda>l. l\<lparr>lk_prev := tok\<rparr>) h"
    using update_links_map [OF laws] by blast
  then show thesis using that [of s2] False m1 by (simp add: link_in_def)
qed

lemma bounds_ok_with_head:
  assumes ok: "wheel_ok v t L" and bnd: "bounds_ok v t ps"
    and pend: "pending v (with_head t tick tok s2) = (pending v t)(tok \<mapsto> (tick, x))"
  shows "bounds_ok v (with_head t tick tok s2) ps"
  unfolding bounds_ok_def
proof (intro allI impI)
  let ?t = "with_head t tick tok s2"
  have wheel: "we_next_tick (tm_wheel ?t ! i) =
      (if i = slot_for t tick then min tick (we_next_tick (tm_wheel t ! i)) else we_next_tick (tm_wheel t ! i))"
    if "i < length (tm_wheel t)" for i
    using that by (simp add: with_head_def nth_list_update)
  fix k tk y assume k: "pending v ?t k = Some (tk, y)" "k \<notin> set ps"
  have "we_next_tick (tm_wheel t ! slot_for t tk) \<le> tk" if "k \<noteq> tok"
    using bnd k pend that unfolding bounds_ok_def by auto
  then show "we_next_tick (tm_wheel ?t ! slot_for ?t tk) \<le> tk"
    using k pend wheel [OF slot_for_less [OF ok, of tk]] by (cases "k = tok") (auto simp: min.coboundedI2)
qed

lemma timer_insert_eq:
  assumes laws: "slab_laws sl v EMPTY" and inv: "timer_inv v t L post" and tick: "tm_tick t < tick"
    and room: "card (dom (pending v t)) \<noteq> slab_cap v (tm_entries t)"
  obtains tok t' where "timer_insert sl lc tick x t wd =
      Some (Inr \<lparr>to_token = tok, to_tick = tick\<rparr>, t', schedule_readiness lc t' tick wd)"
    and "pending v t tok = None" and "pending v t' = (pending v t)(tok \<mapsto> (tick, x))"
    and "timer_inv v t' (L(slot_for t tick := tok # L (slot_for t tick))) post"
    and "bounds_ok v t [] \<Longrightarrow> bounds_ok v t' []"
    and "tm_tick t' = tm_tick t" and "tm_inner t' = tm_inner t"
proof -
  have ok: "wheel_ok v t L" and cur: "cursor_ok v t L post" and bnd: "bounds_ok v t post"
    using inv by (simp_all add: timer_inv_def)
  let ?s = "slot_for t tick"
  let ?hd = "we_head (tm_wheel t ! ?s)"
  have s: "?s < length (tm_wheel t)" by (rule slot_for_less [OF ok])
  have sv: "slab_valid v (tm_entries t)" by (rule wheel_okD(1) [OF ok])
  have "dom (pending v t) = dom (ents v t)" by (auto simp: pending_def)
  then obtain tok s1 where ins: "slab_insert sl (tm_entries t) (entry_new x tick ?hd) = Some (tok, s1)"
    using slab_lawsD(3) [OF laws sv] room by (metis option.exhaust surj_pair)
  then have tok: "ents v t tok = None" "tok \<noteq> EMPTY" and s1: "slab_valid v s1"
    and m1: "slab_map v s1 = (ents v t)(tok \<mapsto> entry_new x tick ?hd)"
    using slab_lawsD(2) [OF laws sv] by blast+
  have hd: "?hd \<noteq> EMPTY \<Longrightarrow> ?hd \<in> dom (ents v t)"
    using wheel_okD(2) [OF ok, of tick] tseg_mem wheel_head [OF ok s] hd_in_set [of "L ?s"]
    by (metis (mono_tags, lifting))
  then have hd_tok: "?hd \<noteq> tok" using tok by auto
  obtain s2 where s2: "(if ?hd \<noteq> EMPTY then update_links sl (\<lambda>l. l\<lparr>lk_prev := tok\<rparr>) ?hd (t\<lparr>tm_entries := s1\<rparr>)
      else Some (t\<lparr>tm_entries := s1\<rparr>)) = Some (t\<lparr>tm_entries := s2\<rparr>)" and v2: "slab_valid v s2"
    and m2: "slab_map v s2 = link_in (ents v t) tok tick x ?hd"
    by (rule insert_head_link [OF laws s1 m1 hd])
  let ?t = "with_head t tick tok s2"
  have pend: "pending v ?t = (pending v t)(tok \<mapsto> (tick, x))"
    by (rule pending_with_head [OF m2 tok(1) hd_tok])
  have wh: "wheel_ok v ?t (L(?s := tok # L ?s))"
    by (rule wheel_ok_with_head [OF ok tok v2 m2])
  have "bounds_ok v ?t ps" if "bounds_ok v t ps" for ps
    by (rule bounds_ok_with_head [OF ok that pend])
  moreover have "cursor_ok v ?t (L(?s := tok # L ?s)) post"
    using cur pend tick by (fastforce simp: cursor_ok_def)
  moreover have "timer_insert sl lc tick x t wd =
      Some (Inr \<lparr>to_token = tok, to_tick = tick\<rparr>, ?t, schedule_readiness lc ?t tick wd)"
    using s ins s2 by (simp add: timer_insert_def update_wheel_def with_head_def Let_def)
  ultimately show thesis
    using that [of tok ?t] bnd wh pend tok by (simp add: timer_inv_def pending_def)
qed

lemma timer_insert_full:
  assumes laws: "slab_laws sl v EMPTY" and inv: "timer_inv v t L post"
    and full: "card (dom (pending v t)) = slab_cap v (tm_entries t)"
  shows "timer_insert sl lc tick x t wd = Some (Inl TimerOverflow, t, wd)"
proof -
  have ok: "wheel_ok v t L" using inv by (simp add: timer_inv_def)
  have "dom (pending v t) = dom (ents v t)" by (auto simp: pending_def)
  then show ?thesis
    using slab_lawsD(3) [OF laws wheel_okD(1) [OF ok]] full slot_for_less [OF ok]
    by (simp add: timer_insert_def)
qed

section \<open>Polling\<close>

definition set_next_tick :: "('s, 'c) timer \<Rightarrow> nat \<Rightarrow> u64 \<Rightarrow> ('s, 'c) timer" where
  "set_next_tick t s x = t\<lparr>tm_wheel := (tm_wheel t)[s := (tm_wheel t ! s)\<lparr>we_next_tick := x\<rparr>]\<rparr>"

lemma set_next_tick_fields [simp]:
  "tm_entries (set_next_tick t s x) = tm_entries t" "tm_tick (set_next_tick t s x) = tm_tick t"
  "tm_mask (set_next_tick t s x) = tm_mask t" "tm_inner (set_next_tick t s x) = tm_inner t"
  "tm_next (set_next_tick t s x) = tm_next t" "slot_for (set_next_tick t s x) = slot_for t"
  "tm_tick_ms (set_next_tick t s x) = tm_tick_ms t" "tm_start (set_next_tick t s x) = tm_start t"
  "length (tm_wheel (set_next_tick t s x)) = length (tm_wheel t)"
  "pending v (set_next_tick t s x) = pending v t"
  by (simp_all add: set_next_tick_def slot_for_def pending_def fun_eq_iff)

lemma set_next_tick_wheel:
  "i < length (tm_wheel t) \<Longrightarrow> we_head (tm_wheel (set_next_tick t s x) ! i) = we_head (tm_wheel t ! i)"
  "i < length (tm_wheel t) \<Longrightarrow>
     we_next_tick (tm_wheel (set_next_tick t s x) ! i) = (if i = s then x else we_next_tick (tm_wheel t ! i))"
  by (cases "i = s"; simp add: set_next_tick_def)+

lemma wheel_ok_set_next_tick [simp]: "wheel_ok v (set_next_tick t s x) L \<longleftrightarrow> wheel_ok v t L"
  by (auto simp: wheel_ok_def set_next_tick_wheel)

lemma cursor_ok_set_next_tick [simp]: "cursor_ok v (set_next_tick t s x) L post \<longleftrightarrow> cursor_ok v t L post"
  by (simp add: cursor_ok_def)

lemma wheel_ok_frame [simp]:
  "wheel_ok v (t\<lparr>tm_tick := x\<rparr>) L \<longleftrightarrow> wheel_ok v t L" "wheel_ok v (t\<lparr>tm_next := k\<rparr>) L \<longleftrightarrow> wheel_ok v t L"
  by (simp_all add: wheel_ok_def pending_def slot_for_def)

lemma pending_frame [simp]:
  "pending v (t\<lparr>tm_tick := x\<rparr>) = pending v t" "pending v (t\<lparr>tm_next := k\<rparr>) = pending v t"
  "slot_for (t\<lparr>tm_tick := x\<rparr>) = slot_for t" "slot_for (t\<lparr>tm_next := k\<rparr>) = slot_for t"
  by (simp_all add: pending_def slot_for_def fun_eq_iff)

text \<open>The fields a poll never changes.\<close>

definition same_config :: "('s, 'c) timer \<Rightarrow> ('s, 'c) timer \<Rightarrow> bool" where
  "same_config t t' \<longleftrightarrow> tm_inner t' = tm_inner t \<and> tm_mask t' = tm_mask t \<and>
     tm_tick_ms t' = tm_tick_ms t \<and> tm_start t' = tm_start t"

lemma same_config_refl [simp]: "same_config t t"
  by (simp add: same_config_def)

lemma same_config_trans: "same_config t t' \<Longrightarrow> same_config t' t'' \<Longrightarrow> same_config t t''"
  by (simp add: same_config_def)

text \<open>Moving on to the next tick when the current slot has been worked through.\<close>

lemma poll_to_advance:
  assumes inv: "timer_inv v t L []" and tick: "tm_tick t \<le> target" "tm_tick t \<noteq> - 1"
  obtains t' where "poll_to_loop sl target t = poll_to_loop sl target t'"
    and "timer_inv v t' L (L (slot_for t (tm_tick t + 1)))" and "bounds_ok v t' []"
    and "tm_tick t' = tm_tick t + 1" and "pending v t' = pending v t" and "same_config t t'"
proof -
  have ok: "wheel_ok v t L" and cur: "cursor_ok v t L []" and bnd: "bounds_ok v t []"
    using inv by (simp_all add: timer_inv_def)
  let ?s = "slot_for t (tm_tick t + 1)"
  let ?hd = "we_head (tm_wheel t ! ?s)"
  let ?t1 = "t\<lparr>tm_tick := tm_tick t + 1, tm_next := ?hd\<rparr>"
  let ?t = "if ?hd = EMPTY then set_next_tick ?t1 ?s TICK_MAX else ?t1"
  have s: "?s < length (tm_wheel t)" by (rule slot_for_less [OF ok])
  have hd: "?hd = (if L ?s = [] then EMPTY else hd (L ?s))" by (rule wheel_head [OF ok s])
  have nil: "?hd = EMPTY \<longleftrightarrow> L ?s = []"
    using hd wheel_okD(2) [OF ok, of "tm_tick t + 1"] tseg_mem hd_in_set [of "L ?s"] by metis
  have later: "tm_tick t + 1 \<le> tk" if "pending v t k = Some (tk, x)" for k tk x
    using cur that word_less_Suc_iff [OF tick(2), of tk]
    by (metis cursor_ok_def empty_iff empty_set order_le_less)
  have unchanged: "pending v ?t = pending v t" "slot_for ?t = slot_for t" "tm_tick ?t = tm_tick t + 1"
    "tm_next ?t = ?hd" "same_config t ?t"
    by (simp_all add: same_config_def)
  have "cursor_ok v ?t L (L ?s)"
    using hd later wheel_okD(4) [OF ok, of _ "tm_tick t + 1"] unchanged
    by (auto simp: cursor_ok_def)
  moreover have "wheel_ok v ?t L" using ok by simp
  moreover have b: "bounds_ok v ?t []"
  proof -
    have "slot_for t tk \<noteq> ?s" if "pending v t k = Some (tk, x)" "?hd = EMPTY" for k tk x
      using that nil wheel_okD(4) [OF ok, of k "tm_tick t + 1"] by auto
    then show ?thesis
      using bnd slot_for_less [OF ok] by (auto simp: bounds_ok_def set_next_tick_wheel)
  qed
  moreover have "bounds_ok v ?t (L ?s)" using b by (auto simp: bounds_ok_def)
  moreover have "poll_to_loop sl target t = poll_to_loop sl target ?t"
    using tick(1) cur s
    by (subst poll_to_loop.simps) (simp add: cursor_ok_def update_wheel_def set_next_tick_def)
  ultimately show thesis
    using that [of ?t] unchanged unfolding timer_inv_def by blast
qed

text \<open>One round of the loop with the cursor on an entry.\<close>

lemma poll_to_visit:
  assumes laws: "slab_laws sl v EMPTY" and inv: "timer_inv v t L (k # post)" and tick: "tm_tick t \<le> target"
    and k: "ents v t k = Some e"
  obtains t1 where "timer_inv v t1 L (k # post)" and "pending v t1 = pending v t" and "same_config t t1"
    and "tm_tick t1 = tm_tick t" and "ents v t1 = ents v t"
    and "poll_to_loop sl target t =
      (if e_tick e \<le> tm_tick t then
         Option.bind (timer_unlink sl (te_links e) k t1) (\<lambda>t2.
           Some (Inr (map_option te_state (fst (slab_remove sl (tm_entries t2) k))),
                 t2\<lparr>tm_entries := snd (slab_remove sl (tm_entries t2) k)\<rparr>))
       else poll_to_loop sl target ((set_next_tick t1 (slot_for t (tm_tick t))
         (min (we_next_tick (tm_wheel t1 ! slot_for t (tm_tick t))) (e_tick e)))\<lparr>tm_next := e_next e\<rparr>))"
proof -
  have ok: "wheel_ok v t L" and cur: "cursor_ok v t L (k # post)" and bnd: "bounds_ok v t (k # post)"
    using inv by (simp_all add: timer_inv_def)
  let ?s = "slot_for t (tm_tick t)"
  let ?t1 = "if k = we_head (tm_wheel t ! ?s) then set_next_tick t ?s TICK_MAX else t"
  obtain pre where pre: "L ?s = pre @ k # post" using cur by (auto simp: cursor_ok_def)
  have s: "?s < length (tm_wheel t)" by (rule slot_for_less [OF ok])
  have nxt: "tm_next t = k" "k \<noteq> EMPTY"
    using cur pending_not_EMPTY [OF ok] k by (auto simp: cursor_ok_def pending_def)
  have "pre = []" if "k = we_head (tm_wheel t ! ?s)"
    using that wheel_head [OF ok s] pre wheel_okD(3) [OF ok, of "tm_tick t"] by (cases pre) auto
  then have "slot_for t tk \<noteq> ?s"
    if "pending v t j = Some (tk, x)" "j \<notin> set (k # post)" "k = we_head (tm_wheel t ! ?s)" for j tk x
    using that wheel_okD(4) [OF ok, of j "tm_tick t"] pre by auto
  then have "bounds_ok v ?t1 (k # post)"
    using bnd slot_for_less [OF ok] by (auto simp: bounds_ok_def set_next_tick_wheel)
  moreover have "wheel_ok v ?t1 L" using ok by simp
  moreover have "cursor_ok v ?t1 L (k # post)" using cur by auto
  ultimately have inv1: "timer_inv v ?t1 L (k # post)" unfolding timer_inv_def by blast
  have get: "get_links sl ?t1 k = Some (te_links e)"
    using k slab_lawsD(1) [OF laws wheel_okD(1) [OF ok]] by (auto simp: get_links_def)
  have upd: "update_wheel ?s (\<lambda>we. we\<lparr>we_next_tick := min (we_next_tick we) (e_tick e)\<rparr>) ?t1 =
      Some (set_next_tick ?t1 ?s (min (we_next_tick (tm_wheel ?t1 ! ?s)) (e_tick e)))"
    using s by (simp add: update_wheel_def set_next_tick_def)
  have t1: "(if k = we_head (tm_wheel t ! ?s) then update_wheel ?s (\<lambda>we. we\<lparr>we_next_tick := TICK_MAX\<rparr>) t
      else Some t) = Some ?t1"
    using s by (simp add: update_wheel_def set_next_tick_def)
  have tick1: "tm_tick ?t1 = tm_tick t" by simp
  have "poll_to_loop sl target t =
      (if e_tick e \<le> tm_tick t then
         Option.bind (timer_unlink sl (te_links e) k ?t1) (\<lambda>t2.
           Some (Inr (map_option te_state (fst (slab_remove sl (tm_entries t2) k))),
                 t2\<lparr>tm_entries := snd (slab_remove sl (tm_entries t2) k)\<rparr>))
       else poll_to_loop sl target ((set_next_tick ?t1 ?s
         (min (we_next_tick (tm_wheel ?t1 ! ?s)) (e_tick e)))\<lparr>tm_next := e_next e\<rparr>))"
    by (subst poll_to_loop.simps) (use tick nxt s in \<open>simp only: t1 get upd tick1 vec_simps
        Option.bind.bind_lunit if_True if_False not_True_eq_False\<close>)
  then show thesis
    using that [of ?t1] inv1 by (simp add: same_config_def)
qed

text \<open>An entry of the current tick fires.\<close>

lemma poll_to_fire:
  assumes laws: "slab_laws sl v EMPTY" and inv: "timer_inv v t L (k # post)" and e: "ents v t k = Some e"
  obtains t' L' post' where "Option.bind (timer_unlink sl (te_links e) k t) (\<lambda>t2.
       Some (Inr (map_option te_state (fst (slab_remove sl (tm_entries t2) k))),
             t2\<lparr>tm_entries := snd (slab_remove sl (tm_entries t2) k)\<rparr>)) = Some (Inr (Some (te_state e)), t')"
    and "timer_inv v t' L' post'" and "pending v t' = (pending v t)(k := None)" and "tm_tick t' = tm_tick t"
    and "same_config t t'"
proof -
  have ok: "wheel_ok v t L" using inv by (simp add: timer_inv_def)
  obtain t2 where t2: "timer_unlink sl (te_links e) k t = Some t2"
    "map_option te_state (fst (slab_remove sl (tm_entries t2) k)) = Some (te_state e)"
    "t2\<lparr>tm_entries := snd (slab_remove sl (tm_entries t2) k)\<rparr> =
      without t k e (snd (slab_remove sl (tm_entries t2) k))"
    "slab_valid v (snd (slab_remove sl (tm_entries t2) k))"
    "slab_map v (snd (slab_remove sl (tm_entries t2) k)) = (relink (ents v t) (te_links e))(k := None)"
    by (rule unlink_remove [OF laws ok e])
  let ?t = "without t k e (snd (slab_remove sl (tm_entries t2) k))"
  have "same_config t ?t" by (simp add: same_config_def)
  then show thesis
    using that [of ?t] t2(1-3) timer_inv_without [OF inv e t2(4,5)] pending_without [OF t2(5), of e] by auto
qed

text \<open>An entry of a later tick is passed: the slot's next tick covers it, and the cursor moves on.\<close>

lemma timer_inv_pass:
  assumes inv: "timer_inv v t L (k # post)" and e: "ents v t k = Some e" and late: "e_tick e \<noteq> tm_tick t"
  defines "t' \<equiv> (set_next_tick t (slot_for t (tm_tick t)) (min (we_next_tick (tm_wheel t ! slot_for t (tm_tick t))) (e_tick e)))
      \<lparr>tm_next := e_next e\<rparr>"
  shows "timer_inv v t' L post"
proof -
  have ok: "wheel_ok v t L" and cur: "cursor_ok v t L (k # post)" and bnd: "bounds_ok v t (k # post)"
    using inv by (simp_all add: timer_inv_def)
  obtain pre where pre: "L (slot_for t (tm_tick t)) = pre @ k # post" using cur by (auto simp: cursor_ok_def)
  then have es: "slot_for t (e_tick e) = slot_for t (tm_tick t)"
    using wheel_okD(4) [OF ok, of k "tm_tick t"] e by (auto simp: pending_def)
  obtain l where "tseg (ents v t) EMPTY (we_head (tm_wheel t ! slot_for t (tm_tick t))) (pre @ k # post) l EMPTY"
    using wheel_okD(2) [OF ok, of "tm_tick t"] pre by auto
  then have nxt: "e_next e = (if post = [] then EMPTY else hd post)"
    using tseg_unlink_links(2) [of "ents v t" _ pre k post l e] e by blast
  have pend: "pending v t k = Some (e_tick e, te_state e)" using e by (simp add: pending_def)
  then have "cursor_ok v t' L post"
    using cur pre nxt late unfolding cursor_ok_def t'_def by fastforce
  moreover have "bounds_ok v t' post"
    unfolding bounds_ok_def
  proof (intro allI impI)
    fix j tk x assume j: "pending v t' j = Some (tk, x)" "j \<notin> set post"
    have "we_next_tick (tm_wheel t ! slot_for t tk) \<le> tk" if "j \<noteq> k"
      using bnd j that by (simp add: bounds_ok_def t'_def) blast
    moreover have "tk = e_tick e" if "j = k" using j that pend by (simp add: t'_def)
    ultimately show "we_next_tick (tm_wheel t' ! slot_for t' tk) \<le> tk"
      using es slot_for_less [OF ok, of tk]
      by (cases "j = k") (auto simp: t'_def set_next_tick_wheel min.coboundedI1)
  qed
  ultimately show ?thesis using ok by (simp add: timer_inv_def t'_def)
qed

text \<open>Working through the rest of the current slot: either an entry of the current tick is found, or the
  cursor reaches the end.\<close>

lemma poll_to_scan:
  assumes laws: "slab_laws sl v EMPTY" and "timer_inv v t L post" and "tm_tick t \<le> target"
  shows "(\<exists>k x t' L' post'. pending v t k = Some (tm_tick t, x) \<and>
      poll_to_loop sl target t = Some (Inr (Some x), t') \<and> timer_inv v t' L' post' \<and>
      pending v t' = (pending v t)(k := None) \<and> tm_tick t' = tm_tick t \<and> same_config t t') \<or>
    (\<exists>t'. poll_to_loop sl target t = poll_to_loop sl target t' \<and> timer_inv v t' L [] \<and>
      tm_tick t' = tm_tick t \<and> pending v t' = pending v t \<and> same_config t t')"
  using assms(2,3)
proof (induction post arbitrary: t)
  case Nil
  then show ?case by (auto intro: same_config_refl)
next
  case (Cons k post)
  have ok: "wheel_ok v t L" and cur: "cursor_ok v t L (k # post)"
    using Cons.prems(1) by (simp_all add: timer_inv_def)
  then obtain e where e: "ents v t k = Some e"
    using wheel_okD(4) [OF ok, of k "tm_tick t"] by (auto simp: pending_def cursor_ok_def)
  obtain t1 where inv1: "timer_inv v t1 L (k # post)" and pend: "pending v t1 = pending v t"
    and conf: "same_config t t1" and tick1: "tm_tick t1 = tm_tick t" and ents1: "ents v t1 = ents v t"
    and step: "poll_to_loop sl target t =
      (if e_tick e \<le> tm_tick t then
         Option.bind (timer_unlink sl (te_links e) k t1) (\<lambda>t2.
           Some (Inr (map_option te_state (fst (slab_remove sl (tm_entries t2) k))),
                 t2\<lparr>tm_entries := snd (slab_remove sl (tm_entries t2) k)\<rparr>))
       else poll_to_loop sl target ((set_next_tick t1 (slot_for t (tm_tick t))
         (min (we_next_tick (tm_wheel t1 ! slot_for t (tm_tick t))) (e_tick e)))\<lparr>tm_next := e_next e\<rparr>))"
    by (rule poll_to_visit [OF laws Cons.prems e])
  have e1: "ents v t1 k = Some e" using e ents1 by simp
  have slot1: "slot_for t1 = slot_for t" using conf by (simp add: same_config_def slot_for_def fun_eq_iff)
  show ?case
  proof (cases "e_tick e \<le> tm_tick t")
    case True
    moreover have "tm_tick t \<le> e_tick e" using cur e by (auto simp: cursor_ok_def pending_def)
    ultimately have "pending v t k = Some (tm_tick t, te_state e)" using e by (simp add: pending_def)
    moreover obtain t' L' post' where "poll_to_loop sl target t = Some (Inr (Some (te_state e)), t')" "timer_inv v t' L' post'"
      "pending v t' = (pending v t)(k := None)" "tm_tick t' = tm_tick t" "same_config t1 t'"
      using poll_to_fire [OF laws inv1 e1] step True pend tick1 by (simp only: if_True) blast
    ultimately show ?thesis using same_config_trans [OF conf] by blast
  next
    case False
    note pass = timer_inv_pass [OF inv1 e1, unfolded slot1 tick1]
    let ?t = "(set_next_tick t1 (slot_for t (tm_tick t)) (min (we_next_tick (tm_wheel t1 ! slot_for t (tm_tick t))) (e_tick e)))
      \<lparr>tm_next := e_next e\<rparr>"
    have "timer_inv v ?t L post" "tm_tick ?t \<le> target" "poll_to_loop sl target t = poll_to_loop sl target ?t"
      "pending v ?t = pending v t" "tm_tick ?t = tm_tick t" "same_config t ?t"
      using pass False Cons.prems(2) tick1 step pend conf by (auto simp: same_config_def)
    then show ?thesis using Cons.IH [of ?t] same_config_trans [of t ?t] by metis
  qed
qed

text \<open>The two outcomes of the loop.\<close>

definition poll_finds ::
  "('s, token, 'a timer_entry) slab_ops \<Rightarrow> ('s, token, 'a timer_entry) slab_view \<Rightarrow> u64 \<Rightarrow> ('s, 'c) timer \<Rightarrow> bool"
  where
  "poll_finds sl v target t \<longleftrightarrow> (\<exists>k tk x t'. pending v t k = Some (tk, x) \<and> tk \<le> target \<and>
     poll_to_loop sl target t = Some (Inr (Some x), t') \<and> timer_wf v t' \<and>
     pending v t' = (pending v t)(k := None) \<and> tm_tick t' = tk \<and> same_config t t')"

definition poll_exhausts ::
  "('s, token, 'a timer_entry) slab_ops \<Rightarrow> ('s, token, 'a timer_entry) slab_view \<Rightarrow> u64 \<Rightarrow> ('s, 'c) timer \<Rightarrow> bool"
  where
  "poll_exhausts sl v target t \<longleftrightarrow> (\<forall>k tk x. pending v t k = Some (tk, x) \<longrightarrow> target < tk) \<and>
     (\<exists>t'. poll_to_loop sl target t = Some (Inl (), t') \<and> timer_wf v t' \<and> bounds_ok v t' [] \<and>
       pending v t' = pending v t \<and> tm_tick t' = target + 1 \<and> same_config t t')"

lemma poll_outcome_step:
  assumes "poll_to_loop sl target t = poll_to_loop sl target t'" and "pending v t' = pending v t"
    and "same_config t t'"
  shows "poll_finds sl v target t' \<Longrightarrow> poll_finds sl v target t"
    and "poll_exhausts sl v target t' \<Longrightarrow> poll_exhausts sl v target t"
  using assms same_config_trans [OF assms(3)] unfolding poll_finds_def poll_exhausts_def by metis+

lemma poll_to_loop_spec:
  assumes laws: "slab_laws sl v EMPTY" and tgt: "target \<noteq> - 1"
    and "timer_inv v t L post" and "tm_tick t \<le> target + 1" and "tm_tick t \<le> target \<or> bounds_ok v t []"
  shows "poll_finds sl v target t \<or> poll_exhausts sl v target t"
  using assms(3-5)
proof (induction "Suc (unat target) - unat (tm_tick t)" arbitrary: t post)
  case 0
  then have tick: "tm_tick t = target + 1"
    using word_Suc_unat [OF tgt] by (simp add: word_le_nat_alt word_unat_eq_iff)
  then have gt: "\<not> tm_tick t \<le> target"
    using word_less_Suc_self [OF tgt] by simp
  have "target < tk" if "pending v t k = Some (tk, x)" for k tk x
    using "0.prems"(1) that gt tick unfolding timer_inv_def cursor_ok_def
    by (metis not_le order_trans)
  moreover have "poll_to_loop sl target t = Some (Inl (), t)"
    using gt by (subst poll_to_loop.simps) simp
  ultimately show ?case
    using "0.prems"(1,3) gt tick unfolding poll_exhausts_def timer_wf_def by auto
next
  case (Suc n)
  have le: "tm_tick t \<le> target"
    using Suc.hyps(2) by (simp add: word_le_nat_alt)
  have ne: "tm_tick t \<noteq> - 1" using le tgt by (auto simp: word_order.extremum_unique)
  from poll_to_scan [OF laws Suc.prems(1) le] show ?case
  proof (elim disjE exE conjE)
    fix k x t' L' post'
    assume "pending v t k = Some (tm_tick t, x)" "poll_to_loop sl target t = Some (Inr (Some x), t')"
      "timer_inv v t' L' post'" "pending v t' = (pending v t)(k := None)" "tm_tick t' = tm_tick t" "same_config t t'"
    then have "poll_finds sl v target t" using le unfolding poll_finds_def timer_wf_def by metis
    then show ?thesis ..
  next
    fix t1 assume t1: "poll_to_loop sl target t = poll_to_loop sl target t1" "timer_inv v t1 L []"
      "tm_tick t1 = tm_tick t" "pending v t1 = pending v t" "same_config t t1"
    obtain t2 where t2: "poll_to_loop sl target t1 = poll_to_loop sl target t2"
      "timer_inv v t2 L (L (slot_for t1 (tm_tick t1 + 1)))" "bounds_ok v t2 []"
      "tm_tick t2 = tm_tick t1 + 1" "pending v t2 = pending v t1" "same_config t1 t2"
      using poll_to_advance [OF t1(2), of target sl] le ne t1(3) by metis
    have tick2: "unat (tm_tick t2) = Suc (unat (tm_tick t))"
      using t2(4) t1(3) word_Suc_unat [OF ne] by simp
    then have "n = Suc (unat target) - unat (tm_tick t2)" using Suc.hyps(2) by simp
    moreover have "tm_tick t2 \<le> target + 1"
      using tick2 le word_Suc_unat [OF tgt] by (simp add: word_le_nat_alt)
    ultimately have "poll_finds sl v target t2 \<or> poll_exhausts sl v target t2"
      using Suc.hyps(1) [of t2] t2(2,3) by blast
    then show ?thesis
      using poll_outcome_step [OF t1(1,4,5)] poll_outcome_step [OF t2(1,5,6)] by blast
  qed
qed

section \<open>A fresh timer\<close>

lemma timer_new_wf:
  assumes laws: "slab_laws sl v EMPTY" and new: "timer_new sl lc tick_ms num_slots capacity start = Some t"
  shows "timer_wf v t" and "bounds_ok v t []" and "pending v t = Map.empty" and "tm_tick t = 0"
    and "tm_inner t = lazy_new lc"
proof -
  obtain n c where n: "next_power_of_two num_slots = Some n" and c: "next_power_of_two capacity = Some c"
    and t: "t = \<lparr>tm_tick_ms = tick_ms, tm_entries = slab_with_capacity sl c,
       tm_wheel = replicate (unat n) \<lparr>we_next_tick = TICK_MAX, we_head = EMPTY\<rparr>,
       tm_start = start, tm_tick = 0, tm_next = EMPTY, tm_mask = n - 1, tm_inner = lazy_new lc\<rparr>"
    using new by (auto simp: timer_new_def Option.bind_eq_Some_conv)
  have empty: "slab_valid v (slab_with_capacity sl c)" "slab_map v (slab_with_capacity sl c) = Map.empty"
    using laws unfolding slab_laws_def by blast+
  then show pend: "pending v t = Map.empty" using t by (simp add: pending_def)
  have "n \<noteq> 0" using next_power_of_two_Some(3) [OF n] by auto
  then have "unat n = Suc (unat (n - 1))"
    using next_power_of_two_Some(3) [OF n] by (simp add: unat_minus_one)
  then have len: "length (tm_wheel t) = Suc (unat (tm_mask t))" using t by simp
  have "we_head (tm_wheel t ! s) = EMPTY" if "s < length (tm_wheel t)" for s using that t by simp
  moreover have "slab_valid v (tm_entries t)" using empty(1) t by simp
  ultimately have "wheel_ok v t (\<lambda>_. [])"
    using pend len by (intro wheel_okI) simp_all
  moreover have "cursor_ok v t (\<lambda>_. []) []" using t pend by (simp add: cursor_ok_def)
  moreover show "bounds_ok v t []" using pend by (simp add: bounds_ok_def)
  ultimately show "timer_wf v t" unfolding timer_wf_def timer_inv_def by blast
  show "tm_tick t = 0" "tm_inner t = lazy_new lc" using t by simp_all
qed

end
