(* ===== verification/Mio_Instances.thy ===== *)
theory Mio_Instances
  imports Mio_Convert Mio_Event
begin

text \<open>
  Concrete containers that satisfy the laws assumed of the third-party crates: a slab kept as a vector
  of optional entries and a lazy cell kept as an option.  They show that the assumptions can be met
  and serve as instances when a statement is applied to a concrete timer.
\<close>

definition ls_get :: "'e option list \<Rightarrow> token \<Rightarrow> 'e option" where
  "ls_get s k = (let i = unat (token_val k) in if i < length s then s ! i else None)"

definition list_slab :: "('e option list, token, 'e) slab_ops" where
  "list_slab =
     \<lparr>slab_with_capacity = (\<lambda>c. replicate (unat c) None),
      slab_insert = (\<lambda>s e. map_option (\<lambda>i. (Token (of_nat i), s[i := Some e]))
                       (find (\<lambda>i. s ! i = None) [0..<length s])),
      slab_get = ls_get,
      slab_set = (\<lambda>s k e. s[unat (token_val k) := Some e]),
      slab_remove = (\<lambda>s k. (ls_get s k, s[unat (token_val k) := None]))\<rparr>"

definition list_slab_view :: "('e option list, token, 'e) slab_view" where
  "list_slab_view = \<lparr>slab_valid = (\<lambda>s. length s < 2 ^ 64), slab_map = ls_get, slab_cap = length\<rparr>"

definition option_cell :: "('a option, 'a) lazycell_ops" where
  "option_cell = \<lparr>lazy_new = None, lazy_borrow = (\<lambda>c. c),
     lazy_fill = (\<lambda>c v. case c of None \<Rightarrow> Some (Some v) | Some _ \<Rightarrow> None)\<rparr>"

lemma option_cell_laws: "lazycell_laws option_cell"
  by (auto simp: lazycell_laws_def option_cell_def split: option.split)

lemma unat_of_nat_small: "i < 2 ^ 64 \<Longrightarrow> unat (of_nat i :: usize) = i"
  by (subst unat_of_nat) simp

lemma ls_get_update:
  assumes "unat (token_val k) < length s"
  shows "ls_get (s[unat (token_val k) := x]) = (ls_get s)(k := x)"
proof
  fix j
  have "unat (token_val j) = unat (token_val k) \<longleftrightarrow> j = k"
    by (metis token.expand word_unat_eq_iff)
  then show "ls_get (s[unat (token_val k) := x]) j = ((ls_get s)(k := x)) j"
    using assms by (auto simp: ls_get_def Let_def)
qed

lemma ls_dom: "length s < 2 ^ 64 \<Longrightarrow> dom (ls_get s) = (\<lambda>i. Token (of_nat i)) ` {i. i < length s \<and> s ! i \<noteq> None}"
proof (intro set_eqI iffI)
  fix k assume "length s < 2 ^ 64" "k \<in> dom (ls_get s)"
  then have "unat (token_val k) < length s" "s ! unat (token_val k) \<noteq> None"
    by (auto simp: ls_get_def Let_def split: if_splits)
  moreover have "k = Token (of_nat (unat (token_val k)))" by simp
  ultimately show "k \<in> (\<lambda>i. Token (of_nat i)) ` {i. i < length s \<and> s ! i \<noteq> None}" by blast
qed (auto simp: ls_get_def unat_of_nat_small)

lemma ls_card:
  assumes "length s < 2 ^ 64"
  shows "card (dom (ls_get s)) = card {i. i < length s \<and> s ! i \<noteq> None}"
proof -
  have "inj_on (\<lambda>i. Token (of_nat i)) {i. i < length s \<and> s ! i \<noteq> None}"
    using assms by (intro inj_onI) (metis (mono_tags) mem_Collect_eq order.strict_trans token.inject unat_of_nat_small)
  then show ?thesis by (simp add: ls_dom [OF assms] card_image)
qed

lemma ls_full: "card {i. i < length s \<and> s ! i \<noteq> None} = length s \<longleftrightarrow> (\<forall>i < length s. s ! i \<noteq> None)"
proof
  assume *: "card {i. i < length s \<and> s ! i \<noteq> None} = length s"
  have "{i. i < length s \<and> s ! i \<noteq> None} = {..<length s}"
    by (rule card_subset_eq) (use * in auto)
  then show "\<forall>i < length s. s ! i \<noteq> None" by auto
next
  assume "\<forall>i < length s. s ! i \<noteq> None"
  then have "{i. i < length s \<and> s ! i \<noteq> None} = {..<length s}" by auto
  then show "card {i. i < length s \<and> s ! i \<noteq> None} = length s" by simp
qed

lemma ls_insert:
  assumes s: "length s < 2 ^ 64" and ins: "find (\<lambda>i. s ! i = None) [0..<length s] = Some i"
  shows "ls_get s (Token (of_nat i)) = None" and "Token (of_nat i) \<noteq> Token (- 1)"
    and "ls_get (s[i := Some e]) = (ls_get s)(Token (of_nat i) \<mapsto> e)"
proof -
  have i: "i < length s" "s ! i = None" using ins by (auto simp: find_Some_iff)
  then have u: "unat (of_nat i :: usize) = i" using s by (intro unat_of_nat_small) simp
  then show "ls_get s (Token (of_nat i)) = None" using i by (simp add: ls_get_def)
  have "i \<noteq> 2 ^ 64 - 1" using i(1) s by simp
  then show "Token (of_nat i) \<noteq> Token (- 1)" using u by (metis token.inject unat_max_u64)
  show "ls_get (s[i := Some e]) = (ls_get s)(Token (of_nat i) \<mapsto> e)"
    using ls_get_update [of "Token (of_nat i)" s "Some e"] u i by simp
qed

lemma ls_new:
  fixes c :: usize
  shows "slab_valid list_slab_view (slab_with_capacity list_slab c)"
    and "slab_map list_slab_view (slab_with_capacity list_slab c) = Map.empty"
    and "slab_cap list_slab_view (slab_with_capacity list_slab c) = unat c"
proof -
  have "unat c < 2 ^ 64" by (rule order_less_le_trans [OF unsigned_less]) simp
  then show "slab_valid list_slab_view (slab_with_capacity list_slab c)"
    by (simp add: list_slab_view_def list_slab_def)
qed (auto simp: list_slab_view_def list_slab_def ls_get_def Let_def)

lemma ls_remove: "slab_map list_slab_view (snd (slab_remove list_slab s k)) = (slab_map list_slab_view s)(k := None)"
proof (cases "unat (token_val k) < length s")
  case True
  then show ?thesis by (simp add: list_slab_view_def list_slab_def ls_get_update)
next
  case False
  then have "ls_get s k = None" by (simp add: ls_get_def)
  with False show ?thesis by (simp add: list_slab_view_def list_slab_def fun_upd_idem list_update_beyond)
qed

lemma list_slab_laws: "slab_laws list_slab list_slab_view (Token (- 1))"
  unfolding slab_laws_def
proof (intro conjI allI impI)
  fix s :: "'e option list"
  assume "slab_valid list_slab_view s"
  then have s: "length s < 2 ^ 64" by (simp add: list_slab_view_def)
  have fin: "finite {i. i < length s \<and> s ! i \<noteq> None}" by simp
  show "finite (dom (slab_map list_slab_view s))"
    by (simp add: list_slab_view_def ls_dom [OF s])
  show "card (dom (slab_map list_slab_view s)) \<le> slab_cap list_slab_view s"
    using card_mono [of "{..<length s}" "{i. i < length s \<and> s ! i \<noteq> None}"]
    by (auto simp: list_slab_view_def ls_card [OF s])
  fix e :: 'e
  show "slab_insert list_slab s e = None \<longleftrightarrow> card (dom (slab_map list_slab_view s)) = slab_cap list_slab_view s"
    by (simp add: list_slab_view_def list_slab_def ls_card [OF s] ls_full find_None_iff del: not_None_eq)
next
  fix s :: "'e option list" and e k s'
  assume s: "slab_valid list_slab_view s" and ins: "slab_insert list_slab s e = Some (k, s')"
  then obtain i where i: "find (\<lambda>i. s ! i = None) [0..<length s] = Some i"
    and eq: "k = Token (of_nat i)" "s' = s[i := Some e]"
    by (auto simp: list_slab_def)
  have len: "length s < 2 ^ 64" using s by (simp add: list_slab_view_def)
  show "slab_valid list_slab_view s'" "slab_map list_slab_view s k = None" "k \<noteq> Token (- 1)"
    "slab_map list_slab_view s' = (slab_map list_slab_view s)(k \<mapsto> e)"
    "slab_cap list_slab_view s' = slab_cap list_slab_view s"
    using ls_insert [OF len i] eq len by (simp_all add: list_slab_view_def)
next
  fix s :: "'e option list" and k e
  assume s: "slab_valid list_slab_view s" and k: "k \<in> dom (slab_map list_slab_view s)"
  then have "unat (token_val k) < length s"
    by (auto simp: list_slab_view_def ls_get_def Let_def split: if_splits)
  then show "slab_map list_slab_view (slab_set list_slab s k e) = (slab_map list_slab_view s)(k \<mapsto> e)"
    by (simp add: list_slab_view_def list_slab_def ls_get_update)
qed (rule ls_new ls_remove | simp add: list_slab_view_def list_slab_def)+

end
