(* ===== verification/Mio_Timer_Props.thy ===== *)
theory Mio_Timer_Props
  imports Mio_Timer_Spec Mio_Queue_Props Mio_Instances
begin

text \<open>
  What the timer of \<open>src/timer.rs\<close> promises: a poll returns a due timeout with the smallest tick, once,
  exactly if there is one; cancelling and inserting change exactly one timeout; a registered timer that
  reports nothing due has scheduled its wakeup no later than its first pending timeout; and a timeout
  fires less than one tick early as far as the rounding is concerned.
\<close>

section \<open>The timer in its world\<close>

text \<open>The handles of a registered timer are live.\<close>

definition inner_live :: "('c, timer_inner) lazycell_ops \<Rightarrow> ('s, 'c) timer \<Rightarrow> 'w timer_world \<Rightarrow> bool" where
  "inner_live lc t wd \<longleftrightarrow> (\<forall>inner. lazy_borrow lc (tm_inner t) = Some inner \<longrightarrow>
     queue_wf (tw_queue wd) \<and> handle_ok (tw_queue wd) (ti_set_readiness inner))"

definition registered :: "('c, timer_inner) lazycell_ops \<Rightarrow> ('s, 'c) timer \<Rightarrow> bool" where
  "registered lc t \<longleftrightarrow> lazy_borrow lc (tm_inner t) \<noteq> None"

text \<open>The wakeup is scheduled no later than the first pending timeout.\<close>

definition armed ::
  "('c, timer_inner) lazycell_ops \<Rightarrow> ('s, token, 'a timer_entry) slab_view \<Rightarrow> ('s, 'c) timer \<Rightarrow> 'w timer_world \<Rightarrow> bool"
  where
  "armed lc v t wd \<longleftrightarrow> (registered lc t \<longrightarrow>
     (\<forall>k tk x. pending v t k = Some (tk, x) \<longrightarrow> tw_wakeup_state wd \<le> tk))"

lemma schedule_readiness_fields [simp]:
  "tw_queue (schedule_readiness lc t tick wd) = tw_queue wd"
  "tw_thread (schedule_readiness lc t tick wd) = tw_thread wd"
  by (simp_all add: schedule_readiness_def split: option.split)

lemma schedule_readiness_state:
  "registered lc t \<Longrightarrow>
     tw_wakeup_state (schedule_readiness lc t tick wd) = min (tw_wakeup_state wd) tick"
  by (auto simp: schedule_readiness_def registered_def min_def)

lemma registered_cong: "tm_inner t' = tm_inner t \<Longrightarrow> registered lc t' = registered lc t"
  by (simp add: registered_def)

lemma fold_min_le: "fold min xs x \<le> (x :: u64)" "y \<in> set xs \<Longrightarrow> fold min xs x \<le> (y :: u64)"
proof (induction xs arbitrary: x)
  case (Cons z zs)
  { case 1 show ?case using Cons(1) [of "min z x"] by (auto intro: order_trans) }
  { case 2
    then show ?case
      using Cons(1) [of "min z x"] Cons(2) [of "min z x"] by (auto intro: order_trans) }
qed auto

lemma wheel_min_le:
  assumes "i < length wh"
  obtains m where "wheel_min wh = Some m" and "m \<le> we_next_tick (wh ! i)"
proof (cases wh)
  case (Cons w ws)
  have "we_next_tick (wh ! i) \<in> insert (we_next_tick w) (set (map we_next_tick ws))"
    using assms Cons nth_mem [of i wh] by auto
  then show thesis
    using that [of "fold min (map we_next_tick ws) (we_next_tick w)"] Cons
      fold_min_le [where xs = "map we_next_tick ws" and x = "we_next_tick w"]
    by (auto simp: wheel_min_def)
qed (use assms in simp)

text \<open>When all cached bounds are valid, \<open>next_tick\<close> is a lower bound for every pending timeout.\<close>

lemma timer_next_tick_le:
  assumes laws: "slab_laws sl v EMPTY" and inv: "timer_inv v t L post" and bnd: "bounds_ok v t []"
  obtains nt where "timer_next_tick sl t = Some (Some nt)"
    and "\<forall>k tk x. pending v t k = Some (tk, x) \<longrightarrow> nt \<le> tk"
proof -
  have ok: "wheel_ok v t L" and cur: "cursor_ok v t L post" using inv by (simp_all add: timer_inv_def)
  have slot: "slot_for t x < length (tm_wheel t)" for x by (rule slot_for_less [OF ok])
  obtain m where m: "wheel_min (tm_wheel t) = Some m"
    using wheel_min_le [OF slot [of 0]] by blast
  have m_le: "m \<le> tk" if "pending v t k = Some (tk, x)" for k tk x
  proof -
    have "we_next_tick (tm_wheel t ! slot_for t tk) \<le> tk" using bnd that by (auto simp: bounds_ok_def)
    moreover have "m \<le> we_next_tick (tm_wheel t ! slot_for t tk)"
      using wheel_min_le [OF slot [of tk]] m by (metis option.inject)
    ultimately show ?thesis by simp
  qed
  show thesis
  proof (cases "tm_next t = EMPTY")
    case True
    then show thesis using that [of m] m m_le by (simp add: timer_next_tick_def)
  next
    case False
    then obtain k ps where post: "post = k # ps" and k: "tm_next t = k"
      using cur by (cases post) (auto simp: cursor_ok_def)
    have "k \<in> set (L (slot_for t (tm_tick t)))" using cur post by (auto simp: cursor_ok_def)
    then obtain e where e: "ents v t k = Some e"
      using wheel_okD(4) [OF ok] by (fastforce simp: pending_def)
    have "get_links sl t k = Some (te_links e)"
      using slab_lawsD(1) [OF laws wheel_okD(1) [OF ok]] e by (simp add: get_links_def)
    moreover have "tm_tick t \<le> tk" if "pending v t j = Some (tk, x)" for j tk x
      using cur that by (auto simp: cursor_ok_def)
    ultimately show thesis
      using that [of "tm_tick t"] that [of m] k False slot m m_le
      by (cases "we_next_tick (tm_wheel t ! slot_for t (e_tick e)) = tm_tick t")
        (auto simp: timer_next_tick_def)
  qed
qed

section \<open>Polling\<close>

text \<open>The cases of \<open>poll_to\<close>: \<open>limit\<close> is the tick up to which the call looks.\<close>

definition poll_limit :: "('s, 'c) timer \<Rightarrow> u64 \<Rightarrow> u64" where
  "poll_limit t target = (if target < tm_tick t then tm_tick t else target)"

text \<open>When nothing is due, the readiness is cleared and the next wakeup is scheduled.\<close>

lemma poll_to_exhausted:
  assumes laws: "slab_laws sl v EMPTY" and live: "inner_live lc t wd" and ex: "poll_exhausts sl v (poll_limit t target) t"
  shows "\<exists>t' wd'. poll_to sl lc wake target t wd = Some (None, t', wd') \<and> timer_wf v t' \<and> bounds_ok v t' [] \<and>
    pending v t' = pending v t \<and> tm_tick t' = poll_limit t target + 1 \<and> same_config t t' \<and>
    armed lc v t' wd' \<and> inner_live lc t' wd' \<and> tw_thread wd' = tw_thread wd"
proof -
  let ?l = "poll_limit t target"
  obtain t' where f: "poll_to_loop sl ?l t = Some (Inl (), t')" "timer_wf v t'" "bounds_ok v t' []"
    "pending v t' = pending v t" "tm_tick t' = ?l + 1" "same_config t t'"
    using ex unfolding poll_exhausts_def by blast
  have inner: "tm_inner t' = tm_inner t" using f(6) by (simp add: same_config_def)
  show ?thesis
  proof (cases "lazy_borrow lc (tm_inner t)")
    case None
    then have "poll_to sl lc wake target t wd = Some (None, t', wd)"
      using f(1) inner unfolding poll_limit_def by (simp add: poll_to_def)
    moreover have "armed lc v t' wd" using None inner by (simp add: armed_def registered_def)
    moreover have "inner_live lc t' wd" using None inner by (simp add: inner_live_def)
    ultimately show ?thesis using f by blast
  next
    case (Some i)
    have q: "queue_wf (tw_queue wd)" "handle_ok (tw_queue wd) (ti_set_readiness i)"
      using live Some by (auto simp: inner_live_def)
    obtain r q' where q': "inner_set_readiness wake (tw_queue wd) (ti_set_readiness i) ready_none = Some (r, q')"
      "queue_wf q'" "queue_id q' = queue_id (tw_queue wd)" "counts q' = counts (tw_queue wd)"
      using queue_wf_set_readiness [OF q event_is_drop_simps(2)] by blast
    obtain L' post' where inv': "timer_inv v t' L' post'" using f(2) by (auto simp: timer_wf_def)
    obtain nt where nt: "timer_next_tick sl t' = Some (Some nt)"
      "\<forall>k tk x. pending v t' k = Some (tk, x) \<longrightarrow> nt \<le> tk"
      by (rule timer_next_tick_le [OF laws inv' f(3)])
    let ?wd = "schedule_readiness lc t' nt (wd\<lparr>tw_queue := q'\<rparr>)"
    have "poll_to sl lc wake target t wd = Some (None, t', ?wd)"
      using f(1) inner Some q'(1) nt(1) unfolding poll_limit_def by (simp add: poll_to_def)
    moreover have "armed lc v t' ?wd"
      using nt(2) by (auto simp: armed_def schedule_readiness_state min.coboundedI2)
    moreover have "handle_ok q' (ti_set_readiness i)"
      using q(2) q'(3,4) by (rule handle_ok_counts)
    then have "inner_live lc t' ?wd" using Some inner q'(2) by (simp add: inner_live_def)
    moreover have "tw_thread ?wd = tw_thread wd" by simp
    ultimately show ?thesis using f by blast
  qed
qed

lemma poll_to_cases:
  assumes laws: "slab_laws sl v EMPTY" and wf: "timer_wf v t" and live: "inner_live lc t wd"
    and lim: "poll_limit t target \<noteq> - 1"
  shows "(\<exists>k tk x t'. pending v t k = Some (tk, x) \<and> tk \<le> poll_limit t target \<and>
      poll_to sl lc wake target t wd = Some (Some x, t', wd) \<and> timer_wf v t' \<and>
      pending v t' = (pending v t)(k := None) \<and> tm_tick t' = tk \<and> same_config t t') \<or>
    ((\<forall>k tk x. pending v t k = Some (tk, x) \<longrightarrow> poll_limit t target < tk) \<and>
     (\<exists>t' wd'. poll_to sl lc wake target t wd = Some (None, t', wd') \<and> timer_wf v t' \<and> bounds_ok v t' [] \<and>
       pending v t' = pending v t \<and> tm_tick t' = poll_limit t target + 1 \<and> same_config t t' \<and>
       armed lc v t' wd' \<and> inner_live lc t' wd' \<and> tw_thread wd' = tw_thread wd))"
proof -
  obtain L post where inv: "timer_inv v t L post" using wf by (auto simp: timer_wf_def)
  let ?l = "poll_limit t target"
  have le: "tm_tick t \<le> ?l" by (auto simp: poll_limit_def)
  then have le1: "tm_tick t \<le> ?l + 1"
    using word_less_Suc_self [OF lim] by (metis order.strict_implies_order order.trans)
  from poll_to_loop_spec [OF laws lim inv le1] le
  have "poll_finds sl v ?l t \<or> poll_exhausts sl v ?l t" by blast
  then show ?thesis
  proof
    assume "poll_finds sl v ?l t"
    then obtain k tk x t' where f: "pending v t k = Some (tk, x)" "tk \<le> ?l"
      "poll_to_loop sl ?l t = Some (Inr (Some x), t')" "timer_wf v t'"
      "pending v t' = (pending v t)(k := None)" "tm_tick t' = tk" "same_config t t'"
      unfolding poll_finds_def by blast
    have "poll_to sl lc wake target t wd = Some (Some x, t', wd)"
      using f(3) unfolding poll_limit_def by (simp add: poll_to_def)
    then show ?thesis using f by blast
  next
    assume ex: "poll_exhausts sl v ?l t"
    then have "\<forall>k tk x. pending v t k = Some (tk, x) \<longrightarrow> ?l < tk" unfolding poll_exhausts_def by blast
    then show ?thesis using poll_to_exhausted [OF laws live ex, of wake] by blast
  qed
qed

lemma pending_ge_tick:
  "timer_wf v t \<Longrightarrow> pending v t k = Some (tk, x) \<Longrightarrow> tm_tick t \<le> tk"
  by (auto simp: timer_wf_def timer_inv_def cursor_ok_def)

section \<open>Setting a timeout\<close>

definition target_tick :: "('s, 'c) timer \<Rightarrow> u64 \<Rightarrow> u64" where
  "target_tick t req = (if req \<le> tm_tick t then tm_tick t + 1 else req)"

lemma target_tick_later: "tm_tick t \<noteq> - 1 \<Longrightarrow> tm_tick t < target_tick t req"
  using word_less_Suc_self by (auto simp: target_tick_def)

lemma set_timeout_at_cases:
  assumes laws: "slab_laws sl v EMPTY" and wf: "timer_wf v t" and tick: "tm_tick t \<noteq> - 1"
    and req: "duration_to_tick d (tm_tick_ms t) = Some req"
  shows "if card (dom (pending v t)) = slab_cap v (tm_entries t)
    then set_timeout_at sl lc d x t wd = Some (Inl TimerOverflow, t, wd)
    else \<exists>tok t'. set_timeout_at sl lc d x t wd =
        Some (Inr \<lparr>to_token = tok, to_tick = target_tick t req\<rparr>, t', schedule_readiness lc t' (target_tick t req) wd) \<and>
      timer_wf v t' \<and> pending v t tok = None \<and> pending v t' = (pending v t)(tok \<mapsto> (target_tick t req, x)) \<and>
      (bounds_ok v t [] \<longrightarrow> bounds_ok v t' []) \<and> tm_tick t' = tm_tick t \<and> tm_inner t' = tm_inner t"
proof -
  obtain L post where inv: "timer_inv v t L post" using wf by (auto simp: timer_wf_def)
  have eq: "set_timeout_at sl lc d x t wd = timer_insert sl lc (target_tick t req) x t wd"
    using req by (simp add: set_timeout_at_def target_tick_def)
  show ?thesis
  proof (cases "card (dom (pending v t)) = slab_cap v (tm_entries t)")
    case True
    then show ?thesis using timer_insert_full [OF laws inv True] eq by simp
  next
    case False
    obtain tok t' where "timer_insert sl lc (target_tick t req) x t wd =
        Some (Inr \<lparr>to_token = tok, to_tick = target_tick t req\<rparr>, t', schedule_readiness lc t' (target_tick t req) wd)"
      "pending v t tok = None" "pending v t' = (pending v t)(tok \<mapsto> (target_tick t req, x))"
      "timer_inv v t' (L(slot_for t (target_tick t req) := tok # L (slot_for t (target_tick t req)))) post"
      "bounds_ok v t [] \<Longrightarrow> bounds_ok v t' []" "tm_tick t' = tm_tick t" "tm_inner t' = tm_inner t"
      using timer_insert_eq [OF laws inv target_tick_later [OF tick] False] by metis
    then show ?thesis using False eq unfolding timer_wf_def by auto
  qed
qed

section \<open>Draining\<close>

text \<open>The loop of a client that polls until nothing is due, as \<open>EventLoop::timer_process\<close> does, at a
  fixed reading of the clock.\<close>

partial_function (option) timer_drain ::
  "('s, token, 'a timer_entry) slab_ops \<Rightarrow> ('c, timer_inner) lazycell_ops \<Rightarrow>
     ('w \<Rightarrow> unit io_result \<times> 'w) \<Rightarrow> u64 \<Rightarrow> ('s, 'c) timer \<Rightarrow> 'w timer_world \<Rightarrow> 'a list \<Rightarrow>
     ('a list \<times> ('s, 'c) timer \<times> 'w timer_world) option" where
  "timer_drain sl lc wake target t wd acc =
     Option.bind (poll_to sl lc wake target t wd) (\<lambda>(r, t1, wd1).
       (case r of
          None \<Rightarrow> Some (acc, t1, wd1)
        | Some x \<Rightarrow> timer_drain sl lc wake target t1 wd1 (acc @ [x])))"

definition due :: "('s, token, 'a timer_entry) slab_view \<Rightarrow> ('s, 'c) timer \<Rightarrow> u64 \<Rightarrow> token set" where
  "due v t limit = {k. \<exists>tk x. pending v t k = Some (tk, x) \<and> tk \<le> limit}"

lemma finite_due: "slab_laws sl v EMPTY \<Longrightarrow> timer_wf v t \<Longrightarrow> finite (due v t limit)"
proof -
  assume laws: "slab_laws sl v EMPTY" and "timer_wf v t"
  then have "finite (dom (ents v t))"
    using slab_lawsD(8) by (auto simp: timer_wf_def timer_inv_def wheel_ok_def)
  moreover have "due v t limit \<subseteq> dom (ents v t)" by (auto simp: due_def pending_def)
  ultimately show ?thesis by (rule rev_finite_subset)
qed

lemma poll_limit_stable:
  assumes "tm_tick t \<le> tk" "tk \<le> poll_limit t target" "tm_tick t' = tk"
  shows "poll_limit t' target = poll_limit t target"
  using assms by (auto simp: poll_limit_def split: if_splits)

text \<open>The tokens \<open>ks\<close> fire in this order.\<close>

definition drains ::
  "('s, token, 'a timer_entry) slab_view \<Rightarrow> ('s, 'c) timer \<Rightarrow> u64 \<Rightarrow> token list \<Rightarrow> bool" where
  "drains v t limit ks \<longleftrightarrow> distinct ks \<and> set ks = due v t limit \<and>
     sorted (map (\<lambda>k. fst (the (pending v t k))) ks)"

lemma drains_Cons:
  assumes k: "pending v t k = Some (tk, x)" "tk \<le> limit" and pend: "pending v t' = (pending v t)(k := None)"
    and min: "tm_tick t' = tk" "timer_wf v t'" and ks: "drains v t' limit ks"
  shows "drains v t limit (k # ks)" and "k \<notin> set ks"
    and "map (\<lambda>k. snd (the (pending v t' k))) ks = map (\<lambda>k. snd (the (pending v t k))) ks"
    and "pending v t' |` (- set ks) = pending v t |` (- set (k # ks))"
proof -
  have due: "due v t limit = insert k (due v t' limit)" "k \<notin> due v t' limit"
    using k pend by (auto simp: due_def split: if_splits)
  then show kn: "k \<notin> set ks" using ks by (simp add: drains_def)
  then have same: "pending v t' j = pending v t j" if "j \<in> set ks" for j using that pend by auto
  then show "map (\<lambda>k. snd (the (pending v t' k))) ks = map (\<lambda>k. snd (the (pending v t k))) ks" by simp
  have "tk \<le> fst (the (pending v t j))" if j: "j \<in> set ks" for j
  proof -
    obtain tj xj where "pending v t' j = Some (tj, xj)"
      using ks j by (auto simp: drains_def due_def)
    then show ?thesis using pending_ge_tick [OF min(2)] min(1) same [OF j] by fastforce
  qed
  moreover have eq: "map (\<lambda>k. fst (the (pending v t' k))) ks = map (\<lambda>k. fst (the (pending v t k))) ks"
    using same by simp
  have "sorted (map (\<lambda>k. fst (the (pending v t k))) ks)"
    using ks unfolding drains_def eq by blast
  ultimately show "drains v t limit (k # ks)"
    using ks due kn k(1) by (simp add: drains_def)
  show "pending v t' |` (- set ks) = pending v t |` (- set (k # ks))"
    using pend by (auto simp: restrict_map_def)
qed

lemma timer_drain_spec:
  assumes laws: "slab_laws sl v EMPTY" and "timer_wf v t" and "inner_live lc t wd" and "poll_limit t target \<noteq> - 1"
  shows "\<exists>ks t' wd'. drains v t (poll_limit t target) ks \<and>
    timer_drain sl lc wake target t wd acc = Some (acc @ map (\<lambda>k. snd (the (pending v t k))) ks, t', wd') \<and>
    timer_wf v t' \<and> pending v t' = pending v t |` (- set ks) \<and> tm_tick t' = poll_limit t target + 1 \<and>
    armed lc v t' wd'"
  using assms(2-)
proof (induction "card (due v t (poll_limit t target))" arbitrary: t wd acc rule: less_induct)
  case less
  from poll_to_cases [OF laws less.prems, of wake] show ?case
  proof (elim disjE exE conjE)
    fix k tk x t1
    assume f: "pending v t k = Some (tk, x)" "tk \<le> poll_limit t target"
      "poll_to sl lc wake target t wd = Some (Some x, t1, wd)" "timer_wf v t1"
      "pending v t1 = (pending v t)(k := None)" "tm_tick t1 = tk" "same_config t t1"
    have lim: "poll_limit t1 target = poll_limit t target"
      using poll_limit_stable [OF pending_ge_tick [OF less.prems(1) f(1)] f(2,6)] .
    have "due v t1 (poll_limit t1 target) \<subset> due v t (poll_limit t target)"
      using f(1,2,5) lim by (auto simp: due_def split: if_splits)
    then have "card (due v t1 (poll_limit t1 target)) < card (due v t (poll_limit t target))"
      using finite_due [OF laws less.prems(1)] by (rule psubset_card_mono [rotated])
    moreover have "inner_live lc t1 wd" using less.prems(2) f(7) by (simp add: inner_live_def same_config_def)
    ultimately obtain ks t' wd' where ks: "drains v t1 (poll_limit t target) ks"
      "timer_drain sl lc wake target t1 wd (acc @ [x]) =
        Some ((acc @ [x]) @ map (\<lambda>k. snd (the (pending v t1 k))) ks, t', wd')"
      "timer_wf v t'" "pending v t' = pending v t1 |` (- set ks)" "tm_tick t' = poll_limit t target + 1"
      "armed lc v t' wd'"
      using less.hyps [of t1 wd "acc @ [x]"] less.prems(3) f(4) lim by auto
    note c = drains_Cons [OF f(1,2,5,6,4) ks(1)]
    have "timer_drain sl lc wake target t wd acc = timer_drain sl lc wake target t1 wd (acc @ [x])"
      by (subst timer_drain.simps) (simp add: f(3))
    then show ?thesis
      using c ks f(1) by (intro exI [of _ "k # ks"] exI [of _ t'] exI [of _ wd']) simp
  next
    fix t' wd'
    assume f: "\<forall>k tk x. pending v t k = Some (tk, x) \<longrightarrow> poll_limit t target < tk"
      "poll_to sl lc wake target t wd = Some (None, t', wd')" "timer_wf v t'"
      "pending v t' = pending v t" "tm_tick t' = poll_limit t target + 1" "armed lc v t' wd'"
    have "drains v t (poll_limit t target) []"
      using f(1) by (fastforce simp: drains_def due_def)
    moreover have "timer_drain sl lc wake target t wd acc = Some (acc, t', wd')"
      by (subst timer_drain.simps) (simp add: f(2))
    ultimately show ?thesis
      using f by (intro exI [of _ "[]"] exI [of _ t'] exI [of _ wd']) (simp add: restrict_map_def)
  qed
qed

lemma armed_insert:
  assumes "armed lc v t wd" and "pending v t' = (pending v t)(tok \<mapsto> (tick, x))" and "tm_inner t' = tm_inner t"
  shows "armed lc v t' (schedule_readiness lc t' tick wd)"
  using assms registered_cong [OF assms(3)]
  by (auto simp: armed_def schedule_readiness_state min.coboundedI1 min.coboundedI2)

lemma armed_fewer:
  assumes "armed lc v t wd" and "pending v t' \<subseteq>\<^sub>m pending v t" and "tm_inner t' = tm_inner t"
  shows "armed lc v t' wd"
proof -
  have "pending v t k = Some y" if "pending v t' k = Some y" for k y
    using assms(2) that by (auto simp: map_le_def dom_def)
  then show ?thesis using assms(1) registered_cong [OF assms(3)] unfolding armed_def by blast
qed

section \<open>A sample timer\<close>

text \<open>A concrete timer for the witnesses: ticks of 100 ms, four slots, room for four timeouts; \<open>timer_a\<close>
  has one timeout for tick 2 pending.\<close>

type_synonym sample_timer = "(string timer_entry option list, timer_inner option) timer"

definition timer_0 :: sample_timer where
  "timer_0 = the (timer_new list_slab option_cell 100 4 4 0)"

definition world_0 :: "nat timer_world" where
  "world_0 = \<lparr>tw_queue = readiness_queue_new 0 0, tw_wakeup_state = - 1, tw_unparked = False, tw_thread = None\<rparr>"

definition timer_a :: sample_timer where
  "timer_a = timer_0\<lparr>tm_entries := [Some (entry_new ''a'' 2 EMPTY), None, None, None],
     tm_wheel := (replicate 4 \<lparr>we_next_tick = TICK_MAX, we_head = EMPTY\<rparr>)
       [2 := \<lparr>we_next_tick = 2, we_head = Token 0\<rparr>]\<rparr>"

lemma EMPTY_laws: "slab_laws list_slab list_slab_view EMPTY"
  using list_slab_laws by (simp add: EMPTY_def)

lemma replicate_4: "replicate 4 x = [x, x, x, x]"
  by (simp add: numeral_eq_Suc)

lemma next_power_of_two_4: "next_power_of_two 4 = Some 4"
  by code_simp

lemma timer_0_eq:
  "timer_0 = \<lparr>tm_tick_ms = 100, tm_entries = [None, None, None, None],
     tm_wheel = replicate 4 \<lparr>we_next_tick = TICK_MAX, we_head = EMPTY\<rparr>, tm_start = 0, tm_tick = 0,
     tm_next = EMPTY, tm_mask = 3, tm_inner = None\<rparr>"
  by (simp add: timer_0_def timer_new_def next_power_of_two_4 list_slab_def option_cell_def replicate_4)

lemma timer_0_new: "timer_new list_slab option_cell 100 4 4 0 = Some timer_0"
  by (simp add: timer_0_def timer_new_def next_power_of_two_4)

lemmas timer_0_facts = timer_new_wf [OF EMPTY_laws timer_0_new]

lemma timer_0_live: "tm_inner t = None \<Longrightarrow> inner_live option_cell t wd"
  by (simp add: inner_live_def option_cell_def)

lemma tick_200: "duration_to_tick (duration_from_millis 200) (tm_tick_ms timer_0) = Some 2"
  unfolding timer_0_eq timer.simps by code_simp

lemma timer_a_eq:
  "set_timeout_at list_slab option_cell (duration_from_millis 200) ''a'' timer_0 wd =
     Some (Inr \<lparr>to_token = Token 0, to_tick = 2\<rparr>, timer_a, wd)"
  using tick_200
  by (simp add: set_timeout_at_def timer_a_def timer_0_eq timer_insert_def slot_for_def list_slab_def
      option_cell_def schedule_readiness_def update_wheel_def upt_rec Let_def TICK_MAX_def)

lemma timer_a_facts:
  "timer_wf list_slab_view timer_a" "pending list_slab_view timer_a = [Token 0 \<mapsto> (2, ''a'')]"
  "tm_tick timer_a = 0" "tm_inner timer_a = None"
proof -
  have full: "slab_cap list_slab_view (tm_entries timer_0) = 4"
    by (simp add: timer_0_eq list_slab_view_def)
  have inner: "tm_inner timer_0 = None" by (simp add: timer_0_eq)
  have ne: "tm_tick timer_0 \<noteq> - 1" using timer_0_facts(4) by simp
  show "timer_wf list_slab_view timer_a" "pending list_slab_view timer_a = [Token 0 \<mapsto> (2, ''a'')]"
    "tm_tick timer_a = 0" "tm_inner timer_a = None"
    using set_timeout_at_cases [OF EMPTY_laws timer_0_facts(1) ne tick_200, of option_cell "''a''" world_0]
      full timer_0_facts(3,4) timer_a_eq [of world_0] inner
    by (auto simp: target_tick_def)
qed

section \<open>Properties\<close>

text \<open>C6.  \<open>Timer::poll_to\<close> is correct and total.  It looks up to the limit, which is the requested tick or
  the timer's current tick if that is later.  If some timeout is due it returns the state of one with the
  smallest tick, removes exactly that one and stops at its tick; otherwise it returns nothing, leaves
  the timeouts alone and moves to the tick after the limit.\<close>

theorem poll_to_correct:
  assumes "slab_laws sl v EMPTY" and "timer_wf v t" and "inner_live lc t wd" and "poll_limit t target \<noteq> - 1"
  shows "\<exists>res t' wd'. poll_to sl lc wake target t wd = Some (res, t', wd') \<and> timer_wf v t' \<and>
    (case res of
       Some x \<Rightarrow> \<exists>k tk. pending v t k = Some (tk, x) \<and> tk \<le> poll_limit t target \<and>
         (\<forall>k' tk' x'. pending v t k' = Some (tk', x') \<longrightarrow> tk \<le> tk') \<and>
         pending v t' = (pending v t)(k := None) \<and> tm_tick t' = tk
     | None \<Rightarrow> (\<forall>k tk x. pending v t k = Some (tk, x) \<longrightarrow> poll_limit t target < tk) \<and>
         pending v t' = pending v t \<and> tm_tick t' = poll_limit t target + 1)"
  using poll_to_cases [OF assms, of wake]
proof (elim disjE exE conjE)
  fix k tk x t'
  assume f: "pending v t k = Some (tk, x)" "tk \<le> poll_limit t target" "timer_wf v t'"
    "poll_to sl lc wake target t wd = Some (Some x, t', wd)" "pending v t' = (pending v t)(k := None)" "tm_tick t' = tk"
  have "tk \<le> tk'" if "pending v t k' = Some (tk', x')" for k' tk' x'
    using that f pending_ge_tick [OF f(3), of k'] by (cases "k' = k") auto
  then show ?thesis using f by auto
next
  fix t' wd'
  assume "\<forall>k tk x. pending v t k = Some (tk, x) \<longrightarrow> poll_limit t target < tk" "timer_wf v t'"
    "poll_to sl lc wake target t wd = Some (None, t', wd')" "pending v t' = pending v t"
    "tm_tick t' = poll_limit t target + 1"
  then show ?thesis by auto
qed

theorem poll_to_correct_witness:
  "\<exists>t' wd'. poll_to list_slab option_cell wake_count 2 timer_a world_0 = Some (Some ''a'', t', wd') \<and>
     pending list_slab_view t' = Map.empty \<and> tm_tick t' = 2"
proof -
  have lim: "poll_limit timer_a 2 = 2" by (simp add: poll_limit_def timer_a_facts)
  have "\<exists>res t' wd'. poll_to list_slab option_cell wake_count 2 timer_a world_0 = Some (res, t', wd') \<and>
      timer_wf list_slab_view t' \<and>
      (case res of
         Some x \<Rightarrow> \<exists>k tk. pending list_slab_view timer_a k = Some (tk, x) \<and> tk \<le> poll_limit timer_a 2 \<and>
           (\<forall>k' tk' x'. pending list_slab_view timer_a k' = Some (tk', x') \<longrightarrow> tk \<le> tk') \<and>
           pending list_slab_view t' = (pending list_slab_view timer_a)(k := None) \<and> tm_tick t' = tk
       | None \<Rightarrow> (\<forall>k tk x. pending list_slab_view timer_a k = Some (tk, x) \<longrightarrow> poll_limit timer_a 2 < tk) \<and>
           pending list_slab_view t' = pending list_slab_view timer_a \<and> tm_tick t' = poll_limit timer_a 2 + 1)"
    by (rule poll_to_correct [OF EMPTY_laws timer_a_facts(1) timer_0_live [OF timer_a_facts(4)]])
      (simp add: lim)
  then show ?thesis
    by (auto simp: timer_a_facts lim split: option.splits if_splits)
qed

text \<open>C7.  Every timeout fires exactly once, in the order of the ticks.  A client that polls until nothing is
  due receives the states of exactly the timeouts due at the limit, sorted by their ticks; those are
  removed, all others stay, and the loop ends.  A registered timer has then scheduled its wakeup no later
  than its first remaining timeout.\<close>

theorem timer_drain_fires_once:
  assumes "slab_laws sl v EMPTY" and "timer_wf v t" and "inner_live lc t wd" and "poll_limit t target \<noteq> - 1"
  shows "\<exists>ks t' wd'. timer_drain sl lc wake target t wd [] = Some (map (\<lambda>k. snd (the (pending v t k))) ks, t', wd') \<and>
    distinct ks \<and> set ks = {k. \<exists>tk x. pending v t k = Some (tk, x) \<and> tk \<le> poll_limit t target} \<and>
    sorted (map (\<lambda>k. fst (the (pending v t k))) ks) \<and>
    pending v t' = pending v t |` (- set ks) \<and> armed lc v t' wd'"
  using timer_drain_spec [OF assms, of wake "[]"] by (auto simp: drains_def due_def)

theorem timer_drain_fires_once_witness:
  "\<exists>t' wd'. timer_drain list_slab option_cell wake_count 3 timer_a world_0 [] = Some ([''a''], t', wd')"
proof -
  have lim: "poll_limit timer_a 3 = 3" by (simp add: poll_limit_def timer_a_facts)
  obtain ks t' wd' where ks: "timer_drain list_slab option_cell wake_count 3 timer_a world_0 [] =
      Some (map (\<lambda>k. snd (the (pending list_slab_view timer_a k))) ks, t', wd')"
    and "distinct ks" and "set ks = {k. \<exists>tk x. pending list_slab_view timer_a k = Some (tk, x) \<and> tk \<le> 3}"
    using timer_drain_fires_once [OF EMPTY_laws timer_a_facts(1) timer_0_live [OF timer_a_facts(4), of world_0],
        of 3 wake_count] lim by auto
  then have "length ks = 1" "set ks = {Token 0}"
    using distinct_card [of ks] by (auto simp: timer_a_facts split: if_splits)
  then have "ks = [Token 0]" by (cases ks) auto
  then show ?thesis using ks by (simp add: timer_a_facts)
qed

text \<open>C8.  \<open>Timer::set_timeout_at\<close>.  With a full slab it fails with \<open>TimerOverflow\<close> and changes nothing.
  Otherwise it returns a fresh token, adds exactly one timeout for the requested tick, but at least one
  tick in the future, and keeps the wakeup scheduled early enough.\<close>

theorem set_timeout_at_correct:
  assumes "slab_laws sl v EMPTY" and "timer_wf v t" and "tm_tick t \<noteq> - 1"
    and "duration_to_tick d (tm_tick_ms t) = Some req"
  shows "if card (dom (pending v t)) = slab_cap v (tm_entries t)
    then set_timeout_at sl lc d x t wd = Some (Inl TimerOverflow, t, wd)
    else \<exists>tok t' wd'. set_timeout_at sl lc d x t wd = Some (Inr \<lparr>to_token = tok, to_tick = max req (tm_tick t + 1)\<rparr>, t', wd') \<and>
      timer_wf v t' \<and> pending v t tok = None \<and>
      pending v t' = (pending v t)(tok \<mapsto> (max req (tm_tick t + 1), x)) \<and> tm_tick t' = tm_tick t \<and>
      (armed lc v t wd \<longrightarrow> armed lc v t' wd')"
proof -
  have "target_tick t req = max req (tm_tick t + 1)"
    using word_less_Suc_iff [OF assms(3), of req] by (auto simp: target_tick_def max_def)
  then show ?thesis
    using set_timeout_at_cases [OF assms, of lc x wd] armed_insert by (metis (no_types, lifting))
qed

theorem set_timeout_at_correct_witness:
  "\<exists>tok t' wd'. set_timeout_at list_slab option_cell (duration_from_millis 200) ''b'' timer_0 world_0 =
     Some (Inr \<lparr>to_token = tok, to_tick = 2\<rparr>, t', wd') \<and> pending list_slab_view t' = [tok \<mapsto> (2, ''b'')]"
proof -
  have "slab_cap list_slab_view (tm_entries timer_0) = 4" "tm_tick timer_0 = 0" "tm_tick timer_0 \<noteq> - 1"
    by (simp_all add: timer_0_eq list_slab_view_def)
  then show ?thesis
    using set_timeout_at_correct [OF EMPTY_laws timer_0_facts(1) _ tick_200, of option_cell "''b''" world_0]
      timer_0_facts(3) by auto
qed

text \<open>C9.  \<open>Timer::cancel_timeout\<close> returns the state of the timeout and removes it if a timeout with this
  token and this tick is pending; otherwise it returns nothing and changes nothing.\<close>

theorem cancel_timeout_correct:
  assumes "slab_laws sl v EMPTY" and "timer_wf v t"
  shows "\<exists>t'. timer_wf v t' \<and> tm_tick t' = tm_tick t \<and> (armed lc v t wd \<longrightarrow> armed lc v t' wd) \<and>
    (case pending v t (to_token to) of
       Some (tk, x) \<Rightarrow> if tk = to_tick to
         then cancel_timeout sl to t = Some (Some x, t') \<and> pending v t' = (pending v t)(to_token to := None)
         else cancel_timeout sl to t = Some (None, t') \<and> pending v t' = pending v t
     | None \<Rightarrow> cancel_timeout sl to t = Some (None, t') \<and> pending v t' = pending v t)"
proof -
  obtain L post where inv: "timer_inv v t L post" using assms(2) by (auto simp: timer_wf_def)
  obtain t' L' post' where c: "cancel_timeout sl to t =
      Some (case pending v t (to_token to) of
              Some (tk, x) \<Rightarrow> if tk = to_tick to then Some x else None | None \<Rightarrow> None, t')"
    "timer_inv v t' L' post'" and pend: "pending v t' = (case pending v t (to_token to) of
        Some (tk, x) \<Rightarrow> if tk = to_tick to then (pending v t)(to_token to := None) else pending v t
      | None \<Rightarrow> pending v t)" and "tm_tick t' = tm_tick t" "tm_inner t' = tm_inner t"
    using cancel_timeout_eq [OF assms(1) inv] by blast
  moreover have "pending v t' \<subseteq>\<^sub>m pending v t"
    using pend by (auto simp: map_le_def split: option.splits if_splits)
  ultimately show ?thesis
    using armed_fewer [of lc v t wd t'] unfolding timer_wf_def
    by (intro exI [of _ t']) (auto split: option.splits)
qed

theorem cancel_timeout_correct_witness:
  "\<exists>t'. cancel_timeout list_slab \<lparr>to_token = Token 0, to_tick = 2\<rparr> timer_a = Some (Some ''a'', t') \<and>
     pending list_slab_view t' = Map.empty"
  using cancel_timeout_correct [OF EMPTY_laws timer_a_facts(1), of option_cell world_0 "\<lparr>to_token = Token 0, to_tick = 2\<rparr>"]
  by (auto simp: timer_a_facts)



text \<open>C11.  The timer runs ahead of the clock.  A poll that finds nothing moves the timer to the next tick even
  if the clock has not reached it, and a poll whose target is behind the timer still looks at the timer's
  own tick.  So a client that polls repeatedly without waiting fires a timeout before its tick.\<close>

theorem poll_runs_ahead:
  assumes "slab_laws sl v EMPTY" and "timer_wf v t" and "inner_live lc t wd" and "tm_tick t \<noteq> - 1"
    and "target \<le> tm_tick t"
  shows "\<exists>res t' wd'. poll_to sl lc wake target t wd = Some (res, t', wd') \<and> timer_wf v t' \<and> inner_live lc t' wd' \<and>
    (if \<exists>k x. pending v t k = Some (tm_tick t, x)
     then \<exists>k x. res = Some x \<and> pending v t k = Some (tm_tick t, x)
     else res = None \<and> pending v t' = pending v t \<and> tm_tick t' = tm_tick t + 1)"
proof -
  have lim: "poll_limit t target = tm_tick t" using assms(5) by (auto simp: poll_limit_def)
  have lim': "poll_limit t target \<noteq> - 1" using assms(4) lim by simp
  from poll_to_cases [OF assms(1-3) lim', of wake] show ?thesis unfolding lim
  proof (elim disjE exE conjE)
    fix k tk x t'
    assume f: "pending v t k = Some (tk, x)" "tk \<le> tm_tick t" "timer_wf v t'"
      "poll_to sl lc wake target t wd = Some (Some x, t', wd)" "same_config t t'"
    have "tk = tm_tick t" using f(2) pending_ge_tick [OF assms(2) f(1)] by simp
    moreover have "inner_live lc t' wd" using assms(3) f(5) by (simp add: inner_live_def same_config_def)
    ultimately show ?thesis using f by auto
  next
    fix t' wd'
    assume "\<forall>k tk x. pending v t k = Some (tk, x) \<longrightarrow> tm_tick t < tk" "timer_wf v t'" "inner_live lc t' wd'"
      "poll_to sl lc wake target t wd = Some (None, t', wd')" "pending v t' = pending v t" "tm_tick t' = tm_tick t + 1"
    then show ?thesis by (intro exI [of _ None] exI [of _ t'] exI [of _ wd']) auto
  qed
qed

theorem poll_runs_ahead_witness:
  "\<exists>t1 wd1 t2 wd2 t3 wd3. poll_to list_slab option_cell wake_count 0 timer_a world_0 = Some (None, t1, wd1) \<and>
     poll_to list_slab option_cell wake_count 0 t1 wd1 = Some (None, t2, wd2) \<and>
     poll_to list_slab option_cell wake_count 0 t2 wd2 = Some (Some ''a'', t3, wd3)"
proof -
  note p = poll_runs_ahead [OF EMPTY_laws, where target = 0 and wake = wake_count]
  obtain t1 wd1 where 1: "poll_to list_slab option_cell wake_count 0 timer_a world_0 = Some (None, t1, wd1)"
    "timer_wf list_slab_view t1" "inner_live option_cell t1 wd1" "pending list_slab_view t1 = [Token 0 \<mapsto> (2, ''a'')]"
    "tm_tick t1 = 1"
    using p [OF timer_a_facts(1) timer_0_live [OF timer_a_facts(4), of world_0]]
    by (auto simp: timer_a_facts split: if_splits)
  obtain t2 wd2 where 2: "poll_to list_slab option_cell wake_count 0 t1 wd1 = Some (None, t2, wd2)"
    "timer_wf list_slab_view t2" "inner_live option_cell t2 wd2" "pending list_slab_view t2 = [Token 0 \<mapsto> (2, ''a'')]"
    "tm_tick t2 = 2"
    using p [OF 1(2,3)] 1(4,5) by (auto split: if_splits)
  have "\<exists>t3 wd3. poll_to list_slab option_cell wake_count 0 t2 wd2 = Some (Some ''a'', t3, wd3)"
    using p [OF 2(2,3)] 2(4,5) by (auto split: if_splits)
  then show ?thesis using 1(1) 2(1) by blast
qed

end
