(* ===== verification/Mio_Channel.thy ===== *)
theory Mio_Channel
  imports Mio_Queue Mio_Convert
begin

text \<open>
  The channel of \<open>src/channel.rs\<close>: a standard library \<open>mpsc\<close> queue whose receiver can be registered
  with a \<open>Poll\<close>.  \<open>Sender\<close>, \<open>SyncSender\<close> and \<open>Receiver\<close> are views of one shared state, the record
  \<open>channel\<close>: the message queue, the two counters of \<open>Inner\<close>, its lazily filled \<open>SetReadiness\<close> cell and
  the receiver's registration cell.  The two lazy cells are third-party code and enter as records of
  operations (\<open>ls\<close>, \<open>lr\<close>).  Every operation also acts on the readiness queue of the \<open>Poll\<close>; \<open>None\<close> is a
  panic.  The same operations cut at their atomic accesses are in \<open>Mio_Channel_Conc\<close>.
\<close>

section \<open>The message queue of the standard library\<close>

text \<open>\<open>mpsc::channel\<close> and \<open>mpsc::sync_channel\<close> with a positive bound: a queue with an optional bound,
  the number of sender handles and whether the receiver is alive.\<close>

record 'a mpsc =
  mp_messages :: "'a list"
  mp_bound :: "nat option"
  mp_senders :: nat
  mp_receiver :: bool

datatype 'a mpsc_try_send_error = MpscFull 'a | MpscDisconnected 'a

datatype try_recv_error = RecvEmpty | RecvDisconnected

definition mpsc_new :: "nat option \<Rightarrow> 'a mpsc" where
  "mpsc_new b = \<lparr>mp_messages = [], mp_bound = b, mp_senders = 1, mp_receiver = True\<rparr>"

definition mpsc_full :: "'a mpsc \<Rightarrow> bool" where
  "mpsc_full m = (case mp_bound m of None \<Rightarrow> False | Some b \<Rightarrow> b \<le> length (mp_messages m))"

text \<open>\<open>Sender::send\<close>; the error carries the message back.\<close>

definition mpsc_send :: "'a mpsc \<Rightarrow> 'a \<Rightarrow> ('a + unit) \<times> 'a mpsc" where
  "mpsc_send m x =
     (if mp_receiver m then (Inr (), m\<lparr>mp_messages := mp_messages m @ [x]\<rparr>) else (Inl x, m))"

text \<open>\<open>SyncSender::send\<close> blocks while the queue is full: \<open>None\<close> means that the call has not returned.\<close>

definition mpsc_sync_send :: "'a mpsc \<Rightarrow> 'a \<Rightarrow> (('a + unit) \<times> 'a mpsc) option" where
  "mpsc_sync_send m x = (if mp_receiver m \<and> mpsc_full m then None else Some (mpsc_send m x))"

definition mpsc_try_send :: "'a mpsc \<Rightarrow> 'a \<Rightarrow> ('a mpsc_try_send_error + unit) \<times> 'a mpsc" where
  "mpsc_try_send m x =
     (if \<not> mp_receiver m then (Inl (MpscDisconnected x), m)
      else if mpsc_full m then (Inl (MpscFull x), m)
      else (Inr (), m\<lparr>mp_messages := mp_messages m @ [x]\<rparr>))"

definition mpsc_try_recv :: "'a mpsc \<Rightarrow> (try_recv_error + 'a) \<times> 'a mpsc" where
  "mpsc_try_recv m =
     (case mp_messages m of
        x # xs \<Rightarrow> (Inr x, m\<lparr>mp_messages := xs\<rparr>)
      | [] \<Rightarrow> (Inl (if mp_senders m = 0 then RecvDisconnected else RecvEmpty), m))"

section \<open>Data\<close>

record 'c channel_inner =
  ch_pending :: usize
  ch_senders :: usize
  ch_set_readiness :: 'c

record ('a, 'c, 'r) channel =
  ch_mpsc :: "'a mpsc"
  ch_inner :: "'c channel_inner"
  ch_registration :: 'r

datatype 'a send_error = SendIo io_error | SendDisconnected 'a

datatype 'a try_send_error = TrySendIo io_error | TrySendFull 'a | TrySendDisconnected 'a

section \<open>Creation\<close>

definition ctl_pair :: "('c, registration_inner) lazycell_ops \<Rightarrow> 'c channel_inner" where
  "ctl_pair ls = \<lparr>ch_pending = 0, ch_senders = 1, ch_set_readiness = lazy_new ls\<rparr>"

definition channel_new ::
  "('c, registration_inner) lazycell_ops \<Rightarrow> ('r, registration_inner) lazycell_ops \<Rightarrow> ('a, 'c, 'r) channel" where
  "channel_new ls lr = \<lparr>ch_mpsc = mpsc_new None, ch_inner = ctl_pair ls, ch_registration = lazy_new lr\<rparr>"

definition sync_channel ::
  "('c, registration_inner) lazycell_ops \<Rightarrow> ('r, registration_inner) lazycell_ops \<Rightarrow> usize \<Rightarrow>
     ('a, 'c, 'r) channel" where
  "sync_channel ls lr bound =
     \<lparr>ch_mpsc = mpsc_new (Some (unat bound)), ch_inner = ctl_pair ls, ch_registration = lazy_new lr\<rparr>"

section \<open>Conversions and messages of the errors\<close>

definition send_error_from_mpsc :: "'a \<Rightarrow> 'a send_error" where
  "send_error_from_mpsc src = SendDisconnected src"

definition send_error_from_io :: "io_error \<Rightarrow> 'a send_error" where
  "send_error_from_io src = SendIo src"

fun try_send_error_from_mpsc :: "'a mpsc_try_send_error \<Rightarrow> 'a try_send_error" where
  "try_send_error_from_mpsc (MpscFull v) = TrySendFull v"
| "try_send_error_from_mpsc (MpscDisconnected v) = TrySendDisconnected v"

definition try_send_error_from_send :: "'a \<Rightarrow> 'a try_send_error" where
  "try_send_error_from_send src = TrySendDisconnected src"

definition try_send_error_from_io :: "io_error \<Rightarrow> 'a try_send_error" where
  "try_send_error_from_io src = TrySendIo src"

text \<open>\<open>show_io\<close> is the standard library's text of an \<open>io::Error\<close>.\<close>

fun send_error_description :: "(io_error \<Rightarrow> string) \<Rightarrow> 'a send_error \<Rightarrow> string" where
  "send_error_description show_io (SendIo e) = show_io e"
| "send_error_description show_io (SendDisconnected _) = ''Disconnected''"

fun try_send_error_description :: "(io_error \<Rightarrow> string) \<Rightarrow> 'a try_send_error \<Rightarrow> string" where
  "try_send_error_description show_io (TrySendIo e) = show_io e"
| "try_send_error_description show_io (TrySendFull _) = ''Full''"
| "try_send_error_description show_io (TrySendDisconnected _) = ''Disconnected''"

fun format_send_error :: "(io_error \<Rightarrow> string) \<Rightarrow> 'a send_error \<Rightarrow> string" where
  "format_send_error show_io (SendIo e) = show_io e"
| "format_send_error show_io (SendDisconnected _) = ''Disconnected''"

fun format_try_send_error :: "(io_error \<Rightarrow> string) \<Rightarrow> 'a try_send_error \<Rightarrow> string" where
  "format_try_send_error show_io (TrySendIo e) = show_io e"
| "format_try_send_error show_io (TrySendFull _) = ''Full''"
| "format_try_send_error show_io (TrySendDisconnected _) = ''Disconnected''"

section \<open>The counters\<close>

text \<open>\<open>if let Some(set_readiness) = self.inner.set_readiness.borrow() { set_readiness.set_readiness(rdy) }\<close>\<close>

definition toggle_readiness ::
  "('c, registration_inner) lazycell_ops \<Rightarrow> ('w \<Rightarrow> unit io_result \<times> 'w) \<Rightarrow> ready \<Rightarrow> 'c channel_inner \<Rightarrow>
     'w readiness_queue \<Rightarrow> (unit io_result \<times> 'w readiness_queue) option" where
  "toggle_readiness ls wake rdy i q =
     (case lazy_borrow ls (ch_set_readiness i) of
        Some set_readiness \<Rightarrow> inner_set_readiness wake q set_readiness rdy
      | None \<Rightarrow> Some (Inr (), q))"

definition ctl_inc ::
  "('c, registration_inner) lazycell_ops \<Rightarrow> ('w \<Rightarrow> unit io_result \<times> 'w) \<Rightarrow> 'c channel_inner \<Rightarrow>
     'w readiness_queue \<Rightarrow> (unit io_result \<times> 'c channel_inner \<times> 'w readiness_queue) option" where
  "ctl_inc ls wake i q =
     (let cnt = ch_pending i; i1 = i\<lparr>ch_pending := ch_pending i + 1\<rparr>
      in if cnt = 0 then do {
           (r, q1) \<leftarrow> toggle_readiness ls wake ready_readable i1 q;
           Some (r, i1, q1) }
         else Some (Inr (), i1, q))"

definition ctl_clone :: "'c channel_inner \<Rightarrow> 'c channel_inner" where
  "ctl_clone i = i\<lparr>ch_senders := ch_senders i + 1\<rparr>"

definition ctl_drop ::
  "('c, registration_inner) lazycell_ops \<Rightarrow> ('w \<Rightarrow> unit io_result \<times> 'w) \<Rightarrow> 'c channel_inner \<Rightarrow>
     'w readiness_queue \<Rightarrow> ('c channel_inner \<times> 'w readiness_queue) option" where
  "ctl_drop ls wake i q =
     (let old = ch_senders i; i1 = i\<lparr>ch_senders := ch_senders i - 1\<rparr>
      in if old = 1 then do {
           (_, i2, q2) \<leftarrow> ctl_inc ls wake i1 q;
           Some (i2, q2) }
         else Some (i1, q))"

text \<open>Each \<open>try!\<close> returns early: the decrement does not happen when unsetting the readiness fails.\<close>

definition ctl_dec ::
  "('c, registration_inner) lazycell_ops \<Rightarrow> ('w \<Rightarrow> unit io_result \<times> 'w) \<Rightarrow> 'c channel_inner \<Rightarrow>
     'w readiness_queue \<Rightarrow> (unit io_result \<times> 'c channel_inner \<times> 'w readiness_queue) option" where
  "ctl_dec ls wake i q =
     (let first = ch_pending i
      in do {
        (r1, q1) \<leftarrow> (if first = 1 then toggle_readiness ls wake ready_none i q else Some (Inr (), q));
        (case r1 of
           Inl e \<Rightarrow> Some (Inl e, i, q1)
         | Inr _ \<Rightarrow>
             let second = ch_pending i; i1 = i\<lparr>ch_pending := ch_pending i - 1\<rparr>
             in if first = 1 \<and> second > 1 then do {
                  (r2, q2) \<leftarrow> toggle_readiness ls wake ready_readable i1 q1;
                  Some (r2, i1, q2) }
                else Some (Inr (), i1, q1)) })"

section \<open>Senders\<close>

definition sender_send ::
  "('c, registration_inner) lazycell_ops \<Rightarrow> ('w \<Rightarrow> unit io_result \<times> 'w) \<Rightarrow> ('a, 'c, 'r) channel \<Rightarrow> 'a \<Rightarrow>
     'w readiness_queue \<Rightarrow> (('a send_error + unit) \<times> ('a, 'c, 'r) channel \<times> 'w readiness_queue) option" where
  "sender_send ls wake c t q =
     (case mpsc_send (ch_mpsc c) t of
        (Inl e, m) \<Rightarrow> Some (Inl (send_error_from_mpsc e), c\<lparr>ch_mpsc := m\<rparr>, q)
      | (Inr _, m) \<Rightarrow> do {
          (r, i, q1) \<leftarrow> ctl_inc ls wake (ch_inner c) q;
          Some (map_sum send_error_from_io id r, c\<lparr>ch_mpsc := m, ch_inner := i\<rparr>, q1) })"

text \<open>The outer option of a blocking send is \<open>None\<close> while the call is blocked.\<close>

definition sync_sender_send ::
  "('c, registration_inner) lazycell_ops \<Rightarrow> ('w \<Rightarrow> unit io_result \<times> 'w) \<Rightarrow> ('a, 'c, 'r) channel \<Rightarrow> 'a \<Rightarrow>
     'w readiness_queue \<Rightarrow>
     (('a send_error + unit) \<times> ('a, 'c, 'r) channel \<times> 'w readiness_queue) option option" where
  "sync_sender_send ls wake c t q =
     map_option (\<lambda>res.
       (case res of
          (Inl e, m) \<Rightarrow> Some (Inl (send_error_from_mpsc e), c\<lparr>ch_mpsc := m\<rparr>, q)
        | (Inr _, m) \<Rightarrow> do {
            (r, i, q1) \<leftarrow> ctl_inc ls wake (ch_inner c) q;
            Some (map_sum send_error_from_io id r, c\<lparr>ch_mpsc := m, ch_inner := i\<rparr>, q1) }))
       (mpsc_sync_send (ch_mpsc c) t)"

definition sync_sender_try_send ::
  "('c, registration_inner) lazycell_ops \<Rightarrow> ('w \<Rightarrow> unit io_result \<times> 'w) \<Rightarrow> ('a, 'c, 'r) channel \<Rightarrow> 'a \<Rightarrow>
     'w readiness_queue \<Rightarrow> (('a try_send_error + unit) \<times> ('a, 'c, 'r) channel \<times> 'w readiness_queue) option" where
  "sync_sender_try_send ls wake c t q =
     (case mpsc_try_send (ch_mpsc c) t of
        (Inl e, m) \<Rightarrow> Some (Inl (try_send_error_from_mpsc e), c\<lparr>ch_mpsc := m\<rparr>, q)
      | (Inr _, m) \<Rightarrow> do {
          (r, i, q1) \<leftarrow> ctl_inc ls wake (ch_inner c) q;
          Some (map_sum try_send_error_from_io id r, c\<lparr>ch_mpsc := m, ch_inner := i\<rparr>, q1) })"

definition sender_clone :: "('a, 'c, 'r) channel \<Rightarrow> ('a, 'c, 'r) channel" where
  "sender_clone c =
     c\<lparr>ch_mpsc := (ch_mpsc c)\<lparr>mp_senders := mp_senders (ch_mpsc c) + 1\<rparr>, ch_inner := ctl_clone (ch_inner c)\<rparr>"

definition sync_sender_clone :: "('a, 'c, 'r) channel \<Rightarrow> ('a, 'c, 'r) channel" where
  "sync_sender_clone c =
     c\<lparr>ch_mpsc := (ch_mpsc c)\<lparr>mp_senders := mp_senders (ch_mpsc c) + 1\<rparr>, ch_inner := ctl_clone (ch_inner c)\<rparr>"

text \<open>Dropping a sender drops its fields in order: the \<open>mpsc\<close> handle, then the control handle.\<close>

definition sender_drop ::
  "('c, registration_inner) lazycell_ops \<Rightarrow> ('w \<Rightarrow> unit io_result \<times> 'w) \<Rightarrow> ('a, 'c, 'r) channel \<Rightarrow>
     'w readiness_queue \<Rightarrow> (('a, 'c, 'r) channel \<times> 'w readiness_queue) option" where
  "sender_drop ls wake c q = do {
     (i, q1) \<leftarrow> ctl_drop ls wake (ch_inner c) q;
     Some (c\<lparr>ch_mpsc := (ch_mpsc c)\<lparr>mp_senders := mp_senders (ch_mpsc c) - 1\<rparr>, ch_inner := i\<rparr>, q1) }"

section \<open>The receiver\<close>

definition receiver_try_recv ::
  "('c, registration_inner) lazycell_ops \<Rightarrow> ('w \<Rightarrow> unit io_result \<times> 'w) \<Rightarrow> ('a, 'c, 'r) channel \<Rightarrow>
     'w readiness_queue \<Rightarrow> ((try_recv_error + 'a) \<times> ('a, 'c, 'r) channel \<times> 'w readiness_queue) option" where
  "receiver_try_recv ls wake c q =
     (case mpsc_try_recv (ch_mpsc c) of
        (Inl e, m) \<Rightarrow> Some (Inl e, c\<lparr>ch_mpsc := m\<rparr>, q)
      | (Inr res, m) \<Rightarrow> do {
          (_, i, q1) \<leftarrow> ctl_dec ls wake (ch_inner c) q;
          Some (Inr res, c\<lparr>ch_mpsc := m, ch_inner := i\<rparr>, q1) })"

definition ctl_register ::
  "('c, registration_inner) lazycell_ops \<Rightarrow> ('r, registration_inner) lazycell_ops \<Rightarrow>
     ('w \<Rightarrow> unit io_result \<times> 'w) \<Rightarrow> token \<Rightarrow> ready \<Rightarrow> poll_opt \<Rightarrow> ('a, 'c, 'r) channel \<Rightarrow>
     'w readiness_queue \<Rightarrow> (unit io_result \<times> ('a, 'c, 'r) channel \<times> 'w readiness_queue) option" where
  "ctl_register ls lr wake tok interest opts c q =
     (if lazy_borrow lr (ch_registration c) \<noteq> None then
        Some (Inl (CustomError Other ''receiver already registered''), c, q)
      else do {
        ((registration, set_readiness), q1) \<leftarrow> registration_new wake q tok interest opts;
        (_, q2) \<leftarrow> (if ch_pending (ch_inner c) > 0
                     then inner_set_readiness wake q1 set_readiness ready_readable
                     else Some (Inr (), q1));
        rc \<leftarrow> lazy_fill lr (ch_registration c) registration;
        sc \<leftarrow> lazy_fill ls (ch_set_readiness (ch_inner c)) set_readiness;
        Some (Inr (), c\<lparr>ch_registration := rc, ch_inner := (ch_inner c)\<lparr>ch_set_readiness := sc\<rparr>\<rparr>, q2) })"

definition ctl_reregister ::
  "('r, registration_inner) lazycell_ops \<Rightarrow> token \<Rightarrow> ready \<Rightarrow> poll_opt \<Rightarrow> ('a, 'c, 'r) channel \<Rightarrow>
     'w readiness_queue \<Rightarrow> (unit io_result \<times> 'w readiness_queue) option" where
  "ctl_reregister lr tok interest opts c q =
     (case lazy_borrow lr (ch_registration c) of
        Some registration \<Rightarrow> registration_update q registration tok interest opts
      | None \<Rightarrow> Some (Inl (CustomError Other ''receiver not registered''), q))"

definition ctl_deregister ::
  "('r, registration_inner) lazycell_ops \<Rightarrow> ('a, 'c, 'r) channel \<Rightarrow> 'w readiness_queue \<Rightarrow>
     (unit io_result \<times> 'w readiness_queue) option" where
  "ctl_deregister lr c q =
     (case lazy_borrow lr (ch_registration c) of
        Some registration \<Rightarrow> registration_deregister q registration
      | None \<Rightarrow> Some (Inl (CustomError Other ''receiver not registered''), q))"

definition receiver_register ::
  "('c, registration_inner) lazycell_ops \<Rightarrow> ('r, registration_inner) lazycell_ops \<Rightarrow>
     ('w \<Rightarrow> unit io_result \<times> 'w) \<Rightarrow> token \<Rightarrow> ready \<Rightarrow> poll_opt \<Rightarrow> ('a, 'c, 'r) channel \<Rightarrow>
     'w readiness_queue \<Rightarrow> (unit io_result \<times> ('a, 'c, 'r) channel \<times> 'w readiness_queue) option" where
  "receiver_register ls lr wake tok interest opts c q = ctl_register ls lr wake tok interest opts c q"

definition receiver_reregister ::
  "('r, registration_inner) lazycell_ops \<Rightarrow> token \<Rightarrow> ready \<Rightarrow> poll_opt \<Rightarrow> ('a, 'c, 'r) channel \<Rightarrow>
     'w readiness_queue \<Rightarrow> (unit io_result \<times> 'w readiness_queue) option" where
  "receiver_reregister lr tok interest opts c q = ctl_reregister lr tok interest opts c q"

definition receiver_deregister ::
  "('r, registration_inner) lazycell_ops \<Rightarrow> ('a, 'c, 'r) channel \<Rightarrow> 'w readiness_queue \<Rightarrow>
     (unit io_result \<times> 'w readiness_queue) option" where
  "receiver_deregister lr c q = ctl_deregister lr c q"

text \<open>Dropping the receiver drops the \<open>mpsc\<close> end with the messages left in it, then the registration.\<close>

definition receiver_drop ::
  "('r, registration_inner) lazycell_ops \<Rightarrow> ('w \<Rightarrow> unit io_result \<times> 'w) \<Rightarrow> ('a, 'c, 'r) channel \<Rightarrow>
     'w readiness_queue \<Rightarrow> (('a, 'c, 'r) channel \<times> 'w readiness_queue) option" where
  "receiver_drop lr wake c q = do {
     q1 \<leftarrow> (case lazy_borrow lr (ch_registration c) of
               Some registration \<Rightarrow> registration_drop wake q registration
             | None \<Rightarrow> Some q);
     Some (c\<lparr>ch_mpsc := (ch_mpsc c)\<lparr>mp_messages := [], mp_receiver := False\<rparr>\<rparr>, q1) }"

end
