(* ===== verification/Mio_Channel_Conc.thy ===== *)
theory Mio_Channel_Conc
  imports Mio_Channel Mio_Queue_Props Mio_Instances
begin

text \<open>
  The channel under concurrency: many senders and one receiver interleave at their atomic accesses.
  \<open>sender_step\<close> and \<open>receiver_step\<close> cut \<open>SenderCtl::inc\<close>, \<open>ReceiverCtl::dec\<close> and \<open>ReceiverCtl::register\<close>
  of \<open>src/channel.rs\<close> at every load, store and read-modify-write; a call of \<open>SetReadiness::set_readiness\<close>
  is one step.  The laws of the readiness handle that the protocol relies on are the locale
  \<open>readiness_store\<close>; it is interpreted on the readiness queue.
\<close>

section \<open>Atomic steps\<close>

datatype 'h sender_pc = SInc | SBorrow | SSet 'h

datatype 'h receiver_pc =
    RIdle | RLoad | RBorrowNone | RSetNone 'h | RSub usize | RBorrowSet | RSetReadable 'h
  | RRegLoad 'h 'h | RRegSet 'h 'h | RRegFill 'h 'h | RRegFillSet 'h

text \<open>A step of \<open>inc\<close>; no program counter is left when the call returns.\<close>

definition sender_step ::
  "('c, 'h) lazycell_ops \<Rightarrow> ('q \<Rightarrow> 'h \<Rightarrow> ready \<Rightarrow> (unit io_result \<times> 'q) option) \<Rightarrow> 'h sender_pc \<Rightarrow>
     'c channel_inner \<Rightarrow> 'q \<Rightarrow> ('h sender_pc option \<times> 'c channel_inner \<times> 'q) option" where
  "sender_step ls put pc i q =
     (case pc of
        SInc \<Rightarrow> Some ((if ch_pending i = 0 then Some SBorrow else None), i\<lparr>ch_pending := ch_pending i + 1\<rparr>, q)
      | SBorrow \<Rightarrow> Some (map_option SSet (lazy_borrow ls (ch_set_readiness i)), i, q)
      | SSet h \<Rightarrow> map_option (\<lambda>(_, q1). (None, i, q1)) (put q h ready_readable))"

text \<open>A step of \<open>dec\<close> or \<open>register\<close> of the receiver.\<close>

definition receiver_step ::
  "('c, 'h) lazycell_ops \<Rightarrow> ('r, 'h) lazycell_ops \<Rightarrow> ('q \<Rightarrow> 'h \<Rightarrow> ready \<Rightarrow> (unit io_result \<times> 'q) option) \<Rightarrow>
     'h receiver_pc \<Rightarrow> ('a, 'c, 'r) channel \<Rightarrow> 'q \<Rightarrow> ('h receiver_pc \<times> ('a, 'c, 'r) channel \<times> 'q) option" where
  "receiver_step ls lr put pc c q =
     (let i = ch_inner c
      in case pc of
        RIdle \<Rightarrow> None
      | RLoad \<Rightarrow> Some ((if ch_pending i = 1 then RBorrowNone else RSub (ch_pending i)), c, q)
      | RBorrowNone \<Rightarrow> Some (case lazy_borrow ls (ch_set_readiness i) of
            Some h \<Rightarrow> (RSetNone h, c, q) | None \<Rightarrow> (RSub 1, c, q))
      | RSetNone h \<Rightarrow> map_option (\<lambda>(r, q1). ((case r of Inl _ \<Rightarrow> RIdle | Inr _ \<Rightarrow> RSub 1), c, q1)) (put q h ready_none)
      | RSub first \<Rightarrow> Some ((if first = 1 \<and> ch_pending i > 1 then RBorrowSet else RIdle),
            c\<lparr>ch_inner := i\<lparr>ch_pending := ch_pending i - 1\<rparr>\<rparr>, q)
      | RBorrowSet \<Rightarrow> Some (case lazy_borrow ls (ch_set_readiness i) of
            Some h \<Rightarrow> (RSetReadable h, c, q) | None \<Rightarrow> (RIdle, c, q))
      | RSetReadable h \<Rightarrow> map_option (\<lambda>(_, q1). (RIdle, c, q1)) (put q h ready_readable)
      | RRegLoad reg h \<Rightarrow> Some ((if ch_pending i > 0 then RRegSet reg h else RRegFill reg h), c, q)
      | RRegSet reg h \<Rightarrow> map_option (\<lambda>(_, q1). (RRegFill reg h, c, q1)) (put q h ready_readable)
      | RRegFill reg h \<Rightarrow> map_option (\<lambda>rc. (RRegFillSet h, c\<lparr>ch_registration := rc\<rparr>, q))
            (lazy_fill lr (ch_registration c) reg)
      | RRegFillSet h \<Rightarrow> map_option (\<lambda>sc. (RIdle, c\<lparr>ch_inner := i\<lparr>ch_set_readiness := sc\<rparr>\<rparr>, q))
            (lazy_fill ls (ch_set_readiness i) h))"

section \<open>Interleavings\<close>

record ('a, 'c, 'r, 'h, 'q) channel_system =
  cs_channel :: "('a, 'c, 'r) channel"
  cs_queue :: 'q
  cs_inflight :: "'h sender_pc multiset"
  cs_receiver :: "'h receiver_pc"

definition finish_sender :: "'h sender_pc \<Rightarrow> 'h sender_pc option \<Rightarrow> 'h sender_pc multiset \<Rightarrow> 'h sender_pc multiset" where
  "finish_sender pc next M = (M - {#pc#}) + (case next of None \<Rightarrow> {#} | Some pc' \<Rightarrow> {#pc'#})"

text \<open>No run sends so many messages at once that they could not be held in memory.\<close>

definition MESSAGE_LIMIT :: nat where "MESSAGE_LIMIT = 2 ^ 62"

text \<open>The steps of the system: a message enters the queue and its sender goes on to \<open>inc\<close>; a step of a
  sender; a sender is cloned; one of several senders is dropped; the last sender is dropped, which also runs
  \<open>inc\<close>; the receiver takes a message and goes on to \<open>dec\<close>; the receiver starts to register; a step of the
  receiver; the rest of the program works on the queue without touching the channel's handles, e.g. polls.
  \<open>new\<close> is \<open>Registration::new\<close>, \<open>put\<close> is \<open>SetReadiness::set_readiness\<close>, \<open>env\<close> the allowed queue changes.\<close>

inductive channel_step ::
  "('c, 'h) lazycell_ops \<Rightarrow> ('r, 'h) lazycell_ops \<Rightarrow> ('q \<Rightarrow> 'h \<Rightarrow> ready \<Rightarrow> (unit io_result \<times> 'q) option) \<Rightarrow>
     ('q \<Rightarrow> (('h \<times> 'h) \<times> 'q) option) \<Rightarrow> ('q \<Rightarrow> 'q \<Rightarrow> bool) \<Rightarrow>
     ('a, 'c, 'r, 'h, 'q) channel_system \<Rightarrow> ('a, 'c, 'r, 'h, 'q) channel_system \<Rightarrow> bool"
  for ls :: "('c, 'h) lazycell_ops" and lr :: "('r, 'h) lazycell_ops"
    and put :: "'q \<Rightarrow> 'h \<Rightarrow> ready \<Rightarrow> (unit io_result \<times> 'q) option"
    and new :: "'q \<Rightarrow> (('h \<times> 'h) \<times> 'q) option" and env :: "'q \<Rightarrow> 'q \<Rightarrow> bool" where
  cs_send: "mpsc_send (ch_mpsc (cs_channel s)) x = (Inr (), m) \<Longrightarrow> ch_senders (ch_inner (cs_channel s)) \<noteq> 0 \<Longrightarrow>
    length (mp_messages (ch_mpsc (cs_channel s))) + size (cs_inflight s) < MESSAGE_LIMIT \<Longrightarrow>
    channel_step ls lr put new env s
      (s\<lparr>cs_channel := (cs_channel s)\<lparr>ch_mpsc := m\<rparr>, cs_inflight := add_mset SInc (cs_inflight s)\<rparr>)"
| cs_sender: "pc \<in># cs_inflight s \<Longrightarrow>
    sender_step ls put pc (ch_inner (cs_channel s)) (cs_queue s) = Some (next, i, q) \<Longrightarrow>
    channel_step ls lr put new env s
      (s\<lparr>cs_channel := (cs_channel s)\<lparr>ch_inner := i\<rparr>, cs_queue := q,
         cs_inflight := finish_sender pc next (cs_inflight s)\<rparr>)"
| cs_clone: "ch_senders (ch_inner (cs_channel s)) \<noteq> 0 \<Longrightarrow> ch_senders (ch_inner (cs_channel s)) \<noteq> - 1 \<Longrightarrow>
    channel_step ls lr put new env s (s\<lparr>cs_channel := sender_clone (cs_channel s)\<rparr>)"
| cs_drop: "i = ch_inner (cs_channel s) \<Longrightarrow> m = ch_mpsc (cs_channel s) \<Longrightarrow> ch_senders i \<noteq> 0 \<Longrightarrow>
    (ch_senders i = 1 \<longrightarrow> cs_inflight s = {#}) \<Longrightarrow>
    channel_step ls lr put new env s
      (s\<lparr>cs_channel := (cs_channel s)\<lparr>ch_mpsc := m\<lparr>mp_senders := mp_senders m - 1\<rparr>,
           ch_inner := i\<lparr>ch_senders := ch_senders i - 1\<rparr>\<rparr>,
         cs_inflight := cs_inflight s + (if ch_senders i = 1 then {#SInc#} else {#})\<rparr>)"
| cs_recv: "cs_receiver s = RIdle \<Longrightarrow> mpsc_try_recv (ch_mpsc (cs_channel s)) = (Inr x, m) \<Longrightarrow>
    channel_step ls lr put new env s
      (s\<lparr>cs_channel := (cs_channel s)\<lparr>ch_mpsc := m\<rparr>, cs_receiver := RLoad\<rparr>)"
| cs_register: "cs_receiver s = RIdle \<Longrightarrow> lazy_borrow lr (ch_registration (cs_channel s)) = None \<Longrightarrow>
    new (cs_queue s) = Some ((reg, h), q) \<Longrightarrow>
    channel_step ls lr put new env s (s\<lparr>cs_queue := q, cs_receiver := RRegLoad reg h\<rparr>)"
| cs_receiver: "receiver_step ls lr put (cs_receiver s) (cs_channel s) (cs_queue s) = Some (pc, c, q) \<Longrightarrow>
    channel_step ls lr put new env s (s\<lparr>cs_channel := c, cs_queue := q, cs_receiver := pc\<rparr>)"
| cs_env: "env (cs_queue s) q \<Longrightarrow> channel_step ls lr put new env s (s\<lparr>cs_queue := q\<rparr>)"

section \<open>The invariant\<close>

definition popped :: "'h receiver_pc \<Rightarrow> int" where
  "popped pc = (case pc of RLoad \<Rightarrow> 1 | RBorrowNone \<Rightarrow> 1 | RSetNone _ \<Rightarrow> 1 | RSub _ \<Rightarrow> 1 | _ \<Rightarrow> 0)"

text \<open>The value \<open>pending\<close> stands for, as a signed number: the messages that were counted, and one more when all
  senders are gone.  It is negative while the receiver runs ahead of the senders' counting.\<close>

definition level :: "('a, 'c, 'r, 'h, 'q) channel_system \<Rightarrow> int" where
  "level s = int (length (mp_messages (ch_mpsc (cs_channel s)))) + popped (cs_receiver s) +
     (if ch_senders (ch_inner (cs_channel s)) = 0 then 1 else 0) - int (count (cs_inflight s) SInc)"

definition small :: "('a, 'c, 'r, 'h, 'q) channel_system \<Rightarrow> bool" where
  "small s \<longleftrightarrow> length (mp_messages (ch_mpsc (cs_channel s))) + size (cs_inflight s) \<le>
     MESSAGE_LIMIT + 2 + (if ch_senders (ch_inner (cs_channel s)) = 0 then 1 else 0)"

definition counted :: "('a, 'c, 'r, 'h, 'q) channel_system \<Rightarrow> bool" where
  "counted s \<longleftrightarrow> small s \<and> ch_pending (ch_inner (cs_channel s)) = word_of_int (level s) \<and>
     (cs_receiver s \<in> {RBorrowNone, RSub 1} \<or> (\<exists>h. cs_receiver s = RSetNone h) \<longrightarrow> 1 \<le> level s)"

lemma count_le_size: "count M x \<le> size M"
  by (induction M) auto

lemma level_bounds:
  assumes "small s"
  shows "\<bar>level s\<bar> \<le> 2 ^ 62 + 5"
proof -
  have "popped (cs_receiver s) \<in> {0, 1}" by (simp add: popped_def split: receiver_pc.split)
  moreover have "count (cs_inflight s) SInc \<le> size (cs_inflight s)" by (rule count_le_size)
  ultimately show ?thesis using assms by (auto simp: small_def level_def MESSAGE_LIMIT_def split: if_splits)
qed

lemma signed_word_eq:
  assumes "\<bar>k\<bar> \<le> 2 ^ 62 + 5" and "0 \<le> n" and "n \<le> 1"
  shows "(word_of_int k :: usize) = word_of_int n \<longleftrightarrow> k = n"
proof
  assume "(word_of_int k :: usize) = word_of_int n"
  then have "2 ^ 64 dvd k - n" by (simp add: word_of_int_eq_iff take_bit_eq_mod mod_eq_dvd_iff)
  moreover have "\<bar>k - n\<bar> < 2 ^ 64" using assms by simp
  ultimately show "k = n" using zdvd_not_zless [of "\<bar>k - n\<bar>" "2 ^ 64"] by (auto simp: zero_less_abs_iff)
qed simp

lemma pending_iff:
  assumes "counted s"
  shows "ch_pending (ch_inner (cs_channel s)) = 0 \<longleftrightarrow> level s = 0"
    and "ch_pending (ch_inner (cs_channel s)) = 1 \<longleftrightarrow> level s = 1"
proof -
  have b: "\<bar>level s\<bar> \<le> 2 ^ 62 + 5" and p: "ch_pending (ch_inner (cs_channel s)) = word_of_int (level s)"
    using assms level_bounds [of s] by (simp_all add: counted_def)
  show "ch_pending (ch_inner (cs_channel s)) = 0 \<longleftrightarrow> level s = 0"
    "ch_pending (ch_inner (cs_channel s)) = 1 \<longleftrightarrow> level s = 1"
    unfolding p using signed_word_eq [OF b, of 0] signed_word_eq [OF b, of 1] by simp_all
qed

lemma pending_gt_1:
  assumes "counted s" and "1 \<le> level s"
  shows "ch_pending (ch_inner (cs_channel s)) > 1 \<longleftrightarrow> level s > 1"
proof -
  have b: "\<bar>level s\<bar> \<le> 2 ^ 62 + 5" and p: "ch_pending (ch_inner (cs_channel s)) = word_of_int (level s)"
    using assms level_bounds [of s] by (simp_all add: counted_def)
  have "uint (word_of_int (level s) :: usize) = level s"
    using b assms(2) by (simp add: uint_word_of_int mod_pos_pos_trivial)
  then show ?thesis by (simp add: p word_less_def)
qed

text \<open>Some sender has counted the first message and is about to set the readiness.\<close>

definition announced :: "'h \<Rightarrow> ('a, 'c, 'r, 'h, 'q) channel_system \<Rightarrow> bool" where
  "announced h s \<longleftrightarrow> SBorrow \<in># cs_inflight s \<or> SSet h \<in># cs_inflight s"

text \<open>Between unsetting the readiness and its check of the second count the receiver itself is responsible
  for the signal.\<close>

fun receiver_signals :: "'h receiver_pc \<Rightarrow> bool" where
  "receiver_signals (RSub first) \<longleftrightarrow> first = 1"
| "receiver_signals RBorrowSet \<longleftrightarrow> True"
| "receiver_signals (RSetReadable _) \<longleftrightarrow> True"
| "receiver_signals _ \<longleftrightarrow> False"

fun receiver_handle_ok :: "'h \<Rightarrow> 'h receiver_pc \<Rightarrow> bool" where
  "receiver_handle_ok h (RSetNone h') \<longleftrightarrow> h' = h"
| "receiver_handle_ok h (RSetReadable h') \<longleftrightarrow> h' = h"
| "receiver_handle_ok h (RRegLoad _ _) \<longleftrightarrow> False"
| "receiver_handle_ok h (RRegSet _ _) \<longleftrightarrow> False"
| "receiver_handle_ok h (RRegFill _ _) \<longleftrightarrow> False"
| "receiver_handle_ok h (RRegFillSet _) \<longleftrightarrow> False"
| "receiver_handle_ok h _ \<longleftrightarrow> True"

definition channel_inv ::
  "('c, 'h) lazycell_ops \<Rightarrow> ('r, 'h) lazycell_ops \<Rightarrow> ('q \<Rightarrow> bool) \<Rightarrow> 'h \<Rightarrow> ('q \<Rightarrow> ready option) \<Rightarrow>
     ('a, 'c, 'r, 'h, 'q) channel_system \<Rightarrow> bool" where
  "channel_inv ls lr live h get s \<longleftrightarrow>
     counted s \<and> live (cs_queue s) \<and>
     lazy_borrow ls (ch_set_readiness (ch_inner (cs_channel s))) = Some h \<and>
     lazy_borrow lr (ch_registration (cs_channel s)) \<noteq> None \<and>
     (\<forall>h'. SSet h' \<in># cs_inflight s \<longrightarrow> h' = h) \<and> receiver_handle_ok h (cs_receiver s) \<and>
     (1 \<le> level s \<longrightarrow> get (cs_queue s) = Some ready_readable \<or> announced h s \<or> receiver_signals (cs_receiver s))"

lemma level_upd:
  "level (s\<lparr>cs_queue := q\<rparr>) = level s"
  "counted (s\<lparr>cs_queue := q\<rparr>) = counted s"
  "announced h (s\<lparr>cs_queue := q\<rparr>) = announced h s"
  by (simp_all add: level_def counted_def small_def announced_def)

locale readiness_store =
  fixes live :: "'q \<Rightarrow> bool" and h :: 'h and put :: "'q \<Rightarrow> 'h \<Rightarrow> ready \<Rightarrow> (unit io_result \<times> 'q) option"
    and get :: "'q \<Rightarrow> ready option" and env :: "'q \<Rightarrow> 'q \<Rightarrow> bool"
  assumes put_law: "live q \<Longrightarrow> \<not> event_is_drop r \<Longrightarrow>
      \<exists>res q'. put q h r = Some (res, q') \<and> live q' \<and> get q' = Some r \<and> (event_is_empty r \<longrightarrow> res = Inr ())"
    and env_law: "env q q' \<Longrightarrow> live q \<Longrightarrow> live q' \<and> get q' = get q"
begin

lemma inv_send:
  assumes inv: "channel_inv ls lr live h get s" and m: "mpsc_send (ch_mpsc (cs_channel s)) x = (Inr (), m)"
    and "ch_senders (ch_inner (cs_channel s)) \<noteq> 0"
    and "length (mp_messages (ch_mpsc (cs_channel s))) + size (cs_inflight s) < MESSAGE_LIMIT"
  shows "channel_inv ls lr live h get
    (s\<lparr>cs_channel := (cs_channel s)\<lparr>ch_mpsc := m\<rparr>, cs_inflight := add_mset SInc (cs_inflight s)\<rparr>)" (is "channel_inv _ _ _ _ _ ?s")
proof -
  have m': "mp_messages m = mp_messages (ch_mpsc (cs_channel s)) @ [x]"
    using m by (auto simp: mpsc_send_def split: if_splits)
  then have "level ?s = level s" by (simp add: level_def)
  then show ?thesis
    using inv assms(3,4) m' by (auto simp: channel_inv_def counted_def small_def announced_def)
qed

lemma inv_sender:
  assumes inv: "channel_inv ls lr live h get s" and pc: "pc \<in># cs_inflight s"
    and step: "sender_step ls put pc (ch_inner (cs_channel s)) (cs_queue s) = Some (nx, i, q)"
  shows "channel_inv ls lr live h get (s\<lparr>cs_channel := (cs_channel s)\<lparr>ch_inner := i\<rparr>, cs_queue := q,
    cs_inflight := finish_sender pc nx (cs_inflight s)\<rparr>)" (is "channel_inv _ _ _ _ _ ?s")
proof -
  have cnt: "counted s" and live: "live (cs_queue s)"
    and cell: "lazy_borrow ls (ch_set_readiness (ch_inner (cs_channel s))) = Some h"
    using inv by (simp_all add: channel_inv_def)
  obtain M where M: "cs_inflight s = add_mset pc M" using pc by (metis insert_DiffM)
  show ?thesis
  proof (cases pc)
    case SInc
    then have eq: "i = (ch_inner (cs_channel s))\<lparr>ch_pending := ch_pending (ch_inner (cs_channel s)) + 1\<rparr>" "q = cs_queue s"
      "nx = (if level s = 0 then Some SBorrow else None)"
      using step pending_iff [OF cnt] by (auto simp: sender_step_def)
    have lv: "level ?s = level s + 1"
      using M eq SInc by (simp add: level_def finish_sender_def)
    then have "counted ?s"
      using cnt M eq SInc by (auto simp: counted_def small_def finish_sender_def)
    moreover have "announced h s \<or> level s = 0 \<Longrightarrow> announced h ?s"
      using M eq SInc by (auto simp: announced_def finish_sender_def)
    ultimately show ?thesis
      using inv lv M eq SInc by (auto simp: channel_inv_def finish_sender_def split: if_splits)
  next
    case SBorrow
    then have eq: "i = ch_inner (cs_channel s)" "q = cs_queue s" "nx = Some (SSet h)"
      using step cell by (auto simp: sender_step_def)
    then show ?thesis
      using inv M SBorrow by (auto simp: channel_inv_def counted_def small_def level_def announced_def finish_sender_def)
  next
    case (SSet h')
    then have "h' = h" using inv pc by (auto simp: channel_inv_def)
    then have eq: "i = ch_inner (cs_channel s)" "live q" "get q = Some ready_readable" "nx = None"
      using step put_law [OF live ready_not_drop(1)] SSet by (auto simp: sender_step_def)
    then show ?thesis
      using inv M SSet by (auto simp: channel_inv_def counted_def small_def level_def finish_sender_def)
  qed
qed

lemma inv_clone:
  assumes "channel_inv ls lr live h get s"
    and "ch_senders (ch_inner (cs_channel s)) \<noteq> 0" and "ch_senders (ch_inner (cs_channel s)) \<noteq> - 1"
  shows "channel_inv ls lr live h get (s\<lparr>cs_channel := sender_clone (cs_channel s)\<rparr>)"
proof -
  have "ch_senders (ch_inner (cs_channel s)) + 1 \<noteq> 0"
    using assms(3) by (metis add_diff_cancel_right' diff_0)
  then show ?thesis
    using assms(1,2)
    by (simp add: channel_inv_def counted_def small_def level_def announced_def sender_clone_def ctl_clone_def)
qed

lemma inv_drop:
  assumes inv: "channel_inv ls lr live h get s" and i: "i = ch_inner (cs_channel s)" "m = ch_mpsc (cs_channel s)"
    and "ch_senders i \<noteq> 0" and last: "ch_senders i = 1 \<longrightarrow> cs_inflight s = {#}"
  shows "channel_inv ls lr live h get (s\<lparr>cs_channel := (cs_channel s)\<lparr>ch_mpsc := m\<lparr>mp_senders := mp_senders m - 1\<rparr>,
      ch_inner := i\<lparr>ch_senders := ch_senders i - 1\<rparr>\<rparr>,
    cs_inflight := cs_inflight s + (if ch_senders i = 1 then {#SInc#} else {#})\<rparr>)" (is "channel_inv _ _ _ _ _ ?s")
proof -
  have "ch_senders i - 1 = 0 \<longleftrightarrow> ch_senders i = 1" by simp
  then have "level ?s = level s" "counted ?s = counted s"
    using assms(2-4) last by (auto simp: level_def counted_def small_def)
  then show ?thesis
    using inv i by (auto simp: channel_inv_def announced_def split: if_splits)
qed

lemma inv_recv:
  assumes inv: "channel_inv ls lr live h get s" and idle: "cs_receiver s = RIdle"
    and m: "mpsc_try_recv (ch_mpsc (cs_channel s)) = (Inr x, m)"
  shows "channel_inv ls lr live h get (s\<lparr>cs_channel := (cs_channel s)\<lparr>ch_mpsc := m\<rparr>, cs_receiver := RLoad\<rparr>)"
    (is "channel_inv _ _ _ _ _ ?s")
proof -
  have m': "mp_messages (ch_mpsc (cs_channel s)) = x # mp_messages m"
    using m by (auto simp: mpsc_try_recv_def split: list.splits)
  then have "level ?s = level s" using idle by (simp add: level_def popped_def)
  then show ?thesis
    using inv idle m' by (auto simp: channel_inv_def counted_def small_def announced_def)
qed

lemma inv_receiver:
  assumes inv: "channel_inv ls lr live h get s"
    and step: "receiver_step ls lr put (cs_receiver s) (cs_channel s) (cs_queue s) = Some (pc, c, q)"
  shows "channel_inv ls lr live h get (s\<lparr>cs_channel := c, cs_queue := q, cs_receiver := pc\<rparr>)"
    (is "channel_inv _ _ _ _ _ ?s")
proof -
  have cnt: "counted s" and live: "live (cs_queue s)" and ok: "receiver_handle_ok h (cs_receiver s)"
    and cell: "lazy_borrow ls (ch_set_readiness (ch_inner (cs_channel s))) = Some h"
    using inv by (simp_all add: channel_inv_def)
  note defs = channel_inv_def counted_def small_def level_def announced_def popped_def
  show ?thesis
  proof (cases "cs_receiver s")
    case RLoad
    then have "c = cs_channel s" "q = cs_queue s"
      "pc = (if level s = 1 then RBorrowNone else RSub (ch_pending (ch_inner c)))" "ch_pending (ch_inner c) = 1 \<longleftrightarrow> level s = 1"
      using step pending_iff(2) [OF cnt] by (auto simp: receiver_step_def Let_def)
    moreover have "level ?s = level s" using calculation RLoad by (simp add: level_def popped_def)
    ultimately show ?thesis using inv RLoad by (auto simp: channel_inv_def counted_def small_def announced_def)
  next
    case RBorrowNone
    then have "c = cs_channel s" "q = cs_queue s" "pc = RSetNone h"
      using step cell by (auto simp: receiver_step_def Let_def)
    then show ?thesis using inv RBorrowNone by (auto simp: defs)
  next
    case (RSetNone h')
    then have "h' = h" using ok by simp
    moreover obtain q' where "put (cs_queue s) h ready_none = Some (Inr (), q')" "live q'"
      using put_law [OF live event_is_drop_simps(2)] event_is_empty_none by auto
    ultimately have "c = cs_channel s" "live q" "pc = RSub 1"
      using step RSetNone by (auto simp: receiver_step_def Let_def)
    then show ?thesis using inv RSetNone by (auto simp: defs)
  next
    case (RSub first)
    have eq: "q = cs_queue s" "c = (cs_channel s)\<lparr>ch_inner := (ch_inner (cs_channel s))\<lparr>ch_pending := ch_pending (ch_inner (cs_channel s)) - 1\<rparr>\<rparr>"
      "pc = (if first = 1 \<and> ch_pending (ch_inner (cs_channel s)) > 1 then RBorrowSet else RIdle)"
      using step RSub by (auto simp: receiver_step_def Let_def)
    then have lv: "level ?s = level s - 1" using RSub by (simp add: level_def popped_def)
    then have "counted ?s" using cnt eq by (auto simp: counted_def small_def)
    moreover have "1 < level s \<Longrightarrow> first = 1 \<Longrightarrow> pc = RBorrowSet"
      using eq(3) pending_gt_1 [OF cnt] by simp
    ultimately show ?thesis using inv RSub eq lv by (auto simp: channel_inv_def announced_def)
  next
    case RBorrowSet
    then have "c = cs_channel s" "q = cs_queue s" "pc = RSetReadable h"
      using step cell by (auto simp: receiver_step_def Let_def)
    then show ?thesis using inv RBorrowSet by (auto simp: defs)
  next
    case (RSetReadable h')
    then have "h' = h" using ok by simp
    then have "c = cs_channel s" "live q" "get q = Some ready_readable" "pc = RIdle"
      using step RSetReadable put_law [OF live ready_not_drop(1)] by (auto simp: receiver_step_def Let_def)
    then show ?thesis using inv RSetReadable by (auto simp: defs)
  qed (use ok step in \<open>simp_all add: receiver_step_def\<close>)
qed

lemma channel_step_inv:
  assumes "channel_step ls lr put new env s s'" and inv: "channel_inv ls lr live h get s"
  shows "channel_inv ls lr live h get s'"
  using assms(1)
proof cases
  case (cs_register reg h' q)
  then show ?thesis using inv by (simp add: channel_inv_def)
next
  case (cs_env q)
  then show ?thesis using inv env_law [of "cs_queue s" q] by (auto simp: channel_inv_def level_upd)
qed (use inv in \<open>blast intro: inv_send inv_sender inv_clone inv_drop inv_recv inv_receiver\<close>)+

lemma channel_steps_inv:
  "(channel_step ls lr put new env)\<^sup>*\<^sup>* s s' \<Longrightarrow> channel_inv ls lr live h get s \<Longrightarrow> channel_inv ls lr live h get s'"
  by (induction rule: rtranclp_induct) (auto intro: channel_step_inv)

text \<open>When no operation is in progress, a message or the end of the channel is visible as readiness.\<close>

lemma quiescent_readable:
  assumes "channel_inv ls lr live h get s" and "cs_inflight s = {#}" and "cs_receiver s = RIdle"
    and "mp_messages (ch_mpsc (cs_channel s)) \<noteq> [] \<or> ch_senders (ch_inner (cs_channel s)) = 0"
  shows "get (cs_queue s) = Some ready_readable"
proof -
  have "1 \<le> level s" using assms(2-4) by (auto simp: level_def popped_def neq_Nil_conv)
  then show ?thesis using assms(1-3) by (auto simp: channel_inv_def announced_def)
qed

end

section \<open>The readiness queue provides the handle\<close>

lemma inner_readiness_abs:
  "queue_rel q a \<Longrightarrow> ri_node h = Node n \<Longrightarrow>
     inner_readiness q h = map_option (\<lambda>nd. event_from_usize (node_events nd)) (aq_nodes a n)"
  by (simp add: inner_readiness_def ready_ref_as_ref_def queue_rel_def option.map_comp comp_def)

lemma abs_set_readiness_nodes:
  assumes "aq_nodes a n = Some nd" and "abs_set_readiness wake a n r = Some (res, a')"
  shows "map_option node_events (aq_nodes a' n) = Some (event_as_usize r)"
    and "k \<noteq> n \<Longrightarrow> aq_nodes a' k = aq_nodes a k" and "event_is_empty r \<Longrightarrow> res = Inr ()"
  using assms(2) by (auto simp: abs_set_readiness_eq [OF assms(1)] abs_wakeup_def abs_marked_def
      split: if_splits prod.splits)

lemma set_readiness_stores:
  assumes "queue_wf q" and "handle_ok q h" and "\<not> event_is_drop r"
  shows "\<exists>res q'. inner_set_readiness wake q h r = Some (res, q') \<and> queue_wf q' \<and>
    (\<forall>h'. handle_ok q h' \<longrightarrow> handle_ok q' h') \<and> inner_readiness q' h = Some r \<and>
    (\<forall>h'. handle_ok q h' \<longrightarrow> ri_node h' \<noteq> ri_node h \<longrightarrow> inner_readiness q' h' = inner_readiness q h') \<and>
    (event_is_empty r \<longrightarrow> res = Inr ())"
proof -
  obtain a where rel: "queue_rel q a" and wf: "abs_wf a" using assms(1) by (auto simp: queue_wf_def)
  obtain n nd where n: "ri_node h = Node n" "aq_nodes a n = Some nd" "ref_count nd \<noteq> 0"
    using handle_ok_abs [OF rel assms(2)] .
  obtain res a' where a': "abs_set_readiness wake a n r = Some (res, a')" "abs_wf a'"
    using abs_wf_set_readiness [OF wf n(2) assms(3) n(3)] by blast
  obtain q' where q': "inner_set_readiness wake q h r = Some (res, q')" and rel': "queue_rel q' a'"
    by (rule set_readiness_abs [OF rel wf n(1) a'(1)])
  note f = abs_set_readiness_nodes [OF n(2) a'(1)]
  have "handle_ok q' h'" if "handle_ok q h'" for h'
    using that handle_ok_counts abs_set_readiness_frame [OF n(2) a'(1)]
    by (metis counts_rel [OF rel] counts_rel [OF rel'] queue_id_rel [OF rel] queue_id_rel [OF rel'])
  moreover have "inner_readiness q' h = Some r"
    using f(1) by (auto simp: inner_readiness_abs [OF rel' n(1)])
  moreover have "inner_readiness q' h' = inner_readiness q h'" if ok: "handle_ok q h'" and ne: "ri_node h' \<noteq> ri_node h" for h'
    using handle_ok_abs [OF rel ok] ne n(1) f(2)
    by (metis inner_readiness_abs [OF rel] inner_readiness_abs [OF rel'])
  ultimately show ?thesis using q' queue_wfI [OF rel' a'(2)] f(3) by blast
qed

lemma poll_keeps_readiness:
  assumes wf: "queue_wf q" and ok: "handle_ok q h" and poll: "queue_poll push q dst = Some (q', dst')"
  shows "queue_wf q' \<and> handle_ok q' h \<and> inner_readiness q' h = inner_readiness q h"
proof -
  obtain a where rel: "queue_rel q a" and awf: "abs_wf a" using wf by (auto simp: queue_wf_def)
  have rel': "queue_rel q' (abs_after_poll a)"
    by (rule queue_poll_abs [OF rel awf, of push dst]) (use poll in auto)
  have id: "queue_id q' = queue_id q" using rel rel' by (simp add: queue_id_rel abs_after_poll_def)
  obtain n nd where n: "ri_node h = Node n" "aq_nodes a n = Some nd" "ref_count nd \<noteq> 0" "ri_queue h = aq_id a"
    using handle_ok_abs [OF rel ok] by metis
  have "\<not> event_is_drop (node_poll_events nd)"
    using abs_wfD(4) [OF awf n(2)] n(3) by (auto simp: node_ok_def poll_events_drop)
  then have "\<exists>nd'. aq_nodes (abs_after_poll a) n = Some nd' \<and> node_events nd' = node_events nd \<and> ref_count nd' = ref_count nd"
    using n(2) by (simp add: abs_after_poll_def nodes_after_def node_after_poll_def Let_def)
  then obtain nd' where nd': "aq_nodes (abs_after_poll a) n = Some nd'" "node_events nd' = node_events nd"
    "ref_count nd' = ref_count nd" by blast
  have "handle_ok q' h"
    by (rule handle_okI [OF rel' n(1) _ nd'(1)]) (use n nd' in \<open>simp_all add: abs_after_poll_def\<close>)
  moreover have "inner_readiness q' h = inner_readiness q h"
    using nd' n(2) by (simp add: inner_readiness_abs [OF rel n(1)] inner_readiness_abs [OF rel' n(1)])
  ultimately show ?thesis using queue_wfI [OF rel' abs_wf_after_poll [OF awf]] by blast
qed

text \<open>What the rest of the program does with the queue while the channel runs: polling, announcing sleep, and
  setting the readiness of other registrations.\<close>

definition queue_env ::
  "('w \<Rightarrow> unit io_result \<times> 'w) \<Rightarrow> registration_inner \<Rightarrow> 'w readiness_queue \<Rightarrow> 'w readiness_queue \<Rightarrow> bool" where
  "queue_env wake h q q' \<longleftrightarrow>
     (\<exists>evs. queue_poll (\<lambda>evs e. evs @ [e]) q [] = Some (q', evs)) \<or> q' = snd (prepare_for_sleep q) \<or>
     (\<exists>h' r res. handle_ok q h' \<and> ri_node h' \<noteq> ri_node h \<and> \<not> event_is_drop r \<and>
        inner_set_readiness wake q h' r = Some (res, q'))"

lemma queue_env_keeps:
  assumes "queue_env wake h q q'" and "queue_wf q" "handle_ok q h"
  shows "(queue_wf q' \<and> handle_ok q' h) \<and> inner_readiness q' h = inner_readiness q h"
  using assms(1) unfolding queue_env_def
proof (elim disjE exE conjE)
  fix evs assume "queue_poll (\<lambda>evs e. evs @ [e]) q [] = Some (q', evs)"
  from poll_keeps_readiness [OF assms(2,3) this] show ?thesis by simp
next
  assume q': "q' = snd (prepare_for_sleep q)"
  then have "node_heap q' = node_heap q" by (simp add: prepare_for_sleep_def)
  then have "inner_readiness q' h = inner_readiness q h" by (cases "ri_node h") (simp_all add: inner_readiness_def ready_ref_as_ref_def)
  then show ?thesis
    using queue_wf_prepare_for_sleep [OF assms(2)] handle_ok_counts [OF assms(3), of q'] q' by simp
next
  fix h' r res
  assume "handle_ok q h'" "ri_node h' \<noteq> ri_node h" "\<not> event_is_drop r" "inner_set_readiness wake q h' r = Some (res, q')"
  then show ?thesis using set_readiness_stores [OF assms(2), of h' r wake] assms(3) by auto
qed

interpretation qrs: readiness_store "\<lambda>q. queue_wf q \<and> handle_ok q h" h "inner_set_readiness wake"
    "\<lambda>q. inner_readiness q h" "queue_env wake h"
  for h wake
  using set_readiness_stores queue_env_keeps by unfold_locales blast+

section \<open>Progress\<close>

text \<open>The number of atomic steps the operations in progress still need.\<close>

fun sender_left :: "'h sender_pc \<Rightarrow> nat" where
  "sender_left SInc = 3"
| "sender_left SBorrow = 2"
| "sender_left (SSet _) = 1"

fun receiver_left :: "'h receiver_pc \<Rightarrow> nat" where
  "receiver_left RLoad = 6"
| "receiver_left RBorrowNone = 5"
| "receiver_left (RSetNone _) = 4"
| "receiver_left (RSub _) = 3"
| "receiver_left RBorrowSet = 2"
| "receiver_left (RSetReadable _) = 1"
| "receiver_left _ = 0"

definition steps_left :: "('a, 'c, 'r, 'h, 'q) channel_system \<Rightarrow> nat" where
  "steps_left s = (\<Sum>pc \<in># cs_inflight s. sender_left pc) + receiver_left (cs_receiver s)"

definition quiescent :: "('a, 'c, 'r, 'h, 'q) channel_system \<Rightarrow> bool" where
  "quiescent s \<longleftrightarrow> cs_inflight s = {#} \<and> cs_receiver s = RIdle"

context readiness_store
begin

lemma progress_receiver:
  assumes inv: "channel_inv ls lr live h get s" and busy: "cs_receiver s \<noteq> RIdle"
  shows "\<exists>s'. channel_step ls lr put new env s s' \<and> steps_left s' < steps_left s \<and>
    mp_messages (ch_mpsc (cs_channel s')) = mp_messages (ch_mpsc (cs_channel s)) \<and>
    ch_senders (ch_inner (cs_channel s')) = ch_senders (ch_inner (cs_channel s))"
proof -
  have live: "live (cs_queue s)" and ok: "receiver_handle_ok h (cs_receiver s)"
    and cell: "lazy_borrow ls (ch_set_readiness (ch_inner (cs_channel s))) = Some h"
    using inv by (simp_all add: channel_inv_def)
  obtain res1 q1 where p1: "put (cs_queue s) h ready_none = Some (res1, q1)"
    using put_law [OF live event_is_drop_simps(2)] by blast
  obtain res2 q2 where p2: "put (cs_queue s) h ready_readable = Some (res2, q2)"
    using put_law [OF live ready_not_drop(1)] by blast
  have "\<exists>pc c q. receiver_step ls lr put (cs_receiver s) (cs_channel s) (cs_queue s) = Some (pc, c, q) \<and>
      receiver_left pc < receiver_left (cs_receiver s) \<and> ch_mpsc c = ch_mpsc (cs_channel s) \<and>
      ch_senders (ch_inner c) = ch_senders (ch_inner (cs_channel s))"
    using busy ok cell p1 p2
    by (cases "cs_receiver s") (auto simp: receiver_step_def Let_def split: sum.split)
  then obtain pc c q where st: "receiver_step ls lr put (cs_receiver s) (cs_channel s) (cs_queue s) = Some (pc, c, q)"
    "receiver_left pc < receiver_left (cs_receiver s)" "ch_mpsc c = ch_mpsc (cs_channel s)"
    "ch_senders (ch_inner c) = ch_senders (ch_inner (cs_channel s))" by blast
  then show ?thesis
    using cs_receiver [of ls lr put s pc c q new env]
    by (intro exI [of _ "s\<lparr>cs_channel := c, cs_queue := q, cs_receiver := pc\<rparr>"]) (simp add: steps_left_def)
qed

lemma progress_sender:
  assumes inv: "channel_inv ls lr live h get s" and pc: "pc \<in># cs_inflight s"
  shows "\<exists>s'. channel_step ls lr put new env s s' \<and> steps_left s' < steps_left s \<and>
    mp_messages (ch_mpsc (cs_channel s')) = mp_messages (ch_mpsc (cs_channel s)) \<and>
    ch_senders (ch_inner (cs_channel s')) = ch_senders (ch_inner (cs_channel s))"
proof -
  have live: "live (cs_queue s)" and cell: "lazy_borrow ls (ch_set_readiness (ch_inner (cs_channel s))) = Some h"
    and sset: "\<forall>h'. SSet h' \<in># cs_inflight s \<longrightarrow> h' = h"
    using inv by (simp_all add: channel_inv_def)
  obtain res2 q2 where p2: "put (cs_queue s) h ready_readable = Some (res2, q2)"
    using put_law [OF live ready_not_drop(1)] by blast
  have "\<exists>nx i q. sender_step ls put pc (ch_inner (cs_channel s)) (cs_queue s) = Some (nx, i, q) \<and>
      (case nx of None \<Rightarrow> True | Some pc' \<Rightarrow> sender_left pc' < sender_left pc) \<and>
      ch_senders i = ch_senders (ch_inner (cs_channel s))"
    using cell p2 sset pc by (cases pc) (auto simp: sender_step_def)
  then obtain nx i q where st: "sender_step ls put pc (ch_inner (cs_channel s)) (cs_queue s) = Some (nx, i, q)"
    "case nx of None \<Rightarrow> True | Some pc' \<Rightarrow> sender_left pc' < sender_left pc"
    "ch_senders i = ch_senders (ch_inner (cs_channel s))" by blast
  obtain M where M: "cs_inflight s = add_mset pc M" using pc by (metis insert_DiffM)
  let ?s = "s\<lparr>cs_channel := (cs_channel s)\<lparr>ch_inner := i\<rparr>, cs_queue := q,
      cs_inflight := finish_sender pc nx (cs_inflight s)\<rparr>"
  have "0 < sender_left pc" by (cases pc) simp_all
  then have "steps_left ?s < steps_left s"
    using st(2) M by (cases nx) (simp_all add: steps_left_def finish_sender_def)
  then show ?thesis
    using cs_sender [of pc s ls put nx i q lr new env, OF pc st(1)] st(3) by (intro exI [of _ ?s]) simp
qed

text \<open>The operations in progress can always be completed, and then the readiness tells the truth.\<close>

lemma settles:
  assumes "channel_inv ls lr live h get s"
  shows "\<exists>s'. (channel_step ls lr put new env)\<^sup>*\<^sup>* s s' \<and> quiescent s' \<and>
    mp_messages (ch_mpsc (cs_channel s')) = mp_messages (ch_mpsc (cs_channel s)) \<and>
    ch_senders (ch_inner (cs_channel s')) = ch_senders (ch_inner (cs_channel s))"
  using assms
proof (induction "steps_left s" arbitrary: s rule: less_induct)
  case less
  show ?case
  proof (cases "quiescent s")
    case True
    then show ?thesis by blast
  next
    case False
    then obtain s1 where s1: "channel_step ls lr put new env s s1" "steps_left s1 < steps_left s"
      "mp_messages (ch_mpsc (cs_channel s1)) = mp_messages (ch_mpsc (cs_channel s))"
      "ch_senders (ch_inner (cs_channel s1)) = ch_senders (ch_inner (cs_channel s))"
      using progress_receiver [OF less.prems] progress_sender [OF less.prems]
      by (metis multiset_nonemptyE quiescent_def)
    then obtain s' where "(channel_step ls lr put new env)\<^sup>*\<^sup>* s1 s'" "quiescent s'"
      "mp_messages (ch_mpsc (cs_channel s')) = mp_messages (ch_mpsc (cs_channel s))"
      "ch_senders (ch_inner (cs_channel s')) = ch_senders (ch_inner (cs_channel s))"
      using less.hyps [OF s1(2) channel_step_inv [OF s1(1) less.prems]] by auto
    then show ?thesis using s1(1) by (meson converse_rtranclp_into_rtranclp)
  qed
qed

end

section \<open>Sample runs\<close>

text \<open>A channel of numbers with one sender, over the sample queue; \<open>sys_step\<close> are its interleavings.\<close>

type_synonym sample_system =
  "(nat, registration_inner option, registration_inner option, registration_inner, nat readiness_queue) channel_system"

definition sample_cs ::
  "nat list \<Rightarrow> usize \<Rightarrow> registration_inner option \<Rightarrow> registration_inner option \<Rightarrow> nat readiness_queue \<Rightarrow>
     registration_inner sender_pc multiset \<Rightarrow> registration_inner receiver_pc \<Rightarrow> sample_system" where
  "sample_cs msgs p sr reg q M pc =
     \<lparr>cs_channel = \<lparr>ch_mpsc = \<lparr>mp_messages = msgs, mp_bound = None, mp_senders = 1, mp_receiver = True\<rparr>,
         ch_inner = \<lparr>ch_pending = p, ch_senders = 1, ch_set_readiness = sr\<rparr>, ch_registration = reg\<rparr>,
      cs_queue = q, cs_inflight = M, cs_receiver = pc\<rparr>"

definition sys_step :: "sample_system \<Rightarrow> sample_system \<Rightarrow> bool" where
  "sys_step = channel_step option_cell option_cell (inner_set_readiness wake_count)
     (\<lambda>q. registration_new wake_count q (Token 7) ready_readable pollopt_edge) (queue_env wake_count sample_handle)"

lemma sample_send:
  "length msgs + size M < 10 \<Longrightarrow>
     sys_step (sample_cs msgs p sr reg q M pc) (sample_cs (msgs @ [x]) p sr reg q (add_mset SInc M) pc)"
  unfolding sys_step_def
  using cs_send [of "sample_cs msgs p sr reg q M pc" x "\<lparr>mp_messages = msgs @ [x], mp_bound = None, mp_senders = 1, mp_receiver = True\<rparr>"]
  by (simp add: sample_cs_def mpsc_send_def MESSAGE_LIMIT_def)

lemma sample_recv: "sys_step (sample_cs (x # msgs) p sr reg q M RIdle) (sample_cs msgs p sr reg q M RLoad)"
  unfolding sys_step_def
  using cs_recv [of "sample_cs (x # msgs) p sr reg q M RIdle" x "\<lparr>mp_messages = msgs, mp_bound = None, mp_senders = 1, mp_receiver = True\<rparr>"]
  by (simp add: sample_cs_def mpsc_try_recv_def)

lemma sample_sender:
  assumes "sender_step option_cell (inner_set_readiness wake_count) spc \<lparr>ch_pending = p, ch_senders = 1, ch_set_readiness = sr\<rparr> q =
      Some (nx, \<lparr>ch_pending = p', ch_senders = 1, ch_set_readiness = sr\<rparr>, q')"
  shows "sys_step (sample_cs msgs p sr reg q {#spc#} pc)
    (sample_cs msgs p' sr reg q' (case nx of None \<Rightarrow> {#} | Some s \<Rightarrow> {#s#}) pc)"
  unfolding sys_step_def
  using cs_sender [of spc "sample_cs msgs p sr reg q {#spc#} pc" option_cell "inner_set_readiness wake_count" nx] assms
  by (simp add: sample_cs_def finish_sender_def)

lemma sample_receiver:
  assumes "receiver_step option_cell option_cell (inner_set_readiness wake_count) pc
      \<lparr>ch_mpsc = \<lparr>mp_messages = msgs, mp_bound = None, mp_senders = 1, mp_receiver = True\<rparr>,
       ch_inner = \<lparr>ch_pending = p, ch_senders = 1, ch_set_readiness = sr\<rparr>, ch_registration = reg\<rparr> q =
    Some (pc', \<lparr>ch_mpsc = \<lparr>mp_messages = msgs, mp_bound = None, mp_senders = 1, mp_receiver = True\<rparr>,
       ch_inner = \<lparr>ch_pending = p', ch_senders = 1, ch_set_readiness = sr'\<rparr>, ch_registration = reg'\<rparr>, q')"
  shows "sys_step (sample_cs msgs p sr reg q M pc) (sample_cs msgs p' sr' reg' q' M pc')"
  unfolding sys_step_def
  using cs_receiver [of option_cell option_cell "inner_set_readiness wake_count" "sample_cs msgs p sr reg q M pc"] assms
  by (simp add: sample_cs_def)

lemma sample_register:
  "sys_step (sample_cs msgs p None None (readiness_queue_new 0 0) M RIdle)
     (sample_cs msgs p None None (sample_queue Null (sample_node 0 0)) M (RRegLoad sample_handle sample_handle))"
  unfolding sys_step_def
  using cs_register [of "sample_cs msgs p None None (readiness_queue_new 0 0) M RIdle" option_cell
      "\<lambda>q. registration_new wake_count q (Token 7) ready_readable pollopt_edge" sample_handle sample_handle]
    sample_new
  by (simp add: sample_cs_def option_cell_def)

lemma sample_set:
  "inner_set_readiness wake_count (sample_queue Null (sample_node 0 0)) sample_handle ready_readable =
     Some (Inr (), sample_queue (Node 0) (sample_node 1 1))"
  by (simp add: inner_set_readiness_def sample_defs ready_ref_modify_def ready_ref_as_ref_def
      queue_for_processing_def prepend_readiness_node_def NODE_QUEUED_FLAG_def event_as_usize_def
      event_is_empty_def ready_readable_def Let_def)

lemma sample_readiness:
  "inner_readiness (sample_queue p (sample_node 1 d)) sample_handle = Some ready_readable"
  "inner_readiness (sample_queue p (sample_node 0 d)) sample_handle = Some ready_none"
  by (simp_all add: inner_readiness_def ready_ref_as_ref_def sample_defs event_from_usize_def
      ready_readable_def ready_none_def)

end
