(* ===== verification/Mio_Channel_Props.thy ===== *)
theory Mio_Channel_Props
  imports Mio_Channel_Conc
begin

text \<open>
  What the channel of \<open>src/channel.rs\<close> promises.  Run alone, each operation has the effect of its atomic
  steps, messages arrive in order and the readiness of a registered receiver is set exactly while a
  message is waiting or the senders are gone.  With any interleaving of senders and receiver no message is
  lost: whenever all operations have finished, waiting messages show as readiness.  Two runs show what the
  code does not guarantee.
\<close>

section \<open>Operations and their atomic steps\<close>

text \<open>Running a call to its end without interference.\<close>

partial_function (option) run_sender ::
  "('c, 'h) lazycell_ops \<Rightarrow> ('q \<Rightarrow> 'h \<Rightarrow> ready \<Rightarrow> (unit io_result \<times> 'q) option) \<Rightarrow> 'h sender_pc option \<Rightarrow>
     'c channel_inner \<Rightarrow> 'q \<Rightarrow> ('c channel_inner \<times> 'q) option" where
  "run_sender ls put pc i q =
     (case pc of
        None \<Rightarrow> Some (i, q)
      | Some p \<Rightarrow> Option.bind (sender_step ls put p i q) (\<lambda>(nx, i1, q1). run_sender ls put nx i1 q1))"

partial_function (option) run_receiver ::
  "('c, 'h) lazycell_ops \<Rightarrow> ('r, 'h) lazycell_ops \<Rightarrow> ('q \<Rightarrow> 'h \<Rightarrow> ready \<Rightarrow> (unit io_result \<times> 'q) option) \<Rightarrow>
     'h receiver_pc \<Rightarrow> ('a, 'c, 'r) channel \<Rightarrow> 'q \<Rightarrow> (('a, 'c, 'r) channel \<times> 'q) option" where
  "run_receiver ls lr put pc c q =
     (if pc = RIdle then Some (c, q)
      else Option.bind (receiver_step ls lr put pc c q) (\<lambda>(nx, c1, q1). run_receiver ls lr put nx c1 q1))"

lemma run_sender_simps:
  "run_sender ls put None i q = Some (i, q)"
  "run_sender ls put (Some p) i q = Option.bind (sender_step ls put p i q) (\<lambda>(nx, i1, q1). run_sender ls put nx i1 q1)"
  by (subst run_sender.simps; simp)+

lemma run_receiver_simps:
  "run_receiver ls lr put RIdle c q = Some (c, q)"
  "pc \<noteq> RIdle \<Longrightarrow> run_receiver ls lr put pc c q =
     Option.bind (receiver_step ls lr put pc c q) (\<lambda>(nx, c1, q1). run_receiver ls lr put nx c1 q1)"
  by (subst run_receiver.simps; simp)+


section \<open>The channel without interleaving\<close>

definition closed :: "('a, 'c, 'r) channel \<Rightarrow> bool" where
  "closed c \<longleftrightarrow> ch_senders (ch_inner c) = 0"

text \<open>Every message is counted, and one more when the senders are gone.\<close>

definition count_ok :: "('a, 'c, 'r) channel \<Rightarrow> bool" where
  "count_ok c \<longleftrightarrow> length (mp_messages (ch_mpsc c)) \<le> MESSAGE_LIMIT \<and>
     ch_pending (ch_inner c) = of_nat (length (mp_messages (ch_mpsc c)) + (if closed c then 1 else 0))"

text \<open>The receiver is registered with handle \<open>h\<close> and its readiness tells whether there is something to do.\<close>

definition chan_ok ::
  "('c, registration_inner) lazycell_ops \<Rightarrow> registration_inner \<Rightarrow> ('a, 'c, 'r) channel \<Rightarrow> 'w readiness_queue \<Rightarrow> bool" where
  "chan_ok ls h c q \<longleftrightarrow> count_ok c \<and> queue_wf q \<and> handle_ok q h \<and>
     lazy_borrow ls (ch_set_readiness (ch_inner c)) = Some h \<and>
     inner_readiness q h = Some (if mp_messages (ch_mpsc c) = [] \<and> \<not> closed c then ready_none else ready_readable)"

lemma count_pos:
  assumes "count_ok c"
  shows "ch_pending (ch_inner c) = 0 \<longleftrightarrow> mp_messages (ch_mpsc c) = [] \<and> \<not> closed c"
    and "ch_pending (ch_inner c) = 1 \<longleftrightarrow>
      length (mp_messages (ch_mpsc c)) + (if closed c then 1 else 0) = 1"
    and "0 < ch_pending (ch_inner c) \<longleftrightarrow> mp_messages (ch_mpsc c) \<noteq> [] \<or> closed c"
proof -
  let ?n = "length (mp_messages (ch_mpsc c)) + (if closed c then 1 else 0)"
  have n: "?n < 2 ^ 64" and p: "ch_pending (ch_inner c) = of_nat ?n"
    using assms by (auto simp: count_ok_def MESSAGE_LIMIT_def)
  have u: "unat (of_nat ?n :: usize) = ?n" using n by (rule unat_of_nat_small)
  show z: "ch_pending (ch_inner c) = 0 \<longleftrightarrow> mp_messages (ch_mpsc c) = [] \<and> \<not> closed c"
    unfolding p word_unat_eq_iff u by simp
  show "ch_pending (ch_inner c) = 1 \<longleftrightarrow> ?n = 1"
    unfolding p word_unat_eq_iff u by simp
  show "0 < ch_pending (ch_inner c) \<longleftrightarrow> mp_messages (ch_mpsc c) \<noteq> [] \<or> closed c"
    using z by (simp add: word_gt_0)
qed

lemma toggle_readiness_ok:
  assumes "queue_wf q" and "handle_ok q h" and "lazy_borrow ls (ch_set_readiness i) = Some h" and "\<not> event_is_drop r"
  shows "\<exists>res q'. toggle_readiness ls wake r i q = Some (res, q') \<and> queue_wf q' \<and> handle_ok q' h \<and>
    inner_readiness q' h = Some r \<and> (event_is_empty r \<longrightarrow> res = Inr ())"
  using set_readiness_stores [OF assms(1,2,4), of wake] assms(2,3) by (auto simp: toggle_readiness_def)

lemma ctl_inc_ok:
  assumes ok: "chan_ok ls h c q" and m: "mp_messages m = mp_messages (ch_mpsc c) @ ys" and "i1 = (ch_inner c)\<lparr>ch_senders := n\<rparr>"
    and len: "length (mp_messages m) \<le> MESSAGE_LIMIT"
    and one: "length ys + (if n = 0 then 1 else 0) = 1 + (if closed c then 1 else 0)"
  shows "\<exists>res i q'. ctl_inc ls wake i1 q = Some (res, i, q') \<and> chan_ok ls h (c\<lparr>ch_mpsc := m, ch_inner := i\<rparr>) q'"
proof -
  let ?i = "i1\<lparr>ch_pending := ch_pending i1 + 1\<rparr>"
  have cnt: "count_ok (c\<lparr>ch_mpsc := m, ch_inner := ?i\<rparr>)"
  proof -
    have "length (mp_messages m) + (if n = 0 then 1 else 0) =
        Suc (length (mp_messages (ch_mpsc c)) + (if closed c then 1 else 0))"
      using one m by simp
    then have "(of_nat (length (mp_messages m) + (if n = 0 then 1 else 0)) :: usize) = ch_pending (ch_inner c) + 1"
      using ok by (simp add: chan_ok_def count_ok_def)
    then show ?thesis
      using len assms(3) by (simp add: count_ok_def closed_def split del: if_split)
  qed
  have pos: "mp_messages m \<noteq> [] \<or> n = 0" using one m by (auto split: if_splits)
  have z: "ch_pending (ch_inner c) = 0 \<longleftrightarrow> mp_messages (ch_mpsc c) = [] \<and> \<not> closed c"
    using ok count_pos(1) [of c] by (simp add: chan_ok_def)
  show ?thesis
  proof (cases "ch_pending (ch_inner c) = 0")
    case True
    obtain res q' where "toggle_readiness ls wake ready_readable ?i q = Some (res, q')" "queue_wf q'" "handle_ok q' h"
      "inner_readiness q' h = Some ready_readable"
      using toggle_readiness_ok [of q h ls ?i ready_readable wake] ok assms(3) ready_not_drop(1)
      by (auto simp: chan_ok_def)
    then show ?thesis
      using ok cnt pos assms(3) True
      by (auto simp: ctl_inc_def chan_ok_def closed_def Let_def)
  next
    case False
    then show ?thesis
      using ok cnt pos assms(3) z
      by (auto simp: ctl_inc_def chan_ok_def closed_def Let_def)
  qed
qed

lemma ctl_dec_ok:
  assumes ok: "chan_ok ls h c q" and m: "mp_messages (ch_mpsc c) = x # mp_messages m"
  shows "\<exists>i q'. ctl_dec ls wake (ch_inner c) q = Some (Inr (), i, q') \<and> chan_ok ls h (c\<lparr>ch_mpsc := m, ch_inner := i\<rparr>) q' \<and>
    i = (ch_inner c)\<lparr>ch_pending := ch_pending (ch_inner c) - 1\<rparr>"
proof -
  let ?i = "(ch_inner c)\<lparr>ch_pending := ch_pending (ch_inner c) - 1\<rparr>"
  have cnt: "count_ok (c\<lparr>ch_mpsc := m, ch_inner := ?i\<rparr>)"
    using ok m by (auto simp: chan_ok_def count_ok_def closed_def)
  have one: "ch_pending (ch_inner c) = 1 \<longleftrightarrow> mp_messages m = [] \<and> \<not> closed c"
    using count_pos(2) [of c] ok m by (auto simp: chan_ok_def)
  show ?thesis
  proof (cases "ch_pending (ch_inner c) = 1")
    case True
    obtain q' where "toggle_readiness ls wake ready_none (ch_inner c) q = Some (Inr (), q')" "queue_wf q'" "handle_ok q' h"
      "inner_readiness q' h = Some ready_none"
      using toggle_readiness_ok [of q h ls "ch_inner c" ready_none wake] ok by (auto simp: chan_ok_def)
    then show ?thesis
      using ok cnt True one by (auto simp: ctl_dec_def chan_ok_def closed_def Let_def)
  next
    case False
    then show ?thesis
      using ok cnt one m by (auto simp: ctl_dec_def chan_ok_def closed_def Let_def)
  qed
qed

text \<open>C14.  The channel is a queue.  On a registered channel that no other thread is using, a send to a live
  receiver appends the message even if the wakeup of the poller fails, a send to a dead receiver returns the
  message and changes nothing, a receive takes the first message or reports an empty or closed channel, and
  dropping a sender counts it.  After each of them the receiver's readiness is set exactly if a message is
  waiting or the last sender is gone.\<close>

theorem channel_is_queue:
  assumes ok: "chan_ok ls h c q" and "\<not> closed c" and len: "length (mp_messages (ch_mpsc c)) < MESSAGE_LIMIT"
  shows "(if mp_receiver (ch_mpsc c)
      then \<exists>res c' q'. sender_send ls wake c x q = Some (res, c', q') \<and> chan_ok ls h c' q' \<and>
        mp_messages (ch_mpsc c') = mp_messages (ch_mpsc c) @ [x] \<and> (\<forall>v. res \<noteq> Inl (SendDisconnected v))
      else sender_send ls wake c x q = Some (Inl (SendDisconnected x), c, q)) \<and>
    (case mp_messages (ch_mpsc c) of
       [] \<Rightarrow> receiver_try_recv ls wake c q =
         Some (Inl (if mp_senders (ch_mpsc c) = 0 then RecvDisconnected else RecvEmpty), c, q)
     | y # ys \<Rightarrow> \<exists>c' q'. receiver_try_recv ls wake c q = Some (Inr y, c', q') \<and> chan_ok ls h c' q' \<and>
         mp_messages (ch_mpsc c') = ys \<and> \<not> closed c') \<and>
    (\<exists>c' q'. sender_drop ls wake c q = Some (c', q') \<and> chan_ok ls h c' q' \<and>
       mp_messages (ch_mpsc c') = mp_messages (ch_mpsc c) \<and> (closed c' \<longleftrightarrow> ch_senders (ch_inner c) = 1))"
    (is "?send \<and> ?recv \<and> ?drop")
proof (intro conjI)
  let ?m = "(ch_mpsc c)\<lparr>mp_messages := mp_messages (ch_mpsc c) @ [x]\<rparr>"
  have i: "ch_inner c = (ch_inner c)\<lparr>ch_senders := ch_senders (ch_inner c)\<rparr>" by simp
  obtain r i q' where "ctl_inc ls wake (ch_inner c) q = Some (r, i, q')" "chan_ok ls h (c\<lparr>ch_mpsc := ?m, ch_inner := i\<rparr>) q'"
    using ctl_inc_ok [OF ok, of ?m "[x]" "ch_inner c" "ch_senders (ch_inner c)" wake] len assms(2) i
    by (auto simp: closed_def)
  then show ?send
    by (cases r) (auto simp: sender_send_def mpsc_send_def send_error_from_mpsc_def send_error_from_io_def)
  show ?recv
  proof (cases "mp_messages (ch_mpsc c)")
    case (Cons y ys)
    then show ?thesis
      using ctl_dec_ok [OF ok, of y "(ch_mpsc c)\<lparr>mp_messages := ys\<rparr>" wake] assms(2)
      by (auto simp: receiver_try_recv_def mpsc_try_recv_def closed_def)
  qed (simp add: receiver_try_recv_def mpsc_try_recv_def)
  let ?md = "(ch_mpsc c)\<lparr>mp_senders := mp_senders (ch_mpsc c) - 1\<rparr>"
  let ?id = "(ch_inner c)\<lparr>ch_senders := ch_senders (ch_inner c) - 1\<rparr>"
  show ?drop
  proof (cases "ch_senders (ch_inner c) = 1")
    case True
    then have "closed c = False" by (simp add: closed_def)
    then obtain r i q' where "ctl_inc ls wake ?id q = Some (r, i, q')" "chan_ok ls h (c\<lparr>ch_mpsc := ?md, ch_inner := i\<rparr>) q'"
      using ctl_inc_ok [OF ok, of ?md "[]" ?id 0 wake] len True by auto
    moreover have "ch_senders i = 0"
      using calculation(1) True by (auto simp: ctl_inc_def Let_def bind_eq_Some_conv split: if_splits)
    ultimately show ?thesis using True by (auto simp: sender_drop_def ctl_drop_def closed_def)
  next
    case False
    then show ?thesis
      using ok assms(2) by (auto simp: sender_drop_def ctl_drop_def chan_ok_def count_ok_def closed_def)
  qed
qed

text \<open>A registered channel with one waiting message.\<close>

definition sample_channel :: "nat list \<Rightarrow> usize \<Rightarrow> (nat, registration_inner option, registration_inner option) channel" where
  "sample_channel msgs p =
     \<lparr>ch_mpsc = \<lparr>mp_messages = msgs, mp_bound = None, mp_senders = 1, mp_receiver = True\<rparr>,
      ch_inner = \<lparr>ch_pending = p, ch_senders = 1, ch_set_readiness = Some sample_handle\<rparr>,
      ch_registration = Some sample_handle\<rparr>"

lemma sample_chan_ok:
  "chan_ok option_cell sample_handle (sample_channel [5] 1) (sample_queue (Node 0) (sample_node 1 1))"
  "chan_ok option_cell sample_handle (sample_channel [] 0) (sample_queue Null (sample_node 0 0))"
  using queue_wfI [OF sample_rel(1) sample_wf(1) [OF ready_not_drop(2)]]
    queue_wfI [OF sample_rel(2) sample_wf(2), of 0] event_is_drop_simps(2)
  by (simp_all add: chan_ok_def count_ok_def closed_def sample_channel_def option_cell_def sample_handle_ok
      sample_readiness MESSAGE_LIMIT_def event_from_usize_def ready_none_def)

theorem channel_is_queue_witness:
  "\<exists>c' q'. receiver_try_recv option_cell wake_count (sample_channel [5] 1) (sample_queue (Node 0) (sample_node 1 1)) =
       Some (Inr 5, c', q') \<and> inner_readiness q' sample_handle = Some ready_none"
proof -
  have "\<not> closed (sample_channel [5] 1)" "length (mp_messages (ch_mpsc (sample_channel [5] 1))) < MESSAGE_LIMIT"
    by (simp_all add: closed_def sample_channel_def MESSAGE_LIMIT_def)
  from channel_is_queue [OF sample_chan_ok(1) this, of wake_count 0]
  obtain c' q' where c': "receiver_try_recv option_cell wake_count (sample_channel [5] 1) (sample_queue (Node 0) (sample_node 1 1)) =
      Some (Inr 5, c', q')" "chan_ok option_cell sample_handle c' q'" "mp_messages (ch_mpsc c') = []" "\<not> closed c'"
    by (auto simp: sample_channel_def)
  then show ?thesis by (auto simp: chan_ok_def)
qed

lemma lazy_fill_empty:
  "lazycell_laws lc \<Longrightarrow> lazy_borrow lc c = None \<Longrightarrow> \<exists>c'. lazy_fill lc c v = Some c' \<and> lazy_borrow lc c' = Some v"
  unfolding lazycell_laws_def by (drule conjunct2, drule spec [of _ c], drule spec [of _ v]) simp

section \<open>The channel under interleaving\<close>

definition system_of ::
  "('a, 'c, 'r) channel \<Rightarrow> 'q \<Rightarrow> ('a, 'c, 'r, registration_inner, 'q) channel_system" where
  "system_of c q = \<lparr>cs_channel = c, cs_queue = q, cs_inflight = {#}, cs_receiver = RIdle\<rparr>"

text \<open>The interleavings of a channel whose receiver is registered with handle \<open>h\<close>.\<close>

definition channel_runs ::
  "('c, registration_inner) lazycell_ops \<Rightarrow> ('r, registration_inner) lazycell_ops \<Rightarrow> ('w \<Rightarrow> unit io_result \<times> 'w) \<Rightarrow>
     (token \<times> ready \<times> poll_opt) \<Rightarrow> registration_inner \<Rightarrow>
     ('a, 'c, 'r, registration_inner, 'w readiness_queue) channel_system \<Rightarrow>
     ('a, 'c, 'r, registration_inner, 'w readiness_queue) channel_system \<Rightarrow> bool" where
  "channel_runs ls lr wake args h =
     (channel_step ls lr (inner_set_readiness wake)
        (\<lambda>q. registration_new wake q (fst args) (fst (snd args)) (snd (snd args))) (queue_env wake h))\<^sup>*\<^sup>*"

lemma registered_inv:
  assumes "chan_ok ls h c q" and "lazy_borrow lr (ch_registration c) \<noteq> None"
  shows "channel_inv ls lr (\<lambda>q. queue_wf q \<and> handle_ok q h) h (\<lambda>q. inner_readiness q h) (system_of c q)"
proof -
  have "level (system_of c q) = int (length (mp_messages (ch_mpsc c)) + (if closed c then 1 else 0))"
    by (simp add: level_def system_of_def popped_def closed_def)
  then show ?thesis
    using assms
    by (auto simp: channel_inv_def chan_ok_def counted_def count_ok_def small_def system_of_def closed_def
        split: if_splits)
qed

text \<open>Registering an unregistered channel that is not in use establishes the readiness.\<close>

lemma register_ok:
  assumes lc: "lazycell_laws ls" "lazycell_laws lr" and "queue_wf q" and cnt: "count_ok c"
    and none: "lazy_borrow ls (ch_set_readiness (ch_inner c)) = None" "lazy_borrow lr (ch_registration c) = None"
  shows "\<exists>h c' q'. receiver_register ls lr wake tok i p c q = Some (Inr (), c', q') \<and> chan_ok ls h c' q' \<and>
    lazy_borrow lr (ch_registration c') = Some h \<and> ch_mpsc c' = ch_mpsc c \<and> closed c' = closed c"
proof -
  obtain a where rel: "queue_rel q a" and wf: "abs_wf a" using assms(3) by (auto simp: queue_wf_def)
  let ?h = "\<lparr>ri_queue = queue_id q, ri_node = Node (aq_fresh a)\<rparr>"
  obtain q1 where q1: "registration_new wake q tok i p = Some ((?h, ?h), q1)"
    and rel1: "queue_rel q1 (snd (abs_new_node a tok i p 2))"
    by (rule registration_new_abs [OF rel wf])
  have wf1: "queue_wf q1" by (rule queue_wfI [OF rel1 abs_wf_new_node [OF wf]]) simp
  have ok1: "handle_ok q1 ?h"
    by (rule handle_okI [OF rel1]) (use rel in \<open>auto simp: abs_new_node_def queue_rel_def readiness_node_new_def\<close>)
  have none1: "inner_readiness q1 ?h = Some ready_none"
    by (simp add: inner_readiness_abs [OF rel1] abs_new_node_def readiness_node_new_def event_from_usize_def ready_none_def)
  obtain rc sc where rc: "lazy_fill lr (ch_registration c) ?h = Some rc" "lazy_borrow lr rc = Some ?h"
    and sc: "lazy_fill ls (ch_set_readiness (ch_inner c)) ?h = Some sc" "lazy_borrow ls sc = Some ?h"
    using lazy_fill_empty [OF lc(1) none(1)] lazy_fill_empty [OF lc(2) none(2)] by metis
  obtain res q2 where "(if ch_pending (ch_inner c) > 0 then inner_set_readiness wake q1 ?h ready_readable else Some (Inr (), q1)) = Some (res, q2)"
    "queue_wf q2" "handle_ok q2 ?h"
    "inner_readiness q2 ?h = Some (if ch_pending (ch_inner c) > 0 then ready_readable else ready_none)"
    using set_readiness_stores [OF wf1 ok1 ready_not_drop(1), of wake] wf1 ok1 none1
    by (cases "ch_pending (ch_inner c) > 0") auto
  then show ?thesis
    using q1 rc sc none cnt count_pos(3) [OF cnt]
    by (intro exI [of _ ?h]) (auto simp: receiver_register_def ctl_register_def chan_ok_def count_ok_def closed_def)
qed


text \<open>A run: one message is sent, counted and announced.\<close>

lemma sample_system_of: "system_of (sample_channel msgs p) q =
    sample_cs msgs p (Some sample_handle) (Some sample_handle) q {#} RIdle"
  by (simp add: system_of_def sample_channel_def sample_cs_def)

lemma sample_runs: "channel_runs option_cell option_cell wake_count (Token 7, ready_readable, pollopt_edge) sample_handle = sys_step\<^sup>*\<^sup>*"
  by (simp add: channel_runs_def sys_step_def)

lemmas sample_steps = sample_send sample_recv sample_sender sample_receiver

lemma sample_sender_inc:
  "sys_step (sample_cs msgs 0 sr reg q {#SInc#} pc) (sample_cs msgs 1 sr reg q {#SBorrow#} pc)"
  using sample_sender [of SInc 0 sr q "Some SBorrow" 1 q] by (simp add: sender_step_def)

lemma sample_sender_borrow:
  "sys_step (sample_cs msgs p (Some h) reg q {#SBorrow#} pc) (sample_cs msgs p (Some h) reg q {#SSet h#} pc)"
  "sys_step (sample_cs msgs p None reg q {#SBorrow#} pc) (sample_cs msgs p None reg q {#} pc)"
  using sample_sender [of SBorrow p "Some h" q "Some (SSet h)" p q] sample_sender [of SBorrow p None q None p q]
  by (simp_all add: sender_step_def option_cell_def)

lemma sample_sender_set:
  "sys_step (sample_cs msgs p sr reg (sample_queue Null (sample_node 0 0)) {#SSet sample_handle#} pc)
     (sample_cs msgs p sr reg (sample_queue (Node 0) (sample_node 1 1)) {#} pc)"
  using sample_sender [of "SSet sample_handle" p sr _ None p] by (simp add: sender_step_def sample_set)

lemma sample_run:
  "sys_step\<^sup>*\<^sup>* (system_of (sample_channel [] 0) (sample_queue Null (sample_node 0 0)))
     (system_of (sample_channel [5] 1) (sample_queue (Node 0) (sample_node 1 1)))"
  unfolding sample_system_of
  using sample_send [of "[]" "{#}" 0 "Some sample_handle" "Some sample_handle" _ RIdle 5]
    sample_sender_inc sample_sender_borrow(1) sample_sender_set
  by (simp, meson converse_rtranclp_into_rtranclp rtranclp.rtrancl_refl)

lemma sample_registered: "lazy_borrow option_cell (ch_registration (sample_channel msgs p)) \<noteq> None"
  by (simp add: option_cell_def sample_channel_def)




text \<open>A receiver that overtakes the counting of the last message leaves a stale readiness: the sender has
  queued a message but not counted it, the receiver takes it and reads the count zero, the sender counts it
  and goes on to set the readiness, the receiver counts it down.  All operations have finished, the channel is
  empty and open, and its readiness is set; a level-triggered registration is reported by every poll.\<close>

lemma stale_readiness_run:
  "\<exists>s. sys_step\<^sup>*\<^sup>* (system_of (sample_channel [] 0) (sample_queue Null (sample_node 0 0))) s \<and> quiescent s \<and>
     mp_messages (ch_mpsc (cs_channel s)) = [] \<and> \<not> closed (cs_channel s) \<and>
     inner_readiness (cs_queue s) sample_handle = Some ready_readable"
proof -
  let ?q = "sample_queue Null (sample_node 0 0)" and ?h = "Some sample_handle"
  have "sys_step (sample_cs [] 0 ?h ?h ?q {#} RIdle) (sample_cs [5] 0 ?h ?h ?q {#SInc#} RIdle)"
    using sample_send [of "[]" "{#}" 0 ?h ?h ?q RIdle 5] by simp
  moreover have "sys_step (sample_cs [5] 0 ?h ?h ?q {#SInc#} RIdle) (sample_cs [] 0 ?h ?h ?q {#SInc#} RLoad)"
    by (rule sample_recv)
  moreover have "sys_step (sample_cs [] 0 ?h ?h ?q {#SInc#} RLoad) (sample_cs [] 0 ?h ?h ?q {#SInc#} (RSub 0))"
    by (rule sample_receiver) (simp add: receiver_step_def)
  moreover have "sys_step (sample_cs [] 0 ?h ?h ?q {#SInc#} (RSub 0)) (sample_cs [] 1 ?h ?h ?q {#SBorrow#} (RSub 0))"
    by (rule sample_sender_inc)
  moreover have "sys_step (sample_cs [] 1 ?h ?h ?q {#SBorrow#} (RSub 0)) (sample_cs [] 0 ?h ?h ?q {#SBorrow#} RIdle)"
    by (rule sample_receiver) (simp add: receiver_step_def)
  moreover note sample_sender_borrow(1) [of "[]" 0 sample_handle ?h ?q RIdle] sample_sender_set [of "[]" 0 ?h ?h RIdle]
  ultimately have "sys_step\<^sup>*\<^sup>* (sample_cs [] 0 ?h ?h ?q {#} RIdle)
      (sample_cs [] 0 ?h ?h (sample_queue (Node 0) (sample_node 1 1)) {#} RIdle)"
    by (meson converse_rtranclp_into_rtranclp rtranclp.rtrancl_refl)
  then show ?thesis
    unfolding sample_system_of
    by (intro exI conjI) (auto simp: sample_cs_def quiescent_def closed_def sample_readiness)
qed

text \<open>Registering a channel while a sender is active can lose the signal: the receiver reads the count zero,
  the sender counts its message and finds no handle to signal, then the receiver stores the handle.  All
  operations have finished, a message is waiting and the readiness is not set; later sends find the count
  nonzero and do not set it either.\<close>

lemma register_race_run:
  "\<exists>s. sys_step\<^sup>*\<^sup>* (sample_cs [] 0 None None (readiness_queue_new 0 0) {#} RIdle) s \<and> quiescent s \<and>
     mp_messages (ch_mpsc (cs_channel s)) = [5] \<and> ch_registration (cs_channel s) = Some sample_handle \<and>
     inner_readiness (cs_queue s) sample_handle = Some ready_none"
proof -
  let ?q = "sample_queue Null (sample_node 0 0)" and ?h = "sample_handle"
  have "sys_step (sample_cs [] 0 None None ?q {#} (RRegLoad ?h ?h)) (sample_cs [] 0 None None ?q {#} (RRegFill ?h ?h))"
    by (rule sample_receiver) (simp add: receiver_step_def)
  moreover have "sys_step (sample_cs [] 0 None None ?q {#} (RRegFill ?h ?h)) (sample_cs [5] 0 None None ?q {#SInc#} (RRegFill ?h ?h))"
    using sample_send [of "[]" "{#}" 0 None None ?q "RRegFill ?h ?h" 5] by simp
  moreover note sample_sender_inc [of "[5]" None None ?q "RRegFill ?h ?h"] sample_sender_borrow(2) [of "[5]" 1 None ?q "RRegFill ?h ?h"]
  moreover have "sys_step (sample_cs [5] 1 None None ?q {#} (RRegFill ?h ?h)) (sample_cs [5] 1 None (Some ?h) ?q {#} (RRegFillSet ?h))"
    by (rule sample_receiver) (simp add: receiver_step_def option_cell_def)
  moreover have "sys_step (sample_cs [5] 1 None (Some ?h) ?q {#} (RRegFillSet ?h)) (sample_cs [5] 1 (Some ?h) (Some ?h) ?q {#} RIdle)"
    by (rule sample_receiver) (simp add: receiver_step_def option_cell_def)
  moreover note sample_register [of "[]" 0 "{#}"]
  ultimately have "sys_step\<^sup>*\<^sup>* (sample_cs [] 0 None None (readiness_queue_new 0 0) {#} RIdle)
      (sample_cs [5] 1 (Some ?h) (Some ?h) ?q {#} RIdle)"
    by (meson converse_rtranclp_into_rtranclp rtranclp.rtrancl_refl)
  then show ?thesis
    by (intro exI conjI) (auto simp: sample_cs_def quiescent_def sample_readiness)
qed


end
