(* ===== verification/Mio_Unix.thy ===== *)
theory Mio_Unix
  imports Mio_Event Mio_Convert "HOL-Library.Monad_Syntax"
begin

text \<open>
  The Unix layer below the selectors: \<open>src/sys/unix/mod.rs\<close> (\<open>cvt\<close>, \<open>pipe\<close>), \<open>io.rs\<close> (\<open>Io\<close>,
  \<open>set_nonblock\<close>, \<open>set_cloexec\<close>), \<open>dlsym.rs\<close>, \<open>awakener.rs\<close> and \<open>uds.rs\<close>, and \<open>src/io.rs\<close>.  The operating
  system is a parameter: a record of the system calls over a state \<open>'o\<close>.  A call returns the C result;
  \<open>os_errno\<close> is the thread's error number afterwards.  A file descriptor is the plain number; dropping the
  \<open>Io\<close> that owns it calls \<open>close\<close>, and every path of the code on which an \<open>Io\<close> goes out of scope has that call.
\<close>

type_synonym fd = int

section \<open>System calls\<close>

text \<open>The control message of \<open>sendmsg\<close> and \<open>recvmsg\<close>: level, type and the one descriptor it carries.\<close>

record cmsg =
  cmsg_level :: int
  cmsg_type :: int
  cmsg_data :: fd

text \<open>\<open>sockaddr_un\<close> with its length.\<close>

record sockaddr_un =
  sun_family :: int
  sun_path :: "u8 list"

record 'o unix_sys =
  os_errno :: "'o \<Rightarrow> int"
  os_close :: "fd \<Rightarrow> 'o \<Rightarrow> 'o"
  os_fionbio :: "fd \<Rightarrow> 'o \<Rightarrow> int \<times> 'o"
  os_fioclex :: "fd \<Rightarrow> 'o \<Rightarrow> int \<times> 'o"
  os_setfl :: "fd \<Rightarrow> int \<Rightarrow> 'o \<Rightarrow> int \<times> 'o"
  os_dup :: "fd \<Rightarrow> 'o \<Rightarrow> int \<times> 'o"
  os_pipe2 :: "(int \<Rightarrow> 'o \<Rightarrow> (int \<times> fd \<times> fd) \<times> 'o) option"
  os_pipe :: "'o \<Rightarrow> (int \<times> fd \<times> fd) \<times> 'o"
  os_read :: "fd \<Rightarrow> nat \<Rightarrow> 'o \<Rightarrow> (int \<times> u8 list) \<times> 'o"
  os_write :: "fd \<Rightarrow> u8 list \<Rightarrow> 'o \<Rightarrow> int \<times> 'o"
  os_socket :: "int \<Rightarrow> int \<Rightarrow> int \<Rightarrow> 'o \<Rightarrow> int \<times> 'o"
  os_connect :: "fd \<Rightarrow> sockaddr_un \<Rightarrow> u32 \<Rightarrow> 'o \<Rightarrow> int \<times> 'o"
  os_bind :: "fd \<Rightarrow> sockaddr_un \<Rightarrow> u32 \<Rightarrow> 'o \<Rightarrow> int \<times> 'o"
  os_listen :: "fd \<Rightarrow> 32 word \<Rightarrow> 'o \<Rightarrow> int \<times> 'o"
  os_accept :: "fd \<Rightarrow> 'o \<Rightarrow> int \<times> 'o"
  os_shutdown :: "fd \<Rightarrow> int \<Rightarrow> 'o \<Rightarrow> int \<times> 'o"
  os_recvmsg :: "fd \<Rightarrow> nat \<Rightarrow> 'o \<Rightarrow> (int \<times> u8 list \<times> cmsg) \<times> 'o"
  os_sendmsg :: "fd \<Rightarrow> u8 list \<Rightarrow> cmsg \<Rightarrow> 'o \<Rightarrow> int \<times> 'o"

text \<open>Constants of \<open>libc\<close> on Linux.\<close>

definition O_NONBLOCK :: int where "O_NONBLOCK = 2048"
definition O_CLOEXEC :: int where "O_CLOEXEC = 524288"
definition AF_UNIX :: int where "AF_UNIX = 1"
definition SOCK_STREAM :: int where "SOCK_STREAM = 1"
definition SOCK_CLOEXEC :: int where "SOCK_CLOEXEC = 524288"
definition SOCK_NONBLOCK :: int where "SOCK_NONBLOCK = 2048"
definition SOL_SOCKET :: int where "SOL_SOCKET = 1"
definition SCM_RIGHTS :: int where "SCM_RIGHTS = 1"
definition SUN_PATH_LEN :: nat where "SUN_PATH_LEN = 108"

definition is_minus_one :: "int \<Rightarrow> bool" where
  "is_minus_one t \<longleftrightarrow> t = - 1"

definition cvt :: "'o unix_sys \<Rightarrow> int \<times> 'o \<Rightarrow> int io_result \<times> 'o" where
  "cvt os r = (case r of (t, w) \<Rightarrow> (if is_minus_one t then Inl (OsError (os_errno os w)) else Inr t, w))"

section \<open>Results\<close>

definition map_non_block :: "'a io_result \<Rightarrow> 'a option io_result" where
  "map_non_block r =
     (case r of
        Inr v \<Rightarrow> Inr (Some v)
      | Inl err \<Rightarrow> if error_kind_of err = WouldBlock then Inr None else Inl err)"

definition WOULDBLOCK :: int where "WOULDBLOCK = EAGAIN"

definition would_block :: io_error where
  "would_block = OsError WOULDBLOCK"

section \<open>Dynamic symbols\<close>

text \<open>\<open>DlSym::get\<close>: the address is looked up once and cached; 0 is not looked up yet, 1 not present.\<close>

definition dlsym_fetch :: "(string \<Rightarrow> usize) \<Rightarrow> string \<Rightarrow> usize" where
  "dlsym_fetch dlsym name = (let n = dlsym name in if n = 0 then 1 else n)"

definition dlsym_get :: "(string \<Rightarrow> usize) \<Rightarrow> string \<Rightarrow> usize \<Rightarrow> usize option \<times> usize" where
  "dlsym_get dlsym name addr =
     (let addr1 = (if addr = 0 then dlsym_fetch dlsym name else addr)
      in (if addr1 = 1 then None else Some addr1, addr1))"

section \<open>Descriptors\<close>

definition set_nonblock :: "'o unix_sys \<Rightarrow> fd \<Rightarrow> 'o \<Rightarrow> unit io_result \<times> 'o" where
  "set_nonblock os fd w = (let (r, w1) = cvt os (os_fionbio os fd w) in (result_map (\<lambda>_. ()) r, w1))"

definition set_cloexec :: "'o unix_sys \<Rightarrow> fd \<Rightarrow> 'o \<Rightarrow> unit io_result \<times> 'o" where
  "set_cloexec os fd w = (let (r, w1) = cvt os (os_fioclex os fd w) in (result_map (\<lambda>_. ()) r, w1))"

text \<open>\<open>File\<close> of the standard library: \<open>read\<close>, \<open>write\<close>, \<open>flush\<close> and \<open>try_clone\<close>, which wrap the calls.\<close>

definition io_read :: "'o unix_sys \<Rightarrow> fd \<Rightarrow> nat \<Rightarrow> 'o \<Rightarrow> u8 list io_result \<times> 'o" where
  "io_read os fd len w =
     (let ((n, bytes), w1) = os_read os fd len w
      in (if n = - 1 then Inl (OsError (os_errno os w1)) else Inr (take (nat n) bytes), w1))"

definition io_write :: "'o unix_sys \<Rightarrow> fd \<Rightarrow> u8 list \<Rightarrow> 'o \<Rightarrow> int io_result \<times> 'o" where
  "io_write os fd src w = cvt os (os_write os fd src w)"

definition io_flush :: "unit io_result" where
  "io_flush = Inr ()"

definition io_try_clone :: "'o unix_sys \<Rightarrow> fd \<Rightarrow> 'o \<Rightarrow> fd io_result \<times> 'o" where
  "io_try_clone os fd w = cvt os (os_dup os fd w)"

definition sys_pipe :: "'o unix_sys \<Rightarrow> 'o \<Rightarrow> (fd \<times> fd) io_result \<times> 'o" where
  "sys_pipe os w =
     (let flags = or O_NONBLOCK O_CLOEXEC
      in case os_pipe2 os of
           Some pipe2_fn \<Rightarrow>
             (case pipe2_fn flags w of ((rc, a, b), w1) \<Rightarrow>
                (case cvt os (rc, w1) of (Inl e, w2) \<Rightarrow> (Inl e, w2) | (Inr _, w2) \<Rightarrow> (Inr (a, b), w2)))
         | None \<Rightarrow>
             (case os_pipe os w of ((rc, a, b), w1) \<Rightarrow>
                (case cvt os (rc, w1) of
                   (Inl e, w2) \<Rightarrow> (Inl e, w2)
                 | (Inr _, w2) \<Rightarrow>
                     let (_, w3) = os_setfl os a flags w2; (_, w4) = os_setfl os b flags w3
                     in (Inr (a, b), w4))))"

section \<open>The awakener\<close>

record awakener =
  aw_reader :: fd
  aw_writer :: fd

definition awakener_new :: "'o unix_sys \<Rightarrow> 'o \<Rightarrow> awakener io_result \<times> 'o" where
  "awakener_new os w =
     (let (r, w1) = sys_pipe os w in (result_map (\<lambda>(rd, wr). \<lparr>aw_reader = rd, aw_writer = wr\<rparr>) r, w1))"

definition awakener_wakeup :: "'o unix_sys \<Rightarrow> awakener \<times> 'o \<Rightarrow> unit io_result \<times> (awakener \<times> 'o)" where
  "awakener_wakeup os aw =
     (case aw of (a, w) \<Rightarrow>
        (case io_write os (aw_writer a) [1] w of
           (Inr _, w1) \<Rightarrow> (Inr (), a, w1)
         | (Inl e, w1) \<Rightarrow> ((if error_kind_of e = WouldBlock then Inr () else Inl e), a, w1)))"

text \<open>The loop of \<open>cleanup\<close> reads 128 bytes at a time until a read fails or returns nothing.\<close>

partial_function (option) cleanup_loop :: "'o unix_sys \<Rightarrow> fd \<Rightarrow> 'o \<Rightarrow> 'o option" where
  "cleanup_loop os fd w =
     (case io_read os fd 128 w of
        (r, w1) \<Rightarrow> (case r of Inl e \<Rightarrow> Some w1 | Inr bytes \<Rightarrow> if bytes = [] then Some w1 else cleanup_loop os fd w1))"

declare cleanup_loop.simps [code]

definition awakener_cleanup :: "'o unix_sys \<Rightarrow> awakener \<times> 'o \<Rightarrow> (awakener \<times> 'o) option" where
  "awakener_cleanup os aw = (case aw of (a, w) \<Rightarrow> map_option (\<lambda>w1. (a, w1)) (cleanup_loop os (aw_reader a) w))"

section \<open>Unix domain sockets\<close>

text \<open>\<open>sockaddr_un\<close>: the path is copied into the zeroed array of 108 characters at offset 2.\<close>

definition sun_path_offset :: nat where "sun_path_offset = 2"

definition sockaddr_un_of :: "u8 list \<Rightarrow> (sockaddr_un \<times> u32) io_result" where
  "sockaddr_un_of bytes =
     (if length bytes \<ge> SUN_PATH_LEN
      then Inl (CustomError InvalidInput ''path must be shorter than SUN_LEN'')
      else
        let addr = \<lparr>sun_family = AF_UNIX, sun_path = bytes @ replicate (SUN_PATH_LEN - length bytes) 0\<rparr>;
            len = sun_path_offset + length bytes;
            len' = (case bytes of [] \<Rightarrow> len | b # _ \<Rightarrow> if b = 0 then len else len + 1)
        in Inr (addr, of_nat len'))"

text \<open>A freshly created descriptor is made close-on-exec and nonblocking; on failure its owner is dropped.\<close>

definition fd_setup :: "'o unix_sys \<Rightarrow> fd \<Rightarrow> 'o \<Rightarrow> fd io_result \<times> 'o" where
  "fd_setup os fd w =
     (case set_cloexec os fd w of
        (Inl e, w1) \<Rightarrow> (Inl e, os_close os fd w1)
      | (Inr _, w1) \<Rightarrow>
          (case set_nonblock os fd w1 of
             (Inl e, w2) \<Rightarrow> (Inl e, os_close os fd w2)
           | (Inr _, w2) \<Rightarrow> (Inr fd, w2)))"

definition unix_socket_stream_fallback :: "'o unix_sys \<Rightarrow> 'o \<Rightarrow> fd io_result \<times> 'o" where
  "unix_socket_stream_fallback os w =
     (case cvt os (os_socket os AF_UNIX SOCK_STREAM 0 w) of
        (Inl e, w1) \<Rightarrow> (Inl e, w1)
      | (Inr fd, w1) \<Rightarrow> fd_setup os fd w1)"

definition unix_socket_stream :: "'o unix_sys \<Rightarrow> 'o \<Rightarrow> fd io_result \<times> 'o" where
  "unix_socket_stream os w =
     (let flags = or SOCK_STREAM (or SOCK_CLOEXEC SOCK_NONBLOCK)
      in case cvt os (os_socket os AF_UNIX flags 0 w) of
           (Inr fd, w1) \<Rightarrow> (Inr fd, w1)
         | (Inl e, w1) \<Rightarrow>
             if raw_os_error e = Some EINVAL then unix_socket_stream_fallback os w1 else (Inl e, w1))"

definition unix_socket_connect :: "'o unix_sys \<Rightarrow> fd \<Rightarrow> u8 list \<Rightarrow> 'o \<Rightarrow> unit io_result \<times> 'o" where
  "unix_socket_connect os fd path w =
     (case sockaddr_un_of path of
        Inl e \<Rightarrow> (Inl e, w)
      | Inr (addr, len) \<Rightarrow>
          let (r, w1) = cvt os (os_connect os fd addr len w) in (result_map (\<lambda>_. ()) r, w1))"

definition unix_socket_bind :: "'o unix_sys \<Rightarrow> fd \<Rightarrow> u8 list \<Rightarrow> 'o \<Rightarrow> unit io_result \<times> 'o" where
  "unix_socket_bind os fd path w =
     (case sockaddr_un_of path of
        Inl e \<Rightarrow> (Inl e, w)
      | Inr (addr, len) \<Rightarrow>
          let (r, w1) = cvt os (os_bind os fd addr len w) in (result_map (\<lambda>_. ()) r, w1))"

definition unix_socket_listen :: "'o unix_sys \<Rightarrow> fd \<Rightarrow> usize \<Rightarrow> 'o \<Rightarrow> unit io_result \<times> 'o" where
  "unix_socket_listen os fd backlog w =
     (let (r, w1) = cvt os (os_listen os fd (ucast backlog) w) in (result_map (\<lambda>_. ()) r, w1))"

definition unix_socket_accept :: "'o unix_sys \<Rightarrow> fd \<Rightarrow> 'o \<Rightarrow> fd io_result \<times> 'o" where
  "unix_socket_accept os fd w =
     (case cvt os (os_accept os fd w) of
        (Inl e, w1) \<Rightarrow> (Inl e, w1)
      | (Inr new_fd, w1) \<Rightarrow> fd_setup os new_fd w1)"

definition unix_socket_try_clone :: "'o unix_sys \<Rightarrow> fd \<Rightarrow> 'o \<Rightarrow> fd io_result \<times> 'o" where
  "unix_socket_try_clone os fd w = io_try_clone os fd w"

datatype shutdown = ShutdownRead | ShutdownWrite | ShutdownBoth

fun shutdown_how :: "shutdown \<Rightarrow> int" where
  "shutdown_how ShutdownRead = 0"
| "shutdown_how ShutdownWrite = 1"
| "shutdown_how ShutdownBoth = 2"

definition unix_socket_shutdown :: "'o unix_sys \<Rightarrow> fd \<Rightarrow> shutdown \<Rightarrow> 'o \<Rightarrow> unit io_result \<times> 'o" where
  "unix_socket_shutdown os fd how w =
     (let (r, w1) = cvt os (os_shutdown os fd (shutdown_how how) w) in (result_map (\<lambda>_. ()) r, w1))"

text \<open>The received bytes stand for the part of the buffer that was filled; the control message starts zeroed.\<close>

definition unix_socket_read_recv_fd ::
  "'o unix_sys \<Rightarrow> fd \<Rightarrow> nat \<Rightarrow> 'o \<Rightarrow> (u8 list \<times> fd option) io_result \<times> 'o" where
  "unix_socket_read_recv_fd os fd len w =
     (case os_recvmsg os fd len w of
        ((n, bytes, c), w1) \<Rightarrow>
          (case cvt os (n, w1) of
             (Inl e, w2) \<Rightarrow> (Inl e, w2)
           | (Inr _, w2) \<Rightarrow>
               (Inr (take (nat n) bytes,
                  if cmsg_level c = SOL_SOCKET \<and> cmsg_type c = SCM_RIGHTS then Some (cmsg_data c) else None), w2)))"

definition unix_socket_write_send_fd ::
  "'o unix_sys \<Rightarrow> fd \<Rightarrow> u8 list \<Rightarrow> fd \<Rightarrow> 'o \<Rightarrow> int io_result \<times> 'o" where
  "unix_socket_write_send_fd os fd buf send_fd w =
     cvt os (os_sendmsg os fd buf \<lparr>cmsg_level = SOL_SOCKET, cmsg_type = SCM_RIGHTS, cmsg_data = send_fd\<rparr> w)"

end
