(* ===== verification/Mio_Epoll.thy ===== *)
theory Mio_Epoll
  imports Mio_Unix
begin

text \<open>
  The epoll selector of \<open>src/sys/unix/epoll.rs\<close> and the \<open>EventedFd\<close> adapter of \<open>eventedfd.rs\<close>.  The
  epoll system calls are a parameter.  \<open>Events\<close> is a vector of \<open>epoll_event\<close> with a capacity.
\<close>

section \<open>System calls and constants\<close>

record epoll_event =
  epe_events :: u32
  epe_u64 :: u64

record 'o epoll_sys =
  es_create1 :: "(int \<Rightarrow> 'o \<Rightarrow> int \<times> 'o) option"
  es_create :: "int \<Rightarrow> 'o \<Rightarrow> int \<times> 'o"
  es_wait :: "fd \<Rightarrow> 32 word \<Rightarrow> 32 word \<Rightarrow> 'o \<Rightarrow> (int \<times> epoll_event list) \<times> 'o"
  es_ctl :: "fd \<Rightarrow> int \<Rightarrow> fd \<Rightarrow> epoll_event \<Rightarrow> 'o \<Rightarrow> int \<times> 'o"

definition EPOLLIN :: u32 where [flag_defs]: "EPOLLIN = 1"
definition EPOLLPRI :: u32 where [flag_defs]: "EPOLLPRI = 2"
definition EPOLLOUT :: u32 where [flag_defs]: "EPOLLOUT = 4"
definition EPOLLERR :: u32 where [flag_defs]: "EPOLLERR = 8"
definition EPOLLHUP :: u32 where [flag_defs]: "EPOLLHUP = 16"
definition EPOLLRDHUP :: u32 where [flag_defs]: "EPOLLRDHUP = 0x2000"
definition EPOLLONESHOT :: u32 where [flag_defs]: "EPOLLONESHOT = 0x40000000"
definition EPOLLET :: u32 where [flag_defs]: "EPOLLET = 0x80000000"

definition EPOLL_CLOEXEC :: int where "EPOLL_CLOEXEC = 524288"
definition EPOLL_CTL_ADD :: int where "EPOLL_CTL_ADD = 1"
definition EPOLL_CTL_DEL :: int where "EPOLL_CTL_DEL = 2"
definition EPOLL_CTL_MOD :: int where "EPOLL_CTL_MOD = 3"

definition I32_MAX :: u64 where "I32_MAX = 0x7FFFFFFF"

section \<open>The selector\<close>

record epoll_selector =
  ep_id :: usize
  ep_fd :: fd

text \<open>\<open>next_id\<close> is the global counter of selector ids.\<close>

definition epoll_new ::
  "'o unix_sys \<Rightarrow> 'o epoll_sys \<Rightarrow> usize \<Rightarrow> 'o \<Rightarrow> epoll_selector io_result \<times> usize \<times> 'o" where
  "epoll_new os ep next_id w =
     (let (r, w1) =
        (case es_create1 ep of
           Some epoll_create1_fn \<Rightarrow> cvt os (epoll_create1_fn EPOLL_CLOEXEC w)
         | None \<Rightarrow>
             (case cvt os (es_create ep 1024 w) of
                (Inl e, w1) \<Rightarrow> (Inl e, w1)
              | (Inr fd, w1) \<Rightarrow> let (_, w2) = set_cloexec os fd w1 in (Inr fd, w2)))
      in case r of
           Inl e \<Rightarrow> (Inl e, next_id, w1)
         | Inr epfd \<Rightarrow> (Inr \<lparr>ep_id = next_id + 1, ep_fd = epfd\<rparr>, next_id + 1, w1))"

definition epoll_id :: "epoll_selector \<Rightarrow> usize" where
  "epoll_id s = ep_id s"

definition ioevent_to_epoll :: "ready \<Rightarrow> poll_opt \<Rightarrow> u32" where
  "ioevent_to_epoll interest opts =
     (let kind = 0;
          kind = (if ready_is_readable interest
                  then if pollopt_is_urgent opts then kind OR EPOLLPRI else kind OR EPOLLIN else kind);
          kind = (if ready_is_writable interest then kind OR EPOLLOUT else kind);
          kind = (if ready_is_hup interest then kind OR EPOLLRDHUP else kind);
          kind = (if pollopt_is_edge opts then kind OR EPOLLET else kind);
          kind = (if pollopt_is_oneshot opts then kind OR EPOLLONESHOT else kind);
          kind = (if pollopt_is_level opts then kind AND NOT EPOLLET else kind)
      in kind)"

definition epoll_ctl_op ::
  "'o unix_sys \<Rightarrow> 'o epoll_sys \<Rightarrow> epoll_selector \<Rightarrow> int \<Rightarrow> fd \<Rightarrow> epoll_event \<Rightarrow> 'o \<Rightarrow> unit io_result \<times> 'o" where
  "epoll_ctl_op os ep s op fd info w =
     (let (r, w1) = cvt os (es_ctl ep (ep_fd s) op fd info w) in (result_map (\<lambda>_. ()) r, w1))"

definition epoll_register ::
  "'o unix_sys \<Rightarrow> 'o epoll_sys \<Rightarrow> epoll_selector \<Rightarrow> fd \<Rightarrow> token \<Rightarrow> ready \<Rightarrow> poll_opt \<Rightarrow> 'o \<Rightarrow> unit io_result \<times> 'o" where
  "epoll_register os ep s fd tok interests opts w =
     epoll_ctl_op os ep s EPOLL_CTL_ADD fd
       \<lparr>epe_events = ioevent_to_epoll interests opts, epe_u64 = usize_from_token tok\<rparr> w"

definition epoll_reregister ::
  "'o unix_sys \<Rightarrow> 'o epoll_sys \<Rightarrow> epoll_selector \<Rightarrow> fd \<Rightarrow> token \<Rightarrow> ready \<Rightarrow> poll_opt \<Rightarrow> 'o \<Rightarrow> unit io_result \<times> 'o" where
  "epoll_reregister os ep s fd tok interests opts w =
     epoll_ctl_op os ep s EPOLL_CTL_MOD fd
       \<lparr>epe_events = ioevent_to_epoll interests opts, epe_u64 = usize_from_token tok\<rparr> w"

definition epoll_deregister ::
  "'o unix_sys \<Rightarrow> 'o epoll_sys \<Rightarrow> epoll_selector \<Rightarrow> fd \<Rightarrow> 'o \<Rightarrow> unit io_result \<times> 'o" where
  "epoll_deregister os ep s fd w = epoll_ctl_op os ep s EPOLL_CTL_DEL fd \<lparr>epe_events = 0, epe_u64 = 0\<rparr> w"

definition epoll_drop :: "'o unix_sys \<Rightarrow> epoll_selector \<Rightarrow> 'o \<Rightarrow> 'o" where
  "epoll_drop os s w = os_close os (ep_fd s) w"

section \<open>Events\<close>

record epoll_events =
  evs_list :: "epoll_event list"
  evs_cap :: nat

definition epoll_events_with_capacity :: "usize \<Rightarrow> epoll_events" where
  "epoll_events_with_capacity u = \<lparr>evs_list = [], evs_cap = unat u\<rparr>"

definition epoll_events_len :: "epoll_events \<Rightarrow> nat" where
  "epoll_events_len evs = length (evs_list evs)"

definition epoll_events_is_empty :: "epoll_events \<Rightarrow> bool" where
  "epoll_events_is_empty evs \<longleftrightarrow> evs_list evs = []"

definition epoll_to_event :: "epoll_event \<Rightarrow> event" where
  "epoll_to_event e =
     (let epoll = epe_events e;
          kind = ready_none;
          kind = (if epoll AND EPOLLIN \<noteq> 0 \<or> epoll AND EPOLLPRI \<noteq> 0 then ready_bitor kind ready_readable else kind);
          kind = (if epoll AND EPOLLOUT \<noteq> 0 then ready_bitor kind ready_writable else kind);
          kind = (if epoll AND EPOLLERR \<noteq> 0 then ready_bitor kind ready_error else kind);
          kind = (if epoll AND EPOLLRDHUP \<noteq> 0 \<or> epoll AND EPOLLHUP \<noteq> 0 then ready_bitor kind ready_hup else kind)
      in event_new kind (Token (epe_u64 e)))"

definition epoll_events_get :: "epoll_events \<Rightarrow> nat \<Rightarrow> event option" where
  "epoll_events_get evs idx =
     (if idx < length (evs_list evs) then Some (epoll_to_event (evs_list evs ! idx)) else None)"

text \<open>\<open>Vec::push\<close> doubles the capacity when the vector is full.\<close>

definition epoll_events_push :: "epoll_events \<Rightarrow> event \<Rightarrow> epoll_events" where
  "epoll_events_push evs e =
     \<lparr>evs_list = evs_list evs @
        [\<lparr>epe_events = ioevent_to_epoll (ev_kind e) pollopt_empty, epe_u64 = usize_from_token (ev_token e)\<rparr>],
      evs_cap = (if length (evs_list evs) < evs_cap evs then evs_cap evs
                 else if evs_cap evs = 0 then 4 else 2 * evs_cap evs)\<rparr>"

section \<open>Waiting\<close>

definition timeout_ms :: "duration option \<Rightarrow> 32 word" where
  "timeout_ms timeout =
     (case timeout of None \<Rightarrow> - 1 | Some to \<Rightarrow> ucast (min (millis to) I32_MAX))"

text \<open>The scan for the awakener's event: it is removed and the scan stops.\<close>

fun take_awakener :: "token \<Rightarrow> epoll_event list \<Rightarrow> bool \<times> epoll_event list" where
  "take_awakener aw [] = (False, [])"
| "take_awakener aw (e # es) =
     (if epe_u64 e = usize_from_token aw then (True, es)
      else let (found, es') = take_awakener aw es in (found, e # es'))"

definition epoll_select ::
  "'o unix_sys \<Rightarrow> 'o epoll_sys \<Rightarrow> epoll_selector \<Rightarrow> epoll_events \<Rightarrow> token \<Rightarrow> duration option \<Rightarrow> 'o \<Rightarrow>
     bool io_result \<times> epoll_events \<times> 'o" where
  "epoll_select os ep s evts awakener timeout w =
     (let evts0 = evts\<lparr>evs_list := []\<rparr>;
          ((n, events), w1) = es_wait ep (ep_fd s) (of_nat (evs_cap evts)) (timeout_ms timeout) w
      in case cvt os (n, w1) of
           (Inl e, w2) \<Rightarrow> (Inl e, evts0, w2)
         | (Inr cnt, w2) \<Rightarrow>
             let (awoken, es) = take_awakener awakener (take (nat cnt) events)
             in (Inr awoken, evts0\<lparr>evs_list := es\<rparr>, w2))"

section \<open>\<open>EventedFd\<close>\<close>

definition evented_fd_register ::
  "'o unix_sys \<Rightarrow> 'o epoll_sys \<Rightarrow> fd \<Rightarrow> epoll_selector \<Rightarrow> token \<Rightarrow> ready \<Rightarrow> poll_opt \<Rightarrow> 'o \<Rightarrow> unit io_result \<times> 'o" where
  "evented_fd_register os ep fd s tok interest opts w = epoll_register os ep s fd tok interest opts w"

definition evented_fd_reregister ::
  "'o unix_sys \<Rightarrow> 'o epoll_sys \<Rightarrow> fd \<Rightarrow> epoll_selector \<Rightarrow> token \<Rightarrow> ready \<Rightarrow> poll_opt \<Rightarrow> 'o \<Rightarrow> unit io_result \<times> 'o" where
  "evented_fd_reregister os ep fd s tok interest opts w = epoll_reregister os ep s fd tok interest opts w"

definition evented_fd_deregister ::
  "'o unix_sys \<Rightarrow> 'o epoll_sys \<Rightarrow> fd \<Rightarrow> epoll_selector \<Rightarrow> 'o \<Rightarrow> unit io_result \<times> 'o" where
  "evented_fd_deregister os ep fd s w = epoll_deregister os ep s fd w"

end
