(* ===== verification/Mio_Kqueue.thy ===== *)
theory Mio_Kqueue
  imports Mio_Unix
begin

text \<open>
  The kqueue selector of \<open>src/sys/unix/kqueue.rs\<close>.  The \<open>kqueue\<close> and \<open>kevent\<close> system calls are a parameter.
  The selector collects changes in a list that \<open>flush_changes\<close> submits; \<open>Events\<close> keeps the kernel's events and
  the ones merged per token.
\<close>

section \<open>System calls and constants\<close>

record kevent =
  ke_ident :: int
  ke_filter :: int
  ke_flags :: u16
  ke_fflags :: u32
  ke_udata :: usize

record timespec =
  tv_sec :: int
  tv_nsec :: int

text \<open>\<open>kevent\<close> with a change list and no room for events, and with room for events and no changes.\<close>

record 'o kqueue_sys =
  ks_kqueue :: "'o \<Rightarrow> int \<times> 'o"
  ks_submit :: "fd \<Rightarrow> kevent list \<Rightarrow> 'o \<Rightarrow> int \<times> 'o"
  ks_wait :: "fd \<Rightarrow> 32 word \<Rightarrow> timespec option \<Rightarrow> 'o \<Rightarrow> (int \<times> kevent list) \<times> 'o"

definition EVFILT_READ :: int where "EVFILT_READ = - 1"
definition EVFILT_WRITE :: int where "EVFILT_WRITE = - 2"
definition EV_ADD :: u16 where [flag_defs]: "EV_ADD = 1"
definition EV_DELETE :: u16 where [flag_defs]: "EV_DELETE = 2"
definition EV_ENABLE :: u16 where [flag_defs]: "EV_ENABLE = 4"
definition EV_DISABLE :: u16 where [flag_defs]: "EV_DISABLE = 8"
definition EV_ONESHOT :: u16 where [flag_defs]: "EV_ONESHOT = 16"
definition EV_CLEAR :: u16 where [flag_defs]: "EV_CLEAR = 32"
definition EV_ERROR :: u16 where [flag_defs]: "EV_ERROR = 0x4000"
definition EV_EOF :: u16 where [flag_defs]: "EV_EOF = 0x8000"

definition TIME_T_MAX :: u64 where "TIME_T_MAX = 0x7FFFFFFFFFFFFFFF"

section \<open>The selector\<close>

record kqueue_selector =
  kq_id :: usize
  kq_fd :: fd
  kq_changes :: "kevent list"

definition kqueue_new ::
  "'o unix_sys \<Rightarrow> 'o kqueue_sys \<Rightarrow> usize \<Rightarrow> 'o \<Rightarrow> kqueue_selector io_result \<times> usize \<times> 'o" where
  "kqueue_new os ks next_id w =
     (let id = next_id + 1
      in case cvt os (ks_kqueue ks w) of
           (Inl e, w1) \<Rightarrow> (Inl e, id, w1)
         | (Inr kq, w1) \<Rightarrow>
             let (_, w2) = set_cloexec os kq w1
             in (Inr \<lparr>kq_id = id, kq_fd = kq, kq_changes = []\<rparr>, id, w2))"

definition kqueue_id :: "kqueue_selector \<Rightarrow> usize" where
  "kqueue_id s = kq_id s"

definition ev_push :: "kqueue_selector \<Rightarrow> fd \<Rightarrow> usize \<Rightarrow> int \<Rightarrow> u16 \<Rightarrow> kqueue_selector" where
  "ev_push s fd token filt flags =
     s\<lparr>kq_changes := kq_changes s @
       [\<lparr>ke_ident = fd, ke_filter = filt, ke_flags = flags, ke_fflags = 0, ke_udata = token\<rparr>]\<rparr>"

definition ev_register :: "kqueue_selector \<Rightarrow> fd \<Rightarrow> usize \<Rightarrow> int \<Rightarrow> bool \<Rightarrow> poll_opt \<Rightarrow> kqueue_selector" where
  "ev_register s fd token filt enable opts =
     (let flags = EV_ADD;
          flags = (if enable then flags OR EV_ENABLE else flags OR EV_DISABLE);
          flags = (if pollopt_contains opts pollopt_edge then flags OR EV_CLEAR else flags);
          flags = (if pollopt_contains opts pollopt_oneshot then flags OR EV_ONESHOT else flags)
      in ev_push s fd token filt flags)"

definition flush_changes ::
  "'o unix_sys \<Rightarrow> 'o kqueue_sys \<Rightarrow> kqueue_selector \<Rightarrow> 'o \<Rightarrow> unit io_result \<times> kqueue_selector \<times> 'o" where
  "flush_changes os ks s w =
     (case cvt os (ks_submit ks (kq_fd s) (kq_changes s) w) of
        (Inl e, w1) \<Rightarrow> (Inl e, s, w1)
      | (Inr _, w1) \<Rightarrow> (Inr (), s\<lparr>kq_changes := []\<rparr>, w1))"

definition kqueue_register ::
  "'o unix_sys \<Rightarrow> 'o kqueue_sys \<Rightarrow> kqueue_selector \<Rightarrow> fd \<Rightarrow> token \<Rightarrow> ready \<Rightarrow> poll_opt \<Rightarrow> 'o \<Rightarrow>
     unit io_result \<times> kqueue_selector \<times> 'o" where
  "kqueue_register os ks s fd tok interests opts w =
     (let s1 = ev_register s fd (usize_from_token tok) EVFILT_READ (ready_contains interests ready_readable) opts;
          s2 = ev_register s1 fd (usize_from_token tok) EVFILT_WRITE (ready_contains interests ready_writable) opts
      in flush_changes os ks s2 w)"

definition kqueue_reregister ::
  "'o unix_sys \<Rightarrow> 'o kqueue_sys \<Rightarrow> kqueue_selector \<Rightarrow> fd \<Rightarrow> token \<Rightarrow> ready \<Rightarrow> poll_opt \<Rightarrow> 'o \<Rightarrow>
     unit io_result \<times> kqueue_selector \<times> 'o" where
  "kqueue_reregister os ks s fd tok interests opts w = kqueue_register os ks s fd tok interests opts w"

definition kqueue_deregister ::
  "'o unix_sys \<Rightarrow> 'o kqueue_sys \<Rightarrow> kqueue_selector \<Rightarrow> fd \<Rightarrow> 'o \<Rightarrow> unit io_result \<times> kqueue_selector \<times> 'o" where
  "kqueue_deregister os ks s fd w =
     (let s1 = ev_push s fd 0 EVFILT_READ EV_DELETE;
          s2 = ev_push s1 fd 0 EVFILT_WRITE EV_DELETE
      in flush_changes os ks s2 w)"

definition kqueue_drop :: "'o unix_sys \<Rightarrow> kqueue_selector \<Rightarrow> 'o \<Rightarrow> 'o" where
  "kqueue_drop os s w = os_close os (kq_fd s) w"

section \<open>Events\<close>

record kqueue_events =
  kes_sys_events :: "kevent list"
  kes_cap :: nat
  kes_events :: "event list"
  kes_map :: "token \<rightharpoonup> nat"

definition kqueue_events_with_capacity :: "usize \<Rightarrow> kqueue_events" where
  "kqueue_events_with_capacity cap =
     \<lparr>kes_sys_events = [], kes_cap = unat cap, kes_events = [], kes_map = Map.empty\<rparr>"

definition kqueue_events_len :: "kqueue_events \<Rightarrow> nat" where
  "kqueue_events_len evs = length (kes_events evs)"

definition kqueue_events_is_empty :: "kqueue_events \<Rightarrow> bool" where
  "kqueue_events_is_empty evs \<longleftrightarrow> kes_events evs = []"

definition kqueue_events_get :: "kqueue_events \<Rightarrow> nat \<Rightarrow> event option" where
  "kqueue_events_get evs idx = (if idx < length (kes_events evs) then Some (kes_events evs ! idx) else None)"

definition kqueue_events_push :: "kqueue_events \<Rightarrow> event \<Rightarrow> kqueue_events" where
  "kqueue_events_push evs e = evs\<lparr>kes_events := kes_events evs @ [e]\<rparr>"

text \<open>\<open>event::kind_mut(&mut self.events[idx]).insert(r)\<close>, which panics out of range.\<close>

definition insert_kind :: "event list \<Rightarrow> nat \<Rightarrow> ready \<Rightarrow> event list option" where
  "insert_kind evs idx r = (if idx < length evs then Some (evs[idx := event_kind_mut (\<lambda>k. ready_insert k r) (evs ! idx)]) else None)"

text \<open>The body of the loop of \<open>coalesce\<close> for one kernel event.\<close>

definition coalesce_one ::
  "token \<Rightarrow> kevent \<Rightarrow> bool \<times> event list \<times> (token \<rightharpoonup> nat) \<Rightarrow> (bool \<times> event list \<times> (token \<rightharpoonup> nat)) option" where
  "coalesce_one awakener e st =
     (case st of (ret, evs, m) \<Rightarrow>
        let token = Token (ke_udata e); len = length evs
        in if token = awakener then Some (True, evs, m)
           else
             let idx = (case m token of Some i \<Rightarrow> i | None \<Rightarrow> len);
                 m1 = m(token \<mapsto> idx);
                 evs1 = (if idx = len then evs @ [event_new ready_none token] else evs)
             in do {
               evs2 \<leftarrow> (if ke_flags e AND EV_ERROR \<noteq> 0 then insert_kind evs1 idx ready_error else Some evs1);
               evs3 \<leftarrow> (if ke_filter e = EVFILT_READ then insert_kind evs2 idx ready_readable
                        else if ke_filter e = EVFILT_WRITE then insert_kind evs2 idx ready_writable else Some evs2);
               evs4 \<leftarrow> (if ke_flags e AND EV_EOF \<noteq> 0
                        then do {
                          x \<leftarrow> insert_kind evs3 idx ready_hup;
                          (if ke_fflags e \<noteq> 0 then insert_kind x idx ready_error else Some x) }
                        else Some evs3);
               Some (ret, evs4, m1) })"

fun coalesce_loop ::
  "token \<Rightarrow> kevent list \<Rightarrow> bool \<times> event list \<times> (token \<rightharpoonup> nat) \<Rightarrow> (bool \<times> event list \<times> (token \<rightharpoonup> nat)) option" where
  "coalesce_loop aw [] st = Some st"
| "coalesce_loop aw (e # es) st = Option.bind (coalesce_one aw e st) (coalesce_loop aw es)"

definition coalesce :: "token \<Rightarrow> kqueue_events \<Rightarrow> (bool \<times> kqueue_events) option" where
  "coalesce awakener evs =
     map_option (\<lambda>(ret, es, m). (ret, evs\<lparr>kes_events := es, kes_map := m\<rparr>))
       (coalesce_loop awakener (kes_sys_events evs) (False, [], Map.empty))"

section \<open>Waiting\<close>

definition timespec_of :: "duration \<Rightarrow> timespec" where
  "timespec_of to = \<lparr>tv_sec = int (unat (min (dur_secs to) TIME_T_MAX)), tv_nsec = int (unat (dur_nanos to))\<rparr>"

definition kqueue_select ::
  "'o unix_sys \<Rightarrow> 'o kqueue_sys \<Rightarrow> kqueue_selector \<Rightarrow> kqueue_events \<Rightarrow> token \<Rightarrow> duration option \<Rightarrow> 'o \<Rightarrow>
     (bool io_result \<times> kqueue_selector \<times> kqueue_events \<times> 'o) option" where
  "kqueue_select os ks s evts awakener timeout w =
     (let ((n, events), w1) = ks_wait ks (kq_fd s) (of_nat (kes_cap evts)) (map_option timespec_of timeout) w
      in case cvt os (n, w1) of
           (Inl e, w2) \<Rightarrow> Some (Inl e, s, evts, w2)
         | (Inr cnt, w2) \<Rightarrow>
             map_option (\<lambda>(ret, evts1). (Inr ret, s\<lparr>kq_changes := []\<rparr>, evts1, w2))
               (coalesce awakener (evts\<lparr>kes_sys_events := take (nat cnt) events\<rparr>)))"

end
