(* ===== verification/Mio_Poll.thy ===== *)
theory Mio_Poll
  imports Mio_Queue Mio_Epoll Mio_Kqueue
begin

text \<open>
  \<open>Poll\<close>, \<open>Events\<close> and \<open>EventsIter\<close> of \<open>src/poll.rs\<close>.  The code is written against the platform module
  \<open>sys\<close>; here \<open>sys\<close> is a record of its operations, with one value for epoll and one for kqueue.  The state of
  a platform is the selector, the awakener and the operating system's state; the queue's awakener field holds
  the last two.  \<open>None\<close> is a panic.
\<close>

section \<open>The platform\<close>

record ('s, 'a, 'e, 'o) sys_ops =
  sys_selector_new :: "'o \<Rightarrow> 's io_result \<times> 'o"
  sys_selector_drop :: "'s \<Rightarrow> 'o \<Rightarrow> 'o"
  sys_select :: "'s \<Rightarrow> 'e \<Rightarrow> token \<Rightarrow> duration option \<Rightarrow> 'a \<times> 'o \<Rightarrow> (bool io_result \<times> 's \<times> 'e \<times> 'a \<times> 'o) option"
  sys_awakener_new :: "'o \<Rightarrow> 'a io_result \<times> 'o"
  sys_awakener_drop :: "'a \<Rightarrow> 'o \<Rightarrow> 'o"
  sys_awakener_register :: "'s \<Rightarrow> 'a \<Rightarrow> token \<Rightarrow> ready \<Rightarrow> poll_opt \<Rightarrow> 'o \<Rightarrow> unit io_result \<times> 's \<times> 'o"
  sys_wakeup :: "'a \<times> 'o \<Rightarrow> unit io_result \<times> ('a \<times> 'o)"
  sys_cleanup :: "'a \<times> 'o \<Rightarrow> ('a \<times> 'o) option"
  sys_with_capacity :: "usize \<Rightarrow> 'e"
  sys_push :: "'e \<Rightarrow> event \<Rightarrow> 'e"
  sys_len :: "'e \<Rightarrow> nat"
  sys_is_empty :: "'e \<Rightarrow> bool"
  sys_get :: "'e \<Rightarrow> nat \<Rightarrow> event option"

text \<open>The awakener registers its read end; dropping it closes both ends.  The global counter of selector ids is
  part of the state.\<close>

definition awakener_drop :: "'o unix_sys \<Rightarrow> awakener \<Rightarrow> 'o \<Rightarrow> 'o" where
  "awakener_drop os a w = os_close os (aw_writer a) (os_close os (aw_reader a) w)"

definition awakener_register ::
  "'o unix_sys \<Rightarrow> 'o epoll_sys \<Rightarrow> epoll_selector \<Rightarrow> awakener \<Rightarrow> token \<Rightarrow> ready \<Rightarrow> poll_opt \<Rightarrow> 'o \<Rightarrow>
     unit io_result \<times> 'o" where
  "awakener_register os ep s a tok interest opts w = evented_fd_register os ep (aw_reader a) s tok interest opts w"

definition awakener_reregister ::
  "'o unix_sys \<Rightarrow> 'o epoll_sys \<Rightarrow> epoll_selector \<Rightarrow> awakener \<Rightarrow> token \<Rightarrow> ready \<Rightarrow> poll_opt \<Rightarrow> 'o \<Rightarrow>
     unit io_result \<times> 'o" where
  "awakener_reregister os ep s a tok interest opts w = evented_fd_reregister os ep (aw_reader a) s tok interest opts w"

definition awakener_deregister ::
  "'o unix_sys \<Rightarrow> 'o epoll_sys \<Rightarrow> epoll_selector \<Rightarrow> awakener \<Rightarrow> 'o \<Rightarrow> unit io_result \<times> 'o" where
  "awakener_deregister os ep s a w = evented_fd_deregister os ep (aw_reader a) s w"

definition with_counter :: "('o \<Rightarrow> 'r \<times> 'o) \<Rightarrow> usize \<times> 'o \<Rightarrow> 'r \<times> (usize \<times> 'o)" where
  "with_counter f cw = (let (r, w) = f (snd cw) in (r, (fst cw, w)))"

definition epoll_ops ::
  "'o unix_sys \<Rightarrow> 'o epoll_sys \<Rightarrow> (epoll_selector, awakener, epoll_events, usize \<times> 'o) sys_ops" where
  "epoll_ops os ep =
     \<lparr>sys_selector_new = (\<lambda>(c, w). case epoll_new os ep c w of (r, c1, w1) \<Rightarrow> (r, (c1, w1))),
      sys_selector_drop = (\<lambda>s (c, w). (c, epoll_drop os s w)),
      sys_select = (\<lambda>s evts aw timeout (a, c, w).
        case epoll_select os ep s evts aw timeout w of (r, evts1, w1) \<Rightarrow> Some (r, s, evts1, a, c, w1)),
      sys_awakener_new = with_counter (awakener_new os),
      sys_awakener_drop = (\<lambda>a (c, w). (c, awakener_drop os a w)),
      sys_awakener_register = (\<lambda>s a tok i p (c, w).
        case awakener_register os ep s a tok i p w of (r, w1) \<Rightarrow> (r, s, c, w1)),
      sys_wakeup = (\<lambda>(a, c, w). case awakener_wakeup os (a, w) of (r, a1, w1) \<Rightarrow> (r, a1, c, w1)),
      sys_cleanup = (\<lambda>(a, c, w). map_option (\<lambda>(a1, w1). (a1, c, w1)) (awakener_cleanup os (a, w))),
      sys_with_capacity = epoll_events_with_capacity,
      sys_push = epoll_events_push,
      sys_len = epoll_events_len,
      sys_is_empty = epoll_events_is_empty,
      sys_get = epoll_events_get\<rparr>"

definition kqueue_ops ::
  "'o unix_sys \<Rightarrow> 'o kqueue_sys \<Rightarrow> (kqueue_selector, awakener, kqueue_events, usize \<times> 'o) sys_ops" where
  "kqueue_ops os ks =
     \<lparr>sys_selector_new = (\<lambda>(c, w). case kqueue_new os ks c w of (r, c1, w1) \<Rightarrow> (r, (c1, w1))),
      sys_selector_drop = (\<lambda>s (c, w). (c, kqueue_drop os s w)),
      sys_select = (\<lambda>s evts aw timeout (a, c, w).
        map_option (\<lambda>(r, s1, evts1, w1). (r, s1, evts1, a, c, w1)) (kqueue_select os ks s evts aw timeout w)),
      sys_awakener_new = with_counter (awakener_new os),
      sys_awakener_drop = (\<lambda>a (c, w). (c, awakener_drop os a w)),
      sys_awakener_register = (\<lambda>s a tok i p (c, w).
        case kqueue_register os ks s (aw_reader a) tok i p w of (r, s1, w1) \<Rightarrow> (r, s1, c, w1)),
      sys_wakeup = (\<lambda>(a, c, w). case awakener_wakeup os (a, w) of (r, a1, w1) \<Rightarrow> (r, a1, c, w1)),
      sys_cleanup = (\<lambda>(a, c, w). map_option (\<lambda>(a1, w1). (a1, c, w1)) (awakener_cleanup os (a, w))),
      sys_with_capacity = kqueue_events_with_capacity,
      sys_push = kqueue_events_push,
      sys_len = kqueue_events_len,
      sys_is_empty = kqueue_events_is_empty,
      sys_get = kqueue_events_get\<rparr>"

section \<open>\<open>Poll\<close>\<close>

record ('s, 'a, 'o) poll =
  pl_selector :: 's
  pl_queue :: "('a \<times> 'o) readiness_queue"

text \<open>On an error everything built so far is dropped.  \<open>qid\<close> is the address of the new queue.\<close>

definition poll_new :: "('s, 'a, 'e, 'o) sys_ops \<Rightarrow> nat \<Rightarrow> 'o \<Rightarrow> ('s, 'a, 'o) poll io_result \<times> 'o" where
  "poll_new sys qid w =
     (case sys_selector_new sys w of
        (Inl e, w1) \<Rightarrow> (Inl e, w1)
      | (Inr s, w1) \<Rightarrow>
          (case sys_awakener_new sys w1 of
             (Inl e, w2) \<Rightarrow> (Inl e, sys_selector_drop sys s w2)
           | (Inr a, w2) \<Rightarrow>
               (case sys_awakener_register sys s a AWAKEN ready_readable pollopt_edge w2 of
                  (Inl e, s1, w3) \<Rightarrow> (Inl e, sys_awakener_drop sys a (sys_selector_drop sys s1 w3))
                | (Inr _, s1, w3) \<Rightarrow>
                    (Inr \<lparr>pl_selector = s1, pl_queue = readiness_queue_new qid (a, w3)\<rparr>, w3))))"

definition validate_args :: "token \<Rightarrow> ready \<Rightarrow> unit io_result" where
  "validate_args tok interest =
     (if tok = AWAKEN then Inl (CustomError Other ''invalid token'')
      else if \<not> ready_is_readable interest \<and> \<not> ready_is_writable interest
      then Inl (CustomError Other ''interest must include readable or writable'')
      else Inr ())"

text \<open>\<open>reg\<close>, \<open>rereg\<close> and \<open>dereg\<close> are the methods of the \<open>Evented\<close> value, acting on a state that contains the poll.\<close>

definition poll_register ::
  "(token \<Rightarrow> ready \<Rightarrow> poll_opt \<Rightarrow> 'st \<Rightarrow> (unit io_result \<times> 'st) option) \<Rightarrow> token \<Rightarrow> ready \<Rightarrow> poll_opt \<Rightarrow> 'st \<Rightarrow>
     (unit io_result \<times> 'st) option" where
  "poll_register reg tok interest opts st =
     (case validate_args tok interest of Inl e \<Rightarrow> Some (Inl e, st) | Inr _ \<Rightarrow> reg tok interest opts st)"

definition poll_reregister ::
  "(token \<Rightarrow> ready \<Rightarrow> poll_opt \<Rightarrow> 'st \<Rightarrow> (unit io_result \<times> 'st) option) \<Rightarrow> token \<Rightarrow> ready \<Rightarrow> poll_opt \<Rightarrow> 'st \<Rightarrow>
     (unit io_result \<times> 'st) option" where
  "poll_reregister rereg tok interest opts st =
     (case validate_args tok interest of Inl e \<Rightarrow> Some (Inl e, st) | Inr _ \<Rightarrow> rereg tok interest opts st)"

definition poll_deregister :: "('st \<Rightarrow> (unit io_result \<times> 'st) option) \<Rightarrow> 'st \<Rightarrow> (unit io_result \<times> 'st) option" where
  "poll_deregister dereg st = dereg st"

text \<open>\<open>Poll::poll\<close> in three parts: choosing the timeout, waiting, and what follows the wait.\<close>

definition poll_timeout :: "'w readiness_queue \<Rightarrow> duration option \<Rightarrow> duration option \<times> 'w readiness_queue" where
  "poll_timeout q timeout =
     (if \<not> queue_is_empty q then (Some (duration_from_millis 0), q)
      else (case prepare_for_sleep q of
              (False, q1) \<Rightarrow> (Some (duration_from_millis 0), q1)
            | (True, q1) \<Rightarrow> (timeout, q1)))"

definition poll_finish ::
  "('s, 'a, 'e, 'o) sys_ops \<Rightarrow> bool io_result \<Rightarrow> ('s, 'a, 'o) poll \<Rightarrow> 'e \<Rightarrow>
     (nat io_result \<times> ('s, 'a, 'o) poll \<times> 'e) option" where
  "poll_finish sys awoken p evts =
     (case awoken of
        Inl e \<Rightarrow> Some (Inl e, p, evts)
      | Inr b \<Rightarrow> do {
          w \<leftarrow> (if b then sys_cleanup sys (awakener (pl_queue p)) else Some (awakener (pl_queue p)));
          (q, evts1) \<leftarrow> queue_poll (sys_push sys) ((pl_queue p)\<lparr>awakener := w\<rparr>) evts;
          Some (Inr (sys_len sys evts1), p\<lparr>pl_queue := q\<rparr>, evts1) })"

definition poll_poll ::
  "('s, 'a, 'e, 'o) sys_ops \<Rightarrow> ('s, 'a, 'o) poll \<Rightarrow> 'e \<Rightarrow> duration option \<Rightarrow>
     (nat io_result \<times> ('s, 'a, 'o) poll \<times> 'e) option" where
  "poll_poll sys p evts timeout =
     (let (timeout1, q1) = poll_timeout (pl_queue p) timeout
      in do {
        (awoken, s1, evts1, w1) \<leftarrow> sys_select sys (pl_selector p) evts AWAKEN timeout1 (awakener q1);
        poll_finish sys awoken (p\<lparr>pl_selector := s1, pl_queue := q1\<lparr>awakener := w1\<rparr>\<rparr>) evts1 })"

definition poll_fmt :: string where "poll_fmt = ''Poll''"

section \<open>\<open>Events\<close>\<close>

definition events_with_capacity :: "('s, 'a, 'e, 'o) sys_ops \<Rightarrow> usize \<Rightarrow> 'e" where
  "events_with_capacity sys capacity = sys_with_capacity sys capacity"

definition events_get :: "('s, 'a, 'e, 'o) sys_ops \<Rightarrow> 'e \<Rightarrow> nat \<Rightarrow> event option" where
  "events_get sys evts idx = sys_get sys evts idx"

definition events_len :: "('s, 'a, 'e, 'o) sys_ops \<Rightarrow> 'e \<Rightarrow> nat" where
  "events_len sys evts = sys_len sys evts"

definition events_is_empty :: "('s, 'a, 'e, 'o) sys_ops \<Rightarrow> 'e \<Rightarrow> bool" where
  "events_is_empty sys evts = sys_is_empty sys evts"

text \<open>An iterator is the events with a position.\<close>

definition events_iter :: "'e \<Rightarrow> 'e \<times> nat" where
  "events_iter evts = (evts, 0)"

definition events_iter_next :: "('s, 'a, 'e, 'o) sys_ops \<Rightarrow> 'e \<times> nat \<Rightarrow> event option \<times> ('e \<times> nat)" where
  "events_iter_next sys it = (events_get sys (fst it) (snd it), (fst it, snd it + 1))"

end
