(* ===== verification/Mio_Sys_Props.thy ===== *)
theory Mio_Sys_Props
  imports Mio_Poll
begin

text \<open>
  What the Unix platform layer promises: the translation between readiness and epoll flags, the event
  buffers of epoll and kqueue, the scan for the awakener's event, the merging of kqueue events per token, the
  timeouts handed to the kernel, the awakener's pipe, and the handling of descriptors on error paths.
\<close>

section \<open>Epoll flags\<close>

lemma flag32_bit:
  "w AND EPOLLIN \<noteq> 0 \<longleftrightarrow> bit w 0" "w AND EPOLLPRI \<noteq> 0 \<longleftrightarrow> bit w 1" "w AND EPOLLOUT \<noteq> 0 \<longleftrightarrow> bit w 2"
  "w AND EPOLLERR \<noteq> 0 \<longleftrightarrow> bit w 3" "w AND EPOLLHUP \<noteq> 0 \<longleftrightarrow> bit w 4" "w AND EPOLLRDHUP \<noteq> 0 \<longleftrightarrow> bit w 13"
proof -
  have *: "w AND 2 ^ n \<noteq> 0 \<longleftrightarrow> bit w n" if "n < 32" for n
    by (simp add: and_exp_eq_0_iff_not_bit)
  show "w AND EPOLLIN \<noteq> 0 \<longleftrightarrow> bit w 0" "w AND EPOLLPRI \<noteq> 0 \<longleftrightarrow> bit w 1" "w AND EPOLLOUT \<noteq> 0 \<longleftrightarrow> bit w 2"
    "w AND EPOLLERR \<noteq> 0 \<longleftrightarrow> bit w 3" "w AND EPOLLHUP \<noteq> 0 \<longleftrightarrow> bit w 4" "w AND EPOLLRDHUP \<noteq> 0 \<longleftrightarrow> bit w 13"
    using * [of 0] * [of 1] * [of 2] * [of 3] * [of 4] * [of 13] by (simp_all add: flag_defs)
qed

lemma ioevent_bits:
  "bit (ioevent_to_epoll r p) 0 \<longleftrightarrow> ready_is_readable r \<and> \<not> pollopt_is_urgent p"
  "bit (ioevent_to_epoll r p) 1 \<longleftrightarrow> ready_is_readable r \<and> pollopt_is_urgent p"
  "bit (ioevent_to_epoll r p) 2 \<longleftrightarrow> ready_is_writable r"
  "\<not> bit (ioevent_to_epoll r p) 3" "\<not> bit (ioevent_to_epoll r p) 4"
  "bit (ioevent_to_epoll r p) 13 \<longleftrightarrow> ready_is_hup r"
  "bit (ioevent_to_epoll r p) 30 \<longleftrightarrow> pollopt_is_oneshot p"
  "bit (ioevent_to_epoll r p) 31 \<longleftrightarrow> pollopt_is_edge p \<and> \<not> pollopt_is_level p"
  by (simp_all add: ioevent_to_epoll_def flag_defs bit_simps Let_def)

lemma ready_bits_flags:
  "flags_of (ready_bits ready_none) = {}" "flags_of (ready_bits ready_readable) = {0}"
  "flags_of (ready_bits ready_writable) = {1}" "flags_of (ready_bits ready_error) = {2}"
  "flags_of (ready_bits ready_hup) = {3}" "flags_of (ready_bits ready_drop) = {4}"
  by (simp_all add: ready_none_def ready_readable_def ready_writable_def ready_error_def ready_hup_def
      ready_drop_def flags_of_numerals flags_of_ops)

lemma epoll_event_flags:
  "flags_of (ready_bits (ev_kind (epoll_to_event e))) =
     (if bit (epe_events e) 0 \<or> bit (epe_events e) 1 then {0} else {}) \<union>
     (if bit (epe_events e) 2 then {1} else {}) \<union> (if bit (epe_events e) 3 then {2} else {}) \<union>
     (if bit (epe_events e) 13 \<or> bit (epe_events e) 4 then {3} else {})"
  unfolding epoll_to_event_def Let_def flag32_bit event_new_def
  by (auto simp: rd.flags_bor ready_bits_flags)

text \<open>What survives when an event is pushed and read back: the error and drop flags are lost.\<close>

definition epoll_visible :: "event \<Rightarrow> event" where
  "epoll_visible e = event_new (ready_bitand (ev_kind e) (ready_sub ready_all ready_error)) (ev_token e)"

lemma pollopt_empty_urgent [simp]: "\<not> pollopt_is_urgent pollopt_empty"
  by (simp add: pollopt_pred_bits pollopt_empty_def)

lemma push_visible:
  "epoll_to_event \<lparr>epe_events = ioevent_to_epoll (ev_kind e) pollopt_empty, epe_u64 = usize_from_token (ev_token e)\<rparr> =
     epoll_visible e" (is "epoll_to_event ?e = _")
proof (rule event.equality)
  have "flags_of (ready_bits (ev_kind (epoll_to_event ?e))) = flags_of (ready_bits (ev_kind (epoll_visible e)))"
    unfolding epoll_event_flags
    by (auto simp: ioevent_bits ioevent_bits(2) [unfolded One_nat_def] ready_pred_bits epoll_visible_def event_new_def rd.flags_band rd.flags_bsub
        flags_ready_all ready_bits_flags) (auto simp: flags_of_def split: if_splits)
  then show "ev_kind (epoll_to_event ?e) = ev_kind (epoll_visible e)" by (simp add: rd.eq_iff)
qed (simp_all add: epoll_to_event_def epoll_visible_def event_new_def Let_def usize_from_token_def)

section \<open>Event buffers\<close>

text \<open>What \<open>Poll\<close> relies on in a platform's event buffer: a sequence to which events are appended, of which
  \<open>norm\<close> is what can be read back.\<close>

locale event_buffer =
  fixes push :: "'e \<Rightarrow> event \<Rightarrow> 'e" and len :: "'e \<Rightarrow> nat" and get :: "'e \<Rightarrow> nat \<Rightarrow> event option"
    and norm :: "event \<Rightarrow> event"
  assumes get_none: "get e i = None \<longleftrightarrow> len e \<le> i"
    and len_push: "len (push e x) = Suc (len e)"
    and get_push: "get (push e x) i = (if i = len e then Some (norm x) else get e i)"
begin

definition contents :: "'e \<Rightarrow> event list" where
  "contents e = map (\<lambda>i. the (get e i)) [0..<len e]"

lemma length_contents [simp]: "length (contents e) = len e"
  by (simp add: contents_def)

lemma contents_push: "contents (push e x) = contents e @ [norm x]"
  by (auto simp: contents_def len_push get_push intro!: map_cong)

lemma contents_foldl: "contents (foldl push e xs) = contents e @ map norm xs"
  by (induction xs arbitrary: e) (simp_all add: contents_push)

lemma get_contents: "get e i = (if i < len e then Some (contents e ! i) else None)"
  using get_none [of e i] by (auto simp: contents_def not_less)

lemma len_foldl: "len (foldl push e xs) = len e + length xs"
  by (induction xs arbitrary: e) (simp_all add: len_push)

end

interpretation epe: event_buffer epoll_events_push epoll_events_len epoll_events_get epoll_visible
  by unfold_locales (auto simp: epoll_events_get_def epoll_events_len_def epoll_events_push_def nth_append push_visible)

interpretation kqe: event_buffer kqueue_events_push kqueue_events_len kqueue_events_get "\<lambda>e. e"
  by unfold_locales (auto simp: kqueue_events_get_def kqueue_events_len_def kqueue_events_push_def nth_append)

text \<open>C21.  An event that is neither an error nor internal comes back from the epoll buffer as it was pushed, at
  the end; what was there before stays.  The error flag does not survive.\<close>

theorem epoll_push_get:
  "epoll_events_get (epoll_events_push evs e) (epoll_events_len evs) =
     Some (if flags_of (ready_bits (ev_kind e)) \<subseteq> {0, 1, 3} then e else epoll_visible e) \<and>
   \<not> ready_is_error (ev_kind (epoll_visible e)) \<and>
   (i < epoll_events_len evs \<longrightarrow> epoll_events_get (epoll_events_push evs e) i = epoll_events_get evs i)"
proof -
  have "epoll_visible e = e" if "flags_of (ready_bits (ev_kind e)) \<subseteq> {0, 1, 3}"
  proof (rule event.equality)
    have "flags_of (ready_bits (ev_kind (epoll_visible e))) = flags_of (ready_bits (ev_kind e))"
      using that by (auto simp: epoll_visible_def event_new_def rd.flags_band rd.flags_bsub flags_ready_all ready_bits_flags)
    then show "ev_kind (epoll_visible e) = ev_kind e" by (simp add: rd.eq_iff)
  qed (simp_all add: epoll_visible_def event_new_def)
  moreover have "\<not> ready_is_error (ev_kind (epoll_visible e))"
    by (simp add: ready_is_error_def rd.flags_contains epoll_visible_def event_new_def rd.flags_band rd.flags_bsub
        flags_ready_all ready_bits_flags)
  ultimately show ?thesis by (simp add: epe.get_push)
qed

theorem epoll_push_get_witness:
  "0 < epoll_events_len \<lparr>evs_list = [\<lparr>epe_events = 1, epe_u64 = 3\<rparr>], evs_cap = 4\<rparr> \<and>
   epoll_events_get (epoll_events_push \<lparr>evs_list = [\<lparr>epe_events = 1, epe_u64 = 3\<rparr>], evs_cap = 4\<rparr>
       (event_new ready_error (Token 9))) 0 = Some (event_new ready_readable (Token 3))"
proof -
  have "0 < epoll_events_len \<lparr>evs_list = [\<lparr>epe_events = 1, epe_u64 = 3\<rparr>], evs_cap = 4\<rparr>"
    by (simp add: epoll_events_len_def)
  moreover have "epoll_events_get \<lparr>evs_list = [\<lparr>epe_events = 1, epe_u64 = 3\<rparr>], evs_cap = 4\<rparr> 0 =
      Some (event_new ready_readable (Token 3))"
    by code_simp
  ultimately show ?thesis
    using epoll_push_get [of "\<lparr>evs_list = [\<lparr>epe_events = 1, epe_u64 = 3\<rparr>], evs_cap = 4\<rparr>" "event_new ready_error (Token 9)" 0]
    by simp
qed

section \<open>Waiting with epoll\<close>

lemma take_awakener_eq:
  "take_awakener aw es = (usize_from_token aw \<in> epe_u64 ` set es,
     takeWhile (\<lambda>e. epe_u64 e \<noteq> usize_from_token aw) es @ tl (dropWhile (\<lambda>e. epe_u64 e \<noteq> usize_from_token aw) es))"
  by (induction es) auto

lemma take_awakener_filter:
  "length (filter (\<lambda>e. Token (epe_u64 e) = aw) es) \<le> 1 \<Longrightarrow>
    take_awakener aw es = (\<exists>e \<in> set es. Token (epe_u64 e) = aw, filter (\<lambda>e. Token (epe_u64 e) \<noteq> aw) es)"
proof (induction es)
  case (Cons e es)
  have tok: "Token (epe_u64 e) = aw \<longleftrightarrow> epe_u64 e = usize_from_token aw" for e
    by (cases aw) (simp add: usize_from_token_def)
  show ?case
  proof (cases "Token (epe_u64 e) = aw")
    case True
    then have "filter (\<lambda>e. Token (epe_u64 e) \<noteq> aw) es = es"
      using Cons.prems by (auto simp: filter_empty_conv intro!: filter_True)
    then show ?thesis using True by (auto simp: tok)
  next
    case False
    then show ?thesis using Cons by (auto simp: tok)
  qed
qed simp

text \<open>When the kernel reports events, \<open>select\<close> says whether the awakener was among them and leaves exactly
  the other events in the buffer, in order, if the awakener is reported at most once; stale contents of the
  buffer are gone.  When the kernel fails, the buffer is empty and the error is returned.\<close>

lemma epoll_select_filters:
  assumes "es_wait ep (ep_fd s) (of_nat (evs_cap evts)) (timeout_ms timeout) w = ((n, events), w1)"
    and "length (filter (\<lambda>e. Token (epe_u64 e) = aw) (take (nat n) events)) \<le> 1"
  shows "epoll_select os ep s evts aw timeout w =
    (if n = - 1 then (Inl (OsError (os_errno os w1)), evts\<lparr>evs_list := []\<rparr>, w1)
     else (Inr (\<exists>e \<in> set (take (nat n) events). Token (epe_u64 e) = aw),
           evts\<lparr>evs_list := filter (\<lambda>e. Token (epe_u64 e) \<noteq> aw) (take (nat n) events)\<rparr>, w1))"
  using assms take_awakener_filter [OF assms(2)] by (auto simp: epoll_select_def cvt_def is_minus_one_def Let_def)

text \<open>A small operating system for the witnesses: its state is the number of bytes in the one pipe.\<close>

definition sample_os :: "nat unix_sys" where
  "sample_os = \<lparr>os_errno = (\<lambda>_. EAGAIN), os_close = (\<lambda>_ w. w), os_fionbio = (\<lambda>_ w. (0, w)), os_fioclex = (\<lambda>_ w. (0, w)),
     os_setfl = (\<lambda>_ _ w. (0, w)), os_dup = (\<lambda>_ w. (9, w)), os_pipe2 = None, os_pipe = (\<lambda>w. ((0, 4, 5), w)),
     os_read = (\<lambda>_ n w. if w = 0 then ((- 1, []), w) else ((int (min n w), replicate (min n w) 1), w - min n w)),
     os_write = (\<lambda>_ src w. (int (length src), w + length src)),
     os_socket = (\<lambda>_ _ _ w. (6, w)), os_connect = (\<lambda>_ _ _ w. (0, w)), os_bind = (\<lambda>_ _ _ w. (0, w)), os_listen = (\<lambda>_ _ w. (0, w)),
     os_accept = (\<lambda>_ w. (7, w)), os_shutdown = (\<lambda>_ _ w. (0, w)),
     os_recvmsg = (\<lambda>_ _ w. ((0, [], \<lparr>cmsg_level = 0, cmsg_type = 0, cmsg_data = 0\<rparr>), w)), os_sendmsg = (\<lambda>_ src _ w. (int (length src), w))\<rparr>"

definition quiet_epoll :: "nat epoll_sys" where
  "quiet_epoll = \<lparr>es_create1 = None, es_create = (\<lambda>_ w. (3, w)),
     es_wait = (\<lambda>_ _ _ w. ((2, [\<lparr>epe_events = 1, epe_u64 = - 1\<rparr>, \<lparr>epe_events = 4, epe_u64 = 8\<rparr>]), w)),
     es_ctl = (\<lambda>_ _ _ _ w. (0, w))\<rparr>"

text \<open>C22.  The timeout handed to \<open>epoll_wait\<close>: no limit becomes \<open>-1\<close>; a limit becomes a nonnegative number of
  milliseconds that is not shorter than the limit, or the largest one.\<close>

theorem timeout_ms_bounds:
  assumes "\<And>d. timeout = Some d \<Longrightarrow> duration_ok d"
  shows "case timeout of
      None \<Rightarrow> sint (timeout_ms timeout) = - 1
    | Some d \<Rightarrow> 0 \<le> sint (timeout_ms timeout) \<and>
        (duration_nanos d \<le> nat (sint (timeout_ms timeout)) * 1000000 \<or> sint (timeout_ms timeout) = 2 ^ 31 - 1) \<and>
        nat (sint (timeout_ms timeout)) * 1000000 < duration_nanos d + 1000000"
proof (cases timeout)
  case (Some d)
  have ok: "duration_ok d" using assms Some by simp
  let ?ms = "(duration_nanos d + 999999) div 1000000"
  have "unat (min (millis d) I32_MAX) = min ?ms (2 ^ 31 - 1)"
    by (auto simp: min_def word_le_nat_alt unat_millis [OF ok] I32_MAX_def)
  moreover have "unat (timeout_ms timeout) = unat (min (millis d) I32_MAX)"
    using calculation by (simp add: Some timeout_ms_def unsigned_ucast_eq take_bit_eq_mod)
  ultimately have u: "unat (timeout_ms timeout) = min ?ms (2 ^ 31 - 1)" by simp
  have ui: "uint (timeout_ms timeout) = int (unat (timeout_ms timeout))" by simp
  have lt: "int (min ?ms (2 ^ 31 - 1)) < 2 ^ 31" by simp
  have "sint (timeout_ms timeout) = signed_take_bit 31 (uint (timeout_ms timeout))" by (simp add: sint_uint)
  also have "\<dots> = int (min ?ms (2 ^ 31 - 1))"
    unfolding ui u using lt by (intro signed_take_bit_int_eq_self) simp_all
  finally have "sint (timeout_ms timeout) = int (min ?ms (2 ^ 31 - 1))" .
  moreover have "duration_nanos d \<le> ?ms * 1000000" "?ms * 1000000 < duration_nanos d + 1000000" by simp_all
  ultimately show ?thesis using Some by (auto simp: min_def)
qed (simp add: timeout_ms_def)

theorem timeout_ms_bounds_witness:
  "duration_ok \<lparr>dur_secs = 0, dur_nanos = 7000000\<rparr> \<and> duration_nanos \<lparr>dur_secs = 0, dur_nanos = 7000000\<rparr> = 7000000 \<and>
   0 \<le> sint (timeout_ms (Some \<lparr>dur_secs = 0, dur_nanos = 7000000\<rparr>))"
proof -
  have "duration_ok \<lparr>dur_secs = 0, dur_nanos = 7000000\<rparr>" "duration_nanos \<lparr>dur_secs = 0, dur_nanos = 7000000\<rparr> = 7000000"
    by (simp_all add: duration_ok_def duration_nanos_def)
  then show ?thesis using timeout_ms_bounds [of "Some \<lparr>dur_secs = 0, dur_nanos = 7000000\<rparr>"] by simp
qed

section \<open>Merging kqueue events\<close>

text \<open>The readiness one kernel event stands for, and the reference for \<open>coalesce\<close>: one event per token in the order
  in which the tokens first appear, with the union of their readiness; the awakener's token is left out.\<close>

definition kevent_kind :: "kevent \<Rightarrow> ready" where
  "kevent_kind e =
     ready_bitor (if ke_filter e = EVFILT_READ then ready_readable
                  else if ke_filter e = EVFILT_WRITE then ready_writable else ready_none)
       (ready_bitor (if ke_flags e AND EV_EOF \<noteq> 0 then ready_hup else ready_none)
          (if ke_flags e AND EV_ERROR \<noteq> 0 \<or> ke_flags e AND EV_EOF \<noteq> 0 \<and> ke_fflags e \<noteq> 0 then ready_error else ready_none))"

definition kevent_token :: "kevent \<Rightarrow> token" where
  "kevent_token e = Token (ke_udata e)"

definition tokens_of :: "token \<Rightarrow> kevent list \<Rightarrow> token list" where
  "tokens_of aw es = rev (remdups (rev (filter (\<lambda>t. t \<noteq> aw) (map kevent_token es))))"

definition merged_kind :: "kevent list \<Rightarrow> token \<Rightarrow> ready" where
  "merged_kind es t = foldl ready_insert ready_none (map kevent_kind (filter (\<lambda>e. kevent_token e = t) es))"

definition merged :: "token \<Rightarrow> kevent list \<Rightarrow> event list" where
  "merged aw es = map (\<lambda>t. event_new (merged_kind es t) t) (tokens_of aw es)"

definition index_map :: "'a list \<Rightarrow> 'a \<rightharpoonup> nat" where
  "index_map ts = (\<lambda>t. find (\<lambda>i. ts ! i = t) [0..<length ts])"

lemma index_map_Some:
  "index_map ts t = Some i \<Longrightarrow> i < length ts \<and> ts ! i = t"
  by (auto simp: index_map_def find_Some_iff)

lemma index_map_None: "index_map ts t = None \<longleftrightarrow> t \<notin> set ts"
  by (auto simp: index_map_def find_None_iff in_set_conv_nth)

lemma find_append: "find P (xs @ ys) = (case find P xs of None \<Rightarrow> find P ys | Some x \<Rightarrow> Some x)"
  by (induction xs) auto

lemma index_map_snoc:
  "t \<notin> set ts \<Longrightarrow> index_map (ts @ [t]) = (index_map ts)(t \<mapsto> length ts)"
proof
  fix u assume t: "t \<notin> set ts"
  have "find (\<lambda>i. (ts @ [t]) ! i = u) [0..<length ts] = find (\<lambda>i. ts ! i = u) [0..<length ts]"
    by (rule find_cong) (auto simp: nth_append)
  then show "index_map (ts @ [t]) u = ((index_map ts)(t \<mapsto> length ts)) u"
    using index_map_None [of ts t] t
    by (auto simp: index_map_def find_append split: option.split)
qed

lemma tokens_of_snoc:
  "tokens_of aw (es @ [e]) =
     (if kevent_token e = aw \<or> kevent_token e \<in> set (tokens_of aw es) then tokens_of aw es
      else tokens_of aw es @ [kevent_token e])"
  by (auto simp: tokens_of_def)

lemma merged_kind_snoc:
  "merged_kind (es @ [e]) t =
     (if kevent_token e = t then ready_insert (merged_kind es t) (kevent_kind e) else merged_kind es t)"
  by (simp add: merged_kind_def)

lemma distinct_tokens_of [simp]: "distinct (tokens_of aw es)"
  by (simp add: tokens_of_def)

definition with_kind :: "event list \<Rightarrow> nat \<Rightarrow> ready \<Rightarrow> event list" where
  "with_kind evs i r = evs[i := event_kind_mut (\<lambda>k. ready_insert k r) (evs ! i)]"

lemma ready_insert_algebra:
  "ready_insert (ready_insert k a) b = ready_insert k (ready_bitor a b)" "ready_insert k ready_none = k"
  "ready_bitor a (ready_bitor b c) = ready_bitor (ready_bitor a b) c" "ready_bitor a b = ready_bitor b a"
  "ready_bitor a ready_none = a" "ready_bitor ready_none a = a" "ready_bitor a a = a"
  by (auto simp: rd.eq_iff rd.flags_simps)

lemma length_with_kind [simp]: "length (with_kind evs i r) = length evs"
  by (simp add: with_kind_def)

lemma insert_kind_eq: "i < length evs \<Longrightarrow> insert_kind evs i r = Some (with_kind evs i r)"
  by (simp add: insert_kind_def with_kind_def)

lemma with_kind_twice: "i < length evs \<Longrightarrow> with_kind (with_kind evs i a) i b = with_kind evs i (ready_bitor a b)"
  by (simp add: with_kind_def event_kind_mut_def ready_insert_algebra(1))

lemma with_kind_none: "with_kind evs i ready_none = evs"
  by (simp add: with_kind_def event_kind_mut_def ready_insert_algebra(2))

lemma coalesce_one_eq:
  assumes "kevent_token e \<noteq> aw" and idx: "idx = (case m (kevent_token e) of Some i \<Rightarrow> i | None \<Rightarrow> length evs)" "idx \<le> length evs"
    and evs1: "evs1 = (if idx = length evs then evs @ [event_new ready_none (kevent_token e)] else evs)"
  shows "coalesce_one aw e (ret, evs, m) = Some (ret, with_kind evs1 idx (kevent_kind e), m(kevent_token e \<mapsto> idx))"
proof -
  have i: "idx < length evs1" using idx(2) evs1 by auto
  have body: "do {
      evs2 \<leftarrow> (if ke_flags e AND EV_ERROR \<noteq> 0 then insert_kind evs1 idx ready_error else Some evs1);
      evs3 \<leftarrow> (if ke_filter e = EVFILT_READ then insert_kind evs2 idx ready_readable
               else if ke_filter e = EVFILT_WRITE then insert_kind evs2 idx ready_writable else Some evs2);
      evs4 \<leftarrow> (if ke_flags e AND EV_EOF \<noteq> 0
               then do {
                 x \<leftarrow> insert_kind evs3 idx ready_hup;
                 (if ke_fflags e \<noteq> 0 then insert_kind x idx ready_error else Some x) }
               else Some evs3);
      Some (ret, evs4, m(kevent_token e \<mapsto> idx)) } =
    Some (ret, with_kind evs1 idx (kevent_kind e), m(kevent_token e \<mapsto> idx))"
    using i
    by (auto simp: insert_kind_eq with_kind_twice with_kind_none kevent_kind_def rd.eq_iff rd.flags_simps
        intro!: arg_cong [where f = "with_kind evs1 idx"])
      (simp_all add: ready_insert_algebra(5,6) with_kind_none)
  show ?thesis
    using assms(1) body
    unfolding coalesce_one_def Let_def prod.case kevent_token_def [symmetric] idx(1) [symmetric] evs1 [symmetric]
    by simp
qed

lemma coalesce_loop_snoc:
  "coalesce_loop aw (es @ [e]) st = Option.bind (coalesce_loop aw es st) (coalesce_one aw e)"
  by (induction es arbitrary: st) (auto simp: bind_assoc split: bind_split)

lemma merged_snoc_old:
  assumes i: "i < length (tokens_of aw es)" "tokens_of aw es ! i = kevent_token e"
  shows "with_kind (merged aw es) i (kevent_kind e) = map (\<lambda>t. event_new (merged_kind (es @ [e]) t) t) (tokens_of aw es)"
proof (rule nth_equalityI)
  fix j assume "j < length (with_kind (merged aw es) i (kevent_kind e))"
  then have j: "j < length (tokens_of aw es)" by (simp add: merged_def)
  have "tokens_of aw es ! j = kevent_token e \<longleftrightarrow> j = i"
    using i j nth_eq_iff_index_eq [OF distinct_tokens_of] by metis
  then show "with_kind (merged aw es) i (kevent_kind e) ! j =
      map (\<lambda>t. event_new (merged_kind (es @ [e]) t) t) (tokens_of aw es) ! j"
    using i j by (auto simp: with_kind_def merged_def merged_kind_snoc event_kind_mut_def event_new_def nth_list_update)
qed (simp add: merged_def)

lemma merged_kind_fresh: "t \<notin> set (tokens_of aw es) \<Longrightarrow> t \<noteq> aw \<Longrightarrow> merged_kind es t = ready_none"
proof -
  assume "t \<notin> set (tokens_of aw es)" "t \<noteq> aw"
  then have "filter (\<lambda>e. kevent_token e = t) es = []" by (auto simp: tokens_of_def filter_empty_conv)
  then show "merged_kind es t = ready_none" by (simp add: merged_kind_def)
qed

lemma merged_snoc_new:
  assumes t: "kevent_token e \<notin> set (tokens_of aw es)" "kevent_token e \<noteq> aw"
  shows "with_kind (merged aw es @ [event_new ready_none (kevent_token e)]) (length (merged aw es)) (kevent_kind e) =
    merged aw (es @ [e])"
proof -
  have "map (\<lambda>u. event_new (merged_kind (es @ [e]) u) u) (tokens_of aw es) = merged aw es"
    using t(1) by (auto simp: merged_def merged_kind_snoc)
  moreover have "merged aw (es @ [e]) = map (\<lambda>u. event_new (merged_kind (es @ [e]) u) u) (tokens_of aw es @ [kevent_token e])"
    using t by (simp add: merged_def tokens_of_snoc)
  ultimately have "merged aw (es @ [e]) = merged aw es @ [event_new (ready_insert ready_none (kevent_kind e)) (kevent_token e)]"
    using merged_kind_fresh [OF t] by (simp add: merged_kind_snoc)
  moreover have "with_kind (xs @ [x]) (length xs) r = xs @ [event_kind_mut (\<lambda>k. ready_insert k r) x]" for xs x r
    by (simp add: with_kind_def)
  ultimately show ?thesis by (simp add: event_kind_mut_def event_new_def)
qed

lemma coalesce_loop_merged:
  "coalesce_loop aw es (False, [], Map.empty) =
     Some (aw \<in> kevent_token ` set es, merged aw es, index_map (tokens_of aw es))"
proof (induction es rule: rev_induct)
  case Nil
  then show ?case by (simp add: merged_def tokens_of_def index_map_def)
next
  case (snoc e es)
  let ?t = "kevent_token e" and ?ts = "tokens_of aw es"
  have len: "length (merged aw es) = length ?ts" by (simp add: merged_def)
  consider "?t = aw" | i where "?t \<noteq> aw" "index_map ?ts ?t = Some i" | "?t \<noteq> aw" "index_map ?ts ?t = None"
    by (cases "index_map ?ts ?t") auto
  then show ?case
  proof cases
    case 1
    then have "merged aw (es @ [e]) = merged aw es"
      by (auto simp: merged_def tokens_of_snoc merged_kind_snoc tokens_of_def)
    then show ?thesis
      using snoc 1 by (simp add: coalesce_loop_snoc coalesce_one_def kevent_token_def [symmetric] tokens_of_snoc)
  next
    case 2
    note i = index_map_Some [OF 2(2)]
    have old: "?t \<in> set ?ts" using i nth_mem by metis
    then have "with_kind (merged aw es) i (kevent_kind e) = merged aw (es @ [e])"
      using merged_snoc_old [of i aw es e] i 2(1) by (simp add: merged_def tokens_of_snoc)
    moreover have "(index_map ?ts)(?t \<mapsto> i) = index_map (tokens_of aw (es @ [e]))"
      using 2 old by (auto simp: tokens_of_snoc)
    ultimately show ?thesis
      using snoc 2 i len
      by (simp add: coalesce_loop_snoc coalesce_one_eq [OF 2(1), where idx = i and m = "index_map ?ts" and evs = "merged aw es"])
  next
    case 3
    have new: "?t \<notin> set ?ts" using 3(2) index_map_None by metis
    have "index_map (tokens_of aw (es @ [e])) = (index_map ?ts)(?t \<mapsto> length ?ts)"
      using 3(1) new by (simp add: tokens_of_snoc index_map_snoc)
    then show ?thesis
      using snoc 3 len merged_snoc_new [OF new 3(1)]
      by (simp add: coalesce_loop_snoc coalesce_one_eq [OF 3(1), where idx = "length ?ts" and m = "index_map ?ts" and evs = "merged aw es"] fun_upd_def)
  qed
qed

text \<open>C20.  \<open>coalesce\<close> is the reference: it never indexes out of range, reports whether the awakener was among the
  kernel's events, and leaves one event per other token, in the order of first appearance, that carries the
  union of the readiness of the token's kernel events.\<close>

theorem coalesce_merges:
  "coalesce aw evs =
     Some (aw \<in> kevent_token ` set (kes_sys_events evs),
       evs\<lparr>kes_events := merged aw (kes_sys_events evs), kes_map := index_map (tokens_of aw (kes_sys_events evs))\<rparr>) \<and>
   distinct (map ev_token (merged aw (kes_sys_events evs)))"
  by (simp add: coalesce_def coalesce_loop_merged merged_def event_new_def comp_def)

section \<open>The change list of kqueue\<close>

text \<open>What \<open>kevent\<close> does with a change list when there is no room for events: the changes are applied in order
  and the call fails at the first bad one; \<open>bad\<close> are the changes the kernel refuses.\<close>

definition submit_stops :: "'o unix_sys \<Rightarrow> 'o kqueue_sys \<Rightarrow> (kevent \<Rightarrow> bool) \<Rightarrow> bool" where
  "submit_stops os ks bad \<longleftrightarrow>
     (\<forall>kq changes w. (fst (ks_submit ks kq changes w) = - 1) \<longleftrightarrow> (\<exists>c \<in> set changes. bad c))"


definition strict_kqueue :: "nat kqueue_sys" where
  "strict_kqueue = \<lparr>ks_kqueue = (\<lambda>w. (3, w)),
     ks_submit = (\<lambda>_ cs w. (if \<exists>c \<in> set cs. ke_ident c < 0 then - 1 else 0, w)), ks_wait = (\<lambda>_ _ _ w. ((0, []), w))\<rparr>"


section \<open>The awakener\<close>

lemma modify_frame:
  "ready_ref_modify f p q = Some q' \<Longrightarrow> awakener q' = awakener q \<and> head_readiness q' = head_readiness q"
  by (auto simp: ready_ref_modify_def split: node_ptr.splits)

text \<open>What the poller relies on: a wakeup succeeds and leaves the awakener signalled, and \<open>cleanup\<close> returns and
  clears the signal.\<close>

locale wakeup_signal =
  fixes wake :: "'w \<Rightarrow> unit io_result \<times> 'w" and cleanup :: "'w \<Rightarrow> 'w option"
    and signalled :: "'w \<Rightarrow> bool" and valid :: "'w \<Rightarrow> bool"
  assumes wake_signals: "valid w \<Longrightarrow> \<exists>w'. wake w = (Inr (), w') \<and> valid w' \<and> signalled w'"
    and cleanup_clears: "valid w \<Longrightarrow> \<exists>w'. cleanup w = Some w' \<and> valid w' \<and> \<not> signalled w'"
begin

text \<open>The invariant of a queue whose poller may be asleep: it is asleep and nothing is queued, or it has been signalled.\<close>

definition woken_ok :: "'w readiness_queue \<Rightarrow> bool" where
  "woken_ok q \<longleftrightarrow> valid (awakener q) \<and> (head_readiness q = SleepToken \<or> signalled (awakener q))"

lemma set_readiness_woken:
  assumes "inner_set_readiness wake q h r = Some (res, q')" and ok: "woken_ok q"
  shows "woken_ok q'"
proof -
  obtain w' where w': "wake (awakener q) = (Inr (), w')" "valid w'" "signalled w'"
    using wake_signals ok by (auto simp: woken_ok_def)
  obtain q1 where q1: "awakener q1 = awakener q" "head_readiness q1 = head_readiness q"
    and body: "(if event_is_empty r then Some (Inr (), q1)
      else do { (needs_wakeup, q2) \<leftarrow> queue_for_processing q1 h;
        if needs_wakeup then Some (queue_wakeup wake q2) else Some (Inr (), q2) }) = Some (res, q')"
    using assms(1) by (auto simp: inner_set_readiness_def bind_eq_Some_conv dest!: modify_frame)
  show ?thesis
  proof (cases "event_is_empty r")
    case True
    then show ?thesis using body ok q1 by (auto simp: woken_ok_def)
  next
    case False
    then obtain nw q2 where q2: "queue_for_processing q1 h = Some (nw, q2)"
      "(if nw then Some (queue_wakeup wake q2) else Some (Inr (), q2)) = Some (res, q')"
      using body by (auto simp: bind_eq_Some_conv)
    have "awakener q2 = awakener q \<and> (nw \<or> head_readiness q2 = head_readiness q \<or> head_readiness q \<noteq> SleepToken)"
      using q2(1) q1
      by (auto simp: queue_for_processing_def prepend_readiness_node_def Let_def bind_eq_Some_conv
          split: if_splits dest!: modify_frame)
    then show ?thesis
      using q2(2) ok w' by (auto simp: woken_ok_def queue_wakeup_def split: if_splits)
  qed
qed

lemma drop_woken:
  assumes "inner_drop wake q h = Some q'" and "woken_ok q"
  shows "woken_ok q'"
proof -
  obtain q1 where "awakener q1 = awakener q" "head_readiness q1 = head_readiness q"
    and "q' = q1 \<or> (\<exists>res. inner_set_readiness wake q1 h ready_drop = Some (res, q'))"
    using assms(1) by (auto simp: inner_drop_def Let_def bind_eq_Some_conv split: if_splits dest!: modify_frame)
  then show ?thesis using assms(2) set_readiness_woken [of q1 h ready_drop] by (auto simp: woken_ok_def)
qed

lemma registration_drop_woken:
  assumes "registration_drop wake q h = Some q'" and "woken_ok q"
  shows "woken_ok q'"
  using assms drop_woken by (fastforce simp: registration_drop_def bind_eq_Some_conv woken_ok_def dest!: modify_frame)

lemma clone_woken:
  assumes "inner_clone q h = Some (h', q')" and "woken_ok q"
  shows "woken_ok q'"
  using assms by (auto simp: inner_clone_def Let_def bind_eq_Some_conv woken_ok_def split: if_splits dest!: modify_frame)

end

text \<open>The documented behaviour of a nonblocking pipe, as far as the awakener uses it: \<open>len\<close> is the number of bytes
  in it.  Writing a byte adds it, or fails with \<open>EAGAIN\<close> when the pipe is full; reading takes up to 128 bytes, or
  fails when it is empty.\<close>

definition pipe_laws :: "'o unix_sys \<Rightarrow> awakener \<Rightarrow> ('o \<Rightarrow> nat) \<Rightarrow> ('o \<Rightarrow> bool) \<Rightarrow> bool" where
  "pipe_laws os a len good \<longleftrightarrow>
     (\<forall>w. good w \<longrightarrow>
        (case os_write os (aw_writer a) [1] w of (r, w1) \<Rightarrow> good w1 \<and>
           (r = 1 \<and> len w1 = len w + 1 \<or> r = - 1 \<and> os_errno os w1 = EAGAIN \<and> 0 < len w \<and> len w1 = len w)) \<and>
        (case os_read os (aw_reader a) 128 w of ((r, bytes), w1) \<Rightarrow> good w1 \<and>
           (if len w = 0 then r = - 1 \<and> len w1 = 0
            else 0 < r \<and> r = int (length bytes) \<and> len w1 + length bytes = len w)))"

lemma pipe_wakeup:
  assumes "pipe_laws os a len good" and "good w"
  shows "\<exists>w'. awakener_wakeup os (a, w) = (Inr (), a, w') \<and> good w' \<and> 0 < len w'"
proof -
  obtain r w1 where wr: "os_write os (aw_writer a) [1] w = (r, w1)" by (metis prod.exhaust)
  have "good w1 \<and> (r = 1 \<and> len w1 = len w + 1 \<or> r = - 1 \<and> os_errno os w1 = EAGAIN \<and> 0 < len w \<and> len w1 = len w)"
    using assms(1) [unfolded pipe_laws_def, rule_format, OF assms(2), THEN conjunct1] by (simp add: wr)
  then show ?thesis
    using wr by (auto simp: awakener_wakeup_def io_write_def cvt_def is_minus_one_def)
qed

lemma cleanup_loop_drains:
  assumes laws: "pipe_laws os a len good" and "good w"
  shows "\<exists>w'. cleanup_loop os (aw_reader a) w = Some w' \<and> good w' \<and> len w' = 0"
  using assms(2)
proof (induction "len w" arbitrary: w rule: less_induct)
  case less
  obtain r bytes w1 where rd: "os_read os (aw_reader a) 128 w = ((r, bytes), w1)" by (metis prod.exhaust)
  have g: "good w1" and c: "if len w = 0 then r = - 1 \<and> len w1 = 0
      else 0 < r \<and> r = int (length bytes) \<and> len w1 + length bytes = len w"
    using laws [unfolded pipe_laws_def, rule_format, OF less.prems, THEN conjunct2] unfolding rd prod.case by blast+
  show ?case
  proof (cases "len w = 0")
    case True
    then show ?thesis using c g rd by (subst cleanup_loop.simps) (simp add: io_read_def)
  next
    case False
    then have "len w1 < len w" "bytes \<noteq> []" using c by auto
    then obtain w' where "cleanup_loop os (aw_reader a) w1 = Some w'" "good w'" "len w' = 0"
      using less.hyps g by blast
    then show ?thesis
      using False c rd \<open>bytes \<noteq> []\<close> by (subst cleanup_loop.simps) (auto simp: io_read_def)
  qed
qed

interpretation upw: wakeup_signal "awakener_wakeup os" "awakener_cleanup os" "\<lambda>(a, w). 0 < len w"
    "\<lambda>(a, w). pipe_laws os a len good \<and> good w"
  for os len good
proof unfold_locales
  fix w assume "case w of (a, w) \<Rightarrow> pipe_laws os a len good \<and> good w"
  then obtain a w0 where w: "w = (a, w0)" "pipe_laws os a len good" "good w0" by (cases w) auto
  show "\<exists>w'. awakener_wakeup os w = (Inr (), w') \<and> (case w' of (a, w) \<Rightarrow> pipe_laws os a len good \<and> good w) \<and>
      (case w' of (a, w) \<Rightarrow> 0 < len w)"
    using pipe_wakeup [OF w(2,3)] w by auto
  show "\<exists>w'. awakener_cleanup os w = Some w' \<and> (case w' of (a, w) \<Rightarrow> pipe_laws os a len good \<and> good w) \<and>
      \<not> (case w' of (a, w) \<Rightarrow> 0 < len w)"
    using cleanup_loop_drains [OF w(2,3)] w by (auto simp: awakener_cleanup_def)
qed

text \<open>C23.  The loop of \<open>Awakener::cleanup\<close> ends and empties the pipe, however many wakeups were written.\<close>

theorem cleanup_drains:
  assumes "pipe_laws os a len good" and "good w"
  shows "\<exists>w'. awakener_cleanup os (a, w) = Some (a, w') \<and> good w' \<and> len w' = 0"
  using cleanup_loop_drains [OF assms] by (auto simp: awakener_cleanup_def)

lemma sample_pipe_laws: "pipe_laws sample_os a (\<lambda>w. w) (\<lambda>_. True)"
  by (auto simp: pipe_laws_def sample_os_def)

theorem cleanup_drains_witness:
  "awakener_cleanup sample_os (\<lparr>aw_reader = 4, aw_writer = 5\<rparr>, 300) = Some (\<lparr>aw_reader = 4, aw_writer = 5\<rparr>, 0)"
  using cleanup_drains [OF sample_pipe_laws, of "\<lparr>aw_reader = 4, aw_writer = 5\<rparr>" 300] by simp

section \<open>Descriptors\<close>

text \<open>The descriptors that are open, and those that are nonblocking and close-on-exec.\<close>

record 'o fd_view =
  fv_open :: "'o \<Rightarrow> fd set"
  fv_nonblock :: "'o \<Rightarrow> fd set"
  fv_cloexec :: "'o \<Rightarrow> fd set"

text \<open>The documented effect of the calls on descriptors: \<open>close\<close> frees one; \<open>ioctl\<close> sets its flag or fails and
  changes nothing; \<open>socket\<close> and \<open>accept\<close> return a new descriptor, \<open>socket\<close> with the flags it was asked for.\<close>

definition fd_laws :: "'o unix_sys \<Rightarrow> 'o fd_view \<Rightarrow> bool" where
  "fd_laws os v \<longleftrightarrow>
     (\<forall>fd w. fv_open v (os_close os fd w) = fv_open v w - {fd}) \<and>
     (\<forall>fd w. case os_fionbio os fd w of (r, w1) \<Rightarrow> fv_open v w1 = fv_open v w \<and>
        fv_cloexec v w1 = fv_cloexec v w \<and> (r = - 1 \<or> fd \<in> fv_nonblock v w1)) \<and>
     (\<forall>fd w. case os_fioclex os fd w of (r, w1) \<Rightarrow> fv_open v w1 = fv_open v w \<and> (r = - 1 \<or> fd \<in> fv_cloexec v w1)) \<and>
     (\<forall>dom ty proto w. case os_socket os dom ty proto w of (r, w1) \<Rightarrow>
        if r = - 1 then fv_open v w1 = fv_open v w
        else r \<notin> fv_open v w \<and> fv_open v w1 = insert r (fv_open v w) \<and>
          (and ty SOCK_NONBLOCK \<noteq> 0 \<longrightarrow> r \<in> fv_nonblock v w1) \<and> (and ty SOCK_CLOEXEC \<noteq> 0 \<longrightarrow> r \<in> fv_cloexec v w1)) \<and>
     (\<forall>fd w. case os_accept os fd w of (r, w1) \<Rightarrow>
        if r = - 1 then fv_open v w1 = fv_open v w
        else r \<notin> fv_open v w \<and> fv_open v w1 = insert r (fv_open v w))"

definition fd_result_ok :: "'o fd_view \<Rightarrow> 'o \<Rightarrow> fd io_result \<times> 'o \<Rightarrow> bool" where
  "fd_result_ok v w res \<longleftrightarrow>
     (case res of
        (Inl _, w1) \<Rightarrow> fv_open v w1 = fv_open v w
      | (Inr fd, w1) \<Rightarrow> fd \<notin> fv_open v w \<and> fv_open v w1 = insert fd (fv_open v w) \<and>
          fd \<in> fv_nonblock v w1 \<and> fd \<in> fv_cloexec v w1)"

lemma fd_lawsD:
  assumes "fd_laws os v"
  shows "fv_open v (os_close os fd w) = fv_open v w - {fd}"
    and "os_fionbio os fd w = (r, w1) \<Longrightarrow> fv_open v w1 = fv_open v w \<and> fv_cloexec v w1 = fv_cloexec v w \<and> (r = - 1 \<or> fd \<in> fv_nonblock v w1)"
    and "os_fioclex os fd w = (r, w1) \<Longrightarrow> fv_open v w1 = fv_open v w \<and> (r = - 1 \<or> fd \<in> fv_cloexec v w1)"
    and "os_socket os d ty pr w = (r, w1) \<Longrightarrow> if r = - 1 then fv_open v w1 = fv_open v w
        else r \<notin> fv_open v w \<and> fv_open v w1 = insert r (fv_open v w) \<and>
          (and ty SOCK_NONBLOCK \<noteq> 0 \<longrightarrow> r \<in> fv_nonblock v w1) \<and> (and ty SOCK_CLOEXEC \<noteq> 0 \<longrightarrow> r \<in> fv_cloexec v w1)"
    and "os_accept os fd w = (r, w1) \<Longrightarrow> if r = - 1 then fv_open v w1 = fv_open v w
        else r \<notin> fv_open v w \<and> fv_open v w1 = insert r (fv_open v w)"
  using assms unfolding fd_laws_def by (force split: prod.splits)+

lemma fd_setup_ok:
  assumes laws: "fd_laws os v" and new: "fd \<notin> fv_open v w0" "fv_open v w = insert fd (fv_open v w0)"
  shows "fd_result_ok v w0 (fd_setup os fd w)"
proof -
  obtain r1 w1 where c1: "os_fioclex os fd w = (r1, w1)" by (metis prod.exhaust)
  obtain r2 w2 where c2: "os_fionbio os fd w1 = (r2, w2)" by (metis prod.exhaust)
  show ?thesis
    using fd_lawsD(1) [OF laws] fd_lawsD(3) [OF laws c1] fd_lawsD(2) [OF laws c2] c1 c2 new
    by (auto simp: fd_setup_def set_cloexec_def set_nonblock_def cvt_def is_minus_one_def fd_result_ok_def)
qed

lemma unix_socket_fds:
  assumes laws: "fd_laws os v"
  shows "fd_result_ok v w (unix_socket_stream os w) \<and> fd_result_ok v w (unix_socket_accept os lfd w)"
proof
  obtain r w1 where a: "os_accept os lfd w = (r, w1)" by (metis prod.exhaust)
  show "fd_result_ok v w (unix_socket_accept os lfd w)"
    using fd_lawsD(5) [OF laws a] fd_setup_ok [OF laws, of r w w1] a
    by (auto simp: unix_socket_accept_def cvt_def is_minus_one_def fd_result_ok_def split: if_splits)
  have fallback: "fd_result_ok v w (unix_socket_stream_fallback os w')" if "fv_open v w' = fv_open v w" for w'
  proof -
    obtain r w1 where s: "os_socket os AF_UNIX SOCK_STREAM 0 w' = (r, w1)" by (metis prod.exhaust)
    show ?thesis
      using fd_lawsD(4) [OF laws s] fd_setup_ok [OF laws, of r w w1] s that
      by (auto simp: unix_socket_stream_fallback_def cvt_def is_minus_one_def fd_result_ok_def split: if_splits)
  qed
  let ?flags = "or SOCK_STREAM (or SOCK_CLOEXEC SOCK_NONBLOCK)"
  have flags: "and ?flags SOCK_NONBLOCK \<noteq> 0" "and ?flags SOCK_CLOEXEC \<noteq> 0"
    by (simp_all add: SOCK_STREAM_def SOCK_CLOEXEC_def SOCK_NONBLOCK_def)
  obtain r w1 where s: "os_socket os AF_UNIX ?flags 0 w = (r, w1)" by (metis prod.exhaust)
  show "fd_result_ok v w (unix_socket_stream os w)"
    using fd_lawsD(4) [OF laws s] flags fallback [of w1] s
    by (auto simp: unix_socket_stream_def cvt_def is_minus_one_def fd_result_ok_def Let_def split: if_splits)
qed

text \<open>An operating system that hands out descriptors: the open, the nonblocking and the close-on-exec ones.\<close>

type_synonym fd_state = "fd set \<times> fd set \<times> fd set"

definition fresh_fd :: "fd_state \<Rightarrow> fd" where
  "fresh_fd w = (if fst w = {} then 3 else Max (fst w) + 1)"

definition fd_os :: "fd_state unix_sys" where
  "fd_os = \<lparr>os_errno = (\<lambda>_. EINVAL), os_close = (\<lambda>fd (a, b, c). (a - {fd}, b, c)),
     os_fionbio = (\<lambda>fd (a, b, c). (0, (a, insert fd b, c))), os_fioclex = (\<lambda>fd (a, b, c). (0, (a, b, insert fd c))),
     os_setfl = (\<lambda>_ _ w. (0, w)), os_dup = (\<lambda>_ w. (- 1, w)), os_pipe2 = None, os_pipe = (\<lambda>w. ((- 1, 0, 0), w)),
     os_read = (\<lambda>_ _ w. ((- 1, []), w)), os_write = (\<lambda>_ _ w. (- 1, w)),
     os_socket = (\<lambda>_ ty _ w. if ty \<noteq> SOCK_STREAM then (- 1, w)
        else if finite (fst w) \<and> fresh_fd w > 0 then (fresh_fd w, (insert (fresh_fd w) (fst w), snd w)) else (- 1, w)),
     os_connect = (\<lambda>_ _ _ w. (0, w)), os_bind = (\<lambda>_ _ _ w. (0, w)), os_listen = (\<lambda>_ _ w. (0, w)),
     os_accept = (\<lambda>_ w. (- 1, w)), os_shutdown = (\<lambda>_ _ w. (0, w)),
     os_recvmsg = (\<lambda>_ _ w. ((0, [], \<lparr>cmsg_level = 0, cmsg_type = 0, cmsg_data = 0\<rparr>), w)), os_sendmsg = (\<lambda>_ _ _ w. (0, w))\<rparr>"

definition fd_os_view :: "fd_state fd_view" where
  "fd_os_view = \<lparr>fv_open = fst, fv_nonblock = fst \<circ> snd, fv_cloexec = snd \<circ> snd\<rparr>"

lemma fresh_fd_new: "finite (fst w) \<Longrightarrow> fresh_fd w \<notin> fst w"
  using Max_ge [of "fst w" "Max (fst w) + 1"] by (auto simp: fresh_fd_def)

lemma fd_os_laws: "fd_laws fd_os fd_os_view"
  using fresh_fd_new
  by (auto simp: fd_laws_def fd_os_def fd_os_view_def SOCK_STREAM_def SOCK_NONBLOCK_def SOCK_CLOEXEC_def)

end
