(* ===== verification/Mio_Poll_Props.thy ===== *)
theory Mio_Poll_Props
  imports Mio_Sys_Props Mio_Queue_Props
begin

text \<open>
  The composition of \<open>Poll\<close>: the queue, the selector and the awakener.  A poll delivers what the kernel
  reports and what the queue holds; a poller that sleeps is signalled by every change that would give it
  something to deliver; and what a failing selector leaves behind.
\<close>

section \<open>Delivering events\<close>

lemma queue_rel_awakener: "queue_rel q a \<Longrightarrow> queue_rel (q\<lparr>awakener := w\<rparr>) (a\<lparr>aq_awakener := w\<rparr>)"
  by (simp add: queue_rel_def all_nodes_ok_def)

lemma polled_events_awakener [simp]: "polled_events (a\<lparr>aq_awakener := w\<rparr>) = polled_events a"
  by (simp add: polled_events_def)

lemma poll_finish_eq:
  assumes rel: "queue_rel (pl_queue p) a" and wf: "abs_wf a"
    and w: "(if awoken then sys_cleanup sys (awakener (pl_queue p)) else Some (awakener (pl_queue p))) = Some w"
  shows "\<exists>p'. poll_finish sys (Inr awoken) p evts =
      Some (Inr (sys_len sys (foldl (sys_push sys) evts (polled_events a))), p', foldl (sys_push sys) evts (polled_events a)) \<and>
    queue_wf (pl_queue p') \<and> pl_selector p' = pl_selector p"
proof -
  obtain q' where "queue_poll (sys_push sys) ((pl_queue p)\<lparr>awakener := w\<rparr>) evts =
      Some (q', foldl (sys_push sys) evts (polled_events a))"
    and "queue_rel q' (abs_after_poll (a\<lparr>aq_awakener := w\<rparr>))"
    using queue_poll_abs [OF queue_rel_awakener [OF rel, of w] abs_wf_awakener [THEN iffD2, OF wf, of w]] by (metis polled_events_awakener)
  moreover have "queue_wf q'"
    using queue_wfI [OF calculation(2) abs_wf_after_poll [OF abs_wf_awakener [THEN iffD2, OF wf]]] .
  ultimately show ?thesis
    using w by (auto simp: poll_finish_def)
qed

lemma queue_is_empty_abs: "queue_rel q a \<Longrightarrow> queue_is_empty q \<longleftrightarrow> aq_ready a = [] \<and> \<not> aq_sleep a"
  by (cases "aq_ready a") (auto simp: queue_rel_def queue_is_empty_def norm_head_def)

lemma poll_timeout_cases:
  "poll_timeout q timeout =
     (if queue_is_empty q then (timeout, q\<lparr>head_readiness := SleepToken\<rparr>) else (Some (duration_from_millis 0), q))"
  by (simp add: poll_timeout_def prepare_for_sleep_def queue_is_empty_def)

lemma poll_timeout_abs:
  assumes rel: "queue_rel q a" and wf: "abs_wf a" and pt: "poll_timeout q timeout = (t1, q1)"
  shows "\<exists>a1. queue_rel q1 a1 \<and> abs_wf a1 \<and> polled_events a1 = polled_events a \<and> awakener q1 = awakener q"
proof (cases "queue_is_empty q")
  case True
  then have e: "aq_ready a = []" using queue_is_empty_abs [OF rel] by simp
  have "q1 = q\<lparr>head_readiness := SleepToken\<rparr>" using pt True by (simp add: poll_timeout_cases)
  moreover have "queue_rel (q\<lparr>head_readiness := SleepToken\<rparr>) (a\<lparr>aq_sleep := True\<rparr>)"
    using rel True e by (simp add: queue_rel_def queue_is_empty_def norm_head_def all_nodes_ok_def)
  moreover have "abs_wf (a\<lparr>aq_sleep := True\<rparr>)" using wf e by (simp add: abs_wf_def)
  ultimately show ?thesis by (intro exI [of _ "a\<lparr>aq_sleep := True\<rparr>"]) (simp add: polled_events_def)
next
  case False
  then show ?thesis using pt rel wf by (auto simp: poll_timeout_cases)
qed

lemma epoll_ops_simps [simp]:
  "sys_push (epoll_ops os ep) = epoll_events_push" "sys_len (epoll_ops os ep) = epoll_events_len"
  "sys_get (epoll_ops os ep) = epoll_events_get"
  by (simp_all add: epoll_ops_def)

text \<open>C18.  \<open>Poll::poll\<close> on Linux: when the kernel reports events, the call returns their number plus the number of
  events pending in the readiness queue, and the buffer holds the kernel's events without the awakener's,
  followed by the queue's events.  It blocks only if the queue was empty, and clears the awakener.\<close>

theorem poll_delivers:
  assumes rel: "queue_rel (pl_queue p) a" and wf: "abs_wf a" and w: "awakener (pl_queue p) = (aw, c, w)"
    and wait: "es_wait ep (ep_fd (pl_selector p)) (of_nat (evs_cap evts))
      (timeout_ms (if queue_is_empty (pl_queue p) then timeout else Some (duration_from_millis 0))) w = ((n, events), w1)"
    and n: "n \<noteq> - 1" and once: "length (filter (\<lambda>e. Token (epe_u64 e) = AWAKEN) (take (nat n) events)) \<le> 1"
    and pipe: "pipe_laws os aw len good" "good w1"
  shows "\<exists>p' evts'. poll_poll (epoll_ops os ep) p evts timeout =
      Some (Inr (length (filter (\<lambda>e. Token (epe_u64 e) \<noteq> AWAKEN) (take (nat n) events)) + length (polled_events a)), p', evts') \<and>
    (let expected = map epoll_to_event (filter (\<lambda>e. Token (epe_u64 e) \<noteq> AWAKEN) (take (nat n) events)) @
                    map epoll_visible (polled_events a)
     in \<forall>i. events_get (epoll_ops os ep) evts' i = (if i < length expected then Some (expected ! i) else None)) \<and>
    queue_wf (pl_queue p')"
proof -
  let ?kept = "filter (\<lambda>e. Token (epe_u64 e) \<noteq> AWAKEN) (take (nat n) events)"
  let ?awoken = "\<exists>e \<in> set (take (nat n) events). Token (epe_u64 e) = AWAKEN"
  obtain t1 q1 where pt: "poll_timeout (pl_queue p) timeout = (t1, q1)" by (metis prod.exhaust)
  then have t1: "t1 = (if queue_is_empty (pl_queue p) then timeout else Some (duration_from_millis 0))"
    by (auto simp: poll_timeout_cases split: if_splits)
  obtain a1 where a1: "queue_rel q1 a1" "abs_wf a1" "polled_events a1 = polled_events a" "awakener q1 = (aw, c, w)"
    using poll_timeout_abs [OF rel wf pt] w by auto
  have sel: "sys_select (epoll_ops os ep) (pl_selector p) evts AWAKEN t1 (aw, c, w) =
      Some (Inr ?awoken, pl_selector p, evts\<lparr>evs_list := ?kept\<rparr>, aw, c, w1)"
    using wait [folded t1] n take_awakener_filter [OF once]
    by (simp add: epoll_ops_def epoll_select_def cvt_def is_minus_one_def Let_def)
  let ?p = "p\<lparr>pl_queue := q1\<lparr>awakener := (aw, c, w1)\<rparr>\<rparr>"
  have relp: "queue_rel (pl_queue ?p) (a1\<lparr>aq_awakener := (aw, c, w1)\<rparr>)"
    using queue_rel_awakener [OF a1(1)] by simp
  have clean: "\<exists>w2. (if ?awoken then sys_cleanup (epoll_ops os ep) (awakener (pl_queue ?p)) else Some (awakener (pl_queue ?p))) = Some w2"
    using cleanup_loop_drains [OF pipe] by (auto simp: epoll_ops_def awakener_cleanup_def)
  then obtain w2 where w2: "(if ?awoken then sys_cleanup (epoll_ops os ep) (awakener (pl_queue ?p)) else Some (awakener (pl_queue ?p))) = Some w2"
    by blast
  obtain p' where "poll_finish (epoll_ops os ep) (Inr ?awoken) ?p (evts\<lparr>evs_list := ?kept\<rparr>) =
      Some (Inr (epoll_events_len (foldl epoll_events_push (evts\<lparr>evs_list := ?kept\<rparr>) (polled_events a))), p',
        foldl epoll_events_push (evts\<lparr>evs_list := ?kept\<rparr>) (polled_events a))" "queue_wf (pl_queue p')"
    using poll_finish_eq [OF relp abs_wf_awakener [THEN iffD2, OF a1(2)] w2, of "evts\<lparr>evs_list := ?kept\<rparr>"] a1(3) by auto
  moreover have "epe.contents (evts\<lparr>evs_list := ?kept\<rparr>) = map epoll_to_event ?kept"
    by (rule nth_equalityI) (simp_all add: epe.contents_def epoll_events_len_def epoll_events_get_def)
  moreover have "epoll_events_len (evts\<lparr>evs_list := ?kept\<rparr>) = length ?kept"
    by (simp add: epoll_events_len_def)
  ultimately show ?thesis
    using pt sel a1(4) by (auto simp: poll_poll_def events_get_def epe.get_contents epe.len_foldl epe.contents_foldl)
qed

section \<open>Waking a sleeping poller\<close>

text \<open>What other threads can do with their handles while the poller waits.\<close>

inductive handle_step ::
  "('w \<Rightarrow> unit io_result \<times> 'w) \<Rightarrow> 'w queue_system \<Rightarrow> 'w queue_system \<Rightarrow> bool"
  for wake :: "'w \<Rightarrow> unit io_result \<times> 'w" where
  hs_set: "h \<in># qs_set_readiness s \<Longrightarrow> \<not> event_is_drop rdy \<Longrightarrow>
    inner_set_readiness wake (qs_queue s) h rdy = Some (res, q') \<Longrightarrow> handle_step wake s (s\<lparr>qs_queue := q'\<rparr>)"
| hs_clone: "h \<in># qs_set_readiness s \<Longrightarrow> set_readiness_clone (qs_queue s) h = Some (h', q') \<Longrightarrow>
    handle_step wake s (s\<lparr>qs_queue := q', qs_set_readiness := add_mset h' (qs_set_readiness s)\<rparr>)"
| hs_drop_set: "h \<in># qs_set_readiness s \<Longrightarrow> set_readiness_drop wake (qs_queue s) h = Some q' \<Longrightarrow>
    handle_step wake s (s\<lparr>qs_queue := q', qs_set_readiness := qs_set_readiness s - {#h#}\<rparr>)"
| hs_drop_reg: "r \<in># qs_registrations s \<Longrightarrow> registration_drop wake (qs_queue s) r = Some q' \<Longrightarrow>
    handle_step wake s (s\<lparr>qs_queue := q', qs_registrations := qs_registrations s - {#r#}\<rparr>)"

inductive_cases handle_stepE: "handle_step wake s s'"

lemma handle_step_queue_step: "handle_step wake s s' \<Longrightarrow> queue_step wake s s'"
  by (induction rule: handle_step.induct) (blast intro: queue_step.intros)+

lemma handle_steps_ok:
  "(handle_step wake)\<^sup>*\<^sup>* s s' \<Longrightarrow> qs_ok s \<Longrightarrow> qs_ok s'"
  by (induction rule: rtranclp_induct) (auto dest: handle_step_queue_step queue_step_ok)

context wakeup_signal
begin

lemma handle_step_woken:
  assumes "handle_step wake s s'" and "woken_ok (qs_queue s)"
  shows "woken_ok (qs_queue s')"
  using assms
  by (auto elim!: handle_stepE simp: set_readiness_clone_def set_readiness_drop_def
      dest: set_readiness_woken clone_woken drop_woken registration_drop_woken)

lemma handle_steps_woken:
  "(handle_step wake)\<^sup>*\<^sup>* s s' \<Longrightarrow> woken_ok (qs_queue s) \<Longrightarrow> woken_ok (qs_queue s')"
  by (induction rule: rtranclp_induct) (auto dest: handle_step_woken)

text \<open>A poller that went to sleep on an empty queue is signalled before there is anything to deliver.\<close>

lemma sleeper_signalled:
  assumes ok: "qs_ok s" and val: "valid (awakener (qs_queue s))" and pt: "poll_timeout (qs_queue s) timeout = (t1, q1)"
    and steps: "(handle_step wake)\<^sup>*\<^sup>* (s\<lparr>qs_queue := q1\<rparr>) s2"
  shows "\<exists>q3 evs. queue_poll (\<lambda>evs e. evs @ [e]) (qs_queue s2) [] = Some (q3, evs) \<and>
    (evs \<noteq> [] \<longrightarrow> t1 = Some (duration_from_millis 0) \<or> signalled (awakener (qs_queue s2)))"
proof -
  have q1: "q1 = (if queue_is_empty (qs_queue s) then snd (prepare_for_sleep (qs_queue s)) else qs_queue s)"
    using pt by (auto simp: poll_timeout_def prepare_for_sleep_def queue_is_empty_def split: if_splits)
  have "qs_ok (s\<lparr>qs_queue := q1\<rparr>)"
    using ok queue_step_ok [OF step_sleep] q1 by auto
  then have "qs_ok s2" by (rule handle_steps_ok [OF steps])
  then obtain a where rel: "queue_rel (qs_queue s2) a" and wf: "abs_wf a"
    by (auto simp: qs_ok_def queue_wf_def)
  obtain q3 where q3: "queue_poll (\<lambda>evs e. evs @ [e]) (qs_queue s2) [] = Some (q3, polled_events a)"
    using queue_poll_abs [OF rel wf, of "\<lambda>evs e. evs @ [e]" "[]"] by (auto simp: foldl_snoc)
  have "signalled (awakener (qs_queue s2))" if "polled_events a \<noteq> []" "t1 \<noteq> Some (duration_from_millis 0)"
  proof -
    have "queue_is_empty (qs_queue s)" using that(2) pt by (auto simp: poll_timeout_cases split: if_splits)
    then have "woken_ok q1"
      using val q1 by (simp add: woken_ok_def prepare_for_sleep_def queue_is_empty_def)
    then have "woken_ok (qs_queue s2)" using handle_steps_woken [OF steps] by simp
    moreover have "aq_ready a \<noteq> []" using that(1) by (auto simp: polled_events_def delivered_def)
    then have "head_readiness (qs_queue s2) \<noteq> SleepToken"
      using rel wf by (auto simp: queue_rel_def abs_wf_def)
    ultimately show ?thesis by (simp add: woken_ok_def)
  qed
  then show ?thesis using q3 by blast
qed

end

text \<open>C17.  No lost wakeup.  After \<open>Poll::poll\<close> has chosen its timeout, let other threads set readiness, clone and drop
  handles in any order.  If the queue then has an event to deliver, the call was not going to block or the
  awakener's pipe holds a byte, so that the kernel returns from the wait.\<close>

theorem sleeper_is_woken:
  assumes "qs_ok s" and "awakener (qs_queue s) = (a, w)" and "pipe_laws os a len good" and "good w"
    and "poll_timeout (qs_queue s) timeout = (t1, q1)"
    and "(handle_step (awakener_wakeup os))\<^sup>*\<^sup>* (s\<lparr>qs_queue := q1\<rparr>) s2"
  shows "\<exists>q3 evs. queue_poll (\<lambda>evs e. evs @ [e]) (qs_queue s2) [] = Some (q3, evs) \<and>
    (evs \<noteq> [] \<longrightarrow> t1 = Some (duration_from_millis 0) \<or> 0 < len (snd (awakener (qs_queue s2))))"
  using upw.sleeper_signalled [OF assms(1) _ assms(5,6), where len = len and good = good] assms(2-4)
  by (auto simp: case_prod_unfold)

text \<open>C19.  What a failing selector leaves behind.  If the queue is empty and the kernel's wait fails (e.g. it was
  interrupted), the poll returns the error but the queue still claims that the poller sleeps: the next poll
  does not block although nothing is ready, and updating a registration that carries a readiness fails its
  debug assertion.\<close>

theorem failed_poll_stays_asleep:
  assumes wf: "queue_wf (pl_queue p)" and empty: "queue_is_empty (pl_queue p)"
    and fails: "sys_select sys (pl_selector p) evts AWAKEN timeout (awakener (pl_queue p)) = Some (Inl e, s1, evts1, w1)"
    and h: "handle_ok (pl_queue p) h" "inner_readiness (pl_queue p) h = Some r" "\<not> event_is_empty r"
  shows "\<exists>p'. poll_poll sys p evts timeout = Some (Inl e, p', evts1) \<and>
    fst (poll_timeout (pl_queue p') timeout') = Some (duration_from_millis 0) \<and>
    registration_update (pl_queue p') h tok i opts = None"
proof -
  let ?q = "(pl_queue p)\<lparr>head_readiness := SleepToken, awakener := w1\<rparr>"
  obtain a where rel: "queue_rel (pl_queue p) a" and awf: "abs_wf a" using wf by (auto simp: queue_wf_def)
  have pt: "poll_timeout (pl_queue p) timeout = (timeout, (pl_queue p)\<lparr>head_readiness := SleepToken\<rparr>)"
    using empty by (simp add: poll_timeout_cases)
  have e: "aq_ready a = []" using queue_is_empty_abs [OF rel] empty by simp
  let ?a = "a\<lparr>aq_sleep := True, aq_awakener := w1\<rparr>"
  have rel': "queue_rel ?q ?a"
    using rel e empty by (simp add: queue_rel_def queue_is_empty_def norm_head_def all_nodes_ok_def)
  have wf': "abs_wf ?a" using awf e by (simp add: abs_wf_def)
  obtain n nd where n: "ri_node h = Node n" "aq_nodes a n = Some nd" "ri_queue h = aq_id a"
    using handle_ok_abs [OF rel h(1)] by metis
  have "event_from_usize (node_events nd) = r"
    using h(2) n rel by (auto simp: inner_readiness_def ready_ref_as_ref_def queue_rel_def)
  moreover have "node_queued nd = 0" using abs_wfD(4) [OF awf n(2)] e by (simp add: node_ok_def)
  ultimately have "abs_update ?a n tok i opts = None"
    using h(3) n(2) by (subst abs_update_eq [where nd = nd]) (simp_all add: update_asserts_def)
  then have "inner_update ?q h tok i opts = None"
    using update_rel [OF rel' abs_wf_queued_sound [OF wf'] n(1), of tok i opts] n(3)
    by (auto simp: rel_option_iff split: option.splits)
  moreover have "\<not> queue_is_empty ?q" by (simp add: queue_is_empty_def)
  ultimately show ?thesis
    using pt fails by (auto simp: poll_poll_def poll_finish_def poll_timeout_cases registration_update_def)
qed

section \<open>Concrete polls\<close>

text \<open>The sample queue over any awakener.\<close>

definition demo_queue :: "'w \<Rightarrow> node_ptr \<Rightarrow> readiness_node \<Rightarrow> 'w readiness_queue" where
  "demo_queue w p nd = \<lparr>queue_id = 0, awakener = w, node_heap = [0 \<mapsto> nd], next_addr = 1,
     head_all_nodes = Some 0, head_readiness = p\<rparr>"

definition demo_abs :: "'w \<Rightarrow> bool \<Rightarrow> nat list \<Rightarrow> readiness_node \<Rightarrow> 'w abs_queue" where
  "demo_abs w sl ns nd = \<lparr>aq_id = 0, aq_awakener = w, aq_fresh = 1, aq_ready = ns, aq_sleep = sl, aq_nodes = [0 \<mapsto> nd]\<rparr>"

lemmas demo_defs = demo_queue_def demo_abs_def sample_node_def sample_handle_def readiness_node_new_def

lemma demo_rel:
  "queue_rel (demo_queue w (Node 0) (sample_node e 1)) (demo_abs w False [0] (sample_node e 1))"
  "queue_rel (demo_queue w Null (sample_node e 0)) (demo_abs w False [] (sample_node e 0))"
  by (auto simp: queue_rel_def demo_defs norm_head_def all_nodes_ok_def core_def fun_eq_iff
      intro!: exI [of _ "[0::nat]"])

lemma demo_wf:
  assumes "\<not> event_is_drop (event_from_usize e)"
  shows "abs_wf (demo_abs w False [0] (sample_node e 1))" "abs_wf (demo_abs w False [] (sample_node e 0))"
  by (rule abs_wfI; use assms in \<open>auto simp: demo_defs node_ok_def NODE_QUEUED_FLAG_def split: if_splits\<close>)+

lemma no_drop_0: "\<not> event_is_drop (event_from_usize 0)"
  using event_is_drop_simps(2) by (simp add: event_from_usize_def ready_none_def)

lemma demo_handle_ok: "handle_ok (demo_queue w p (sample_node e d)) sample_handle"
  by (simp add: handle_ok_def demo_defs)

lemma demo_polled: "polled_events (demo_abs w False [0] (sample_node 1 1)) = [event_new ready_readable (Token 7)]"
  unfolding polled_events_def delivered_def demo_defs by code_simp

theorem poll_delivers_witness:
  "\<exists>p' evts'. poll_poll (epoll_ops sample_os quiet_epoll)
       \<lparr>pl_selector = \<lparr>ep_id = 1, ep_fd = 3\<rparr>, pl_queue = demo_queue (\<lparr>aw_reader = 4, aw_writer = 5\<rparr>, 1, 2) (Node 0) (sample_node 1 1)\<rparr>
       (epoll_events_with_capacity 4) None = Some (Inr 2, p', evts') \<and>
     events_get (epoll_ops sample_os quiet_epoll) evts' 0 = Some (event_new ready_writable (Token 8)) \<and>
     events_get (epoll_ops sample_os quiet_epoll) evts' 1 = Some (event_new ready_readable (Token 7)) \<and>
     events_get (epoll_ops sample_os quiet_epoll) evts' 2 = None"
proof -
  let ?w = "(\<lparr>aw_reader = 4, aw_writer = 5\<rparr>, 1 :: usize, 2 :: nat)"
  let ?p = "\<lparr>pl_selector = \<lparr>ep_id = 1, ep_fd = 3\<rparr>, pl_queue = demo_queue ?w (Node 0) (sample_node 1 1)\<rparr>"
  have kinds: "epoll_to_event \<lparr>epe_events = 4, epe_u64 = 8\<rparr> = event_new ready_writable (Token 8)"
    "epoll_visible (event_new ready_readable (Token 7)) = event_new ready_readable (Token 7)"
    by code_simp+
  have rel: "queue_rel (pl_queue ?p) (demo_abs ?w False [0] (sample_node 1 1))" by (simp add: demo_rel)
  have aw: "awakener (pl_queue ?p) = (\<lparr>aw_reader = 4, aw_writer = 5\<rparr>, 1, 2)" by (simp add: demo_queue_def)
  let ?evs = "[\<lparr>epe_events = 1, epe_u64 = - 1\<rparr>, \<lparr>epe_events = 4, epe_u64 = 8\<rparr>]"
  have wait: "es_wait quiet_epoll fd cap to w = ((2, ?evs), w)" for fd cap to w by (simp add: quiet_epoll_def)
  have kept: "filter (\<lambda>e. Token (epe_u64 e) \<noteq> AWAKEN) (take (nat 2) ?evs) = [\<lparr>epe_events = 4, epe_u64 = 8\<rparr>]"
    "length (filter (\<lambda>e. Token (epe_u64 e) = AWAKEN) (take (nat 2) ?evs)) \<le> 1"
    by (simp_all add: AWAKEN_def)
  have two: "Suc (Suc 0) = 2" by simp
  show ?thesis
    using poll_delivers [OF rel demo_wf(1) [OF ready_not_drop(2)] aw wait _ kept(2) sample_pipe_laws, where timeout = None
        and evts = "epoll_events_with_capacity 4"] kinds
    unfolding kept(1) demo_polled by (auto simp: two)
qed

definition demo_system :: "'w \<Rightarrow> 'w queue_system" where
  "demo_system w = \<lparr>qs_queue = demo_queue w Null (sample_node 0 0), qs_registrations = {#sample_handle#},
     qs_set_readiness = {#sample_handle#}\<rparr>"

lemma demo_system_ok: "qs_ok (demo_system w)"
  using queue_wfI [OF demo_rel(2) demo_wf(2) [OF no_drop_0]]
  by (auto simp: qs_ok_def demo_system_def handles_ok_def qs_handles_def counts_def demo_defs split: if_splits)

theorem sleeper_is_woken_witness:
  "\<exists>s2 q3 evs. (handle_step (awakener_wakeup sample_os))\<^sup>*\<^sup>*
       ((demo_system (\<lparr>aw_reader = 4, aw_writer = 5\<rparr>, 0))\<lparr>qs_queue := demo_queue (\<lparr>aw_reader = 4, aw_writer = 5\<rparr>, 0) SleepToken (sample_node 0 0)\<rparr>) s2 \<and>
     queue_poll (\<lambda>evs e. evs @ [e]) (qs_queue s2) [] = Some (q3, evs) \<and> evs \<noteq> [] \<and> 0 < snd (awakener (qs_queue s2))"
proof -
  let ?w = "(\<lparr>aw_reader = 4, aw_writer = 5\<rparr>, 0 :: nat)" and ?w1 = "(\<lparr>aw_reader = 4, aw_writer = 5\<rparr>, 1 :: nat)"
  let ?s = "(demo_system ?w)\<lparr>qs_queue := demo_queue ?w SleepToken (sample_node 0 0)\<rparr>"
  let ?s2 = "(demo_system ?w)\<lparr>qs_queue := demo_queue ?w1 (Node 0) (sample_node 1 1)\<rparr>"
  have set: "inner_set_readiness (awakener_wakeup sample_os) (demo_queue ?w SleepToken (sample_node 0 0)) sample_handle ready_readable =
      Some (Inr (), demo_queue ?w1 (Node 0) (sample_node 1 1))"
    by (simp add: inner_set_readiness_def demo_defs ready_ref_modify_def ready_ref_as_ref_def queue_for_processing_def
        prepend_readiness_node_def NODE_QUEUED_FLAG_def event_as_usize_def event_is_empty_def ready_readable_def Let_def
        queue_wakeup_def awakener_wakeup_def io_write_def cvt_def is_minus_one_def sample_os_def)
  have "handle_step (awakener_wakeup sample_os) ?s ?s2"
    using hs_set [of sample_handle ?s ready_readable "awakener_wakeup sample_os"] set ready_not_drop(1)
    by (simp add: demo_system_def)
  then have step: "(handle_step (awakener_wakeup sample_os))\<^sup>*\<^sup>* ?s ?s2" by blast
  have pt: "poll_timeout (qs_queue (demo_system ?w)) None = (None, demo_queue ?w SleepToken (sample_node 0 0))"
    by (simp add: poll_timeout_cases queue_is_empty_def demo_system_def demo_queue_def)
  have aw: "awakener (qs_queue (demo_system ?w)) = ?w" by (simp add: demo_system_def demo_queue_def)
  obtain q3 evs where q3: "queue_poll (\<lambda>evs e. evs @ [e]) (qs_queue ?s2) [] = Some (q3, evs)"
    "evs \<noteq> [] \<longrightarrow> 0 < snd (awakener (qs_queue ?s2))"
    using sleeper_is_woken [OF demo_system_ok aw sample_pipe_laws _ pt step] by auto
  moreover have "evs \<noteq> []"
    using queue_poll_abs [OF demo_rel(1) demo_wf(1) [OF ready_not_drop(2)], of "\<lambda>evs e. evs @ [e]" ?w1 "[]"] q3(1)
    by (auto simp: demo_polled foldl_snoc)
  ultimately show ?thesis using step by blast
qed

definition failing_epoll :: "nat epoll_sys" where
  "failing_epoll = \<lparr>es_create1 = None, es_create = (\<lambda>_ w. (3, w)), es_wait = (\<lambda>_ _ _ w. ((- 1, []), w)),
     es_ctl = (\<lambda>_ _ _ _ w. (0, w))\<rparr>"

theorem failed_poll_stays_asleep_witness:
  "\<exists>e p' evts1. poll_poll (epoll_ops sample_os failing_epoll)
       \<lparr>pl_selector = \<lparr>ep_id = 1, ep_fd = 3\<rparr>, pl_queue = demo_queue (\<lparr>aw_reader = 4, aw_writer = 5\<rparr>, 1, 0) Null (sample_node 1 0)\<rparr>
       (epoll_events_with_capacity 4) None = Some (Inl e, p', evts1) \<and>
     registration_update (pl_queue p') sample_handle (Token 7) ready_readable pollopt_edge = None"
proof -
  let ?w = "(\<lparr>aw_reader = 4, aw_writer = 5\<rparr>, 1 :: usize, 0 :: nat)"
  let ?p = "\<lparr>pl_selector = \<lparr>ep_id = 1, ep_fd = 3\<rparr>, pl_queue = demo_queue ?w Null (sample_node 1 0)\<rparr>"
  have wf: "queue_wf (pl_queue ?p)" using queue_wfI [OF demo_rel(2) demo_wf(2) [OF ready_not_drop(2)]] by simp
  have empty: "queue_is_empty (pl_queue ?p)" by (simp add: queue_is_empty_def demo_queue_def)
  have fails: "sys_select (epoll_ops sample_os failing_epoll) (pl_selector ?p) (epoll_events_with_capacity 4) AWAKEN None (awakener (pl_queue ?p)) =
      Some (Inl (OsError EAGAIN), \<lparr>ep_id = 1, ep_fd = 3\<rparr>, epoll_events_with_capacity 4, ?w)"
    by (simp add: epoll_ops_def epoll_select_def failing_epoll_def cvt_def is_minus_one_def sample_os_def demo_queue_def
        epoll_events_with_capacity_def)
  have rd: "inner_readiness (pl_queue ?p) sample_handle = Some ready_readable" "\<not> event_is_empty ready_readable"
    by (simp_all add: inner_readiness_def ready_ref_as_ref_def demo_defs event_from_usize_def ready_readable_def event_is_empty_def)
  have h: "handle_ok (pl_queue ?p) sample_handle" by (simp add: demo_handle_ok)
  show ?thesis
    using failed_poll_stays_asleep [OF wf empty fails h rd, of None "Token 7" ready_readable pollopt_edge] by blast
qed

end
