(* ===== verification/Mio_Event_Loop.thy ===== *)
theory Mio_Event_Loop
  imports Mio_Timer Mio_Channel Mio_Poll
begin

text \<open>
  The single threaded event loop of \<open>src/deprecated/\<close>: \<open>EventLoop\<close> with its builder and configuration
  (\<open>event_loop.rs\<close>), the \<open>Handler\<close> trait (\<open>handler.rs\<close>), \<open>NotifyError\<close> (\<open>notify.rs\<close>) and the non-blocking
  adaptors (\<open>io.rs\<close>).  The loop owns a \<open>Poll\<close>, a \<open>Timer\<close> and both ends of a bounded channel; what the timer
  shares with its wakeup thread is kept in three fields, and \<open>loop_world\<close> gives the timer its view of them.
  A handler is a record of functions that act on the handler's state and on the whole loop.  \<open>None\<close> is a
  panic or a loop that does not end.
\<close>

section \<open>Non-blocking adaptors\<close>

definition try_read :: "('r \<Rightarrow> 'b \<Rightarrow> usize io_result \<times> 'b \<times> 'r) \<Rightarrow> 'r \<Rightarrow> 'b \<Rightarrow> usize option io_result \<times> 'b \<times> 'r" where
  "try_read rd r dst = (case rd r dst of (res, dst', r') \<Rightarrow> (map_non_block res, dst', r'))"

definition try_write :: "('r \<Rightarrow> 'b \<Rightarrow> usize io_result \<times> 'r) \<Rightarrow> 'r \<Rightarrow> 'b \<Rightarrow> usize option io_result \<times> 'r" where
  "try_write wr r src = (case wr r src of (res, r') \<Rightarrow> (map_non_block res, r'))"

section \<open>\<open>NotifyError\<close>\<close>

datatype 'm notify_error = NotifyIo io_error | NotifyFull 'm | NotifyClosed "'m option"

fun notify_error_debug :: "(io_error \<Rightarrow> string) \<Rightarrow> 'm notify_error \<Rightarrow> string" where
  "notify_error_debug debug_io (NotifyIo e) = ''NotifyError::Io('' @ debug_io e @ '')''"
| "notify_error_debug debug_io (NotifyFull _) = ''NotifyError::Full(..)''"
| "notify_error_debug debug_io (NotifyClosed _) = ''NotifyError::Closed(..)''"

fun notify_error_display :: "(io_error \<Rightarrow> string) \<Rightarrow> 'm notify_error \<Rightarrow> string" where
  "notify_error_display show_io (NotifyIo e) = ''IO error: '' @ show_io e"
| "notify_error_display show_io (NotifyFull _) = ''Full''"
| "notify_error_display show_io (NotifyClosed _) = ''Closed''"

fun notify_error_description :: "(io_error \<Rightarrow> string) \<Rightarrow> 'm notify_error \<Rightarrow> string" where
  "notify_error_description describe_io (NotifyIo e) = describe_io e"
| "notify_error_description describe_io (NotifyClosed _) = ''The receiving end has hung up''"
| "notify_error_description describe_io (NotifyFull _) = ''Queue is full''"

fun notify_error_cause :: "'m notify_error \<Rightarrow> io_error option" where
  "notify_error_cause (NotifyIo e) = Some e"
| "notify_error_cause _ = None"

fun notify_error_from :: "'m try_send_error \<Rightarrow> 'm notify_error" where
  "notify_error_from (TrySendIo e) = NotifyIo e"
| "notify_error_from (TrySendFull v) = NotifyFull v"
| "notify_error_from (TrySendDisconnected v) = NotifyClosed (Some v)"

section \<open>Configuration\<close>

record loop_config =
  cf_notify_capacity :: usize
  cf_messages_per_tick :: usize
  cf_timer_tick :: duration
  cf_timer_wheel_size :: usize
  cf_timer_capacity :: usize

definition config_default :: loop_config where
  "config_default =
     \<lparr>cf_notify_capacity = 4096, cf_messages_per_tick = 256, cf_timer_tick = duration_from_millis 100,
      cf_timer_wheel_size = 1024, cf_timer_capacity = 65536\<rparr>"

record event_loop_builder =
  lb_config :: loop_config

definition loop_builder_new :: event_loop_builder where
  "loop_builder_new = \<lparr>lb_config = config_default\<rparr>"

definition loop_builder_notify_capacity :: "usize \<Rightarrow> event_loop_builder \<Rightarrow> event_loop_builder" where
  "loop_builder_notify_capacity capacity b = b\<lparr>lb_config := (lb_config b)\<lparr>cf_notify_capacity := capacity\<rparr>\<rparr>"

definition loop_builder_messages_per_tick :: "usize \<Rightarrow> event_loop_builder \<Rightarrow> event_loop_builder" where
  "loop_builder_messages_per_tick messages b = b\<lparr>lb_config := (lb_config b)\<lparr>cf_messages_per_tick := messages\<rparr>\<rparr>"

definition loop_builder_timer_tick :: "duration \<Rightarrow> event_loop_builder \<Rightarrow> event_loop_builder" where
  "loop_builder_timer_tick val b = b\<lparr>lb_config := (lb_config b)\<lparr>cf_timer_tick := val\<rparr>\<rparr>"

definition loop_builder_timer_wheel_size :: "usize \<Rightarrow> event_loop_builder \<Rightarrow> event_loop_builder" where
  "loop_builder_timer_wheel_size sz b = b\<lparr>lb_config := (lb_config b)\<lparr>cf_timer_wheel_size := sz\<rparr>\<rparr>"

definition loop_builder_timer_capacity :: "usize \<Rightarrow> event_loop_builder \<Rightarrow> event_loop_builder" where
  "loop_builder_timer_capacity cap b = b\<lparr>lb_config := (lb_config b)\<lparr>cf_timer_capacity := cap\<rparr>\<rparr>"

section \<open>The loop\<close>

text \<open>\<open>loop_env\<close> collects the code around the loop: the platform, the third-party slab and lazy cells, and
  the monotonic clock.  Reading the clock is a step of the operating system, so time may pass between two
  readings.\<close>

record ('s, 'a, 'e, 'o, 'sl, 'tc, 't, 'cc, 'cr) loop_env =
  en_sys :: "('s, 'a, 'e, 'o) sys_ops"
  en_slab :: "('sl, token, 't timer_entry) slab_ops"
  en_timer_cell :: "('tc, timer_inner) lazycell_ops"
  en_ctl_cell :: "('cc, registration_inner) lazycell_ops"
  en_reg_cell :: "('cr, registration_inner) lazycell_ops"
  en_now :: "'a \<times> 'o \<Rightarrow> instant \<times> ('a \<times> 'o)"

record ('s, 'a, 'e, 'o, 'sl, 'tc, 'm, 'cc, 'cr) event_loop =
  el_run :: bool
  el_poll :: "('s, 'a, 'o) poll"
  el_events :: 'e
  el_timer :: "('sl, 'tc) timer"
  el_wakeup_state :: usize
  el_unparked :: bool
  el_thread :: "wakeup_pc option"
  el_notify :: "('m, 'cc, 'cr) channel"
  el_config :: loop_config

definition NOTIFY :: token where "NOTIFY = Token (- 1 - 1)"

definition TIMER :: token where "TIMER = Token (- 1 - 2)"

definition loop_world :: "('s, 'a, 'e, 'o, 'sl, 'tc, 'm, 'cc, 'cr) event_loop \<Rightarrow> ('a \<times> 'o) timer_world" where
  "loop_world el =
     \<lparr>tw_queue = pl_queue (el_poll el), tw_wakeup_state = el_wakeup_state el, tw_unparked = el_unparked el,
      tw_thread = el_thread el\<rparr>"

definition with_timer ::
  "('sl, 'tc) timer \<Rightarrow> ('a \<times> 'o) timer_world \<Rightarrow> ('s, 'a, 'e, 'o, 'sl, 'tc, 'm, 'cc, 'cr) event_loop \<Rightarrow>
     ('s, 'a, 'e, 'o, 'sl, 'tc, 'm, 'cc, 'cr) event_loop" where
  "with_timer t wd el =
     el\<lparr>el_timer := t, el_poll := (el_poll el)\<lparr>pl_queue := tw_queue wd\<rparr>, el_wakeup_state := tw_wakeup_state wd,
        el_unparked := tw_unparked wd, el_thread := tw_thread wd\<rparr>"

definition with_channel ::
  "('m, 'cc, 'cr) channel \<Rightarrow> ('a \<times> 'o) readiness_queue \<Rightarrow> ('s, 'a, 'e, 'o, 'sl, 'tc, 'm, 'cc, 'cr) event_loop \<Rightarrow>
     ('s, 'a, 'e, 'o, 'sl, 'tc, 'm, 'cc, 'cr) event_loop" where
  "with_channel c q el = el\<lparr>el_notify := c, el_poll := (el_poll el)\<lparr>pl_queue := q\<rparr>\<rparr>"

text \<open>\<open>Instant::now()\<close>.\<close>

definition read_clock ::
  "('s, 'a, 'e, 'o, 'sl, 'tc, 't, 'cc, 'cr) loop_env \<Rightarrow> ('a \<times> 'o) readiness_queue \<Rightarrow>
     instant \<times> ('a \<times> 'o) readiness_queue" where
  "read_clock env q = (let (now, w) = en_now env (awakener q) in (now, q\<lparr>awakener := w\<rparr>))"

text \<open>Dropping a \<open>Poll\<close> that nothing else refers to: the selector, then the queue with its awakener.\<close>

definition poll_drop :: "('s, 'a, 'e, 'o) sys_ops \<Rightarrow> ('s, 'a, 'o) poll \<Rightarrow> 'o" where
  "poll_drop sys p =
     (let (a, w) = awakener (pl_queue p) in sys_awakener_drop sys a (sys_selector_drop sys (pl_selector p) w))"

text \<open>\<open>EventLoop::configured\<close>.  \<open>qid\<close> is the address of the poll's queue.  When a registration fails, the
  receiver, the sender and the poll are dropped in this order.\<close>

definition loop_configured ::
  "('s, 'a, 'e, 'o, 'sl, 'tc, 't, 'cc, 'cr) loop_env \<Rightarrow> nat \<Rightarrow> loop_config \<Rightarrow> 'o \<Rightarrow>
     (io_error \<times> 'o + ('s, 'a, 'e, 'o, 'sl, 'tc, 'm, 'cc, 'cr) event_loop) option" where
  "loop_configured env qid config w =
     (case poll_new (en_sys env) qid w of
        (Inl e, w1) \<Rightarrow> Some (Inl (e, w1))
      | (Inr p, _) \<Rightarrow>
          let wake = sys_wakeup (en_sys env); (now, q0) = read_clock env (pl_queue p) in do {
            t \<leftarrow> builder_build (en_slab env) (en_timer_cell env) now
                   (builder_capacity (cf_timer_capacity config)
                     (builder_num_slots (cf_timer_wheel_size config)
                       (builder_tick_duration (cf_timer_tick config) builder_default)));
            let c = sync_channel (en_ctl_cell env) (en_reg_cell env) (cf_notify_capacity config);
            (r1, c1, q1) \<leftarrow> poll_register
               (\<lambda>tok i o' (c, q). receiver_register (en_ctl_cell env) (en_reg_cell env) wake tok i o' c q)
               NOTIFY ready_readable (pollopt_bitor pollopt_edge pollopt_oneshot) (c, q0);
            (case r1 of
               Inl e \<Rightarrow> Some (Inl (e, poll_drop (en_sys env) (p\<lparr>pl_queue := q1\<rparr>)))
             | Inr _ \<Rightarrow> do {
                 (r2, t1, wd) \<leftarrow> poll_register
                    (\<lambda>tok i o' (t, wd). timer_register (en_slab env) (en_timer_cell env) wake tok i o' t wd)
                    TIMER ready_readable pollopt_edge
                    (t, \<lparr>tw_queue = q1, tw_wakeup_state = - 1, tw_unparked = False, tw_thread = None\<rparr>);
                 (case r2 of
                    Inl e \<Rightarrow> do {
                      (c2, q2) \<leftarrow> receiver_drop (en_reg_cell env) wake c1 (tw_queue wd);
                      (c3, q3) \<leftarrow> sender_drop (en_ctl_cell env) wake c2 q2;
                      Some (Inl (e, poll_drop (en_sys env) (p\<lparr>pl_queue := q3\<rparr>))) }
                  | Inr _ \<Rightarrow>
                      Some (Inr
                        \<lparr>el_run = True, el_poll = p\<lparr>pl_queue := tw_queue wd\<rparr>,
                         el_events = events_with_capacity (en_sys env) 1024, el_timer = t1,
                         el_wakeup_state = tw_wakeup_state wd, el_unparked = tw_unparked wd,
                         el_thread = tw_thread wd, el_notify = c1, el_config = config\<rparr>)) }) })"

definition loop_new ::
  "('s, 'a, 'e, 'o, 'sl, 'tc, 't, 'cc, 'cr) loop_env \<Rightarrow> nat \<Rightarrow> 'o \<Rightarrow>
     (io_error \<times> 'o + ('s, 'a, 'e, 'o, 'sl, 'tc, 'm, 'cc, 'cr) event_loop) option" where
  "loop_new env qid w = loop_configured env qid config_default w"

definition loop_builder_build ::
  "('s, 'a, 'e, 'o, 'sl, 'tc, 't, 'cc, 'cr) loop_env \<Rightarrow> nat \<Rightarrow> event_loop_builder \<Rightarrow> 'o \<Rightarrow>
     (io_error \<times> 'o + ('s, 'a, 'e, 'o, 'sl, 'tc, 'm, 'cc, 'cr) event_loop) option" where
  "loop_builder_build env qid b w = loop_configured env qid (lb_config b) w"

section \<open>Operations\<close>

text \<open>\<open>channel\<close> clones the sender: a \<open>Sender\<close> is a handle on the loop's channel, so only the handle counts change.\<close>

definition loop_channel ::
  "('s, 'a, 'e, 'o, 'sl, 'tc, 'm, 'cc, 'cr) event_loop \<Rightarrow> ('s, 'a, 'e, 'o, 'sl, 'tc, 'm, 'cc, 'cr) event_loop" where
  "loop_channel el = el\<lparr>el_notify := sync_sender_clone (el_notify el)\<rparr>"

definition loop_timeout ::
  "('s, 'a, 'e, 'o, 'sl, 'tc, 't, 'cc, 'cr) loop_env \<Rightarrow> 't \<Rightarrow> duration \<Rightarrow>
     ('s, 'a, 'e, 'o, 'sl, 'tc, 'm, 'cc, 'cr) event_loop \<Rightarrow>
     ((timer_error + timeout) \<times> ('s, 'a, 'e, 'o, 'sl, 'tc, 'm, 'cc, 'cr) event_loop) option" where
  "loop_timeout env tok delay el =
     (let (now, q) = read_clock env (pl_queue (el_poll el)) in do {
        (r, t, wd) \<leftarrow> set_timeout (en_slab env) (en_timer_cell env) now delay tok (el_timer el)
                        ((loop_world el)\<lparr>tw_queue := q\<rparr>);
        Some (r, with_timer t wd el) })"

definition loop_clear_timeout ::
  "('s, 'a, 'e, 'o, 'sl, 'tc, 't, 'cc, 'cr) loop_env \<Rightarrow> timeout \<Rightarrow>
     ('s, 'a, 'e, 'o, 'sl, 'tc, 'm, 'cc, 'cr) event_loop \<Rightarrow>
     (bool \<times> ('s, 'a, 'e, 'o, 'sl, 'tc, 'm, 'cc, 'cr) event_loop) option" where
  "loop_clear_timeout env to el = do {
     (r, t) \<leftarrow> cancel_timeout (en_slab env) to (el_timer el);
     Some (r \<noteq> None, el\<lparr>el_timer := t\<rparr>) }"

definition loop_shutdown ::
  "('s, 'a, 'e, 'o, 'sl, 'tc, 'm, 'cc, 'cr) event_loop \<Rightarrow> ('s, 'a, 'e, 'o, 'sl, 'tc, 'm, 'cc, 'cr) event_loop" where
  "loop_shutdown el = el\<lparr>el_run := False\<rparr>"

definition loop_is_running :: "('s, 'a, 'e, 'o, 'sl, 'tc, 'm, 'cc, 'cr) event_loop \<Rightarrow> bool" where
  "loop_is_running el = el_run el"

text \<open>\<open>reg\<close>, \<open>rereg\<close> and \<open>dereg\<close> are the methods of the \<open>Evented\<close> value \<open>io\<close>, acting on it and on the poll.\<close>

definition loop_register ::
  "(token \<Rightarrow> ready \<Rightarrow> poll_opt \<Rightarrow> 'io \<times> ('s, 'a, 'o) poll \<Rightarrow> (unit io_result \<times> 'io \<times> ('s, 'a, 'o) poll) option) \<Rightarrow>
     'io \<Rightarrow> token \<Rightarrow> ready \<Rightarrow> poll_opt \<Rightarrow> ('s, 'a, 'e, 'o, 'sl, 'tc, 'm, 'cc, 'cr) event_loop \<Rightarrow>
     (unit io_result \<times> 'io \<times> ('s, 'a, 'e, 'o, 'sl, 'tc, 'm, 'cc, 'cr) event_loop) option" where
  "loop_register reg io tok interest opt el = do {
     (r, io', p) \<leftarrow> poll_register reg tok interest opt (io, el_poll el);
     Some (r, io', el\<lparr>el_poll := p\<rparr>) }"

definition loop_reregister ::
  "(token \<Rightarrow> ready \<Rightarrow> poll_opt \<Rightarrow> 'io \<times> ('s, 'a, 'o) poll \<Rightarrow> (unit io_result \<times> 'io \<times> ('s, 'a, 'o) poll) option) \<Rightarrow>
     'io \<Rightarrow> token \<Rightarrow> ready \<Rightarrow> poll_opt \<Rightarrow> ('s, 'a, 'e, 'o, 'sl, 'tc, 'm, 'cc, 'cr) event_loop \<Rightarrow>
     (unit io_result \<times> 'io \<times> ('s, 'a, 'e, 'o, 'sl, 'tc, 'm, 'cc, 'cr) event_loop) option" where
  "loop_reregister rereg io tok interest opt el = do {
     (r, io', p) \<leftarrow> poll_reregister rereg tok interest opt (io, el_poll el);
     Some (r, io', el\<lparr>el_poll := p\<rparr>) }"

definition loop_deregister ::
  "('io \<times> ('s, 'a, 'o) poll \<Rightarrow> (unit io_result \<times> 'io \<times> ('s, 'a, 'o) poll) option) \<Rightarrow>
     'io \<Rightarrow> ('s, 'a, 'e, 'o, 'sl, 'tc, 'm, 'cc, 'cr) event_loop \<Rightarrow>
     (unit io_result \<times> 'io \<times> ('s, 'a, 'e, 'o, 'sl, 'tc, 'm, 'cc, 'cr) event_loop) option" where
  "loop_deregister dereg io el = do {
     (r, io', p) \<leftarrow> poll_deregister dereg (io, el_poll el);
     Some (r, io', el\<lparr>el_poll := p\<rparr>) }"

section \<open>The \<open>Handler\<close> trait\<close>

record ('h, 'l, 't, 'm) handler =
  hd_ready :: "'h \<Rightarrow> 'l \<Rightarrow> token \<Rightarrow> ready \<Rightarrow> ('h \<times> 'l) option"
  hd_notify :: "'h \<Rightarrow> 'l \<Rightarrow> 'm \<Rightarrow> ('h \<times> 'l) option"
  hd_timeout :: "'h \<Rightarrow> 'l \<Rightarrow> 't \<Rightarrow> ('h \<times> 'l) option"
  hd_interrupted :: "'h \<Rightarrow> 'l \<Rightarrow> ('h \<times> 'l) option"
  hd_tick :: "'h \<Rightarrow> 'l \<Rightarrow> ('h \<times> 'l) option"

text \<open>The trait's default methods do nothing.\<close>

definition handler_default :: "('h, 'l, 't, 'm) handler" where
  "handler_default =
     \<lparr>hd_ready = (\<lambda>h el _ _. Some (h, el)), hd_notify = (\<lambda>h el _. Some (h, el)), hd_timeout = (\<lambda>h el _. Some (h, el)),
      hd_interrupted = (\<lambda>h el. Some (h, el)), hd_tick = (\<lambda>h el. Some (h, el))\<rparr>"

section \<open>Running\<close>

definition io_poll ::
  "('s, 'a, 'e, 'o, 'sl, 'tc, 't, 'cc, 'cr) loop_env \<Rightarrow> duration option \<Rightarrow>
     ('s, 'a, 'e, 'o, 'sl, 'tc, 'm, 'cc, 'cr) event_loop \<Rightarrow>
     (nat io_result \<times> ('s, 'a, 'e, 'o, 'sl, 'tc, 'm, 'cc, 'cr) event_loop) option" where
  "io_poll env timeout el = do {
     (r, p, evts) \<leftarrow> poll_poll (en_sys env) (el_poll el) (el_events el) timeout;
     Some (r, el\<lparr>el_poll := p, el_events := evts\<rparr>) }"

definition io_event ::
  "('h, 'l, 't, 'm) handler \<Rightarrow> 'h \<Rightarrow> 'l \<Rightarrow> event \<Rightarrow> ('h \<times> 'l) option" where
  "io_event hdl h el evt = hd_ready hdl h el (ev_token evt) (ev_kind evt)"

text \<open>The \<open>for\<close> loop of \<open>notify\<close>, for the number of rounds left.\<close>

primrec notify_loop ::
  "('s, 'a, 'e, 'o, 'sl, 'tc, 't, 'cc, 'cr) loop_env \<Rightarrow>
     ('h, ('s, 'a, 'e, 'o, 'sl, 'tc, 'm, 'cc, 'cr) event_loop, 't, 'm) handler \<Rightarrow> nat \<Rightarrow> 'h \<Rightarrow>
     ('s, 'a, 'e, 'o, 'sl, 'tc, 'm, 'cc, 'cr) event_loop \<Rightarrow>
     ('h \<times> ('s, 'a, 'e, 'o, 'sl, 'tc, 'm, 'cc, 'cr) event_loop) option" where
  "notify_loop env hdl 0 h el = Some (h, el)"
| "notify_loop env hdl (Suc n) h el =
     Option.bind (receiver_try_recv (en_ctl_cell env) (sys_wakeup (en_sys env)) (el_notify el) (pl_queue (el_poll el)))
       (\<lambda>(r, c, q).
         case r of
           Inl _ \<Rightarrow> Some (h, with_channel c q el)
         | Inr msg \<Rightarrow> Option.bind (hd_notify hdl h (with_channel c q el) msg) (\<lambda>(h1, el1). notify_loop env hdl n h1 el1))"

definition loop_rearm ::
  "('s, 'a, 'e, 'o, 'sl, 'tc, 't, 'cc, 'cr) loop_env \<Rightarrow> ('s, 'a, 'e, 'o, 'sl, 'tc, 'm, 'cc, 'cr) event_loop \<Rightarrow>
     ('s, 'a, 'e, 'o, 'sl, 'tc, 'm, 'cc, 'cr) event_loop option" where
  "loop_rearm env el = do {
     (_, q) \<leftarrow> poll_reregister (\<lambda>tok i o' q. receiver_reregister (en_reg_cell env) tok i o' (el_notify el) q)
                NOTIFY ready_readable (pollopt_bitor pollopt_edge pollopt_oneshot) (pl_queue (el_poll el));
     Some (with_channel (el_notify el) q el) }"

definition loop_notify ::
  "('s, 'a, 'e, 'o, 'sl, 'tc, 't, 'cc, 'cr) loop_env \<Rightarrow>
     ('h, ('s, 'a, 'e, 'o, 'sl, 'tc, 'm, 'cc, 'cr) event_loop, 't, 'm) handler \<Rightarrow> 'h \<Rightarrow>
     ('s, 'a, 'e, 'o, 'sl, 'tc, 'm, 'cc, 'cr) event_loop \<Rightarrow>
     ('h \<times> ('s, 'a, 'e, 'o, 'sl, 'tc, 'm, 'cc, 'cr) event_loop) option" where
  "loop_notify env hdl h el = do {
     (h1, el1) \<leftarrow> notify_loop env hdl (unat (cf_messages_per_tick (el_config el))) h el;
     el2 \<leftarrow> loop_rearm env el1;
     Some (h1, el2) }"

text \<open>\<open>self.timer.poll()\<close>.\<close>

definition loop_timer_poll ::
  "('s, 'a, 'e, 'o, 'sl, 'tc, 't, 'cc, 'cr) loop_env \<Rightarrow> ('s, 'a, 'e, 'o, 'sl, 'tc, 'm, 'cc, 'cr) event_loop \<Rightarrow>
     ('t option \<times> ('s, 'a, 'e, 'o, 'sl, 'tc, 'm, 'cc, 'cr) event_loop) option" where
  "loop_timer_poll env el =
     (let (now, q) = read_clock env (pl_queue (el_poll el)) in do {
        (r, t, wd) \<leftarrow> timer_poll (en_slab env) (en_timer_cell env) (sys_wakeup (en_sys env)) now (el_timer el)
                        ((loop_world el)\<lparr>tw_queue := q\<rparr>);
        Some (r, with_timer t wd el) })"

partial_function (option) timer_process ::
  "('s, 'a, 'e, 'o, 'sl, 'tc, 't, 'cc, 'cr) loop_env \<Rightarrow>
     ('h, ('s, 'a, 'e, 'o, 'sl, 'tc, 'm, 'cc, 'cr) event_loop, 't, 'm) handler \<Rightarrow> 'h \<Rightarrow>
     ('s, 'a, 'e, 'o, 'sl, 'tc, 'm, 'cc, 'cr) event_loop \<Rightarrow>
     ('h \<times> ('s, 'a, 'e, 'o, 'sl, 'tc, 'm, 'cc, 'cr) event_loop) option" where
  "timer_process env hdl h el =
     Option.bind (loop_timer_poll env el) (\<lambda>(r, el1).
       case r of
         None \<Rightarrow> Some (h, el1)
       | Some t \<Rightarrow> Option.bind (hd_timeout hdl h el1 t) (\<lambda>(h1, el2). timer_process env hdl h1 el2))"

declare timer_process.simps [code]

definition loop_dispatch ::
  "('s, 'a, 'e, 'o, 'sl, 'tc, 't, 'cc, 'cr) loop_env \<Rightarrow>
     ('h, ('s, 'a, 'e, 'o, 'sl, 'tc, 'm, 'cc, 'cr) event_loop, 't, 'm) handler \<Rightarrow> event \<Rightarrow> 'h \<Rightarrow>
     ('s, 'a, 'e, 'o, 'sl, 'tc, 'm, 'cc, 'cr) event_loop \<Rightarrow>
     ('h \<times> ('s, 'a, 'e, 'o, 'sl, 'tc, 'm, 'cc, 'cr) event_loop) option" where
  "loop_dispatch env hdl evt h el =
     (if ev_token evt = NOTIFY then loop_notify env hdl h el
      else if ev_token evt = TIMER then timer_process env hdl h el
      else io_event hdl h el evt)"

text \<open>The \<open>while\<close> loop of \<open>io_process\<close> from index \<open>i\<close>, for the number of rounds left; \<open>unwrap\<close> panics on an
  index past the end.\<close>

primrec io_process_from ::
  "('s, 'a, 'e, 'o, 'sl, 'tc, 't, 'cc, 'cr) loop_env \<Rightarrow>
     ('h, ('s, 'a, 'e, 'o, 'sl, 'tc, 'm, 'cc, 'cr) event_loop, 't, 'm) handler \<Rightarrow> nat \<Rightarrow> nat \<Rightarrow> 'h \<Rightarrow>
     ('s, 'a, 'e, 'o, 'sl, 'tc, 'm, 'cc, 'cr) event_loop \<Rightarrow>
     ('h \<times> ('s, 'a, 'e, 'o, 'sl, 'tc, 'm, 'cc, 'cr) event_loop) option" where
  "io_process_from env hdl 0 i h el = Some (h, el)"
| "io_process_from env hdl (Suc n) i h el =
     Option.bind (events_get (en_sys env) (el_events el) i) (\<lambda>evt.
       Option.bind (loop_dispatch env hdl evt h el) (\<lambda>(h1, el1). io_process_from env hdl n (i + 1) h1 el1))"

definition io_process ::
  "('s, 'a, 'e, 'o, 'sl, 'tc, 't, 'cc, 'cr) loop_env \<Rightarrow>
     ('h, ('s, 'a, 'e, 'o, 'sl, 'tc, 'm, 'cc, 'cr) event_loop, 't, 'm) handler \<Rightarrow> nat \<Rightarrow> 'h \<Rightarrow>
     ('s, 'a, 'e, 'o, 'sl, 'tc, 'm, 'cc, 'cr) event_loop \<Rightarrow>
     ('h \<times> ('s, 'a, 'e, 'o, 'sl, 'tc, 'm, 'cc, 'cr) event_loop) option" where
  "io_process env hdl cnt h el = io_process_from env hdl cnt 0 h el"

definition run_once ::
  "('s, 'a, 'e, 'o, 'sl, 'tc, 't, 'cc, 'cr) loop_env \<Rightarrow>
     ('h, ('s, 'a, 'e, 'o, 'sl, 'tc, 'm, 'cc, 'cr) event_loop, 't, 'm) handler \<Rightarrow> duration option \<Rightarrow> 'h \<Rightarrow>
     ('s, 'a, 'e, 'o, 'sl, 'tc, 'm, 'cc, 'cr) event_loop \<Rightarrow>
     (unit io_result \<times> 'h \<times> ('s, 'a, 'e, 'o, 'sl, 'tc, 'm, 'cc, 'cr) event_loop) option" where
  "run_once env hdl timeout h el = do {
     (r, el1) \<leftarrow> io_poll env timeout el;
     (case r of
        Inl err \<Rightarrow>
          if error_kind_of err = Interrupted then do {
            (h2, el2) \<leftarrow> hd_interrupted hdl h el1;
            (h3, el3) \<leftarrow> io_process env hdl 0 h2 el2;
            (h4, el4) \<leftarrow> hd_tick hdl h3 el3;
            Some (Inr (), h4, el4) }
          else Some (Inl err, h, el1)
      | Inr events \<Rightarrow> do {
          (h3, el3) \<leftarrow> io_process env hdl events h el1;
          (h4, el4) \<leftarrow> hd_tick hdl h3 el3;
          Some (Inr (), h4, el4) }) }"

partial_function (option) run_loop ::
  "('s, 'a, 'e, 'o, 'sl, 'tc, 't, 'cc, 'cr) loop_env \<Rightarrow>
     ('h, ('s, 'a, 'e, 'o, 'sl, 'tc, 'm, 'cc, 'cr) event_loop, 't, 'm) handler \<Rightarrow> 'h \<Rightarrow>
     ('s, 'a, 'e, 'o, 'sl, 'tc, 'm, 'cc, 'cr) event_loop \<Rightarrow>
     (unit io_result \<times> 'h \<times> ('s, 'a, 'e, 'o, 'sl, 'tc, 'm, 'cc, 'cr) event_loop) option" where
  "run_loop env hdl h el =
     (if el_run el then
        Option.bind (run_once env hdl None h el) (\<lambda>(r, h1, el1).
          case r of Inl err \<Rightarrow> Some (Inl err, h1, el1) | Inr _ \<Rightarrow> run_loop env hdl h1 el1)
      else Some (Inr (), h, el))"

declare run_loop.simps [code]

definition loop_run ::
  "('s, 'a, 'e, 'o, 'sl, 'tc, 't, 'cc, 'cr) loop_env \<Rightarrow>
     ('h, ('s, 'a, 'e, 'o, 'sl, 'tc, 'm, 'cc, 'cr) event_loop, 't, 'm) handler \<Rightarrow> 'h \<Rightarrow>
     ('s, 'a, 'e, 'o, 'sl, 'tc, 'm, 'cc, 'cr) event_loop \<Rightarrow>
     (unit io_result \<times> 'h \<times> ('s, 'a, 'e, 'o, 'sl, 'tc, 'm, 'cc, 'cr) event_loop) option" where
  "loop_run env hdl h el = run_loop env hdl h (el\<lparr>el_run := True\<rparr>)"

section \<open>\<open>Sender\<close>\<close>

text \<open>A \<open>Sender\<close> shares the loop's channel; its operations act on the channel and on the poll's queue.\<close>

definition loop_sender_fmt :: string where "loop_sender_fmt = ''Sender<?> { ... }''"

definition loop_sender_new :: "('m, 'cc, 'cr) channel \<Rightarrow> ('m, 'cc, 'cr) channel" where
  "loop_sender_new tx = tx"

definition loop_sender_clone :: "('m, 'cc, 'cr) channel \<Rightarrow> ('m, 'cc, 'cr) channel" where
  "loop_sender_clone tx = sync_sender_clone tx"

definition loop_sender_send ::
  "('cc, registration_inner) lazycell_ops \<Rightarrow> ('w \<Rightarrow> unit io_result \<times> 'w) \<Rightarrow> ('m, 'cc, 'cr) channel \<Rightarrow> 'm \<Rightarrow>
     'w readiness_queue \<Rightarrow> (('m notify_error + unit) \<times> ('m, 'cc, 'cr) channel \<times> 'w readiness_queue) option" where
  "loop_sender_send ls wake tx msg q = do {
     (r, tx', q') \<leftarrow> sync_sender_try_send ls wake tx msg q;
     Some (map_sum notify_error_from id r, tx', q') }"

end
