(* ===== verification/Mio_Evented.thy ===== *)
theory Mio_Evented
  imports Mio_Event_Loop Mio_Channel_Props Mio_Timer_Props Mio_Poll_Props
begin

text \<open>
  The interface between \<open>Poll\<close> and the types that register with its readiness queue.  The first part says what
  each queue operation leaves alone for the other registrations (\<open>keeps\<close>); the locale \<open>evented\<close> states what
  \<open>Poll::register\<close>, \<open>reregister\<close> and \<open>deregister\<close> rely on, and is interpreted on the channel's receiver and on
  the timer.
\<close>

section \<open>What queue operations leave alone\<close>

definition awake :: "'w readiness_queue \<Rightarrow> bool" where
  "awake q \<longleftrightarrow> head_readiness q \<noteq> SleepToken"

definition node_view :: "'w readiness_queue \<Rightarrow> registration_inner \<Rightarrow> readiness_node option" where
  "node_view q h = map_option core (ready_ref_as_ref q (ri_node h))"

text \<open>The queue is still well-formed, live handles stay live, and only nodes in \<open>S\<close> have changed.\<close>

definition frames :: "node_ptr set \<Rightarrow> 'w readiness_queue \<Rightarrow> 'w readiness_queue \<Rightarrow> bool" where
  "frames S q q' \<longleftrightarrow> queue_wf q' \<and>
     (\<forall>h. handle_ok q h \<longrightarrow> handle_ok q' h \<and> (ri_node h \<notin> S \<longrightarrow> node_view q' h = node_view q h))"

definition keeps :: "node_ptr set \<Rightarrow> 'w readiness_queue \<Rightarrow> 'w readiness_queue \<Rightarrow> bool" where
  "keeps S q q' \<longleftrightarrow> frames S q q' \<and> (awake q \<longrightarrow> awake q')"

lemma node_view_abs: "queue_rel q a \<Longrightarrow> ri_node h = Node n \<Longrightarrow> node_view q h = aq_nodes a n"
  by (simp add: node_view_def ready_ref_as_ref_def queue_rel_def)

lemma inner_readiness_view: "inner_readiness q h = map_option (\<lambda>nd. event_from_usize (node_events nd)) (node_view q h)"
  by (simp add: inner_readiness_def node_view_def option.map_comp comp_def)

lemma keeps_refl: "queue_wf q \<Longrightarrow> keeps S q q"
  by (simp add: keeps_def frames_def)

lemma keeps_trans [trans]: "keeps S q q' \<Longrightarrow> keeps S q' q'' \<Longrightarrow> keeps S q q''"
  by (simp add: keeps_def frames_def)

lemma keeps_mono: "keeps S q q' \<Longrightarrow> S \<subseteq> T \<Longrightarrow> keeps T q q'"
  by (auto simp: keeps_def frames_def)

lemma framesD:
  assumes "frames S q q'"
  shows "queue_wf q'" and "handle_ok q h \<Longrightarrow> handle_ok q' h"
    and "handle_ok q h \<Longrightarrow> ri_node h \<notin> S \<Longrightarrow> node_view q' h = node_view q h"
    and "handle_ok q h \<Longrightarrow> ri_node h \<notin> S \<Longrightarrow> inner_readiness q' h = inner_readiness q h"
  using assms by (simp_all add: frames_def inner_readiness_view)

lemma keepsD:
  assumes "keeps S q q'"
  shows "queue_wf q'" and "awake q \<Longrightarrow> awake q'" and "handle_ok q h \<Longrightarrow> handle_ok q' h" and "frames S q q'"
  using assms by (simp_all add: keeps_def frames_def)

lemma awake_abs: "queue_rel q a \<Longrightarrow> awake q \<longleftrightarrow> \<not> aq_sleep a"
  by (simp add: awake_def queue_rel_def)

lemma keepsI:
  assumes rel: "queue_rel q a" "queue_rel q' a'" and wf: "abs_wf a'" and id: "aq_id a' = aq_id a"
    and sleep: "aq_sleep a' \<longrightarrow> aq_sleep a"
    and nodes: "\<And>k nd. aq_nodes a k = Some nd \<Longrightarrow> ref_count nd \<noteq> 0 \<Longrightarrow>
      \<exists>nd'. aq_nodes a' k = Some nd' \<and> ref_count nd' \<noteq> 0 \<and> (Node k \<notin> S \<longrightarrow> nd' = nd)"
  shows "keeps S q q'"
proof -
  have "handle_ok q' h \<and> (ri_node h \<notin> S \<longrightarrow> node_view q' h = node_view q h)" if h: "handle_ok q h" for h
  proof -
    obtain n nd where n: "ri_node h = Node n" "ri_queue h = aq_id a" "aq_nodes a n = Some nd" "ref_count nd \<noteq> 0"
      using handle_ok_abs [OF rel(1) h] .
    then obtain nd' where "aq_nodes a' n = Some nd'" "ref_count nd' \<noteq> 0" "Node n \<notin> S \<longrightarrow> nd' = nd"
      using nodes by blast
    then show ?thesis
      using handle_okI [OF rel(2) n(1)] n id by (simp add: node_view_abs [OF rel(1)] node_view_abs [OF rel(2)])
  qed
  then show ?thesis
    using queue_wfI [OF rel(2) wf] sleep unfolding keeps_def frames_def awake_abs [OF rel(1)] awake_abs [OF rel(2)] by blast
qed

lemma keeps_set_readiness:
  assumes "queue_wf q" and "handle_ok q h" and "\<not> event_is_drop r"
  shows "\<exists>res q'. inner_set_readiness wake q h r = Some (res, q') \<and> keeps {ri_node h} q q' \<and>
    inner_readiness q' h = Some r"
proof -
  obtain a where rel: "queue_rel q a" and wf: "abs_wf a" using assms(1) by (auto simp: queue_wf_def)
  obtain n nd where n: "ri_node h = Node n" "aq_nodes a n = Some nd" "ref_count nd \<noteq> 0"
    using handle_ok_abs [OF rel assms(2)] .
  obtain res a' where a': "abs_set_readiness wake a n r = Some (res, a')" "abs_wf a'"
    using abs_wf_set_readiness [OF wf n(2) assms(3) n(3)] by blast
  obtain q' where q': "inner_set_readiness wake q h r = Some (res, q')" and rel': "queue_rel q' a'"
    by (rule set_readiness_abs [OF rel wf n(1) a'(1)])
  have eq: "aq_id a' = aq_id a" "aq_sleep a' \<longrightarrow> aq_sleep a" "k \<noteq> n \<Longrightarrow> aq_nodes a' k = aq_nodes a k"
    "\<exists>nd'. aq_nodes a' n = Some nd' \<and> ref_count nd' = ref_count nd" for k
    using a'(1) by (auto simp: abs_set_readiness_eq [OF n(2)] abs_wakeup_def abs_marked_def split: if_splits prod.splits)
  have "keeps {ri_node h} q q'"
    by (rule keepsI [OF rel rel' a'(2) eq(1,2)]) (use eq n in \<open>metis insertI1\<close>)
  moreover have "inner_readiness q' h = Some r"
    using abs_set_readiness_nodes(1) [OF n(2) a'(1)] by (auto simp: inner_readiness_abs [OF rel' n(1)])
  ultimately show ?thesis using q' by blast
qed

text \<open>Whether \<open>update\<close> returns depends on the sleep marker; if it does, the node has the new data and is queued
  if it carries a readiness.\<close>

definition node_updated :: "token \<Rightarrow> ready \<Rightarrow> poll_opt \<Rightarrow> readiness_node \<Rightarrow> readiness_node \<Rightarrow> bool" where
  "node_updated t i p nd nd' \<longleftrightarrow> node_data nd' = registration_data_update t i p (node_data nd) \<and>
     node_events nd' = node_events nd \<and> ref_count nd' = ref_count nd \<and>
     (event_is_empty (event_from_usize (node_events nd)) \<or> node_queued nd' \<noteq> 0)"

lemma update_cases:
  assumes "queue_wf q" and "handle_ok q h"
  shows "(\<not> awake q \<and> inner_update q h t i p = None) \<or>
    (\<exists>q' nd nd'. inner_update q h t i p = Some (Inr (), q') \<and> keeps {ri_node h} q q' \<and>
      node_view q h = Some nd \<and> node_view q' h = Some nd' \<and> node_updated t i p nd nd')"
proof -
  obtain a where rel: "queue_rel q a" and wf: "abs_wf a" using assms(1) by (auto simp: queue_wf_def)
  obtain n nd where n: "ri_node h = Node n" "ri_queue h = aq_id a" "aq_nodes a n = Some nd" "ref_count nd \<noteq> 0"
    using handle_ok_abs [OF rel assms(2)] .
  note urel = update_rel [OF rel abs_wf_queued_sound [OF wf] n(1,2), of t i p]
  show ?thesis
  proof (cases "update_asserts a nd")
    case True
    then have "abs_update a n t i p = None" by (simp add: abs_update_eq [OF n(3)] Let_def)
    then show ?thesis using urel True by (simp add: awake_abs [OF rel] update_asserts_def)
  next
    case False
    obtain a' where a': "abs_update a n t i p = Some (Inr (), a')" "abs_wf a'" "aq_id a' = aq_id a"
      using abs_wf_update [OF wf n(3) False] by blast
    then obtain q' where q': "inner_update q h t i p = Some (Inr (), q')" and rel': "queue_rel q' a'"
      using urel by (auto simp: rel_option_Some2)
    have eq: "aq_sleep a' \<longrightarrow> aq_sleep a" "k \<noteq> n \<Longrightarrow> aq_nodes a' k = aq_nodes a k"
      "\<exists>nd'. aq_nodes a' n = Some nd' \<and> node_updated t i p nd nd'" for k
      using a'(1) False by (auto simp: abs_update_eq [OF n(3)] Let_def abs_marked_def node_updated_def split: if_splits)
    have "keeps {ri_node h} q q'"
      by (rule keepsI [OF rel rel' a'(2,3) eq(1)]) (use eq(2,3) n in \<open>metis insertI1 node_updated_def\<close>)
    then show ?thesis
      using q' eq(3) n by (auto simp: node_view_abs [OF rel n(1)] node_view_abs [OF rel' n(1)])
  qed
qed

lemma keeps_update:
  assumes "queue_wf q" and "handle_ok q h" and "awake q"
  shows "\<exists>q'. inner_update q h t i p = Some (Inr (), q') \<and> keeps {ri_node h} q q' \<and> inner_readiness q' h = inner_readiness q h"
  using update_cases [OF assms(1,2), of t i p] assms(3) by (auto simp: node_updated_def inner_readiness_view)

lemma keeps_new:
  assumes "queue_wf q"
  shows "\<exists>h q'. registration_new wake q t i p = Some ((h, h), q') \<and> keeps {} q q' \<and> handle_ok q' h \<and>
    node_view q' h = Some (readiness_node_new t i p 2) \<and> (\<forall>h'. handle_ok q h' \<longrightarrow> ri_node h' \<noteq> ri_node h)"
proof -
  obtain a where rel: "queue_rel q a" and wf: "abs_wf a" using assms by (auto simp: queue_wf_def)
  let ?h = "\<lparr>ri_queue = queue_id q, ri_node = Node (aq_fresh a)\<rparr>" and ?a = "snd (abs_new_node a t i p 2)"
  obtain q' where q': "registration_new wake q t i p = Some ((?h, ?h), q')" and rel': "queue_rel q' ?a"
    by (rule registration_new_abs [OF rel wf])
  have wf': "abs_wf ?a" by (rule abs_wf_new_node [OF wf]) simp
  have old: "k \<noteq> aq_fresh a" if "aq_nodes a k = Some nd" for k nd using abs_wfD(5) [OF wf that] by simp
  have "keeps {} q q'"
    by (rule keepsI [OF rel rel' wf']) (use old in \<open>auto simp: abs_new_node_def\<close>)
  moreover have new: "aq_nodes ?a (aq_fresh a) = Some (readiness_node_new t i p 2)" by (simp add: abs_new_node_def)
  moreover have "handle_ok q' ?h"
    by (rule handle_okI [OF rel' _ _ new]) (use rel in \<open>auto simp: abs_new_node_def queue_rel_def readiness_node_new_def\<close>)
  moreover have "ri_node h' \<noteq> ri_node ?h" if h': "handle_ok q h'" for h'
  proof -
    obtain n nd where "ri_node h' = Node n" "aq_nodes a n = Some nd" using handle_ok_abs [OF rel h'] by metis
    then show ?thesis using old by auto
  qed
  ultimately show ?thesis using q' by (intro exI [of _ ?h] exI [of _ q']) (simp add: node_view_abs [OF rel'])
qed

lemma keeps_clone:
  assumes "queue_wf q" and "handle_ok q h" and "node_view q h = Some nd" and "ref_count nd AND NOT MAX_REFCOUNT = 0"
  shows "\<exists>q'. set_readiness_clone q h = Some (h, q') \<and> keeps {ri_node h} q q' \<and>
    node_view q' h = Some (nd\<lparr>ref_count := ref_count nd + 1\<rparr>)"
proof -
  obtain a where rel: "queue_rel q a" and wf: "abs_wf a" using assms(1) by (auto simp: queue_wf_def)
  obtain n where n: "ri_node h = Node n" "aq_nodes a n = Some nd" "ref_count nd \<noteq> 0"
    using handle_ok_abs [OF rel assms(2)] assms(3) by (metis node_view_abs [OF rel] option.inject)
  note clone = abs_wf_clone [OF wf n(2,3) assms(4)]
  obtain q' where q': "inner_clone q h = Some (h, q')"
    "queue_rel q' (a\<lparr>aq_nodes := (aq_nodes a)(n \<mapsto> nd\<lparr>ref_count := ref_count nd + 1\<rparr>)\<rparr>)"
    using clone_rel [OF rel n(1)] clone(1) by (auto simp: rel_option_Some2)
  have "keeps {ri_node h} q q'"
    by (rule keepsI [OF rel q'(2) clone(2)]) (use clone(3) n in auto)
  then show ?thesis using q' by (simp add: set_readiness_clone_def node_view_abs [OF q'(2) n(1)])
qed

lemma keeps_awakener: "queue_wf q \<Longrightarrow> keeps S q (q\<lparr>awakener := w\<rparr>)"
  using queue_rel_awakener abs_wf_awakener
  by (fastforce simp: keeps_def frames_def queue_wf_def awake_def handle_ok_def node_view_def ready_ref_as_ref_def split: node_ptr.splits)

section \<open>The interface\<close>

datatype poll_call = Register token ready poll_opt | Reregister token ready poll_opt | Deregister

definition poll_call_run ::
  "(token \<Rightarrow> ready \<Rightarrow> poll_opt \<Rightarrow> 'st \<Rightarrow> (unit io_result \<times> 'st) option) \<Rightarrow>
     (token \<Rightarrow> ready \<Rightarrow> poll_opt \<Rightarrow> 'st \<Rightarrow> (unit io_result \<times> 'st) option) \<Rightarrow> ('st \<Rightarrow> (unit io_result \<times> 'st) option) \<Rightarrow>
     poll_call \<Rightarrow> 'st \<Rightarrow> (unit io_result \<times> 'st) option" where
  "poll_call_run reg rereg dereg c st =
     (case c of
        Register t i p \<Rightarrow> poll_register reg t i p st
      | Reregister t i p \<Rightarrow> poll_reregister rereg t i p st
      | Deregister \<Rightarrow> poll_deregister dereg st)"

text \<open>A sequence of calls, with their results.\<close>

primrec poll_calls ::
  "(token \<Rightarrow> ready \<Rightarrow> poll_opt \<Rightarrow> 'st \<Rightarrow> (unit io_result \<times> 'st) option) \<Rightarrow>
     (token \<Rightarrow> ready \<Rightarrow> poll_opt \<Rightarrow> 'st \<Rightarrow> (unit io_result \<times> 'st) option) \<Rightarrow> ('st \<Rightarrow> (unit io_result \<times> 'st) option) \<Rightarrow>
     poll_call list \<Rightarrow> 'st \<Rightarrow> (unit io_result list \<times> 'st) option" where
  "poll_calls reg rereg dereg [] st = Some ([], st)"
| "poll_calls reg rereg dereg (c # cs) st =
     Option.bind (poll_call_run reg rereg dereg c st) (\<lambda>(r, st1).
       map_option (\<lambda>(rs, st2). (r # rs, st2)) (poll_calls reg rereg dereg cs st1))"

text \<open>Which calls succeed, given whether the value is registered: the arguments must be valid, a value is
  registered once and for all, and the other calls need a registered value.\<close>

definition valid_args :: "token \<Rightarrow> ready \<Rightarrow> bool" where
  "valid_args t i \<longleftrightarrow> validate_args t i = Inr ()"

fun call_outcomes :: "bool \<Rightarrow> poll_call list \<Rightarrow> bool list" where
  "call_outcomes b [] = []"
| "call_outcomes b (Register t i p # cs) = (valid_args t i \<and> \<not> b) # call_outcomes (b \<or> valid_args t i) cs"
| "call_outcomes b (Reregister t i p # cs) = (valid_args t i \<and> b) # call_outcomes b cs"
| "call_outcomes b (Deregister # cs) = b # call_outcomes b cs"

locale evented =
  fixes reg :: "token \<Rightarrow> ready \<Rightarrow> poll_opt \<Rightarrow> 'st \<Rightarrow> (unit io_result \<times> 'st) option"
    and rereg :: "token \<Rightarrow> ready \<Rightarrow> poll_opt \<Rightarrow> 'st \<Rightarrow> (unit io_result \<times> 'st) option"
    and dereg :: "'st \<Rightarrow> (unit io_result \<times> 'st) option"
    and ok :: "'st \<Rightarrow> bool" and registered :: "'st \<Rightarrow> bool"
  assumes reg_new: "ok st \<Longrightarrow> \<not> registered st \<Longrightarrow> \<exists>st'. reg t i p st = Some (Inr (), st') \<and> ok st' \<and> registered st'"
    and reg_twice: "registered st \<Longrightarrow> \<exists>e. reg t i p st = Some (Inl e, st)"
    and rereg_ok: "ok st \<Longrightarrow> registered st \<Longrightarrow> \<exists>st'. rereg t i p st = Some (Inr (), st') \<and> ok st' \<and> registered st'"
    and rereg_unknown: "\<not> registered st \<Longrightarrow> \<exists>e. rereg t i p st = Some (Inl e, st)"
    and dereg_ok: "ok st \<Longrightarrow> registered st \<Longrightarrow> \<exists>st'. dereg st = Some (Inr (), st') \<and> ok st' \<and> registered st'"
    and dereg_unknown: "\<not> registered st \<Longrightarrow> \<exists>e. dereg st = Some (Inl e, st)"
begin

lemma call_ok:
  assumes "ok st"
  shows "\<exists>r st'. poll_call_run reg rereg dereg c st = Some (r, st') \<and> ok st' \<and>
    call_outcomes (registered st) (c # cs) = (\<not> isl r) # call_outcomes (registered st') cs"
proof (cases c)
  case (Register t i p)
  show ?thesis
  proof (cases "validate_args t i")
    case (Inr u)
    then show ?thesis
      using Register assms reg_new [OF assms, of t i p] reg_twice [of st t i p]
      by (cases "registered st") (auto simp: poll_call_run_def poll_register_def valid_args_def)
  qed (use Register assms in \<open>auto simp: poll_call_run_def poll_register_def valid_args_def\<close>)
next
  case (Reregister t i p)
  show ?thesis
  proof (cases "validate_args t i")
    case (Inr u)
    then show ?thesis
      using Reregister assms rereg_ok [OF assms, of t i p] rereg_unknown [of st t i p]
      by (cases "registered st") (auto simp: poll_call_run_def poll_reregister_def valid_args_def)
  qed (use Reregister assms in \<open>auto simp: poll_call_run_def poll_reregister_def valid_args_def\<close>)
next
  case Deregister
  then show ?thesis
    using assms dereg_ok [OF assms] dereg_unknown [of st]
    by (cases "registered st") (auto simp: poll_call_run_def poll_deregister_def)
qed

lemma calls_ok:
  "ok st \<Longrightarrow> \<exists>rs st'. poll_calls reg rereg dereg cs st = Some (rs, st') \<and> ok st' \<and>
     map (\<lambda>r. \<not> isl r) rs = call_outcomes (registered st) cs"
proof (induction cs arbitrary: st)
  case (Cons c cs)
  obtain r st1 where c: "poll_call_run reg rereg dereg c st = Some (r, st1)" "ok st1"
    "call_outcomes (registered st) (c # cs) = (\<not> isl r) # call_outcomes (registered st1) cs"
    using call_ok [OF Cons.prems, of c cs] by blast
  show ?case using Cons.IH [OF c(2)] c by auto
qed simp

end

section \<open>The receiver of a channel\<close>

definition chan_reg ::
  "('c, registration_inner) lazycell_ops \<Rightarrow> ('r, registration_inner) lazycell_ops \<Rightarrow> ('w \<Rightarrow> unit io_result \<times> 'w) \<Rightarrow>
     token \<Rightarrow> ready \<Rightarrow> poll_opt \<Rightarrow> ('a, 'c, 'r) channel \<times> 'w readiness_queue \<Rightarrow>
     (unit io_result \<times> ('a, 'c, 'r) channel \<times> 'w readiness_queue) option" where
  "chan_reg ls lr wake t i p st = receiver_register ls lr wake t i p (fst st) (snd st)"

definition chan_rereg ::
  "('r, registration_inner) lazycell_ops \<Rightarrow> token \<Rightarrow> ready \<Rightarrow> poll_opt \<Rightarrow> ('a, 'c, 'r) channel \<times> 'w readiness_queue \<Rightarrow>
     (unit io_result \<times> ('a, 'c, 'r) channel \<times> 'w readiness_queue) option" where
  "chan_rereg lr t i p st = map_option (\<lambda>(r, q). (r, fst st, q)) (receiver_reregister lr t i p (fst st) (snd st))"

definition chan_dereg ::
  "('r, registration_inner) lazycell_ops \<Rightarrow> ('a, 'c, 'r) channel \<times> 'w readiness_queue \<Rightarrow>
     (unit io_result \<times> ('a, 'c, 'r) channel \<times> 'w readiness_queue) option" where
  "chan_dereg lr st = map_option (\<lambda>(r, q). (r, fst st, q)) (receiver_deregister lr (fst st) (snd st))"

definition chan_registered ::
  "('r, registration_inner) lazycell_ops \<Rightarrow> ('a, 'c, 'r) channel \<times> 'w readiness_queue \<Rightarrow> bool" where
  "chan_registered lr st \<longleftrightarrow> lazy_borrow lr (ch_registration (fst st)) \<noteq> None"

text \<open>A channel with its queue: the cells are both empty, or hold the same live handle.\<close>

definition chan_state_ok ::
  "('c, registration_inner) lazycell_ops \<Rightarrow> ('r, registration_inner) lazycell_ops \<Rightarrow>
     ('a, 'c, 'r) channel \<times> 'w readiness_queue \<Rightarrow> bool" where
  "chan_state_ok ls lr st \<longleftrightarrow> lazycell_laws ls \<and> lazycell_laws lr \<and> queue_wf (snd st) \<and> awake (snd st) \<and> count_ok (fst st) \<and>
     lazy_borrow ls (ch_set_readiness (ch_inner (fst st))) = lazy_borrow lr (ch_registration (fst st)) \<and>
     (\<forall>h. lazy_borrow lr (ch_registration (fst st)) = Some h \<longrightarrow> handle_ok (snd st) h)"

lemma receiver_register_new:
  assumes lc: "lazycell_laws ls" "lazycell_laws lr" and wf: "queue_wf q" and cnt: "count_ok c"
    and none: "lazy_borrow ls (ch_set_readiness (ch_inner c)) = None" "lazy_borrow lr (ch_registration c) = None"
  shows "\<exists>h c' q'. receiver_register ls lr wake t i p c q = Some (Inr (), c', q') \<and> keeps {} q q' \<and> handle_ok q' h \<and>
    (\<forall>h'. handle_ok q h' \<longrightarrow> ri_node h' \<noteq> ri_node h) \<and> chan_ok ls h c' q' \<and> lazy_borrow lr (ch_registration c') = Some h \<and>
    ch_mpsc c' = ch_mpsc c \<and> closed c' = closed c \<and>
    (ch_pending (ch_inner c) = 0 \<longrightarrow> node_view q' h = Some (readiness_node_new t i p 2))"
proof -
  obtain h q1 where q1: "registration_new wake q t i p = Some ((h, h), q1)" "keeps {} q q1" "handle_ok q1 h"
    "node_view q1 h = Some (readiness_node_new t i p 2)" "\<forall>h'. handle_ok q h' \<longrightarrow> ri_node h' \<noteq> ri_node h"
    using keeps_new [OF wf] by blast
  have none1: "inner_readiness q1 h = Some ready_none"
    using q1(4) by (simp add: inner_readiness_view readiness_node_new_def event_from_usize_def ready_none_def)
  obtain rc sc where rc: "lazy_fill lr (ch_registration c) h = Some rc" "lazy_borrow lr rc = Some h"
    and sc: "lazy_fill ls (ch_set_readiness (ch_inner c)) h = Some sc" "lazy_borrow ls sc = Some h"
    using lazy_fill_empty [OF lc(1) none(1)] lazy_fill_empty [OF lc(2) none(2)] by metis
  let ?b = "0 < ch_pending (ch_inner c)"
  obtain res q2 where q2: "(if ?b then inner_set_readiness wake q1 h ready_readable else Some (Inr (), q1)) = Some (res, q2)"
    "keeps {ri_node h} q1 q2" "inner_readiness q2 h = Some (if ?b then ready_readable else ready_none)"
    using keeps_set_readiness [OF keepsD(1) [OF q1(2)] q1(3) ready_not_drop(1), of wake] keeps_refl [OF keepsD(1) [OF q1(2)]] none1
    by (cases ?b) auto
  have keep: "keeps {} q q2"
    using q1(2,5) q2(2) by (auto simp: keeps_def frames_def)
  then show ?thesis
    using q1(1,4,5) q2(1,3) keepsD(1,3) [OF q2(2)] q1(3) rc sc none cnt count_pos(3) [OF cnt]
    by (intro exI [of _ h] exI [of _ "c\<lparr>ch_registration := rc, ch_inner := (ch_inner c)\<lparr>ch_set_readiness := sc\<rparr>\<rparr>"] exI [of _ q2])
      (auto simp: receiver_register_def ctl_register_def chan_ok_def count_ok_def closed_def)
qed

interpretation ce: evented
  "chan_reg ls lr wake :: token \<Rightarrow> ready \<Rightarrow> poll_opt \<Rightarrow> ('m, 'c, 'r) channel \<times> 'w readiness_queue \<Rightarrow> _" "chan_rereg lr" "chan_dereg lr" "chan_state_ok ls lr" "chan_registered lr"
  for ls :: "('c, registration_inner) lazycell_ops" and lr :: "('r, registration_inner) lazycell_ops"
    and wake :: "'w \<Rightarrow> unit io_result \<times> 'w"
proof unfold_locales
  fix st :: "('m, 'c, 'r) channel \<times> 'w readiness_queue" and t i p
  assume ok: "chan_state_ok ls lr st"
  {
    assume "\<not> chan_registered lr st"
    then show "\<exists>st'. chan_reg ls lr wake t i p st = Some (Inr (), st') \<and> chan_state_ok ls lr st' \<and> chan_registered lr st'"
      using receiver_register_new [of ls lr "snd st" "fst st" wake t i p] ok
      by (fastforce simp: chan_state_ok_def chan_registered_def chan_reg_def chan_ok_def dest: keepsD)
  next
    assume "chan_registered lr st"
    then obtain h where h: "lazy_borrow lr (ch_registration (fst st)) = Some h" "handle_ok (snd st) h"
      using ok by (auto simp: chan_registered_def chan_state_ok_def)
    have upd: "\<exists>q'. inner_update (snd st) h t i p = Some (Inr (), q') \<and> chan_state_ok ls lr (fst st, q') \<and> chan_registered lr (fst st, q')"
      for t i p using keeps_update [of "snd st" h t i p] ok h
      by (fastforce simp: chan_state_ok_def chan_registered_def dest: keepsD)
    show "\<exists>st'. chan_rereg lr t i p st = Some (Inr (), st') \<and> chan_state_ok ls lr st' \<and> chan_registered lr st'"
      using upd [of t i p] h(1) by (auto simp: chan_rereg_def receiver_reregister_def ctl_reregister_def registration_update_def)
    show "\<exists>st'. chan_dereg lr st = Some (Inr (), st') \<and> chan_state_ok ls lr st' \<and> chan_registered lr st'"
      using upd [of "Token 0" ready_none pollopt_empty] h(1)
      by (auto simp: chan_dereg_def receiver_deregister_def ctl_deregister_def registration_deregister_def)
  }
qed (auto simp: chan_registered_def chan_reg_def chan_rereg_def chan_dereg_def receiver_register_def receiver_reregister_def
    receiver_deregister_def ctl_register_def ctl_reregister_def ctl_deregister_def)

section \<open>The timer\<close>

lemma timer_wf_inner [simp]: "timer_wf v (t\<lparr>tm_inner := x\<rparr>) \<longleftrightarrow> timer_wf v t"
  by (simp add: timer_wf_def timer_inv_def wheel_ok_def cursor_ok_def bounds_ok_def pending_def slot_for_def)

lemma timer_next_tick_total:
  assumes laws: "slab_laws sl v EMPTY" and wf: "timer_wf v t"
  shows "\<exists>nt. timer_next_tick sl t = Some nt"
proof -
  obtain L post where ok: "wheel_ok v t L" and cur: "cursor_ok v t L post"
    using wf by (auto simp: timer_wf_def timer_inv_def)
  show ?thesis
  proof (cases "tm_next t = EMPTY")
    case False
    then obtain k ps where post: "post = k # ps" "tm_next t = k"
      using cur by (cases post) (auto simp: cursor_ok_def)
    have "k \<in> set (L (slot_for t (tm_tick t)))" using cur post by (auto simp: cursor_ok_def)
    then obtain e where "ents v t k = Some e"
      using wheel_okD(4) [OF ok] by (fastforce simp: pending_def)
    then have "get_links sl t k = Some (te_links e)"
      using slab_lawsD(1) [OF laws wheel_okD(1) [OF ok]] by (simp add: get_links_def)
    then show ?thesis
      using post slot_for_less [OF ok] by (auto simp: timer_next_tick_def)
  qed (simp add: timer_next_tick_def)
qed

definition tm_reg ::
  "('s, token, 'a timer_entry) slab_ops \<Rightarrow> ('c, timer_inner) lazycell_ops \<Rightarrow> ('w \<Rightarrow> unit io_result \<times> 'w) \<Rightarrow>
     token \<Rightarrow> ready \<Rightarrow> poll_opt \<Rightarrow> ('s, 'c) timer \<times> 'w timer_world \<Rightarrow>
     (unit io_result \<times> ('s, 'c) timer \<times> 'w timer_world) option" where
  "tm_reg sl lc wake t i p st = timer_register sl lc wake t i p (fst st) (snd st)"

definition tm_rereg ::
  "('c, timer_inner) lazycell_ops \<Rightarrow> token \<Rightarrow> ready \<Rightarrow> poll_opt \<Rightarrow> ('s, 'c) timer \<times> 'w timer_world \<Rightarrow>
     (unit io_result \<times> ('s, 'c) timer \<times> 'w timer_world) option" where
  "tm_rereg lc t i p st = map_option (\<lambda>(r, wd). (r, fst st, wd)) (timer_reregister lc t i p (fst st) (snd st))"

definition tm_dereg ::
  "('c, timer_inner) lazycell_ops \<Rightarrow> ('s, 'c) timer \<times> 'w timer_world \<Rightarrow>
     (unit io_result \<times> ('s, 'c) timer \<times> 'w timer_world) option" where
  "tm_dereg lc st = map_option (\<lambda>(r, wd). (r, fst st, wd)) (timer_deregister lc (fst st) (snd st))"

definition tm_state_ok ::
  "('s, token, 'a timer_entry) slab_ops \<Rightarrow> ('s, token, 'a timer_entry) slab_view \<Rightarrow> ('c, timer_inner) lazycell_ops \<Rightarrow>
     ('s, 'c) timer \<times> 'w timer_world \<Rightarrow> bool" where
  "tm_state_ok sl v lc st \<longleftrightarrow> lazycell_laws lc \<and> slab_laws sl v EMPTY \<and> timer_wf v (fst st) \<and>
     queue_wf (tw_queue (snd st)) \<and> awake (tw_queue (snd st)) \<and>
     (\<forall>inner. lazy_borrow lc (tm_inner (fst st)) = Some inner \<longrightarrow>
        handle_ok (tw_queue (snd st)) (ti_registration inner) \<and> handle_ok (tw_queue (snd st)) (ti_set_readiness inner))"

lemma timer_register_new:
  assumes lc: "lazycell_laws lc" and laws: "slab_laws sl v EMPTY" and wf: "timer_wf v tm" "queue_wf (tw_queue wd)"
    and none: "lazy_borrow lc (tm_inner tm) = None"
  shows "\<exists>h c wd'. timer_register sl lc wake t i p tm wd = Some (Inr (), tm\<lparr>tm_inner := c\<rparr>, wd') \<and>
    lazy_borrow lc c = Some \<lparr>ti_registration = h, ti_set_readiness = h\<rparr> \<and> handle_ok (tw_queue wd') h \<and>
    keeps {} (tw_queue wd) (tw_queue wd') \<and> (\<forall>h'. handle_ok (tw_queue wd) h' \<longrightarrow> ri_node h' \<noteq> ri_node h) \<and>
    tw_thread wd' = Some WRead"
proof -
  obtain h q1 where q1: "registration_new wake (tw_queue wd) t i p = Some ((h, h), q1)" "keeps {} (tw_queue wd) q1"
    "handle_ok q1 h" "node_view q1 h = Some (readiness_node_new t i p 2)"
    "\<forall>h'. handle_ok (tw_queue wd) h' \<longrightarrow> ri_node h' \<noteq> ri_node h"
    using keeps_new [OF wf(2)] by blast
  have "ref_count (readiness_node_new t i p 2) AND NOT MAX_REFCOUNT = 0"
    by (simp add: readiness_node_new_def MAX_REFCOUNT_def)
  then obtain q2 where q2: "set_readiness_clone q1 h = Some (h, q2)" "keeps {ri_node h} q1 q2"
    using keeps_clone [OF keepsD(1) [OF q1(2)] q1(3,4)] by blast
  obtain c where c: "lazy_fill lc (tm_inner tm) \<lparr>ti_registration = h, ti_set_readiness = h\<rparr> = Some c"
    "lazy_borrow lc c = Some \<lparr>ti_registration = h, ti_set_readiness = h\<rparr>"
    using lazy_fill_empty [OF lc none] by blast
  obtain nt where nt: "timer_next_tick sl (tm\<lparr>tm_inner := c\<rparr>) = Some nt"
    using timer_next_tick_total [OF laws, of "tm\<lparr>tm_inner := c\<rparr>"] wf(1) by auto
  have "keeps {} (tw_queue wd) q2" using q1(2,5) q2(2) by (auto simp: keeps_def frames_def)
  then show ?thesis
    using q1(1,5) q2(1) c nt none keepsD(3) [OF q2(2) q1(3)]
    by (intro exI [of _ h] exI [of _ c]) (cases nt; simp add: timer_register_def Let_def)
qed

interpretation te: evented
  "tm_reg sl lc wake :: token \<Rightarrow> ready \<Rightarrow> poll_opt \<Rightarrow> ('s, 'c) timer \<times> 'w timer_world \<Rightarrow> _" "tm_rereg lc" "tm_dereg lc"
  "tm_state_ok sl v lc" "\<lambda>st. registered lc (fst st)"
  for sl :: "('s, token, 'a timer_entry) slab_ops" and v :: "('s, token, 'a timer_entry) slab_view"
    and lc :: "('c, timer_inner) lazycell_ops" and wake :: "'w \<Rightarrow> unit io_result \<times> 'w"
proof unfold_locales
  fix st :: "('s, 'c) timer \<times> 'w timer_world" and t i p
  assume ok: "tm_state_ok sl v lc st"
  {
    assume "\<not> registered lc (fst st)"
    then show "\<exists>st'. tm_reg sl lc wake t i p st = Some (Inr (), st') \<and> tm_state_ok sl v lc st' \<and> registered lc (fst st')"
      using timer_register_new [of lc sl v "fst st" "snd st" wake t i p] ok
      by (fastforce simp: tm_state_ok_def registered_def tm_reg_def dest: keepsD)
  next
    assume "registered lc (fst st)"
    then obtain inner where h: "lazy_borrow lc (tm_inner (fst st)) = Some inner"
      "handle_ok (tw_queue (snd st)) (ti_registration inner)" "handle_ok (tw_queue (snd st)) (ti_set_readiness inner)"
      using ok by (auto simp: registered_def tm_state_ok_def)
    have upd: "\<exists>q'. inner_update (tw_queue (snd st)) (ti_registration inner) t i p = Some (Inr (), q') \<and>
        tm_state_ok sl v lc (fst st, (snd st)\<lparr>tw_queue := q'\<rparr>)" for t i p
    proof -
      obtain q' where q': "inner_update (tw_queue (snd st)) (ti_registration inner) t i p = Some (Inr (), q')"
        "keeps {ri_node (ti_registration inner)} (tw_queue (snd st)) q'"
        using keeps_update [of "tw_queue (snd st)" "ti_registration inner" t i p] ok h(2) by (auto simp: tm_state_ok_def)
      then show ?thesis using ok h keepsD(1,2,3) [OF q'(2)] by (auto simp: tm_state_ok_def)
    qed
    show "\<exists>st'. tm_rereg lc t i p st = Some (Inr (), st') \<and> tm_state_ok sl v lc st' \<and> registered lc (fst st')"
      using upd [of t i p] h(1) by (auto simp: tm_rereg_def timer_reregister_def registration_update_def registered_def)
    show "\<exists>st'. tm_dereg lc st = Some (Inr (), st') \<and> tm_state_ok sl v lc st' \<and> registered lc (fst st')"
      using upd [of "Token 0" ready_none pollopt_empty] h(1)
      by (auto simp: tm_dereg_def timer_deregister_def registration_deregister_def registered_def)
  }
qed (auto simp: registered_def tm_reg_def tm_rereg_def tm_dereg_def timer_register_def timer_reregister_def timer_deregister_def)

section \<open>Properties\<close>


lemma timer_0_none: "lazy_borrow option_cell (tm_inner timer_0) = None"
  using timer_0_facts(5) by (simp add: option_cell_def)

lemma head_new [simp]: "head_readiness (readiness_queue_new qid w) = Null"
  by (simp add: readiness_queue_new_def)


end
