(* ===== verification/Mio_Loop_Spec.thy ===== *)
theory Mio_Loop_Spec
  imports Mio_Evented
begin

text \<open>
  The invariant of the event loop and the lemmas about the parts of a tick.  \<open>loop_base\<close> says that the loop's
  channel is registered and its readiness is in step with its messages; \<open>loop_armed\<close> adds that the registration
  is enabled, and queued if there is something to receive.  Construction establishes it, the operations keep it,
  and within a tick it is lost only between the delivery of the notification event and its handling.
\<close>

section \<open>The invariant\<close>

definition notify_armed :: "'w readiness_queue \<Rightarrow> registration_inner \<Rightarrow> bool" where
  "notify_armed q h \<longleftrightarrow> (\<exists>nd. node_view q h = Some nd \<and> node_token nd = NOTIFY \<and> node_interest nd = ready_readable \<and>
     node_poll_opts nd = pollopt_bitor pollopt_edge pollopt_oneshot \<and>
     (event_is_empty (event_from_usize (node_events nd)) \<or> node_queued nd \<noteq> 0))"

definition loop_queue ::
  "('s, 'a, 'e, 'o, 'sl, 'tc, 'm, 'cc, 'cr) event_loop \<Rightarrow> ('a \<times> 'o) readiness_queue" where
  "loop_queue el = pl_queue (el_poll el)"

definition loop_base ::
  "('s, 'a, 'e, 'o, 'sl, 'tc, 't, 'cc, 'cr) loop_env \<Rightarrow> registration_inner \<Rightarrow>
     ('s, 'a, 'e, 'o, 'sl, 'tc, 'm, 'cc, 'cr) event_loop \<Rightarrow> bool" where
  "loop_base env h el \<longleftrightarrow> chan_ok (en_ctl_cell env) h (el_notify el) (loop_queue el) \<and>
     lazy_borrow (en_reg_cell env) (ch_registration (el_notify el)) = Some h \<and>
     (\<forall>inner. lazy_borrow (en_timer_cell env) (tm_inner (el_timer el)) = Some inner \<longrightarrow>
        handle_ok (loop_queue el) (ti_set_readiness inner) \<and> ri_node (ti_set_readiness inner) \<noteq> ri_node h)"

definition loop_armed ::
  "('s, 'a, 'e, 'o, 'sl, 'tc, 't, 'cc, 'cr) loop_env \<Rightarrow> registration_inner \<Rightarrow>
     ('s, 'a, 'e, 'o, 'sl, 'tc, 'm, 'cc, 'cr) event_loop \<Rightarrow> bool" where
  "loop_armed env h el \<longleftrightarrow> loop_base env h el \<and> notify_armed (loop_queue el) h"

text \<open>A part of a tick keeps the invariant in either form and does not touch the polled events.\<close>

definition loop_keeps ::
  "('s, 'a, 'e, 'o, 'sl, 'tc, 't, 'cc, 'cr) loop_env \<Rightarrow> registration_inner \<Rightarrow>
     ('s, 'a, 'e, 'o, 'sl, 'tc, 'm, 'cc, 'cr) event_loop \<Rightarrow> ('s, 'a, 'e, 'o, 'sl, 'tc, 'm, 'cc, 'cr) event_loop \<Rightarrow> bool" where
  "loop_keeps env h el el' \<longleftrightarrow> el_events el' = el_events el \<and>
     (loop_base env h el \<longrightarrow> loop_base env h el') \<and> (loop_armed env h el \<longrightarrow> loop_armed env h el')"

lemma loop_keeps_refl: "loop_keeps env h el el"
  by (simp add: loop_keeps_def)

lemma loop_keeps_trans: "loop_keeps env h el el1 \<Longrightarrow> loop_keeps env h el1 el2 \<Longrightarrow> loop_keeps env h el el2"
  by (simp add: loop_keeps_def)

text \<open>The handler of the user does the same.\<close>

definition handler_keeps ::
  "('s, 'a, 'e, 'o, 'sl, 'tc, 't, 'cc, 'cr) loop_env \<Rightarrow> registration_inner \<Rightarrow>
     ('h, ('s, 'a, 'e, 'o, 'sl, 'tc, 'm, 'cc, 'cr) event_loop, 't, 'm) handler \<Rightarrow> bool" where
  "handler_keeps env h hdl \<longleftrightarrow> (\<forall>hs el hs' el'.
     (\<exists>t r. hd_ready hdl hs el t r = Some (hs', el')) \<or> (\<exists>m. hd_notify hdl hs el m = Some (hs', el')) \<or>
     (\<exists>x. hd_timeout hdl hs el x = Some (hs', el')) \<or> hd_interrupted hdl hs el = Some (hs', el') \<or>
     hd_tick hdl hs el = Some (hs', el') \<longrightarrow> loop_keeps env h el el')"

lemma handler_keepsD:
  assumes "handler_keeps env h hdl"
  shows "hd_ready hdl hs el t r = Some (hs', el') \<Longrightarrow> loop_keeps env h el el'"
    and "hd_notify hdl hs el m = Some (hs', el') \<Longrightarrow> loop_keeps env h el el'"
    and "hd_timeout hdl hs el x = Some (hs', el') \<Longrightarrow> loop_keeps env h el el'"
    and "hd_interrupted hdl hs el = Some (hs', el') \<Longrightarrow> loop_keeps env h el el'"
    and "hd_tick hdl hs el = Some (hs', el') \<Longrightarrow> loop_keeps env h el el'"
  using assms unfolding handler_keeps_def by blast+

section \<open>Parts of a tick\<close>

lemma loop_queue_upd [simp]:
  "loop_queue (with_channel c q el) = q" "loop_queue (with_timer t wd el) = tw_queue wd"
  "loop_queue (el\<lparr>el_run := b\<rparr>) = loop_queue el" "loop_queue (el\<lparr>el_timer := t\<rparr>) = loop_queue el"
  "loop_queue (el\<lparr>el_notify := c\<rparr>) = loop_queue el" "loop_queue (el\<lparr>el_events := es\<rparr>) = loop_queue el"
  "loop_queue (el\<lparr>el_poll := p\<rparr>) = pl_queue p"
  by (simp_all add: loop_queue_def with_channel_def with_timer_def)

lemma with_channel_fields [simp]:
  "el_notify (with_channel c q el) = c" "el_timer (with_channel c q el) = el_timer el"
  "el_events (with_channel c q el) = el_events el" "el_config (with_channel c q el) = el_config el"
  "el_run (with_channel c q el) = el_run el"
  by (simp_all add: with_channel_def)

lemma with_timer_fields [simp]:
  "el_notify (with_timer t wd el) = el_notify el" "el_timer (with_timer t wd el) = t"
  "el_events (with_timer t wd el) = el_events el" "el_config (with_timer t wd el) = el_config el"
  "loop_world (with_timer t wd el) = wd"
  by (simp_all add: with_timer_def loop_world_def)

text \<open>Changes of the queue that leave the channel's node alone.\<close>

lemma loop_base_frames:
  assumes base: "loop_base env h el" and fr: "frames S (loop_queue el) (loop_queue el')" "ri_node h \<notin> S"
    and same: "el_notify el' = el_notify el" "tm_inner (el_timer el') = tm_inner (el_timer el)"
  shows "loop_base env h el'" and "notify_armed (loop_queue el') h \<longleftrightarrow> notify_armed (loop_queue el) h"
proof -
  have h: "handle_ok (loop_queue el) h" using base by (simp add: loop_base_def chan_ok_def)
  show "loop_base env h el'"
    using base framesD(1,2) [OF fr(1)] framesD(4) [OF fr(1) h fr(2)] unfolding loop_base_def chan_ok_def same by auto
  show "notify_armed (loop_queue el') h \<longleftrightarrow> notify_armed (loop_queue el) h"
    using framesD(3) [OF fr(1) h fr(2)] by (simp add: notify_armed_def)
qed

lemma loop_keepsI:
  assumes "loop_base env h el \<Longrightarrow> \<exists>S. frames S (loop_queue el) (loop_queue el') \<and> ri_node h \<notin> S"
    and "el_notify el' = el_notify el" "tm_inner (el_timer el') = tm_inner (el_timer el)" "el_events el' = el_events el"
  shows "loop_keeps env h el el'"
  using loop_base_frames [of env h el] assms unfolding loop_keeps_def loop_armed_def by metis

lemma wheel_fields:
  "update_wheel s f t = Some t' \<Longrightarrow> tm_inner t' = tm_inner t"
  "update_links sl g k t = Some t' \<Longrightarrow> tm_inner t' = tm_inner t"
  by (auto simp: update_wheel_def update_links_def Option.bind_eq_Some_conv)

lemma unlink_fields: "timer_unlink sl links k t = Some t' \<Longrightarrow> tm_inner t' = tm_inner t"
  by (auto simp: timer_unlink_def Option.bind_eq_Some_conv Let_def dest!: wheel_fields split: if_splits)

lemma poll_to_loop_inner:
  assumes "poll_to_loop sl target t = Some res"
  shows "tm_inner (snd res) = tm_inner t"
proof (rule poll_to_loop.raw_induct [OF _ assms], goal_cases)
  case (1 loop sl target t res)
  show ?case
    using 1(2) by (auto simp: Option.bind_eq_Some_conv split: if_splits dest: 1(1) dest!: wheel_fields unlink_fields)
qed

text \<open>What a poll of the timer does to the queue.\<close>

lemma poll_to_frames:
  assumes poll: "poll_to sl lc wake target t wd = Some (r, t', wd')"
  shows "tm_inner t' = tm_inner t"
    and "tw_queue wd' = tw_queue wd \<or> (\<exists>inner e. lazy_borrow lc (tm_inner t) = Some inner \<and>
      inner_set_readiness wake (tw_queue wd) (ti_set_readiness inner) ready_none = Some (e, tw_queue wd'))"
proof -
  obtain res t1 where loop: "poll_to_loop sl (if target < tm_tick t then tm_tick t else target) t = Some (res, t1)"
    using poll by (auto simp: poll_to_def Option.bind_eq_Some_conv)
  have inner: "tm_inner t1 = tm_inner t" using poll_to_loop_inner [OF loop] by simp
  then show "tm_inner t' = tm_inner t"
    using poll loop by (cases res) (auto simp: poll_to_def Let_def Option.bind_eq_Some_conv split: option.splits)
  show "tw_queue wd' = tw_queue wd \<or> (\<exists>inner e. lazy_borrow lc (tm_inner t) = Some inner \<and>
      inner_set_readiness wake (tw_queue wd) (ti_set_readiness inner) ready_none = Some (e, tw_queue wd'))"
    using poll loop inner
    by (cases res; cases "lazy_borrow lc (tm_inner t)")
      (auto simp: poll_to_def Let_def Option.bind_eq_Some_conv split: option.splits)
qed

lemma read_clock_frames: "queue_wf q \<Longrightarrow> read_clock env q = (now, q') \<Longrightarrow> frames S q q'"
  using keepsD(4) [OF keeps_awakener] by (auto simp: read_clock_def split: prod.splits)

lemma frames_trans: "frames S q q' \<Longrightarrow> frames S q' q'' \<Longrightarrow> frames S q q''"
  by (simp add: frames_def)

lemma timer_poll_keeps:
  assumes "loop_timer_poll env el = Some (r, el')"
  shows "loop_keeps env h el el'"
proof -
  let ?wake = "sys_wakeup (en_sys env)"
  obtain now q0 where clk: "read_clock env (loop_queue el) = (now, q0)" by (metis prod.exhaust)
  obtain target t wd where poll: "poll_to (en_slab env) (en_timer_cell env) ?wake target (el_timer el)
      ((loop_world el)\<lparr>tw_queue := q0\<rparr>) = Some (r, t, wd)" and el': "el' = with_timer t wd el"
    using assms clk by (auto simp: loop_timer_poll_def loop_queue_def timer_poll_def Option.bind_eq_Some_conv)
  show ?thesis
  proof (rule loop_keepsI)
    assume base: "loop_base env h el"
    have wf: "queue_wf (loop_queue el)" using base by (simp add: loop_base_def chan_ok_def)
    have f0: "frames S (loop_queue el) q0" for S by (rule read_clock_frames [OF wf clk])
    show "\<exists>S. frames S (loop_queue el) (loop_queue el') \<and> ri_node h \<notin> S"
      using poll_to_frames(2) [OF poll]
    proof (elim disjE exE conjE)
      fix inner e
      assume b: "lazy_borrow (en_timer_cell env) (tm_inner (el_timer el)) = Some inner"
        "inner_set_readiness ?wake (tw_queue ((loop_world el)\<lparr>tw_queue := q0\<rparr>)) (ti_set_readiness inner) ready_none = Some (e, tw_queue wd)"
      have i: "handle_ok q0 (ti_set_readiness inner)" "ri_node (ti_set_readiness inner) \<noteq> ri_node h"
        using base b(1) framesD(2) [OF f0] by (auto simp: loop_base_def)
      then have "frames {ri_node (ti_set_readiness inner)} q0 (tw_queue wd)"
        using keeps_set_readiness [OF framesD(1) [OF f0] i(1) event_is_drop_simps(2), of ?wake] b(2) by (auto dest: keepsD)
      then have "frames {ri_node (ti_set_readiness inner)} (loop_queue el) (tw_queue wd)" by (rule frames_trans [OF f0])
      then show ?thesis using i(2) el' by auto
    qed (use f0 el' in auto)
  qed (use poll_to_frames(1) [OF poll] in \<open>simp_all add: el'\<close>)
qed

text \<open>What the channel does to the queue: it sets the readiness of its own node.\<close>

definition chan_moves :: "registration_inner \<Rightarrow> 'w readiness_queue \<Rightarrow> 'w readiness_queue \<Rightarrow> bool" where
  "chan_moves h q q' \<longleftrightarrow> keeps {ri_node h} q q' \<and> (notify_armed q h \<longrightarrow> notify_armed q' h)"

lemma chan_moves_refl: "queue_wf q \<Longrightarrow> chan_moves h q q"
  by (simp add: chan_moves_def keeps_refl)

lemma chan_moves_trans: "chan_moves h q q' \<Longrightarrow> chan_moves h q' q'' \<Longrightarrow> chan_moves h q q''"
  using keeps_trans by (auto simp: chan_moves_def)

lemma set_readiness_moves:
  assumes wf: "queue_wf q" "handle_ok q h" "\<not> event_is_drop r" and set: "inner_set_readiness wake q h r = Some (e, q')"
  shows "chan_moves h q q'"
proof -
  obtain a where rel: "queue_rel q a" and awf: "abs_wf a" using wf(1) by (auto simp: queue_wf_def)
  obtain n nd where n: "ri_node h = Node n" "aq_nodes a n = Some nd" "ref_count nd \<noteq> 0"
    using handle_ok_abs [OF rel wf(2)] .
  obtain res a' where a': "abs_set_readiness wake a n r = Some (res, a')" "abs_wf a'"
    using abs_wf_set_readiness [OF awf n(2) wf(3) n(3)] by blast
  have rel': "queue_rel q' a'"
    by (rule set_readiness_abs [OF rel awf n(1) a'(1)]) (use set in auto)
  have nd': "\<exists>nd'. aq_nodes a' n = Some nd' \<and> node_data nd' = node_data nd \<and> node_events nd' = event_as_usize r \<and>
      (event_is_empty r \<or> node_queued nd' \<noteq> 0)"
    using a'(1) by (auto simp: abs_set_readiness_eq [OF n(2)] abs_wakeup_def abs_marked_def split: if_splits prod.splits)
  have "keeps {ri_node h} q q'" using keeps_set_readiness [OF wf, of wake] set by auto
  then show ?thesis
    using nd' n(2) by (auto simp: chan_moves_def notify_armed_def node_view_abs [OF rel n(1)] node_view_abs [OF rel' n(1)]
        node_token_def node_interest_def node_poll_opts_def)
qed

lemma chan_movesD: "chan_moves h q q' \<Longrightarrow> queue_wf q'" "chan_moves h q q' \<Longrightarrow> handle_ok q h \<Longrightarrow> handle_ok q' h"
  by (auto simp: chan_moves_def dest: keepsD)

lemma toggle_moves:
  assumes "queue_wf q" "handle_ok q h" "lazy_borrow ls (ch_set_readiness i) = Some h" "\<not> event_is_drop r"
    "toggle_readiness ls wake r i q = Some (e, q')"
  shows "chan_moves h q q'"
  using assms set_readiness_moves [of q h r wake] by (auto simp: toggle_readiness_def)

lemma ctl_moves:
  assumes q: "queue_wf q" "handle_ok q h" "lazy_borrow ls (ch_set_readiness i) = Some h"
  shows "ctl_dec ls wake i q = Some (e, i', q') \<Longrightarrow> chan_moves h q q'"
    and "ctl_inc ls wake i q = Some (e, i', q') \<Longrightarrow> chan_moves h q q'"
proof -
  have b: "lazy_borrow ls (ch_set_readiness (i\<lparr>ch_pending := x\<rparr>)) = Some h" for x using q(3) by simp
  note tog = toggle_moves [OF _ _ q(3)] toggle_moves [OF _ _ b]
  assume dec: "ctl_dec ls wake i q = Some (e, i', q')"
  obtain r1 q1 where q1: "(if ch_pending i = 1 then toggle_readiness ls wake ready_none i q else Some (Inr (), q)) = Some (r1, q1)"
    using dec by (auto simp: ctl_dec_def Let_def Option.bind_eq_Some_conv split: if_splits)
  have m1: "chan_moves h q q1"
    using q1 tog(1) [OF q(1,2) event_is_drop_simps(2)] chan_moves_refl [OF q(1)] by (auto split: if_splits)
  have "chan_moves h q1 q'"
    using dec q1 tog(2) [OF chan_movesD(1) [OF m1] chan_movesD(2) [OF m1 q(2)] ready_not_drop(1)] chan_moves_refl [OF chan_movesD(1) [OF m1]]
    by (cases r1) (auto simp: ctl_dec_def Let_def Option.bind_eq_Some_conv split: if_splits)
  then show "chan_moves h q q'" using chan_moves_trans [OF m1] by simp
next
  have b: "lazy_borrow ls (ch_set_readiness (i\<lparr>ch_pending := x\<rparr>)) = Some h" for x using q(3) by simp
  assume "ctl_inc ls wake i q = Some (e, i', q')"
  then show "chan_moves h q q'"
    using toggle_moves [OF q(1,2) b ready_not_drop(1)] chan_moves_refl [OF q(1)]
    by (auto simp: ctl_inc_def Let_def Option.bind_eq_Some_conv split: if_splits)
qed

lemma loop_keeps_chan:
  assumes "loop_base env h el \<Longrightarrow> chan_ok (en_ctl_cell env) h c q \<and> ch_registration c = ch_registration (el_notify el) \<and>
      chan_moves h (loop_queue el) q"
  shows "loop_keeps env h el (with_channel c q el)"
proof -
  have "loop_base env h (with_channel c q el) \<and> (notify_armed (loop_queue el) h \<longrightarrow> notify_armed q h)" if b: "loop_base env h el"
    using b assms [OF b] by (auto simp: loop_base_def chan_moves_def dest: keepsD)
  then show ?thesis by (auto simp: loop_keeps_def loop_armed_def)
qed

lemma try_recv_cases:
  assumes ok: "chan_ok ls h c q"
  shows "case mp_messages (ch_mpsc c) of
      [] \<Rightarrow> \<exists>e. receiver_try_recv ls wake c q = Some (Inl e, c, q)
    | m # ms \<Rightarrow> \<exists>c' q'. receiver_try_recv ls wake c q = Some (Inr m, c', q') \<and> chan_ok ls h c' q' \<and>
        mp_messages (ch_mpsc c') = ms \<and> ch_registration c' = ch_registration c \<and> closed c' = closed c \<and> chan_moves h q q'"
proof (cases "mp_messages (ch_mpsc c)")
  case (Cons m ms)
  let ?m = "(ch_mpsc c)\<lparr>mp_messages := ms\<rparr>"
  obtain i q' where d: "ctl_dec ls wake (ch_inner c) q = Some (Inr (), i, q')" "chan_ok ls h (c\<lparr>ch_mpsc := ?m, ch_inner := i\<rparr>) q'"
    "i = (ch_inner c)\<lparr>ch_pending := ch_pending (ch_inner c) - 1\<rparr>"
    using ctl_dec_ok [OF ok, of m ?m wake] Cons by auto
  have "chan_moves h q q'" using ctl_moves(1) [OF _ _ _ d(1)] ok by (simp add: chan_ok_def)
  then show ?thesis using d Cons by (auto simp: receiver_try_recv_def mpsc_try_recv_def closed_def)
qed (simp add: receiver_try_recv_def mpsc_try_recv_def)

lemma notify_loop_keeps:
  assumes hk: "handler_keeps env h hdl"
  shows "loop_base env h el \<Longrightarrow> notify_loop env hdl n hs el = Some (hs', el') \<Longrightarrow> loop_keeps env h el el'"
proof (induction n arbitrary: hs el)
  case (Suc n)
  let ?r = "receiver_try_recv (en_ctl_cell env) (sys_wakeup (en_sys env)) (el_notify el) (loop_queue el)"
  have ok: "chan_ok (en_ctl_cell env) h (el_notify el) (loop_queue el)" using Suc.prems(1) by (simp add: loop_base_def)
  note cases = try_recv_cases [OF ok, of "sys_wakeup (en_sys env)"]
  show ?case
  proof (cases "mp_messages (ch_mpsc (el_notify el))")
    case Nil
    then have "el' = with_channel (el_notify el) (loop_queue el) el"
      using cases Suc.prems(2) by (auto simp: loop_queue_def)
    then show ?thesis by (simp add: with_channel_def loop_queue_def loop_keeps_refl)
  next
    case (Cons m ms)
    then obtain c q where r: "?r = Some (Inr m, c, q)" "chan_ok (en_ctl_cell env) h c q"
      "ch_registration c = ch_registration (el_notify el)" "chan_moves h (loop_queue el) q"
      using cases by auto
    then obtain hs1 el1 where n: "hd_notify hdl hs (with_channel c q el) m = Some (hs1, el1)"
      "notify_loop env hdl n hs1 el1 = Some (hs', el')"
      using Suc.prems(2) by (auto simp: loop_queue_def Option.bind_eq_Some_conv)
    have k: "loop_keeps env h el (with_channel c q el)" by (rule loop_keeps_chan) (use r in blast)
    have k1: "loop_keeps env h el el1" by (rule loop_keeps_trans [OF k handler_keepsD(2) [OF hk n(1)]])
    then have "loop_base env h el1" using Suc.prems(1) by (simp add: loop_keeps_def)
    then show ?thesis by (rule loop_keeps_trans [OF k1 Suc.IH [OF _ n(2)]])
  qed
qed (simp add: loop_keeps_refl)

lemma notify_valid: "validate_args NOTIFY ready_readable = Inr ()" "validate_args TIMER ready_readable = Inr ()"
  by code_simp+

text \<open>Registering again with the notification's arguments enables the node, and queues it if it is ready.\<close>

lemma rearm_armed:
  assumes base: "loop_base env h el" and re: "loop_rearm env el = Some el'"
  shows "loop_armed env h el'" and "el_events el' = el_events el" and "el_notify el' = el_notify el" and "el_config el' = el_config el"
proof -
  let ?p = "pollopt_bitor pollopt_edge pollopt_oneshot" and ?q = "loop_queue el"
  have ok: "queue_wf ?q" "handle_ok ?q h" using base by (simp_all add: loop_base_def chan_ok_def)
  obtain q e where q: "inner_update ?q h NOTIFY ready_readable ?p = Some (e, q)" and el': "el' = with_channel (el_notify el) q el"
    using re base by (auto simp: loop_rearm_def poll_reregister_def notify_valid receiver_reregister_def ctl_reregister_def
        registration_update_def loop_base_def loop_queue_def Option.bind_eq_Some_conv)
  obtain nd nd' where n: "keeps {ri_node h} ?q q" "node_view ?q h = Some nd" "node_view q h = Some nd'"
    "node_updated NOTIFY ready_readable ?p nd nd'"
    using update_cases [OF ok, of NOTIFY ready_readable ?p] q by auto
  have "inner_readiness q h = inner_readiness ?q h"
    using n(2-4) by (simp add: inner_readiness_view node_updated_def)
  then have "loop_base env h el'"
    using base framesD(1,2) [OF keepsD(4) [OF n(1)]] el' by (auto simp: loop_base_def chan_ok_def)
  moreover have "notify_armed q h"
    using n(3,4) by (auto simp: notify_armed_def node_updated_def registration_data_update_def node_token_def
        node_interest_def node_poll_opts_def)
  ultimately show "loop_armed env h el'" using el' by (simp add: loop_armed_def)
qed (use re in \<open>auto simp: loop_rearm_def Option.bind_eq_Some_conv\<close>)

lemma notify_armed_after:
  assumes hk: "handler_keeps env h hdl" and base: "loop_base env h el" and n: "loop_notify env hdl hs el = Some (hs', el')"
  shows "loop_armed env h el'" and "el_events el' = el_events el"
proof -
  obtain hs1 el1 where l: "notify_loop env hdl (unat (cf_messages_per_tick (el_config el))) hs el = Some (hs1, el1)"
    "loop_rearm env el1 = Some el'"
    using n by (auto simp: loop_notify_def Option.bind_eq_Some_conv)
  have k: "loop_keeps env h el el1" by (rule notify_loop_keeps [OF hk base l(1)])
  then have "loop_base env h el1" using base by (simp add: loop_keeps_def)
  then show "loop_armed env h el'" "el_events el' = el_events el"
    using rearm_armed [OF _ l(2)] k by (simp_all add: loop_keeps_def)
qed

lemma timer_process_keeps:
  assumes hk: "handler_keeps env h hdl" and tp: "timer_process env hdl hs el = Some res"
  shows "loop_keeps env h el (snd res)"
proof -
  have "handler_keeps env h hdl \<longrightarrow> loop_keeps env h el (snd res)"
  proof (rule timer_process.raw_induct [OF _ tp], goal_cases)
    case (1 process env hdl hs el res)
    obtain r el1 where p: "loop_timer_poll env el = Some (r, el1)"
      using 1(2) by (auto simp: Option.bind_eq_Some_conv)
    note k = timer_poll_keeps [OF p]
    show ?case
    proof
      assume hk: "handler_keeps env h hdl"
      show "loop_keeps env h el (snd res)"
      proof (cases r)
        case None
        then show ?thesis using 1(2) p k by auto
      next
        case (Some t)
        then obtain hs1 el2 where t: "hd_timeout hdl hs el1 t = Some (hs1, el2)" "process env hdl hs1 el2 = Some res"
          using 1(2) p by (auto simp: Option.bind_eq_Some_conv)
        show ?thesis
          using loop_keeps_trans [OF loop_keeps_trans [OF k handler_keepsD(3) [OF hk t(1)]]] 1(1) [OF t(2)] hk by blast
      qed
    qed
  qed
  then show ?thesis using hk by blast
qed

lemma dispatch_keeps:
  assumes hk: "handler_keeps env h hdl" and base: "loop_base env h el" and d: "loop_dispatch env hdl evt hs el = Some (hs', el')"
  shows "loop_base env h el'" and "el_events el' = el_events el"
    and "notify_armed (loop_queue el) h \<or> ev_token evt = NOTIFY \<Longrightarrow> notify_armed (loop_queue el') h"
proof -
  have "(if ev_token evt = NOTIFY then loop_armed env h el' \<and> el_events el' = el_events el else loop_keeps env h el el')"
    using d notify_armed_after [OF hk base] timer_process_keeps [OF hk] handler_keepsD(1) [OF hk]
    by (fastforce simp: loop_dispatch_def io_event_def split: if_splits)
  then show "loop_base env h el'" "el_events el' = el_events el"
    "notify_armed (loop_queue el) h \<or> ev_token evt = NOTIFY \<Longrightarrow> notify_armed (loop_queue el') h"
    using base by (auto simp: loop_keeps_def loop_armed_def split: if_splits)
qed

text \<open>An event of the notification channel among the events still to be processed.\<close>

definition notify_ahead ::
  "('s, 'a, 'e, 'o, 'sl, 'tc, 't, 'cc, 'cr) loop_env \<Rightarrow> nat \<Rightarrow> nat \<Rightarrow> ('s, 'a, 'e, 'o, 'sl, 'tc, 'm, 'cc, 'cr) event_loop \<Rightarrow> bool" where
  "notify_ahead env i n el \<longleftrightarrow> (\<exists>j e. i \<le> j \<and> j < i + n \<and> events_get (en_sys env) (el_events el) j = Some e \<and> ev_token e = NOTIFY)"

lemma io_process_armed:
  assumes hk: "handler_keeps env h hdl"
  shows "loop_base env h el \<Longrightarrow> notify_armed (loop_queue el) h \<or> notify_ahead env i n el \<Longrightarrow>
    io_process_from env hdl n i hs el = Some (hs', el') \<Longrightarrow> loop_armed env h el'"
proof (induction n arbitrary: i hs el)
  case 0
  then show ?case by (auto simp: loop_armed_def notify_ahead_def)
next
  case (Suc n)
  obtain evt hs1 el1 where s: "events_get (en_sys env) (el_events el) i = Some evt"
    "loop_dispatch env hdl evt hs el = Some (hs1, el1)" "io_process_from env hdl n (i + 1) hs1 el1 = Some (hs', el')"
    using Suc.prems(3) by (auto simp: Option.bind_eq_Some_conv)
  note d = dispatch_keeps [OF hk Suc.prems(1) s(2)]
  have "notify_armed (loop_queue el1) h \<or> notify_ahead env (i + 1) n el1"
  proof (cases "notify_armed (loop_queue el) h \<or> ev_token evt = NOTIFY")
    case False
    then obtain j e where j: "i \<le> j" "j < i + Suc n" "events_get (en_sys env) (el_events el) j = Some e" "ev_token e = NOTIFY"
      using Suc.prems(2) by (auto simp: notify_ahead_def)
    then have "j \<noteq> i" using s(1) False by auto
    then have "i + 1 \<le> j" "j < i + 1 + n" using j by auto
    then show ?thesis using j d(2) unfolding notify_ahead_def by metis
  qed (use d(3) in blast)
  then show ?case by (rule Suc.IH [OF d(1) _ s(3)])
qed

section \<open>Polling\<close>

lemma frames_sleep: "queue_wf q \<Longrightarrow> frames {} q (q\<lparr>head_readiness := SleepToken\<rparr>)" if "queue_is_empty q"
  using that queue_wf_prepare_for_sleep [of q]
  by (auto simp: frames_def prepare_for_sleep_def queue_is_empty_def handle_ok_def node_view_def ready_ref_as_ref_def
      split: node_ptr.splits)

lemma poll_timeout_frames: "queue_wf q \<Longrightarrow> poll_timeout q timeout = (t1, q1) \<Longrightarrow> frames {} q q1"
  using frames_sleep [of q] keepsD(4) [OF keeps_refl]
  by (auto simp: poll_timeout_cases split: if_splits)

lemma readable_not_none: "\<not> ready_is_none (ready_bitand (ready_bitor ready_readable ready_drop) ready_readable)"
  by code_simp

text \<open>A poll either leaves the channel's node enabled or has delivered its event.\<close>

lemma queue_poll_armed:
  assumes wf: "queue_wf q" and ok: "handle_ok q h" and armed: "notify_armed q h"
    and rdy: "inner_readiness q h \<in> {Some ready_none, Some ready_readable}"
    and poll: "queue_poll push q dst = Some (q', dst')"
  shows "frames UNIV q q'" and "inner_readiness q' h = inner_readiness q h"
    and "\<exists>evs. dst' = foldl push dst evs \<and> (notify_armed q' h \<or> (\<exists>e \<in> set evs. ev_token e = NOTIFY))"
proof -
  obtain a where rel: "queue_rel q a" and awf: "abs_wf a" using wf by (auto simp: queue_wf_def)
  have rel': "queue_rel q' (abs_after_poll a)" and dst: "dst' = foldl push dst (polled_events a)"
    by (rule queue_poll_abs [OF rel awf, of push dst]; use poll in auto)+
  obtain n nd where n: "ri_node h = Node n" "aq_nodes a n = Some nd" "ref_count nd \<noteq> 0"
    using handle_ok_abs [OF rel ok] .
  show "frames UNIV q q'" "inner_readiness q' h = inner_readiness q h"
    using poll_keeps_readiness [OF wf _ poll] ok by (auto simp: frames_def)
  have nd: "node_view q h = Some nd" "node_view q' h = aq_nodes (abs_after_poll a) n"
    using n by (simp_all add: node_view_abs [OF rel n(1)] node_view_abs [OF rel' n(1)])
  have fields: "node_token nd = NOTIFY" "node_interest nd = ready_readable"
    "node_poll_opts nd = pollopt_bitor pollopt_edge pollopt_oneshot"
    using armed nd by (auto simp: notify_armed_def)
  have drop: "\<not> event_is_drop (node_poll_events nd)"
    using abs_wfD(4) [OF awf n(2)] n(3) by (auto simp: node_ok_def poll_events_drop)
  have "notify_armed q' h \<or> (\<exists>e \<in> set (polled_events a). ev_token e = NOTIFY)"
  proof (cases "n \<in> set (aq_ready a) \<and> delivers nd")
    case True
    then show ?thesis
      using polled_events_mem [of n a nd] n(2) fields(1) by (intro disjI2 bexI [of _ "delivered_event nd"])
        (simp_all add: delivered_event_def event_new_def)
  next
    case False
    show ?thesis
    proof (cases "n \<in> set (aq_ready a)")
      case True
      then have "ready_is_none (node_poll_events nd)" using False drop by (simp add: delivers_def)
      then have "event_is_empty (event_from_usize (node_events nd))"
        using rdy nd(1) fields(2) readable_not_none by (auto simp: inner_readiness_view node_poll_events_def event_is_empty_iff)
      then show ?thesis using True False n(2) drop nd(2) fields
        by (auto simp: notify_armed_def abs_after_poll_def nodes_after_def node_after_poll_def Let_def
            node_token_def node_interest_def node_poll_opts_def)
    next
      case False
      then have "node_view q' h = Some nd" using nd(2) n(2) by (simp add: abs_after_poll_def nodes_after_def)
      then show ?thesis using armed nd(1) by (simp add: notify_armed_def)
    qed
  qed
  then show "\<exists>evs. dst' = foldl push dst evs \<and> (notify_armed q' h \<or> (\<exists>e \<in> set evs. ev_token e = NOTIFY))"
    using dst by blast
qed

text \<open>The contract of the event buffer with the tokens kept.\<close>

definition buffer_ok :: "('s, 'a, 'e, 'o) sys_ops \<Rightarrow> (event \<Rightarrow> event) \<Rightarrow> bool" where
  "buffer_ok sys norm \<longleftrightarrow> event_buffer (sys_push sys) (sys_len sys) (sys_get sys) norm \<and> (\<forall>e. ev_token (norm e) = ev_token e)"

lemma buffer_foldl:
  assumes "buffer_ok sys norm" and "e \<in> set evs"
  shows "\<exists>j e'. j < sys_len sys (foldl (sys_push sys) es evs) \<and> sys_get sys (foldl (sys_push sys) es evs) j = Some e' \<and>
    ev_token e' = ev_token e"
proof -
  have b: "event_buffer (sys_push sys) (sys_len sys) (sys_get sys) norm" and tok: "ev_token (norm e) = ev_token e" for e
    using assms(1) by (simp_all add: buffer_ok_def)
  obtain i where i: "i < length evs" "evs ! i = e" using assms(2) by (auto simp: in_set_conv_nth)
  let ?j = "sys_len sys es + i" and ?f = "foldl (sys_push sys) es evs"
  have "?j < sys_len sys ?f" using i(1) by (simp add: event_buffer.len_foldl [OF b])
  moreover have "sys_get sys ?f ?j = Some (norm e)"
    using calculation i by (simp add: event_buffer.get_contents [OF b] event_buffer.contents_foldl [OF b] nth_append
        event_buffer.length_contents [OF b])
  ultimately show ?thesis using tok by metis
qed

lemma io_poll_armed:
  assumes buf: "buffer_ok (en_sys env) norm" and armed: "loop_armed env h el" and poll: "io_poll env timeout el = Some (r, el1)"
  shows "case r of Inl _ \<Rightarrow> loop_armed env h el1
    | Inr n \<Rightarrow> loop_base env h el1 \<and> (notify_armed (loop_queue el1) h \<or> notify_ahead env 0 n el1)"
proof -
  let ?sys = "en_sys env" and ?q = "loop_queue el"
  have base: "loop_base env h el" and na: "notify_armed ?q h" using armed by (simp_all add: loop_armed_def)
  have wf: "queue_wf ?q" using base by (simp add: loop_base_def chan_ok_def)
  obtain t1 q1 where pt: "poll_timeout ?q timeout = (t1, q1)" by (metis prod.exhaust)
  obtain p es awoken s1 es1 w1 where sel: "sys_select ?sys (pl_selector (el_poll el)) (el_events el) AWAKEN t1 (awakener q1) =
      Some (awoken, s1, es1, w1)" and fin: "poll_finish ?sys awoken ((el_poll el)\<lparr>pl_selector := s1, pl_queue := q1\<lparr>awakener := w1\<rparr>\<rparr>) es1 =
      Some (r, p, es)" and el1: "el1 = el\<lparr>el_poll := p, el_events := es\<rparr>"
    using poll pt by (auto simp: io_poll_def poll_poll_def loop_queue_def Option.bind_eq_Some_conv)
  have pf: "frames {} ?q q1" by (rule poll_timeout_frames [OF wf pt])
  have f1: "frames {} ?q (q1\<lparr>awakener := w\<rparr>)" for w
    by (rule frames_trans [OF pf keepsD(4) [OF keeps_awakener [OF framesD(1) [OF pf]]]])
  have base1: "loop_base env h (el\<lparr>el_poll := p'\<rparr>)" "notify_armed (pl_queue p') h" if "pl_queue p' = q1\<lparr>awakener := w\<rparr>" for p' w
    using loop_base_frames [OF base, of "{}" "el\<lparr>el_poll := p'\<rparr>"] f1 [of w] that na by auto
  have ev: "loop_base env h (el\<lparr>el_poll := p'\<rparr>) \<Longrightarrow> loop_base env h (el\<lparr>el_poll := p', el_events := es\<rparr>)" for p'
    by (simp add: loop_base_def)
  show ?thesis
  proof (cases awoken)
    case (Inl e)
    then have "r = Inl e" "pl_queue p = q1\<lparr>awakener := w1\<rparr>" using fin by (auto simp: poll_finish_def)
    then show ?thesis using base1 [of p w1] ev el1 by (simp add: loop_armed_def)
  next
    case (Inr b)
    then obtain w2 q2 where qp: "queue_poll (sys_push ?sys) (q1\<lparr>awakener := w2\<rparr>) es1 = Some (q2, es)"
      and r: "r = Inr (sys_len ?sys es)" "pl_queue p = q2"
      using fin by (auto simp: poll_finish_def Option.bind_eq_Some_conv)
    let ?p1 = "(el_poll el)\<lparr>pl_queue := q1\<lparr>awakener := w2\<rparr>\<rparr>"
    have b1: "loop_base env h (el\<lparr>el_poll := ?p1\<rparr>)" "notify_armed (q1\<lparr>awakener := w2\<rparr>) h" using base1 [of ?p1 w2] by simp_all
    then have c: "queue_wf (q1\<lparr>awakener := w2\<rparr>)" "handle_ok (q1\<lparr>awakener := w2\<rparr>) h"
      "inner_readiness (q1\<lparr>awakener := w2\<rparr>) h \<in> {Some ready_none, Some ready_readable}"
      by (auto simp: loop_base_def chan_ok_def)
    note qa = queue_poll_armed [OF c(1,2) b1(2) c(3) qp]
    have "loop_base env h el1"
      using b1(1) framesD(1,2) [OF qa(1)] qa(2) r(2) el1 by (auto simp: loop_base_def chan_ok_def)
    moreover have "notify_armed (loop_queue el1) h \<or> notify_ahead env 0 (sys_len ?sys es) el1"
    proof -
      obtain evs where evs: "es = foldl (sys_push ?sys) es1 evs" "notify_armed q2 h \<or> (\<exists>e \<in> set evs. ev_token e = NOTIFY)"
        using qa(3) by blast
      show ?thesis using evs(2)
      proof (elim disjE bexE)
        fix e assume "e \<in> set evs" "ev_token e = NOTIFY"
        then show ?thesis using buffer_foldl [OF buf, of e evs es1] evs(1) el1 by (auto simp: notify_ahead_def events_get_def)
      qed (simp add: r(2) el1)
    qed
    ultimately show ?thesis using r(1) by simp
  qed
qed

lemma poll_awake:
  assumes wf: "queue_wf q" and poll: "queue_poll push q dst = Some (q', dst')"
  shows "awake q'"
proof -
  obtain a where rel: "queue_rel q a" and awf: "abs_wf a" using wf by (auto simp: queue_wf_def)
  have "queue_rel q' (abs_after_poll a)"
    by (rule queue_poll_abs [OF rel awf, of push dst]) (use poll in auto)
  then show ?thesis by (simp add: awake_abs abs_after_poll_def)
qed

lemma run_once_armed:
  assumes buf: "buffer_ok (en_sys env) norm" and hk: "handler_keeps env h hdl" and armed: "loop_armed env h el"
    and run: "run_once env hdl timeout hs el = Some (r, hs', el')"
  shows "loop_armed env h el'"
proof -
  obtain res el1 where p: "io_poll env timeout el = Some (res, el1)"
    using run by (auto simp: run_once_def Option.bind_eq_Some_conv)
  note pa = io_poll_armed [OF buf armed p]
  have tick: "loop_armed env h el2 \<Longrightarrow> hd_tick hdl hs2 el2 = Some (hs3, el3) \<Longrightarrow> loop_armed env h el3" for hs2 el2 hs3 el3
    using handler_keepsD(5) [OF hk] by (auto simp: loop_keeps_def)
  show ?thesis
  proof (cases res)
    case (Inl e)
    then have a1: "loop_armed env h el1" using pa by simp
    show ?thesis
    proof (cases "error_kind_of e = Interrupted")
      case True
      then obtain hs2 el2 where i: "hd_interrupted hdl hs el1 = Some (hs2, el2)" "hd_tick hdl hs2 el2 = Some (hs', el')"
        using run p Inl by (auto simp: run_once_def io_process_def Option.bind_eq_Some_conv)
      have "loop_armed env h el2" using handler_keepsD(4) [OF hk i(1)] a1 by (simp add: loop_keeps_def)
      then show ?thesis using i(2) by (rule tick)
    next
      case False
      then show ?thesis using run p Inl a1 by (simp add: run_once_def)
    qed
  next
    case (Inr n)
    then obtain hs2 el2 where i: "io_process_from env hdl n 0 hs el1 = Some (hs2, el2)" "hd_tick hdl hs2 el2 = Some (hs', el')"
      using run p by (auto simp: run_once_def io_process_def Option.bind_eq_Some_conv)
    have "loop_armed env h el2" using io_process_armed [OF hk _ _ i(1)] pa Inr by simp
    then show ?thesis using i(2) by (rule tick)
  qed
qed

text \<open>An armed loop with something to receive: the next poll reports it.\<close>

lemma armed_delivers:
  assumes armed: "loop_armed env h el" and some: "mp_messages (ch_mpsc (el_notify el)) \<noteq> [] \<or> closed (el_notify el)"
  shows "\<exists>q evs. queue_poll (\<lambda>evs e. evs @ [e]) (loop_queue el) [] = Some (q, evs) \<and> event_new ready_readable NOTIFY \<in> set evs"
proof -
  have ok: "queue_wf (loop_queue el)" "handle_ok (loop_queue el) h" "inner_readiness (loop_queue el) h = Some ready_readable"
    using armed some by (auto simp: loop_armed_def loop_base_def chan_ok_def)
  obtain a where rel: "queue_rel (loop_queue el) a" and wf: "abs_wf a" using ok(1) by (auto simp: queue_wf_def)
  obtain n nd where n: "ri_node h = Node n" "aq_nodes a n = Some nd" using handle_ok_abs [OF rel ok(2)] by metis
  have rdy: "event_from_usize (node_events nd) = ready_readable"
    using ok(3) n by (simp add: inner_readiness_view node_view_abs [OF rel])
  have nd: "node_token nd = NOTIFY" "node_interest nd = ready_readable" "node_queued nd \<noteq> 0"
    using armed n rdy by (auto simp: loop_armed_def notify_armed_def node_view_abs [OF rel] ready_readable_def event_is_empty_def)
  have ev: "node_poll_events nd = ready_readable"
    using rdy nd(2) by (simp add: node_poll_events_def) code_simp
  then have "delivers nd" using readable_not_none ready_not_drop(1) by (simp add: delivers_def ready_is_none_iff) code_simp
  moreover have "n \<in> set (aq_ready a)" using abs_wf_queued_iff [OF wf n(2)] nd(3) by simp
  ultimately have "event_new ready_readable NOTIFY \<in> set (polled_events a)"
    using polled_events_mem [of n a nd] n(2) nd(1) ev by (simp add: delivered_event_def)
  then show ?thesis
    using queue_poll_abs [OF rel wf, of "\<lambda>evs e. evs @ [e]" "[]"] by (metis append_Nil foldl_snoc)
qed

lemma run_loop_armed:
  assumes buf: "buffer_ok (en_sys env) norm" and hk: "handler_keeps env h hdl" and armed: "loop_armed env h el"
    and run: "run_loop env hdl hs el = Some res"
  shows "loop_armed env h (snd (snd res))"
proof -
  have "buffer_ok (en_sys env) norm \<longrightarrow> handler_keeps env h hdl \<longrightarrow> loop_armed env h el \<longrightarrow> loop_armed env h (snd (snd res))"
  proof (rule run_loop.raw_induct [OF _ run], goal_cases)
    case (1 loop env hdl hs el res)
    show ?case
    proof (intro impI)
      assume b: "buffer_ok (en_sys env) norm" "handler_keeps env h hdl" "loop_armed env h el"
      show "loop_armed env h (snd (snd res))"
      proof (cases "el_run el")
        case True
        then obtain r hs1 el1 where o: "run_once env hdl None hs el = Some (r, hs1, el1)"
          "(case r of Inl err \<Rightarrow> Some (Inl err, hs1, el1) | Inr _ \<Rightarrow> loop env hdl hs1 el1) = Some res"
          using 1(2) by (auto simp: Option.bind_eq_Some_conv)
        have "loop_armed env h el1" by (rule run_once_armed [OF b o(1)])
        then show ?thesis using o(2) 1(1) b(1,2) by (cases r) auto
      qed (use 1(2) b in auto)
    qed
  qed
  then show ?thesis using assms by blast
qed

section \<open>Delivering notifications\<close>

lemma notify_loop_delivers:
  assumes hdl: "\<And>hs el m. hd_notify hdl hs el m = Some (f hs m, g hs m el)"
    and g: "\<And>hs m el. el_notify (g hs m el) = el_notify el \<and> loop_queue (g hs m el) = loop_queue el \<and>
      tm_inner (el_timer (g hs m el)) = tm_inner (el_timer el)"
  shows "loop_base env h el \<Longrightarrow> \<exists>el'. notify_loop env hdl n hs el = Some (foldl f hs (take n (mp_messages (ch_mpsc (el_notify el)))), el') \<and>
    mp_messages (ch_mpsc (el_notify el')) = drop n (mp_messages (ch_mpsc (el_notify el))) \<and> loop_base env h el' \<and>
    (awake (loop_queue el) \<longrightarrow> awake (loop_queue el')) \<and> closed (el_notify el') = closed (el_notify el)"
proof (induction n arbitrary: hs el)
  case (Suc n)
  let ?r = "receiver_try_recv (en_ctl_cell env) (sys_wakeup (en_sys env)) (el_notify el) (loop_queue el)"
  have ok: "chan_ok (en_ctl_cell env) h (el_notify el) (loop_queue el)" using Suc.prems by (simp add: loop_base_def)
  note cases = try_recv_cases [OF ok, of "sys_wakeup (en_sys env)"]
  show ?case
  proof (cases "mp_messages (ch_mpsc (el_notify el))")
    case Nil
    have "with_channel (el_notify el) (loop_queue el) el = el" by (simp add: with_channel_def loop_queue_def)
    then show ?thesis using Nil cases Suc.prems by (auto simp: loop_queue_def)
  next
    case (Cons m ms)
    then obtain c q where r: "?r = Some (Inr m, c, q)" "chan_ok (en_ctl_cell env) h c q" "mp_messages (ch_mpsc c) = ms"
      "ch_registration c = ch_registration (el_notify el)" "closed c = closed (el_notify el)" "chan_moves h (loop_queue el) q"
      using cases by auto
    let ?el1 = "g hs m (with_channel c q el)"
    have k: "loop_keeps env h el (with_channel c q el)" by (rule loop_keeps_chan) (use r in blast)
    then have b: "loop_base env h ?el1" using Suc.prems g [of hs m "with_channel c q el"] unfolding loop_keeps_def loop_base_def by simp
    have f: "el_notify ?el1 = c" "loop_queue ?el1 = q" using g [of hs m "with_channel c q el"] by simp_all
    have aw: "awake (loop_queue el) \<longrightarrow> awake q" using r(6) by (simp add: chan_moves_def keeps_def)
    show ?thesis using Suc.IH [OF b, of "f hs m"] r(1,3,5) Cons aw by (auto simp: loop_queue_def [symmetric] hdl f)
  qed
qed auto

lemma rearm_total:
  assumes base: "loop_base env h el" and "awake (loop_queue el)"
  shows "\<exists>el'. loop_rearm env el = Some el'"
proof -
  have "queue_wf (loop_queue el)" "handle_ok (loop_queue el) h" using base by (simp_all add: loop_base_def chan_ok_def)
  then show ?thesis
    using keeps_update [OF _ _ assms(2), of h NOTIFY ready_readable "pollopt_bitor pollopt_edge pollopt_oneshot"] base
    by (auto simp: loop_rearm_def poll_reregister_def notify_valid receiver_reregister_def ctl_reregister_def
        registration_update_def loop_base_def loop_queue_def)
qed

lemma notify_total:
  assumes hdl: "\<And>hs el m. hd_notify hdl hs el m = Some (f hs m, g hs m el)"
    and g: "\<And>hs m el. el_notify (g hs m el) = el_notify el \<and> loop_queue (g hs m el) = loop_queue el \<and>
      tm_inner (el_timer (g hs m el)) = tm_inner (el_timer el)"
    and base: "loop_base env h el" and aw: "awake (loop_queue el)"
  shows "\<exists>el'. loop_notify env hdl hs el =
      Some (foldl f hs (take (unat (cf_messages_per_tick (el_config el))) (mp_messages (ch_mpsc (el_notify el)))), el') \<and>
    mp_messages (ch_mpsc (el_notify el')) =
      drop (unat (cf_messages_per_tick (el_config el))) (mp_messages (ch_mpsc (el_notify el))) \<and> loop_armed env h el'"
proof -
  let ?n = "unat (cf_messages_per_tick (el_config el))" and ?ms = "mp_messages (ch_mpsc (el_notify el))"
  obtain el1 where l: "notify_loop env hdl ?n hs el = Some (foldl f hs (take ?n ?ms), el1)"
    "mp_messages (ch_mpsc (el_notify el1)) = drop ?n ?ms" "loop_base env h el1" "awake (loop_queue el1)"
    using notify_loop_delivers [where hdl = hdl, OF hdl g base] aw by blast
  obtain el2 where r: "loop_rearm env el1 = Some el2" using rearm_total [OF l(3,4)] by blast
  show ?thesis using l(1,2) r rearm_armed(1,3) [OF l(3) r] by (auto simp: loop_notify_def)
qed

section \<open>Draining the timer\<close>

text \<open>The clock moves between two polls; every poll that returns a timeout removes it.\<close>

definition clock_tick ::
  "('s, 'a, 'e, 'o, 'sl, 'tc, 't, 'cc, 'cr) loop_env \<Rightarrow> ('sl, 'tc) timer \<Rightarrow> 'a \<times> 'o \<Rightarrow> u64 option" where
  "clock_tick env t w = current_tick (tm_start t) (fst (en_now env w)) (tm_tick_ms t)"

definition clock_ok ::
  "('s, 'a, 'e, 'o, 'sl, 'tc, 't, 'cc, 'cr) loop_env \<Rightarrow> ('sl, 'tc) timer \<Rightarrow> bool" where
  "clock_ok env t \<longleftrightarrow> (\<forall>w. \<exists>tick. clock_tick env t w = Some tick \<and> tick \<noteq> - 1)"

lemma inner_live_queue:
  "inner_live lc t wd \<Longrightarrow> frames {} (tw_queue wd) q \<Longrightarrow> inner_live lc t (wd\<lparr>tw_queue := q\<rparr>)"
  by (auto simp: inner_live_def dest: framesD)

lemma timer_poll_cases:
  assumes laws: "slab_laws (en_slab env) v EMPTY" and wf: "timer_wf v (el_timer el)" "queue_wf (loop_queue el)"
    and live: "inner_live (en_timer_cell env) (el_timer el) (loop_world el)"
    and clk: "clock_ok env (el_timer el)" and tick: "tm_tick (el_timer el) \<noteq> - 1"
  shows "(\<exists>k tk x t q. loop_timer_poll env el = Some (Some x, with_timer t ((loop_world el)\<lparr>tw_queue := q\<rparr>) el) \<and>
      frames {} (loop_queue el) q \<and> pending v (el_timer el) k = Some (tk, x) \<and> timer_wf v t \<and>
      pending v t = (pending v (el_timer el))(k := None) \<and> same_config (el_timer el) t \<and> tm_tick t = tk \<and> tk \<noteq> - 1) \<or>
    (\<exists>t wd. loop_timer_poll env el = Some (None, with_timer t wd el) \<and> timer_wf v t \<and>
      pending v t = pending v (el_timer el) \<and> armed (en_timer_cell env) v t wd \<and>
      (\<exists>w tick. clock_tick env (el_timer el) w = Some tick \<and> (\<forall>k tk x. pending v t k = Some (tk, x) \<longrightarrow> tick < tk)))"
proof -
  let ?t = "el_timer el" and ?wake = "sys_wakeup (en_sys env)" and ?lc = "en_timer_cell env" and ?sl = "en_slab env"
  obtain now q where c: "read_clock env (loop_queue el) = (now, q)" by (metis prod.exhaust)
  have fr: "frames {} (loop_queue el) q" by (rule read_clock_frames [OF wf(2) c])
  have q: "tw_queue (loop_world el) = loop_queue el" by (simp add: loop_world_def loop_queue_def)
  have now: "now = fst (en_now env (awakener (loop_queue el)))" using c by (auto simp: read_clock_def split: prod.splits)
  then obtain target where target: "current_tick (tm_start ?t) now (tm_tick_ms ?t) = Some target" "target \<noteq> - 1"
    using clk unfolding clock_ok_def clock_tick_def by blast
  have lim: "poll_limit ?t target \<noteq> - 1" using target(2) tick by (simp add: poll_limit_def)
  let ?wd = "(loop_world el)\<lparr>tw_queue := q\<rparr>"
  have live': "inner_live ?lc ?t ?wd" by (rule inner_live_queue [OF live]) (use fr q in simp)
  have eq: "loop_timer_poll env el = map_option (\<lambda>(r, t, wd). (r, with_timer t wd el)) (poll_to ?sl ?lc ?wake target ?t ?wd)"
    using c target(1) by (simp add: loop_timer_poll_def loop_queue_def timer_poll_def map_conv_bind_option split_def comp_def)
  from poll_to_cases [OF laws wf(1) live' lim, of ?wake] show ?thesis
  proof (elim disjE exE conjE)
    fix k tk x t'
    assume f: "pending v ?t k = Some (tk, x)" "tk \<le> poll_limit ?t target" "poll_to ?sl ?lc ?wake target ?t ?wd = Some (Some x, t', ?wd)"
      "timer_wf v t'" "pending v t' = (pending v ?t)(k := None)" "tm_tick t' = tk" "same_config ?t t'"
    have "tk \<noteq> - 1" using f(2) lim word_not_max_less by (metis max_word_max order.antisym)
    then show ?thesis using f fr eq by (intro disjI1 exI [of _ k] exI [of _ tk] exI [of _ x] exI [of _ t'] exI [of _ q]) simp
  next
    fix t' wd'
    assume f: "poll_to ?sl ?lc ?wake target ?t ?wd = Some (None, t', wd')" "timer_wf v t'" "pending v t' = pending v ?t"
      "armed ?lc v t' wd'" "\<forall>k tk x. pending v ?t k = Some (tk, x) \<longrightarrow> poll_limit ?t target < tk"
    have "target \<le> poll_limit ?t target" by (auto simp: poll_limit_def)
    then have "\<forall>k tk x. pending v t' k = Some (tk, x) \<longrightarrow> target < tk" using f(3,5) by (metis order.strict_trans1)
    moreover have "clock_tick env ?t (awakener (loop_queue el)) = Some target" using target(1) now by (simp add: clock_tick_def)
    ultimately have "\<exists>w tick. clock_tick env ?t w = Some tick \<and> (\<forall>k tk x. pending v t' k = Some (tk, x) \<longrightarrow> tick < tk)" by blast
    then show ?thesis using f(1,2,3,4) eq by (intro disjI2 exI [of _ t'] exI [of _ wd']) simp
  qed
qed

text \<open>The timeout \<open>k\<close> fires before those of \<open>ks\<close>, which are pending when it is gone.\<close>

lemma drained_cons:
  assumes wf: "timer_wf v t" and pend: "pending v t = (pending v t0)(k := None)" and k: "pending v t0 k = Some (tm_tick t, x)"
    and ks: "set ks \<subseteq> dom (pending v t)" "sorted (map (\<lambda>k. fst (the (pending v t k))) ks)"
  shows "k \<notin> set ks" and "map (\<lambda>k. F (the (pending v t k))) ks = map (\<lambda>k. F (the (pending v t0 k))) ks"
    and "sorted (map (\<lambda>k. fst (the (pending v t0 k))) (k # ks))" and "set (k # ks) \<subseteq> dom (pending v t0)"
    and "pending v t |` (- set ks) = pending v t0 |` (- set (k # ks))"
proof -
  show kn: "k \<notin> set ks" using ks(1) pend by auto
  show "map (\<lambda>k. F (the (pending v t k))) ks = map (\<lambda>k. F (the (pending v t0 k))) ks" using kn pend by auto
  have "\<forall>j \<in> set ks. tm_tick t \<le> fst (the (pending v t0 j))"
  proof
    fix j assume j: "j \<in> set ks"
    then have "j \<noteq> k" using kn by blast
    moreover obtain tj xj where "pending v t j = Some (tj, xj)" using ks(1) j by (metis domD prod.exhaust subsetD)
    ultimately show "tm_tick t \<le> fst (the (pending v t0 j))" using pending_ge_tick [OF wf, of j] pend by auto
  qed
  moreover have "map (\<lambda>k. fst (the (pending v t k))) ks = map (\<lambda>k. fst (the (pending v t0 k))) ks" using kn pend by auto
  note ks(2) [unfolded this]
  ultimately show "sorted (map (\<lambda>k. fst (the (pending v t0 k))) (k # ks))" using k by simp
  show "set (k # ks) \<subseteq> dom (pending v t0)" using ks(1) k pend by auto
  show "pending v t |` (- set ks) = pending v t0 |` (- set (k # ks))" using pend by (auto simp: restrict_map_def)
qed

lemma timer_process_drains:
  assumes laws: "slab_laws (en_slab env) v EMPTY"
    and hdl: "\<And>hs el x. hd_timeout hdl hs el x = Some (f hs x, g hs x el)"
    and g: "\<And>hs x el. el_timer (g hs x el) = el_timer el \<and> loop_world (g hs x el) = loop_world el"
  shows "timer_wf v (el_timer el) \<Longrightarrow> queue_wf (loop_queue el) \<Longrightarrow>
    inner_live (en_timer_cell env) (el_timer el) (loop_world el) \<Longrightarrow> clock_ok env (el_timer el) \<Longrightarrow> tm_tick (el_timer el) \<noteq> - 1 \<Longrightarrow>
    \<exists>ks el'. timer_process env hdl hs el = Some (foldl f hs (map (\<lambda>k. snd (the (pending v (el_timer el) k))) ks), el') \<and>
      distinct ks \<and> set ks \<subseteq> dom (pending v (el_timer el)) \<and> sorted (map (\<lambda>k. fst (the (pending v (el_timer el) k))) ks) \<and>
      timer_wf v (el_timer el') \<and> pending v (el_timer el') = pending v (el_timer el) |` (- set ks) \<and>
      armed (en_timer_cell env) v (el_timer el') (loop_world el') \<and>
      (\<exists>w tick. clock_tick env (el_timer el) w = Some tick \<and> (\<forall>k tk x. pending v (el_timer el') k = Some (tk, x) \<longrightarrow> tick < tk))"
proof (induction "card (dom (pending v (el_timer el)))" arbitrary: hs el rule: less_induct)
  case less
  let ?t = "el_timer el"
  from timer_poll_cases [OF laws less.prems] show ?case
  proof (elim disjE exE conjE)
    fix k tk x t q
    assume p: "loop_timer_poll env el = Some (Some x, with_timer t ((loop_world el)\<lparr>tw_queue := q\<rparr>) el)" "frames {} (loop_queue el) q"
      "pending v ?t k = Some (tk, x)" "timer_wf v t" "pending v t = (pending v ?t)(k := None)" "same_config ?t t" "tm_tick t = tk" "tk \<noteq> - 1"
    let ?el1 = "with_timer t ((loop_world el)\<lparr>tw_queue := q\<rparr>) el"
    let ?el2 = "g hs x ?el1"
    have e2: "el_timer ?el2 = t" "loop_world ?el2 = (loop_world el)\<lparr>tw_queue := q\<rparr>" using g [of hs x ?el1] by simp_all
    have q2: "loop_queue ?el2 = q" using arg_cong [OF e2(2), of tw_queue] by (simp add: loop_world_def loop_queue_def)
    have "dom (pending v ?t) = due v ?t (- 1)" by (auto simp: due_def)
    then have fin: "finite (dom (pending v ?t))" using finite_due [OF laws less.prems(1)] by simp
    have smaller: "card (dom (pending v t)) < card (dom (pending v ?t))"
      using card_Diff1_less [OF fin, of k] p(3,5) by (simp add: domI)
    have live: "inner_live (en_timer_cell env) t (loop_world ?el2)"
      using inner_live_queue [OF less.prems(3), of q] p(2,6) e2(2) by (simp add: inner_live_def same_config_def loop_world_def loop_queue_def)
    have ck: "clock_tick env t = clock_tick env ?t" using p(6) by (auto simp: clock_tick_def same_config_def)
    have ok: "clock_ok env t" using less.prems(4) ck by (simp add: clock_ok_def)
    have tick: "tm_tick t \<noteq> - 1" using p(7,8) by simp
    obtain ks el' where ih: "timer_process env hdl (f hs x) ?el2 = Some (foldl f (f hs x) (map (\<lambda>k. snd (the (pending v t k))) ks), el')"
      "distinct ks" "set ks \<subseteq> dom (pending v t)" "sorted (map (\<lambda>k. fst (the (pending v t k))) ks)"
      "timer_wf v (el_timer el')" "pending v (el_timer el') = pending v t |` (- set ks)" "armed (en_timer_cell env) v (el_timer el') (loop_world el')"
      "\<exists>w tick. clock_tick env t w = Some tick \<and> (\<forall>k tk x. pending v (el_timer el') k = Some (tk, x) \<longrightarrow> tick < tk)"
      using less.hyps [of ?el2 "f hs x", unfolded e2(1) q2, OF smaller p(4) framesD(1) [OF p(2)] live ok tick] by blast
    have kt: "pending v ?t k = Some (tm_tick t, x)" using p(3,7) by simp
    note cons = drained_cons [OF p(4,5) kt ih(3,4)]
    have tp: "timer_process env hdl hs el = timer_process env hdl (f hs x) ?el2"
      by (subst timer_process.simps) (simp add: p(1) hdl)
    have "timer_process env hdl hs el = Some (foldl f hs (map (\<lambda>k. snd (the (pending v ?t k))) (k # ks)), el')"
      using tp ih(1) p(3) unfolding cons(2) [of snd] by simp
    moreover have "pending v (el_timer el') = pending v ?t |` (- set (k # ks))" using ih(6) cons(5) by simp
    ultimately show ?thesis
      using ih(2,5,7,8) cons(1,3,4) ck by (intro exI [of _ "k # ks"] exI [of _ el'] conjI) simp_all
  next
    fix t wd w tick
    assume p: "loop_timer_poll env el = Some (None, with_timer t wd el)" "timer_wf v t" "pending v t = pending v ?t"
      "armed (en_timer_cell env) v t wd"
      "clock_tick env ?t w = Some tick" "\<forall>k tk x. pending v t k = Some (tk, x) \<longrightarrow> tick < tk"
    then have "\<exists>w tick. clock_tick env ?t w = Some tick \<and> (\<forall>k tk x. pending v t k = Some (tk, x) \<longrightarrow> tick < tk)" by blast
    moreover have "timer_process env hdl hs el = Some (hs, with_timer t wd el)"
      by (subst timer_process.simps) (simp add: p(1))
    ultimately show ?thesis using p(1-4) by (intro exI [of _ "[]"] exI [of _ "with_timer t wd el"]) (simp add: restrict_map_def)
  qed
qed

section \<open>Running\<close>

definition loop_tick ::
  "('s, 'a, 'e, 'o, 'sl, 'tc, 't, 'cc, 'cr) loop_env \<Rightarrow>
     ('h, ('s, 'a, 'e, 'o, 'sl, 'tc, 'm, 'cc, 'cr) event_loop, 't, 'm) handler \<Rightarrow>
     'h \<times> ('s, 'a, 'e, 'o, 'sl, 'tc, 'm, 'cc, 'cr) event_loop \<Rightarrow>
     'h \<times> ('s, 'a, 'e, 'o, 'sl, 'tc, 'm, 'cc, 'cr) event_loop \<Rightarrow> bool" where
  "loop_tick env hdl s s' \<longleftrightarrow> el_run (snd s) \<and> run_once env hdl None (fst s) (snd s) = Some (Inr (), fst s', snd s')"

text \<open>How a run ends: at a loop that was shut down, or with the error of a tick.\<close>

definition run_ends ::
  "('s, 'a, 'e, 'o, 'sl, 'tc, 't, 'cc, 'cr) loop_env \<Rightarrow>
     ('h, ('s, 'a, 'e, 'o, 'sl, 'tc, 'm, 'cc, 'cr) event_loop, 't, 'm) handler \<Rightarrow>
     'h \<times> ('s, 'a, 'e, 'o, 'sl, 'tc, 'm, 'cc, 'cr) event_loop \<Rightarrow>
     unit io_result \<times> 'h \<times> ('s, 'a, 'e, 'o, 'sl, 'tc, 'm, 'cc, 'cr) event_loop \<Rightarrow> bool" where
  "run_ends env hdl s res \<longleftrightarrow>
     (case fst res of
        Inr _ \<Rightarrow> \<not> el_run (snd s) \<and> snd res = s
      | Inl e \<Rightarrow> el_run (snd s) \<and> run_once env hdl None (fst s) (snd s) = Some res)"

lemma run_loop_ticks:
  assumes "run_loop env hdl hs el = Some res"
  shows "\<exists>s. (loop_tick env hdl)\<^sup>*\<^sup>* (hs, el) s \<and> run_ends env hdl s res"
proof (rule run_loop.raw_induct [OF _ assms], goal_cases)
  case (1 loop env hdl hs el res)
  show ?case
  proof (cases "el_run el")
    case True
    then obtain r hs1 el1 where o: "run_once env hdl None hs el = Some (r, hs1, el1)"
      "(case r of Inl err \<Rightarrow> Some (Inl err, hs1, el1) | Inr _ \<Rightarrow> loop env hdl hs1 el1) = Some res"
      using 1(2) by (auto simp: Option.bind_eq_Some_conv)
    show ?thesis
    proof (cases r)
      case (Inl e)
      then show ?thesis using True o by (intro exI [of _ "(hs, el)"]) (auto simp: run_ends_def)
    next
      case (Inr u)
      then have "loop_tick env hdl (hs, el) (hs1, el1)" using True o(1) by (simp add: loop_tick_def)
      moreover obtain s where "(loop_tick env hdl)\<^sup>*\<^sup>* (hs1, el1) s" "run_ends env hdl s res"
        using 1(1) [of env hdl hs1 el1 res] o(2) Inr by auto
      ultimately show ?thesis by (meson converse_rtranclp_into_rtranclp)
    qed
  next
    case False
    then show ?thesis using 1(2) by (intro exI [of _ "(hs, el)"]) (auto simp: run_ends_def)
  qed
qed

lemma ticks_run_loop:
  assumes "(loop_tick env hdl)\<^sup>*\<^sup>* s0 s" and "run_ends env hdl s res"
  shows "run_loop env hdl (fst s0) (snd s0) = Some res"
  using assms(1)
proof (induction rule: converse_rtranclp_induct)
  case base
  show ?case
    using assms(2) by (subst run_loop.simps; cases "fst res"; cases res) (auto simp: run_ends_def)
next
  case (step s0 s1)
  then show ?case by (subst run_loop.simps; cases s1) (simp add: loop_tick_def)
qed

section \<open>Operations of the loop\<close>

lemma insert_fields:
  assumes "timer_insert sl lc tick x t wd = Some (r, t', wd')"
  shows "tm_inner t' = tm_inner t \<and> tw_queue wd' = tw_queue wd"
proof -
  obtain curr where c: "vec_get (tm_wheel t) (slot_for t tick) = Some curr"
    using assms by (auto simp: timer_insert_def Let_def Option.bind_eq_Some_conv)
  show ?thesis
  proof (cases "slab_insert sl (tm_entries t) (entry_new x tick (we_head curr))")
    case (Some ke)
    then show ?thesis
      using assms c by (cases ke) (auto simp: timer_insert_def Let_def Option.bind_eq_Some_conv dest!: wheel_fields split: if_split_asm)
  qed (use assms c in \<open>simp add: timer_insert_def\<close>)
qed

lemma timeout_fields:
  assumes "set_timeout sl lc now d x t wd = Some (r, t', wd')"
  shows "tm_inner t' = tm_inner t" and "tw_queue wd' = tw_queue wd"
  using assms by (auto simp: set_timeout_def set_timeout_at_def Option.bind_eq_Some_conv dest!: insert_fields)

lemma cancel_fields: "cancel_timeout sl to t = Some (r, t') \<Longrightarrow> tm_inner t' = tm_inner t"
  by (auto simp: cancel_timeout_def Option.bind_eq_Some_conv split_def Let_def dest!: unlink_fields split: option.splits if_splits)

lemma loop_timeout_keeps:
  assumes "loop_timeout env x d el = Some (r, el')"
  shows "loop_keeps env h el el'"
proof -
  obtain now q where c: "read_clock env (loop_queue el) = (now, q)" by (metis prod.exhaust)
  then obtain t wd where s: "set_timeout (en_slab env) (en_timer_cell env) now d x (el_timer el) ((loop_world el)\<lparr>tw_queue := q\<rparr>) =
      Some (r, t, wd)" and el': "el' = with_timer t wd el"
    using assms by (auto simp: loop_timeout_def loop_queue_def Option.bind_eq_Some_conv)
  show ?thesis
  proof (rule loop_keepsI)
    assume "loop_base env h el"
    then have "queue_wf (loop_queue el)" by (simp add: loop_base_def chan_ok_def)
    then have "frames {} (loop_queue el) q" by (rule read_clock_frames [OF _ c])
    then show "\<exists>S. frames S (loop_queue el) (loop_queue el') \<and> ri_node h \<notin> S"
      using timeout_fields(2) [OF s] el' by auto
  qed (use timeout_fields(1) [OF s] el' in simp_all)
qed

lemma loop_clear_timeout_keeps:
  assumes "loop_clear_timeout env to el = Some (r, el')"
  shows "loop_keeps env h el el'"
proof -
  obtain t where "tm_inner t = tm_inner (el_timer el)" "el' = el\<lparr>el_timer := t\<rparr>"
    using assms cancel_fields by (fastforce simp: loop_clear_timeout_def Option.bind_eq_Some_conv)
  then show ?thesis by (auto simp: loop_keeps_def loop_armed_def loop_base_def)
qed

lemma loop_shutdown_keeps: "loop_keeps env h el (loop_shutdown el)"
  by (simp add: loop_keeps_def loop_armed_def loop_base_def loop_shutdown_def)

lemma loop_channel_keeps:
  assumes "\<not> closed (el_notify el)" and "ch_senders (ch_inner (el_notify el)) \<noteq> - 1"
  shows "loop_keeps env h el (loop_channel el)"
proof -
  have "ch_senders (ch_inner (el_notify el)) + 1 \<noteq> 0" using assms(2) by (metis add_diff_cancel_right' diff_0)
  then have "closed (sync_sender_clone (el_notify el)) = closed (el_notify el)"
    using assms(1) by (simp add: closed_def sync_sender_clone_def ctl_clone_def)
  then show ?thesis
    by (simp add: loop_keeps_def loop_armed_def loop_base_def chan_ok_def count_ok_def loop_channel_def sync_sender_clone_def
        ctl_clone_def)
qed

lemma try_send_ok:
  assumes ok: "chan_ok ls h c q" and open_: "\<not> closed c" and len: "length (mp_messages (ch_mpsc c)) < MESSAGE_LIMIT"
  shows "\<exists>r c' q'. sync_sender_try_send ls wake c x q = Some (r, c', q') \<and> chan_ok ls h c' q' \<and>
    ch_registration c' = ch_registration c \<and> chan_moves h q q' \<and>
    mp_messages (ch_mpsc c') = mp_messages (ch_mpsc c) @ (if mp_receiver (ch_mpsc c) \<and> \<not> mpsc_full (ch_mpsc c) then [x] else [])"
proof (cases "mp_receiver (ch_mpsc c) \<and> \<not> mpsc_full (ch_mpsc c)")
  case True
  let ?m = "(ch_mpsc c)\<lparr>mp_messages := mp_messages (ch_mpsc c) @ [x]\<rparr>"
  obtain r i q' where i: "ctl_inc ls wake (ch_inner c) q = Some (r, i, q')" "chan_ok ls h (c\<lparr>ch_mpsc := ?m, ch_inner := i\<rparr>) q'"
    using ctl_inc_ok [OF ok, of ?m "[x]" "ch_inner c" "ch_senders (ch_inner c)" wake] len open_ by (auto simp: closed_def)
  have "chan_moves h q q'" using ctl_moves(2) [OF _ _ _ i(1)] ok by (simp add: chan_ok_def)
  then show ?thesis using True i by (auto simp: sync_sender_try_send_def mpsc_try_send_def)
next
  case False
  then show ?thesis
    using ok chan_moves_refl [of q h] by (auto simp: sync_sender_try_send_def mpsc_try_send_def chan_ok_def)
qed

section \<open>Construction\<close>

lemma poll_new_queue:
  "poll_new sys qid w = (Inr p, w') \<Longrightarrow> \<exists>aw. pl_queue p = readiness_queue_new qid aw"
  by (auto simp: poll_new_def split: prod.splits sum.splits) blast

lemma configured_armed:
  fixes env :: "('s, 'a, 'e, 'o, 'sl, 'tc, 't, 'cc, 'cr) loop_env"
  assumes lc: "lazycell_laws (en_ctl_cell env)" "lazycell_laws (en_reg_cell env)" "lazycell_laws (en_timer_cell env)"
    and laws: "slab_laws (en_slab env) v EMPTY" and new: "poll_new (en_sys env) qid w = (Inr p, w')"
    and sizes: "next_power_of_two (cf_timer_wheel_size config) \<noteq> None" "next_power_of_two (cf_timer_capacity config) \<noteq> None"
  shows "\<exists>(el :: ('s, 'a, 'e, 'o, 'sl, 'tc, 'm, 'cc, 'cr) event_loop) h. loop_configured env qid config w = Some (Inr el) \<and>
    loop_armed env h el \<and> awake (loop_queue el) \<and> el_run el \<and>
    el_config el = config \<and> mp_messages (ch_mpsc (el_notify el)) = [] \<and> \<not> closed (el_notify el) \<and>
    timer_wf v (el_timer el) \<and> registered (en_timer_cell env) (el_timer el) \<and> pending v (el_timer el) = Map.empty \<and>
    inner_live (en_timer_cell env) (el_timer el) (loop_world el) \<and> el_thread el = Some WRead"
proof -
  let ?wake = "sys_wakeup (en_sys env)" and ?o = "pollopt_bitor pollopt_edge pollopt_oneshot"
  obtain now q0 where clk: "read_clock env (pl_queue p) = (now, q0)" by (metis prod.exhaust)
  obtain aw where q0: "pl_queue p = readiness_queue_new qid aw" using poll_new_queue [OF new] by blast
  have wf0: "queue_wf q0" using framesD(1) [OF read_clock_frames [OF _ clk]] q0 by simp
  have aw0: "awake q0" using clk q0 by (auto simp: read_clock_def awake_def split: prod.splits)
  let ?b = "builder_capacity (cf_timer_capacity config) (builder_num_slots (cf_timer_wheel_size config)
      (builder_tick_duration (cf_timer_tick config) builder_default))"
  obtain t where t: "builder_build (en_slab env) (en_timer_cell env) now ?b = Some t"
    using sizes by (auto simp: builder_build_def builder_capacity_def builder_num_slots_def timer_new_def)
  note tw = timer_new_wf [OF laws t [unfolded builder_build_def]]
  let ?c = "sync_channel (en_ctl_cell env) (en_reg_cell env) (cf_notify_capacity config) :: ('m, 'cc, 'cr) channel"
  have c: "count_ok ?c" "\<not> closed ?c" "lazy_borrow (en_ctl_cell env) (ch_set_readiness (ch_inner ?c)) = None"
    "lazy_borrow (en_reg_cell env) (ch_registration ?c) = None" "ch_pending (ch_inner ?c) = 0" "mp_messages (ch_mpsc ?c) = []"
    using lc(1,2) by (simp_all add: sync_channel_def ctl_pair_def count_ok_def closed_def mpsc_new_def lazycell_laws_def)
  obtain h c1 q1 where c1: "receiver_register (en_ctl_cell env) (en_reg_cell env) ?wake NOTIFY ready_readable ?o ?c q0 = Some (Inr (), c1, q1)"
    "keeps {} q0 q1" "handle_ok q1 h" "chan_ok (en_ctl_cell env) h c1 q1" "lazy_borrow (en_reg_cell env) (ch_registration c1) = Some h"
    "ch_mpsc c1 = ch_mpsc ?c" "closed c1 = closed ?c" "node_view q1 h = Some (readiness_node_new NOTIFY ready_readable ?o 2)"
    using receiver_register_new [OF lc(1,2) wf0 c(1,3,4), of ?wake NOTIFY ready_readable ?o] c(5) by blast
  let ?wd = "\<lparr>tw_queue = q1, tw_wakeup_state = - 1, tw_unparked = False, tw_thread = None\<rparr>"
  have tn: "lazy_borrow (en_timer_cell env) (tm_inner t) = None" using tw(5) lc(3) by (simp add: lazycell_laws_def)
  obtain ht ct wd where tr: "timer_register (en_slab env) (en_timer_cell env) ?wake TIMER ready_readable pollopt_edge t ?wd =
      Some (Inr (), t\<lparr>tm_inner := ct\<rparr>, wd)" "lazy_borrow (en_timer_cell env) ct = Some \<lparr>ti_registration = ht, ti_set_readiness = ht\<rparr>"
    "handle_ok (tw_queue wd) ht" "keeps {} q1 (tw_queue wd)" "ri_node h \<noteq> ri_node ht" "tw_thread wd = Some WRead"
    using timer_register_new [OF lc(3) laws tw(1) _ tn, of ?wd ?wake TIMER ready_readable pollopt_edge] keepsD(1) [OF c1(2)] c1(3) by auto
  let ?el = "\<lparr>el_run = True, el_poll = p\<lparr>pl_queue := tw_queue wd\<rparr>, el_events = events_with_capacity (en_sys env) 1024,
      el_timer = t\<lparr>tm_inner := ct\<rparr>, el_wakeup_state = tw_wakeup_state wd, el_unparked = tw_unparked wd,
      el_thread = tw_thread wd, el_notify = c1, el_config = config\<rparr>"
  have "loop_configured env qid config w = Some (Inr ?el)"
    using new clk t c1(1) tr(1) by (simp add: loop_configured_def poll_register_def notify_valid Let_def)
  moreover have "loop_base env h ?el"
    using c1(3-5) tr(2,3,5) framesD(1,2,4) [OF keepsD(4) [OF tr(4)]] by (auto simp: loop_base_def chan_ok_def loop_queue_def)
  moreover have "notify_armed (tw_queue wd) h"
    using framesD(3) [OF keepsD(4) [OF tr(4)] c1(3)] c1(8)
    by (auto simp: notify_armed_def readiness_node_new_def node_token_def node_interest_def node_poll_opts_def
        registration_data_new_def event_from_usize_def event_is_empty_def)
  moreover have "pending v (t\<lparr>tm_inner := ct\<rparr>) = Map.empty" using tw(3) by (simp add: pending_def)
  ultimately show ?thesis
    using c1(6,7) c(2,6) tw(1) tr keepsD(1,2) [OF c1(2)] keepsD(1,2) [OF tr(4)] aw0
    by (intro exI [of _ ?el] exI [of _ h]) (simp add: loop_armed_def loop_queue_def registered_def inner_live_def loop_world_def)
qed

end
