(* ===== verification/Mio_Loop_Props.thy ===== *)
theory Mio_Loop_Props
  imports Mio_Loop_Spec
begin

text \<open>
  The properties of the event loop, with a small loop for the witnesses: its queue holds the registration of the
  channel with one message waiting, the kernel reports nothing, and the clock stands still.
\<close>

section \<open>A sample loop\<close>

definition calm_epoll :: "nat epoll_sys" where
  "calm_epoll = \<lparr>es_create1 = None, es_create = (\<lambda>_ w. (3, w)), es_wait = (\<lambda>_ _ _ w. ((0, []), w)), es_ctl = (\<lambda>_ _ _ _ w. (0, w))\<rparr>"

type_synonym sample_env =
  "(epoll_selector, awakener, epoll_events, usize \<times> nat, string timer_entry option list, timer_inner option, string,
    registration_inner option, registration_inner option) loop_env"

type_synonym sample_loop =
  "(epoll_selector, awakener, epoll_events, usize \<times> nat, string timer_entry option list, timer_inner option, nat,
    registration_inner option, registration_inner option) event_loop"

definition env_at :: "instant \<Rightarrow> sample_env" where
  "env_at now = \<lparr>en_sys = epoll_ops sample_os calm_epoll, en_slab = list_slab, en_timer_cell = option_cell,
     en_ctl_cell = option_cell, en_reg_cell = option_cell, en_now = (\<lambda>w. (now, w))\<rparr>"

definition notify_node :: readiness_node where
  "notify_node = (readiness_node_new NOTIFY ready_readable (pollopt_bitor pollopt_edge pollopt_oneshot) 2)
     \<lparr>node_events := 1, node_queued := 1\<rparr>"

definition loop_1 :: sample_loop where
  "loop_1 = \<lparr>el_run = True,
     el_poll = \<lparr>pl_selector = \<lparr>ep_id = 1, ep_fd = 3\<rparr>, pl_queue = demo_queue (\<lparr>aw_reader = 4, aw_writer = 5\<rparr>, 1, 0) (Node 0) notify_node\<rparr>,
     el_events = epoll_events_with_capacity 4, el_timer = timer_a, el_wakeup_state = - 1, el_unparked = False,
     el_thread = None, el_notify = sample_channel [5] 1, el_config = config_default\<lparr>cf_messages_per_tick := 2\<rparr>\<rparr>"

lemma env_at_simps [simp]:
  "en_sys (env_at now) = epoll_ops sample_os calm_epoll" "en_slab (env_at now) = list_slab" "en_timer_cell (env_at now) = option_cell"
  "en_ctl_cell (env_at now) = option_cell" "en_reg_cell (env_at now) = option_cell" "en_now (env_at now) = (\<lambda>w. (now, w))"
  by (simp_all add: env_at_def)

lemma loop_1_simps [simp]:
  "loop_queue loop_1 = demo_queue (\<lparr>aw_reader = 4, aw_writer = 5\<rparr>, 1, 0) (Node 0) notify_node"
  "el_notify loop_1 = sample_channel [5] 1" "el_timer loop_1 = timer_a" "el_run loop_1"
  "el_config loop_1 = config_default\<lparr>cf_messages_per_tick := 2\<rparr>"
  by (simp_all add: loop_1_def loop_queue_def)

lemma notify_rel: "queue_rel (demo_queue w (Node 0) notify_node) (demo_abs w False [0] notify_node)"
  by (auto simp: queue_rel_def demo_defs notify_node_def norm_head_def all_nodes_ok_def core_def fun_eq_iff
      intro!: exI [of _ "[0::nat]"])

lemma notify_wf: "abs_wf (demo_abs w False [0] notify_node)"
  using ready_not_drop(2)
  by (intro abs_wfI) (auto simp: demo_defs notify_node_def node_ok_def NODE_QUEUED_FLAG_def split: if_splits)

lemma loop_1_ok: "loop_armed (env_at now) sample_handle loop_1" "awake (loop_queue loop_1)"
proof -
  let ?q = "demo_queue (\<lparr>aw_reader = 4, aw_writer = 5\<rparr>, 1 :: usize, 0 :: nat) (Node 0) notify_node"
  have h: "handle_ok ?q sample_handle" by (simp add: handle_ok_def demo_defs notify_node_def)
  have v: "node_view ?q sample_handle = Some notify_node"
    by (simp add: node_view_def ready_ref_as_ref_def demo_defs notify_node_def core_def)
  have r: "inner_readiness ?q sample_handle = Some ready_readable"
    unfolding inner_readiness_view v by (simp add: notify_node_def event_from_usize_def ready_readable_def)
  have "chan_ok option_cell sample_handle (sample_channel [5] 1) ?q"
    using sample_chan_ok(1) queue_wfI [OF notify_rel notify_wf] h r by (simp add: chan_ok_def sample_channel_def closed_def)
  moreover have "notify_armed ?q sample_handle"
    by (simp add: notify_armed_def v) (simp add: notify_node_def readiness_node_new_def registration_data_new_def node_token_def
        node_interest_def node_poll_opts_def)
  moreover have "tm_inner timer_a = None" using timer_0_facts(5) by (simp add: timer_a_def option_cell_def)
  ultimately show "loop_armed (env_at now) sample_handle loop_1"
    by (simp add: loop_armed_def loop_base_def sample_channel_def option_cell_def)
  show "awake (loop_queue loop_1)" by (simp add: awake_def demo_queue_def)
qed

lemma epoll_buffer_ok: "buffer_ok (epoll_ops os ep) epoll_visible"
  using epe.event_buffer_axioms by (simp add: buffer_ok_def epoll_visible_def event_new_def)

lemma env_buffer_ok: "buffer_ok (en_sys (env_at now)) epoll_visible"
  by (simp add: epoll_buffer_ok)

text \<open>A handler that records what it is given and shuts the loop down after the tick.\<close>

definition recorder :: "(nat list, sample_loop, string, nat) handler" where
  "recorder = handler_default\<lparr>hd_notify := (\<lambda>hs el m. Some (hs @ [m], el)), hd_tick := (\<lambda>hs el. Some (hs, loop_shutdown el))\<rparr>"

definition timer_recorder :: "(string list, sample_loop, string, nat) handler" where
  "timer_recorder = handler_default\<lparr>hd_timeout := (\<lambda>hs el x. Some (hs @ [x], el))\<rparr>"

lemma recorder_keeps: "handler_keeps env h recorder"
  by (auto simp: handler_keeps_def recorder_def handler_default_def loop_keeps_refl loop_shutdown_keeps)

lemma loop_1_polled: "polled_events (demo_abs w False [0] notify_node) = [event_new ready_readable NOTIFY]"
  unfolding polled_events_def delivered_def demo_abs_def notify_node_def by code_simp

lemma loop_1_polls:
  "\<exists>el1. io_poll (env_at now) timeout loop_1 = Some (Inr 1, el1) \<and> loop_base (env_at now) sample_handle el1 \<and>
     awake (loop_queue el1) \<and> (\<exists>e. events_get (epoll_ops sample_os calm_epoll) (el_events el1) 0 = Some e \<and> ev_token e = NOTIFY) \<and>
     el_notify el1 = sample_channel [5] 1 \<and> el_config el1 = el_config loop_1"
proof -
  let ?w = "(\<lparr>aw_reader = 4, aw_writer = 5\<rparr>, 1 :: usize, 0 :: nat)" and ?sys = "epoll_ops sample_os calm_epoll"
  let ?es = "\<lparr>evs_list = [], evs_cap = evs_cap (epoll_events_with_capacity 4)\<rparr>"
  let ?evs = "foldl epoll_events_push ?es (polled_events (demo_abs ?w False [0] notify_node))"
  have sel: "sys_select ?sys (pl_selector (el_poll loop_1)) (el_events loop_1) AWAKEN t ?w = Some (Inr False, pl_selector (el_poll loop_1), ?es, ?w)" for t
    by (simp add: epoll_ops_def epoll_select_def calm_epoll_def cvt_def is_minus_one_def loop_1_def epoll_events_with_capacity_def)
  have rel: "queue_rel (pl_queue (el_poll loop_1)) (demo_abs ?w False [0] notify_node)" using notify_rel by (simp add: loop_1_def)
  obtain q where q: "queue_poll epoll_events_push (pl_queue (el_poll loop_1)) ?es = Some (q, ?evs)"
    using queue_poll_abs [OF rel notify_wf, of epoll_events_push ?es] by metis
  let ?el1 = "loop_1\<lparr>el_poll := (el_poll loop_1)\<lparr>pl_queue := q\<rparr>, el_events := ?evs\<rparr>"
  have ev: "?evs = epoll_events_push ?es (event_new ready_readable NOTIFY)" by (simp add: loop_1_polled)
  have aw: "awakener (pl_queue (el_poll loop_1)) = ?w" by (simp add: loop_1_def demo_queue_def)
  have pl: "(el_poll loop_1)\<lparr>pl_selector := pl_selector (el_poll loop_1), pl_queue := (pl_queue (el_poll loop_1))\<lparr>awakener := ?w\<rparr>\<rparr> = el_poll loop_1"
    using aw by simp
  have io: "io_poll (env_at now) timeout loop_1 = Some (Inr (epoll_events_len ?evs), ?el1)"
    using q sel aw by (simp add: io_poll_def poll_poll_def poll_timeout_cases queue_is_empty_def loop_1_def demo_queue_def poll_finish_def)
  have len: "epoll_events_len ?evs = 1" using epe.len_push [of ?es] by (simp add: ev epoll_events_len_def)
  have get: "epoll_events_get ?evs 0 = Some (epoll_visible (event_new ready_readable NOTIFY))"
    using epe.get_push [of ?es _ 0] by (simp add: ev epoll_events_len_def)
  have "loop_base (env_at now) sample_handle ?el1"
    using io_poll_armed [OF env_buffer_ok loop_1_ok(1) io] by simp
  moreover have "awake q" by (rule poll_awake [OF queue_wfI [OF rel notify_wf] q])
  ultimately show ?thesis
    using io len get by (intro exI [of _ ?el1]) (simp add: events_get_def epoll_visible_def event_new_def loop_queue_def)
qed

lemma loop_1_runs:
  "\<exists>el'. loop_run (env_at now) recorder [] loop_1 = Some (Inr (), [5], el') \<and> mp_messages (ch_mpsc (el_notify el')) = []"
proof -
  obtain el1 e where p: "io_poll (env_at now) None loop_1 = Some (Inr 1, el1)" "loop_base (env_at now) sample_handle el1"
    "awake (loop_queue el1)" "events_get (epoll_ops sample_os calm_epoll) (el_events el1) 0 = Some e" "ev_token e = NOTIFY"
    "el_notify el1 = sample_channel [5] 1" "el_config el1 = el_config loop_1"
    using loop_1_polls by blast
  have n: "\<exists>el2. loop_notify (env_at now) recorder [] el1 = Some ([5], el2) \<and> mp_messages (ch_mpsc (el_notify el2)) = []"
    using notify_total [where hdl = recorder and f = "\<lambda>hs m. hs @ [m]" and g = "\<lambda>hs m el. el", OF _ _ p(2,3), of "[]"]
      p(6,7) by (auto simp: recorder_def handler_default_def sample_channel_def)
  then obtain el2 where el2: "loop_notify (env_at now) recorder [] el1 = Some ([5], el2)" "mp_messages (ch_mpsc (el_notify el2)) = []" by blast
  have d: "loop_dispatch (env_at now) recorder e [] el1 = Some ([5], el2)" using p(5) el2(1) by (simp add: loop_dispatch_def)
  have "run_once (env_at now) recorder None [] loop_1 = Some (Inr (), [5], loop_shutdown el2)"
    using p(1,4) d by (simp add: run_once_def io_process_def) (simp add: recorder_def)
  then have "run_loop (env_at now) recorder [] loop_1 = run_loop (env_at now) recorder [5] (loop_shutdown el2)"
    by (subst run_loop.simps) simp
  also have "\<dots> = Some (Inr (), [5], loop_shutdown el2)"
    by (subst run_loop.simps) (simp add: loop_shutdown_def)
  finally show ?thesis
    using el2(2) by (simp add: loop_run_def loop_1_def) (simp add: loop_shutdown_def)
qed

lemma clock_500: "clock_tick (env_at 500000000) timer_a w = Some 5"
  unfolding clock_tick_def env_at_simps timer_a_def timer_0_eq by code_simp

section \<open>Properties\<close>



text \<open>C27.  Setting and clearing timeouts, \<open>shutdown\<close>, \<open>channel\<close> and a send through a \<open>Sender\<close> keep the loop ready for
  notifications.  A send delivers the message to a loop whose channel has room and otherwise returns it; an IO error
  can only come from waking the poller, after the message is queued.\<close>

theorem loop_operations_keep:
  assumes armed: "loop_armed env h el" and alive: "\<not> closed (el_notify el)" "ch_senders (ch_inner (el_notify el)) \<noteq> - 1"
    "mp_receiver (ch_mpsc (el_notify el))" and len: "length (mp_messages (ch_mpsc (el_notify el))) < MESSAGE_LIMIT"
  shows "(case loop_timeout env x d el of None \<Rightarrow> True | Some (_, el') \<Rightarrow> loop_armed env h el') \<and>
    (case loop_clear_timeout env to el of None \<Rightarrow> True | Some (_, el') \<Rightarrow> loop_armed env h el') \<and>
    loop_armed env h (loop_shutdown el) \<and> \<not> loop_is_running (loop_shutdown el) \<and> loop_armed env h (loop_channel el) \<and>
    (\<exists>r c q. loop_sender_send (en_ctl_cell env) wake (el_notify el) m (loop_queue el) = Some (r, c, q) \<and>
       loop_armed env h (with_channel c q el) \<and>
       (if mpsc_full (ch_mpsc (el_notify el)) then r = Inl (NotifyFull m) \<and> mp_messages (ch_mpsc c) = mp_messages (ch_mpsc (el_notify el))
        else mp_messages (ch_mpsc c) = mp_messages (ch_mpsc (el_notify el)) @ [m] \<and> (r = Inr () \<or> (\<exists>e. r = Inl (NotifyIo e)))))"
proof -
  have k: "loop_keeps env h el el' \<Longrightarrow> loop_armed env h el'" for el' using armed by (simp add: loop_keeps_def)
  have ok: "chan_ok (en_ctl_cell env) h (el_notify el) (loop_queue el)" using armed by (simp add: loop_armed_def loop_base_def)
  obtain r c q where s: "sync_sender_try_send (en_ctl_cell env) wake (el_notify el) m (loop_queue el) = Some (r, c, q)"
    "chan_ok (en_ctl_cell env) h c q" "ch_registration c = ch_registration (el_notify el)" "chan_moves h (loop_queue el) q"
    "mp_messages (ch_mpsc c) = mp_messages (ch_mpsc (el_notify el)) @ (if \<not> mpsc_full (ch_mpsc (el_notify el)) then [m] else [])"
    using try_send_ok [OF ok alive(1) len, of wake m] alive(3) by auto
  have res: "if mpsc_full (ch_mpsc (el_notify el)) then r = Inl (TrySendFull m) else r = Inr () \<or> (\<exists>e. r = Inl (TrySendIo e))"
  proof (cases "mpsc_full (ch_mpsc (el_notify el))")
    case False
    then obtain e where "r = map_sum try_send_error_from_io id e"
      using s(1) alive(3) by (auto simp: sync_sender_try_send_def mpsc_try_send_def Option.bind_eq_Some_conv)
    then show ?thesis using False by (cases e) (auto simp: try_send_error_from_io_def)
  qed (use s(1) alive(3) in \<open>simp add: sync_sender_try_send_def mpsc_try_send_def\<close>)
  have "loop_armed env h (with_channel c q el)" by (rule k, rule loop_keeps_chan) (use s in blast)
  then show ?thesis
    using k loop_timeout_keeps [of env x d el] loop_clear_timeout_keeps [of env to el] k [OF loop_shutdown_keeps]
      k [OF loop_channel_keeps [OF alive(1,2)]] s(1,5) res
    by (auto simp: loop_sender_send_def loop_is_running_def loop_shutdown_def split: option.splits)
qed

theorem loop_operations_keep_witness:
  "\<exists>r c q. loop_sender_send option_cell (sys_wakeup (epoll_ops sample_os calm_epoll)) (el_notify loop_1) 6 (loop_queue loop_1) = Some (r, c, q) \<and>
     mp_messages (ch_mpsc c) = [5, 6] \<and> loop_armed (env_at 0) sample_handle (with_channel c q loop_1)"
proof -
  have alive: "\<not> closed (el_notify loop_1)" "ch_senders (ch_inner (el_notify loop_1)) \<noteq> - 1" "mp_receiver (ch_mpsc (el_notify loop_1))"
    and len: "length (mp_messages (ch_mpsc (el_notify loop_1))) < MESSAGE_LIMIT"
    and full: "\<not> mpsc_full (ch_mpsc (el_notify loop_1))" and msgs: "mp_messages (ch_mpsc (el_notify loop_1)) = [5]"
    by (simp_all add: sample_channel_def closed_def MESSAGE_LIMIT_def mpsc_full_def)
  show ?thesis
    using loop_operations_keep [OF loop_1_ok(1) [of 0] alive len, of "[]" undefined undefined "sys_wakeup (epoll_ops sample_os calm_epoll)" 6]
      full msgs by (simp only: env_at_simps if_False append.simps) blast
qed

text \<open>C28.  No notification is left behind.  If the handler keeps the loop ready, then whenever \<open>run_once\<close> or \<open>run\<close>
  returns, with or without an error, the channel is still registered and enabled; and if messages are waiting or
  the senders are gone, the next poll of the queue reports the notification.\<close>

theorem no_message_starves:
  assumes "buffer_ok (en_sys env) norm" and "handler_keeps env h hdl" and "loop_armed env h el"
    and ret: "run_once env hdl timeout hs el = Some (r, hs', el') \<or> loop_run env hdl hs el = Some (r, hs', el')"
  shows "loop_armed env h el' \<and> (mp_messages (ch_mpsc (el_notify el')) \<noteq> [] \<or> closed (el_notify el') \<longrightarrow>
    (\<exists>q evs. queue_poll (\<lambda>evs e. evs @ [e]) (loop_queue el') [] = Some (q, evs) \<and> event_new ready_readable NOTIFY \<in> set evs))"
proof -
  have start: "loop_armed env h (el\<lparr>el_run := True\<rparr>)" using assms(3) by (simp add: loop_armed_def loop_base_def)
  have "loop_armed env h el'"
    using ret run_once_armed [OF assms(1-3)] run_loop_armed [OF assms(1,2) start] by (auto simp: loop_run_def)
  then show ?thesis using armed_delivers by blast
qed

theorem no_message_starves_witness:
  "\<exists>el'. loop_run (env_at 0) recorder [] loop_1 = Some (Inr (), [5], el') \<and> loop_armed (env_at 0) sample_handle el'"
proof -
  obtain el' where "loop_run (env_at 0) recorder [] loop_1 = Some (Inr (), [5], el')" using loop_1_runs by blast
  then show ?thesis
    using no_message_starves [OF env_buffer_ok recorder_keeps loop_1_ok(1) disjI2] by blast
qed

text \<open>C29.  \<open>EventLoop::notify\<close> with a handler that leaves the channel and the queue alone: it hands over the first
  \<open>messages_per_tick\<close> messages in the order in which they were sent, keeps the others, and registers again; if
  messages are left, the next poll reports the notification again.\<close>

theorem notify_delivers:
  assumes hdl: "\<And>hs el m. hd_notify hdl hs el m = Some (f hs m, g hs m el)"
    and g: "\<And>hs m el. el_notify (g hs m el) = el_notify el \<and> loop_queue (g hs m el) = loop_queue el \<and>
      tm_inner (el_timer (g hs m el)) = tm_inner (el_timer el)"
    and armed: "loop_armed env h el" and "awake (loop_queue el)" and n: "n = unat (cf_messages_per_tick (el_config el))"
  shows "\<exists>el'. loop_notify env hdl hs el = Some (foldl f hs (take n (mp_messages (ch_mpsc (el_notify el)))), el') \<and>
    mp_messages (ch_mpsc (el_notify el')) = drop n (mp_messages (ch_mpsc (el_notify el))) \<and> loop_armed env h el' \<and>
    (n < length (mp_messages (ch_mpsc (el_notify el))) \<longrightarrow>
      (\<exists>q evs. queue_poll (\<lambda>evs e. evs @ [e]) (loop_queue el') [] = Some (q, evs) \<and> event_new ready_readable NOTIFY \<in> set evs))"
proof -
  have base: "loop_base env h el" using armed by (simp add: loop_armed_def)
  obtain el' where "loop_notify env hdl hs el = Some (foldl f hs (take n (mp_messages (ch_mpsc (el_notify el)))), el')"
    "mp_messages (ch_mpsc (el_notify el')) = drop n (mp_messages (ch_mpsc (el_notify el)))" "loop_armed env h el'"
    using notify_total [where hdl = hdl, OF hdl g base assms(4)] n by blast
  then show ?thesis using armed_delivers [of env h el'] by (intro exI [of _ el']) auto
qed

theorem notify_delivers_witness:
  "\<exists>el'. loop_notify (env_at 0) recorder [] loop_1 = Some ([5], el') \<and> mp_messages (ch_mpsc (el_notify el')) = []"
  using notify_delivers [where hdl = recorder and f = "\<lambda>hs m. hs @ [m]" and g = "\<lambda>hs m el. el" and hs = "[]", OF _ _ loop_1_ok refl]
  by (auto simp: recorder_def handler_default_def sample_channel_def)

text \<open>C30.  \<open>EventLoop::timer_process\<close> ends, although the clock goes on between the polls: with a handler that leaves
  the timer alone, it passes each of some pending timeouts to the handler once, ordered by tick, keeps the others,
  and returns when every timeout left lies after a reading of the clock.  A registered timer then has its next
  wakeup scheduled early enough.\<close>

theorem timer_process_ends:
  assumes "slab_laws (en_slab env) v EMPTY" and "\<And>hs el x. hd_timeout hdl hs el x = Some (f hs x, g hs x el)"
    and "\<And>hs x el. el_timer (g hs x el) = el_timer el \<and> loop_world (g hs x el) = loop_world el"
    and "timer_wf v (el_timer el)" "queue_wf (loop_queue el)" "inner_live (en_timer_cell env) (el_timer el) (loop_world el)"
    and "clock_ok env (el_timer el)" "tm_tick (el_timer el) \<noteq> - 1"
  shows "\<exists>ks el'. timer_process env hdl hs el = Some (foldl f hs (map (\<lambda>k. snd (the (pending v (el_timer el) k))) ks), el') \<and>
    distinct ks \<and> set ks \<subseteq> dom (pending v (el_timer el)) \<and> sorted (map (\<lambda>k. fst (the (pending v (el_timer el) k))) ks) \<and>
    timer_wf v (el_timer el') \<and> pending v (el_timer el') = pending v (el_timer el) |` (- set ks) \<and>
    armed (en_timer_cell env) v (el_timer el') (loop_world el') \<and>
    (\<exists>w tick. clock_tick env (el_timer el) w = Some tick \<and> (\<forall>k tk x. pending v (el_timer el') k = Some (tk, x) \<longrightarrow> tick < tk))"
  using timer_process_drains [where hdl = hdl, OF assms(1-3)] assms(4-) by blast

theorem timer_process_ends_witness:
  "\<exists>el'. timer_process (env_at 500000000) timer_recorder [] loop_1 = Some ([''a''], el') \<and> pending list_slab_view (el_timer el') = Map.empty"
proof -
  let ?p = "pending list_slab_view timer_a"
  have hdl: "hd_timeout timer_recorder hs el x = Some (hs @ [x], el)" for hs el x by (simp add: timer_recorder_def)
  have live: "inner_live (en_timer_cell (env_at 500000000)) (el_timer loop_1) (loop_world loop_1)"
    using timer_0_live [OF timer_a_facts(4)] by simp
  have clock: "clock_ok (env_at 500000000) (el_timer loop_1)" by (simp add: clock_ok_def clock_500)
  have wf: "timer_wf list_slab_view (el_timer loop_1)" "tm_tick (el_timer loop_1) \<noteq> - 1" using timer_a_facts(1,3) by simp_all
  have q: "queue_wf (loop_queue loop_1)" using loop_1_ok(1) [of 0] by (simp add: loop_armed_def loop_base_def chan_ok_def)
  have laws: "slab_laws (en_slab (env_at 500000000)) list_slab_view EMPTY" using EMPTY_laws by simp
  obtain ks el' w tick where e: "timer_process (env_at 500000000) timer_recorder [] loop_1 =
      Some (foldl (\<lambda>hs x. hs @ [x]) [] (map (\<lambda>k. snd (the (?p k))) ks), el')" "distinct ks" "set ks \<subseteq> dom ?p"
    "pending list_slab_view (el_timer el') = ?p |` (- set ks)"
    "clock_tick (env_at 500000000) timer_a w = Some tick"
    "\<forall>k tk x. pending list_slab_view (el_timer el') k = Some (tk, x) \<longrightarrow> tick < tk"
    using timer_process_ends [where f = "\<lambda>hs x. hs @ [x]" and g = "\<lambda>hs x el. el" and hs = "[]",
        OF laws hdl conjI [OF refl refl] wf(1) q live clock wf(2)]
    unfolding loop_1_simps by (elim exE conjE) (rule that)
  have late: "5 < tk" if "(?p |` (- set ks)) k = Some (tk, x)" for k tk x using that e(4,5,6) clock_500 by auto
  have "Token 0 \<in> set ks" using late [of "Token 0" 2 "''a''"]
    by (cases "Token 0 \<in> set ks") (simp_all add: timer_a_facts(2))
  then have "set ks = {Token 0}" using e(3) by (auto simp: timer_a_facts(2))
  then have ks: "ks = [Token 0]" using e(2) by (cases ks; cases "tl ks") auto
  then show ?thesis using e(1,4) by (simp add: timer_a_facts(2))
qed


end
