(* ===== verification/Mio_Net.thy ===== *)
theory Mio_Net
  imports Mio_Poll
begin

text \<open>
  The sockets of \<open>src/net\<close> (\<open>SelectorId\<close>, \<open>TcpStream\<close>, \<open>TcpListener\<close>, \<open>UdpSocket\<close>), their Unix
  implementation in \<open>src/sys/unix/tcp.rs\<close>, \<open>udp.rs\<close> and \<open>iovec.rs\<close>, and \<open>src/iovec.rs\<close>.  The network calls of the
  standard library and of \<open>net2\<close> are a record of operations on the state of the operating system.  The
  code of \<open>src/net\<close> is written against the platform module; its socket operations are the record \<open>net_platform\<close>,
  with the value \<open>unix_platform\<close>.  A socket that goes out of scope on an error path is closed; \<open>None\<close> is a panic.
\<close>

section \<open>Addresses\<close>

datatype ipv4_addr = Ipv4 u8 u8 u8 u8

datatype ipv6_addr = Ipv6 u16 u16 u16 u16 u16 u16 u16 u16

datatype socket_addr = SocketV4 ipv4_addr u16 | SocketV6 ipv6_addr u16 u32 u32

text \<open>The wildcard address and port of the family of an address.\<close>

fun inaddr_any :: "socket_addr \<Rightarrow> socket_addr" where
  "inaddr_any (SocketV4 _ _) = SocketV4 (Ipv4 0 0 0 0) 0"
| "inaddr_any (SocketV6 _ _ _ _) = SocketV6 (Ipv6 0 0 0 0 0 0 0 0) 0 0 0"

section \<open>Calls\<close>

text \<open>Socket options: what can be set, what can be read, and the values read.\<close>

datatype socket_set =
  SetNodelay bool | SetKeepaliveMs "u32 option" | SetTtl u32 | SetOnlyV6 bool | SetBroadcast bool | SetMulticastLoopV4 bool
| SetMulticastTtlV4 u32 | SetMulticastLoopV6 bool | JoinMulticastV4 ipv4_addr ipv4_addr | JoinMulticastV6 ipv6_addr u32
| LeaveMulticastV4 ipv4_addr ipv4_addr | LeaveMulticastV6 ipv6_addr u32

datatype socket_get =
  GetPeerAddr | GetLocalAddr | GetNodelay | GetKeepaliveMs | GetTtl | GetOnlyV6 | GetBroadcast | GetMulticastLoopV4
| GetMulticastTtlV4 | GetMulticastLoopV6 | TakeError

datatype socket_value = AddrValue socket_addr | BoolValue bool | U32Value u32 | MillisValue "u32 option" | ErrorValue "io_error option"

text \<open>A buffer for vectored IO: the C \<open>struct iovec\<close>.\<close>

record iovec =
  iov_base :: nat
  iov_len :: usize

record 'w net_sys =
  nt_tcp_v4 :: "'w \<Rightarrow> fd io_result \<times> 'w"
  nt_tcp_v6 :: "'w \<Rightarrow> fd io_result \<times> 'w"
  nt_reuse_address :: "fd \<Rightarrow> bool \<Rightarrow> 'w \<Rightarrow> unit io_result \<times> 'w"
  nt_bind :: "fd \<Rightarrow> socket_addr \<Rightarrow> 'w \<Rightarrow> unit io_result \<times> 'w"
  nt_listen :: "fd \<Rightarrow> int \<Rightarrow> 'w \<Rightarrow> unit io_result \<times> 'w"
  nt_to_tcp_stream :: "fd \<Rightarrow> 'w \<Rightarrow> unit io_result \<times> 'w"
  nt_connect :: "fd \<Rightarrow> socket_addr \<Rightarrow> 'w \<Rightarrow> unit io_result \<times> 'w"
  nt_udp_bind :: "socket_addr \<Rightarrow> 'w \<Rightarrow> fd io_result \<times> 'w"
  nt_set_nonblocking :: "fd \<Rightarrow> bool \<Rightarrow> 'w \<Rightarrow> unit io_result \<times> 'w"
  nt_accept :: "fd \<Rightarrow> 'w \<Rightarrow> (fd \<times> socket_addr) io_result \<times> 'w"
  nt_try_clone :: "fd \<Rightarrow> 'w \<Rightarrow> fd io_result \<times> 'w"
  nt_close :: "fd \<Rightarrow> 'w \<Rightarrow> 'w"
  nt_shutdown :: "fd \<Rightarrow> shutdown \<Rightarrow> 'w \<Rightarrow> unit io_result \<times> 'w"
  nt_set :: "fd \<Rightarrow> socket_set \<Rightarrow> 'w \<Rightarrow> unit io_result \<times> 'w"
  nt_get :: "fd \<Rightarrow> socket_get \<Rightarrow> 'w \<Rightarrow> socket_value io_result \<times> 'w"
  nt_read :: "fd \<Rightarrow> nat \<Rightarrow> 'w \<Rightarrow> u8 list io_result \<times> 'w"
  nt_write :: "fd \<Rightarrow> u8 list \<Rightarrow> 'w \<Rightarrow> usize io_result \<times> 'w"
  nt_readv :: "fd \<Rightarrow> iovec list \<Rightarrow> int \<Rightarrow> 'w \<Rightarrow> int \<times> 'w"
  nt_writev :: "fd \<Rightarrow> iovec list \<Rightarrow> int \<Rightarrow> 'w \<Rightarrow> int \<times> 'w"
  nt_send_to :: "fd \<Rightarrow> u8 list \<Rightarrow> socket_addr \<Rightarrow> 'w \<Rightarrow> usize io_result \<times> 'w"
  nt_recv_from :: "fd \<Rightarrow> nat \<Rightarrow> 'w \<Rightarrow> (u8 list \<times> socket_addr) io_result \<times> 'w"

text \<open>\<open>try!\<close> in a function that owns \<open>fd\<close>: on an error it is closed.\<close>

definition try_fd :: "'w net_sys \<Rightarrow> fd \<Rightarrow> unit io_result \<times> 'w \<Rightarrow> ('w \<Rightarrow> 'a io_result \<times> 'w) \<Rightarrow> 'a io_result \<times> 'w" where
  "try_fd nt fd r k = (case r of (Inl e, w) \<Rightarrow> (Inl e, nt_close nt fd w) | (Inr _, w) \<Rightarrow> k w)"

section \<open>Buffers\<close>

text \<open>A byte slice is an address and a length; \<open>src/sys/unix/iovec.rs\<close> keeps it as an \<open>iovec\<close>.\<close>

definition unix_iovec_from :: "nat \<times> usize \<Rightarrow> iovec" where
  "unix_iovec_from bytes = \<lparr>iov_base = fst bytes, iov_len = snd bytes\<rparr>"

definition unix_iovec_as_bytes :: "iovec \<Rightarrow> nat \<times> usize" where
  "unix_iovec_as_bytes v = (iov_base v, iov_len v)"

definition as_iovec_slice :: "iovec list \<Rightarrow> iovec list" where
  "as_iovec_slice iov = iov"

definition iovec_from :: "nat \<times> usize \<Rightarrow> iovec" where
  "iovec_from bytes = unix_iovec_from bytes"

definition iovec_as_bytes :: "iovec \<Rightarrow> nat \<times> usize" where
  "iovec_as_bytes v = unix_iovec_as_bytes v"

section \<open>The platform's sockets\<close>

text \<open>The \<open>Evented\<close> methods of a type: \<open>'p\<close> is the \<open>Poll\<close>, \<open>'w\<close> everything else they change.\<close>

record ('y, 'p, 'w) evented_ops =
  evo_register :: "'y \<Rightarrow> 'p \<Rightarrow> token \<Rightarrow> ready \<Rightarrow> poll_opt \<Rightarrow> 'w \<Rightarrow> (unit io_result \<times> 'p \<times> 'w) option"
  evo_reregister :: "'y \<Rightarrow> 'p \<Rightarrow> token \<Rightarrow> ready \<Rightarrow> poll_opt \<Rightarrow> 'w \<Rightarrow> (unit io_result \<times> 'p \<times> 'w) option"
  evo_deregister :: "'y \<Rightarrow> 'p \<Rightarrow> 'w \<Rightarrow> (unit io_result \<times> 'p \<times> 'w) option"

record ('st, 'li, 'ud, 'p, 'w) net_platform =
  np_windows :: bool
  np_selector_id :: "'p \<Rightarrow> usize"
  np_stream_connect :: "fd \<Rightarrow> socket_addr \<Rightarrow> 'w \<Rightarrow> 'st io_result \<times> 'w"
  np_stream_from :: "fd \<Rightarrow> 'w \<Rightarrow> 'st \<times> 'w"
  np_stream_clone :: "'st \<Rightarrow> 'w \<Rightarrow> 'st io_result \<times> 'w"
  np_stream_get :: "'st \<Rightarrow> socket_get \<Rightarrow> 'w \<Rightarrow> socket_value io_result \<times> 'w"
  np_stream_set :: "'st \<Rightarrow> socket_set \<Rightarrow> 'w \<Rightarrow> unit io_result \<times> 'w"
  np_stream_shutdown :: "'st \<Rightarrow> shutdown \<Rightarrow> 'w \<Rightarrow> unit io_result \<times> 'w"
  np_stream_read :: "'st \<Rightarrow> nat \<Rightarrow> 'w \<Rightarrow> (u8 list io_result \<times> 'w) option"
  np_stream_write :: "'st \<Rightarrow> u8 list \<Rightarrow> 'w \<Rightarrow> (usize io_result \<times> 'w) option"
  np_stream_readv :: "'st \<Rightarrow> iovec list \<Rightarrow> 'w \<Rightarrow> (usize io_result \<times> 'w) option"
  np_stream_writev :: "'st \<Rightarrow> iovec list \<Rightarrow> 'w \<Rightarrow> (usize io_result \<times> 'w) option"
  np_stream_evented :: "('st, 'p, 'w) evented_ops"
  np_listener_new :: "fd \<Rightarrow> socket_addr \<Rightarrow> 'w \<Rightarrow> 'li io_result \<times> 'w"
  np_listener_accept :: "'li \<Rightarrow> 'w \<Rightarrow> (('st \<times> socket_addr) io_result \<times> 'w) option"
  np_listener_clone :: "'li \<Rightarrow> 'w \<Rightarrow> 'li io_result \<times> 'w"
  np_listener_get :: "'li \<Rightarrow> socket_get \<Rightarrow> 'w \<Rightarrow> socket_value io_result \<times> 'w"
  np_listener_set :: "'li \<Rightarrow> socket_set \<Rightarrow> 'w \<Rightarrow> unit io_result \<times> 'w"
  np_listener_evented :: "('li, 'p, 'w) evented_ops"
  np_udp_new :: "fd \<Rightarrow> 'w \<Rightarrow> 'ud io_result \<times> 'w"
  np_udp_clone :: "'ud \<Rightarrow> 'w \<Rightarrow> 'ud io_result \<times> 'w"
  np_udp_get :: "'ud \<Rightarrow> socket_get \<Rightarrow> 'w \<Rightarrow> socket_value io_result \<times> 'w"
  np_udp_set :: "'ud \<Rightarrow> socket_set \<Rightarrow> 'w \<Rightarrow> unit io_result \<times> 'w"
  np_udp_send_to :: "'ud \<Rightarrow> u8 list \<Rightarrow> socket_addr \<Rightarrow> 'w \<Rightarrow> (usize option io_result \<times> 'w) option"
  np_udp_recv_from :: "'ud \<Rightarrow> nat \<Rightarrow> 'w \<Rightarrow> ((u8 list \<times> socket_addr) option io_result \<times> 'w) option"
  np_udp_evented :: "('ud, 'p, 'w) evented_ops"

section \<open>\<open>SelectorId\<close>\<close>

definition selector_id_new :: usize where "selector_id_new = 0"

definition selector_id_clone :: "usize \<Rightarrow> usize" where "selector_id_clone sid = sid"

text \<open>The result and the id stored afterwards; \<open>pid\<close> is the id of the poll's selector.\<close>

definition associate_selector :: "usize \<Rightarrow> usize \<Rightarrow> unit io_result \<times> usize" where
  "associate_selector sid pid =
     (if sid \<noteq> 0 \<and> sid \<noteq> pid then (Inl (CustomError Other ''socket already registered''), sid)
      else (Inr (), pid))"

text \<open>The three socket types of \<open>src/net\<close> have the same fields, and the same \<open>Evented\<close> methods over those of \<open>sys\<close>.\<close>

record 'y net_socket =
  so_sys :: 'y
  so_selector_id :: usize

type_synonym 'st tcp_stream = "'st net_socket"
type_synonym 'li tcp_listener = "'li net_socket"
type_synonym 'ud udp_socket = "'ud net_socket"

definition socket_new :: "'y \<Rightarrow> 'y net_socket" where
  "socket_new y = \<lparr>so_sys = y, so_selector_id = selector_id_new\<rparr>"

definition socket_clone :: "'y net_socket \<Rightarrow> 'y \<Rightarrow> 'y net_socket" where
  "socket_clone s y = \<lparr>so_sys = y, so_selector_id = selector_id_clone (so_selector_id s)\<rparr>"

definition socket_register ::
  "('p \<Rightarrow> usize) \<Rightarrow> ('y, 'p, 'w) evented_ops \<Rightarrow> 'y net_socket \<Rightarrow> 'p \<Rightarrow> token \<Rightarrow> ready \<Rightarrow> poll_opt \<Rightarrow> 'w \<Rightarrow>
     (unit io_result \<times> 'y net_socket \<times> 'p \<times> 'w) option" where
  "socket_register pid evo s p tok interest opts w =
     (case associate_selector (so_selector_id s) (pid p) of
        (Inl e, sid) \<Rightarrow> Some (Inl e, s\<lparr>so_selector_id := sid\<rparr>, p, w)
      | (Inr _, sid) \<Rightarrow>
          map_option (\<lambda>(r, p1, w1). (r, s\<lparr>so_selector_id := sid\<rparr>, p1, w1)) (evo_register evo (so_sys s) p tok interest opts w))"

definition socket_reregister ::
  "('y, 'p, 'w) evented_ops \<Rightarrow> 'y net_socket \<Rightarrow> 'p \<Rightarrow> token \<Rightarrow> ready \<Rightarrow> poll_opt \<Rightarrow> 'w \<Rightarrow>
     (unit io_result \<times> 'y net_socket \<times> 'p \<times> 'w) option" where
  "socket_reregister evo s p tok interest opts w =
     map_option (\<lambda>(r, p1, w1). (r, s, p1, w1)) (evo_reregister evo (so_sys s) p tok interest opts w)"

definition socket_deregister ::
  "('y, 'p, 'w) evented_ops \<Rightarrow> 'y net_socket \<Rightarrow> 'p \<Rightarrow> 'w \<Rightarrow> (unit io_result \<times> 'y net_socket \<times> 'p \<times> 'w) option" where
  "socket_deregister evo s p w = map_option (\<lambda>(r, p1, w1). (r, s, p1, w1)) (evo_deregister evo (so_sys s) p w)"

section \<open>\<open>TcpStream\<close>\<close>

definition tcp_builder_new :: "'w net_sys \<Rightarrow> socket_addr \<Rightarrow> 'w \<Rightarrow> fd io_result \<times> 'w" where
  "tcp_builder_new nt addr w = (case addr of SocketV4 _ _ \<Rightarrow> nt_tcp_v4 nt w | SocketV6 _ _ _ _ \<Rightarrow> nt_tcp_v6 nt w)"

definition tcp_stream_connect_stream ::
  "('st, 'li, 'ud, 'p, 'w) net_platform \<Rightarrow> fd \<Rightarrow> socket_addr \<Rightarrow> 'w \<Rightarrow> 'st tcp_stream io_result \<times> 'w" where
  "tcp_stream_connect_stream np fd addr w =
     (case np_stream_connect np fd addr w of (Inl e, w1) \<Rightarrow> (Inl e, w1) | (Inr st, w1) \<Rightarrow> (Inr (socket_new st), w1))"

definition tcp_stream_connect ::
  "'w net_sys \<Rightarrow> ('st, 'li, 'ud, 'p, 'w) net_platform \<Rightarrow> socket_addr \<Rightarrow> 'w \<Rightarrow> 'st tcp_stream io_result \<times> 'w" where
  "tcp_stream_connect nt np addr w =
     (case tcp_builder_new nt addr w of
        (Inl e, w1) \<Rightarrow> (Inl e, w1)
      | (Inr sock, w1) \<Rightarrow>
          try_fd nt sock (if np_windows np then nt_bind nt sock (inaddr_any addr) w1 else (Inr (), w1)) (\<lambda>w2.
          try_fd nt sock (nt_to_tcp_stream nt sock w2) (\<lambda>w3. tcp_stream_connect_stream np sock addr w3)))"

definition tcp_stream_from_stream ::
  "'w net_sys \<Rightarrow> ('st, 'li, 'ud, 'p, 'w) net_platform \<Rightarrow> fd \<Rightarrow> 'w \<Rightarrow> 'st tcp_stream io_result \<times> 'w" where
  "tcp_stream_from_stream nt np stream w =
     try_fd nt stream (nt_set_nonblocking nt stream True w) (\<lambda>w1.
       case np_stream_from np stream w1 of (st, w2) \<Rightarrow> (Inr (socket_new st), w2))"

definition tcp_stream_try_clone ::
  "('st, 'li, 'ud, 'p, 'w) net_platform \<Rightarrow> 'st tcp_stream \<Rightarrow> 'w \<Rightarrow> 'st tcp_stream io_result \<times> 'w" where
  "tcp_stream_try_clone np s w =
     (case np_stream_clone np (so_sys s) w of (r, w1) \<Rightarrow> (result_map (socket_clone s) r, w1))"

text \<open>The accessors: \<open>peer_addr\<close> and \<open>local_addr\<close>, \<open>nodelay\<close>, \<open>keepalive_ms\<close>, \<open>ttl\<close> and \<open>take_error\<close> read, the others set.\<close>

definition tcp_stream_get ::
  "('st, 'li, 'ud, 'p, 'w) net_platform \<Rightarrow> 'st tcp_stream \<Rightarrow> socket_get \<Rightarrow> 'w \<Rightarrow> socket_value io_result \<times> 'w" where
  "tcp_stream_get np s g w = np_stream_get np (so_sys s) g w"

definition tcp_stream_set ::
  "('st, 'li, 'ud, 'p, 'w) net_platform \<Rightarrow> 'st tcp_stream \<Rightarrow> socket_set \<Rightarrow> 'w \<Rightarrow> unit io_result \<times> 'w" where
  "tcp_stream_set np s x w = np_stream_set np (so_sys s) x w"

definition tcp_stream_shutdown ::
  "('st, 'li, 'ud, 'p, 'w) net_platform \<Rightarrow> 'st tcp_stream \<Rightarrow> shutdown \<Rightarrow> 'w \<Rightarrow> unit io_result \<times> 'w" where
  "tcp_stream_shutdown np s how w = np_stream_shutdown np (so_sys s) how w"

definition tcp_stream_read_bufs ::
  "('st, 'li, 'ud, 'p, 'w) net_platform \<Rightarrow> 'st tcp_stream \<Rightarrow> iovec list \<Rightarrow> 'w \<Rightarrow> (usize io_result \<times> 'w) option" where
  "tcp_stream_read_bufs np s bufs w = np_stream_readv np (so_sys s) bufs w"

definition tcp_stream_write_bufs ::
  "('st, 'li, 'ud, 'p, 'w) net_platform \<Rightarrow> 'st tcp_stream \<Rightarrow> iovec list \<Rightarrow> 'w \<Rightarrow> (usize io_result \<times> 'w) option" where
  "tcp_stream_write_bufs np s bufs w = np_stream_writev np (so_sys s) bufs w"

definition tcp_stream_read ::
  "('st, 'li, 'ud, 'p, 'w) net_platform \<Rightarrow> 'st tcp_stream \<Rightarrow> nat \<Rightarrow> 'w \<Rightarrow> (u8 list io_result \<times> 'w) option" where
  "tcp_stream_read np s len w = np_stream_read np (so_sys s) len w"

definition tcp_stream_write ::
  "('st, 'li, 'ud, 'p, 'w) net_platform \<Rightarrow> 'st tcp_stream \<Rightarrow> u8 list \<Rightarrow> 'w \<Rightarrow> (usize io_result \<times> 'w) option" where
  "tcp_stream_write np s buf w = np_stream_write np (so_sys s) buf w"

definition tcp_stream_register ::
  "('st, 'li, 'ud, 'p, 'w) net_platform \<Rightarrow> 'st tcp_stream \<Rightarrow> 'p \<Rightarrow> token \<Rightarrow> ready \<Rightarrow> poll_opt \<Rightarrow> 'w \<Rightarrow>
     (unit io_result \<times> 'st tcp_stream \<times> 'p \<times> 'w) option" where
  "tcp_stream_register np = socket_register (np_selector_id np) (np_stream_evented np)"

definition tcp_stream_reregister ::
  "('st, 'li, 'ud, 'p, 'w) net_platform \<Rightarrow> 'st tcp_stream \<Rightarrow> 'p \<Rightarrow> token \<Rightarrow> ready \<Rightarrow> poll_opt \<Rightarrow> 'w \<Rightarrow>
     (unit io_result \<times> 'st tcp_stream \<times> 'p \<times> 'w) option" where
  "tcp_stream_reregister np = socket_reregister (np_stream_evented np)"

definition tcp_stream_deregister ::
  "('st, 'li, 'ud, 'p, 'w) net_platform \<Rightarrow> 'st tcp_stream \<Rightarrow> 'p \<Rightarrow> 'w \<Rightarrow> (unit io_result \<times> 'st tcp_stream \<times> 'p \<times> 'w) option" where
  "tcp_stream_deregister np = socket_deregister (np_stream_evented np)"

section \<open>\<open>TcpListener\<close>\<close>

definition tcp_listener_from_listener ::
  "('st, 'li, 'ud, 'p, 'w) net_platform \<Rightarrow> fd \<Rightarrow> socket_addr \<Rightarrow> 'w \<Rightarrow> 'li tcp_listener io_result \<times> 'w" where
  "tcp_listener_from_listener np listener addr w =
     (case np_listener_new np listener addr w of (r, w1) \<Rightarrow> (result_map socket_new r, w1))"

definition tcp_listener_bind ::
  "'w net_sys \<Rightarrow> ('st, 'li, 'ud, 'p, 'w) net_platform \<Rightarrow> socket_addr \<Rightarrow> 'w \<Rightarrow> 'li tcp_listener io_result \<times> 'w" where
  "tcp_listener_bind nt np addr w =
     (case tcp_builder_new nt addr w of
        (Inl e, w1) \<Rightarrow> (Inl e, w1)
      | (Inr sock, w1) \<Rightarrow>
          try_fd nt sock (if np_windows np then (Inr (), w1) else nt_reuse_address nt sock True w1) (\<lambda>w2.
          try_fd nt sock (nt_bind nt sock addr w2) (\<lambda>w3.
          try_fd nt sock (nt_listen nt sock 1024 w3) (\<lambda>w4.
          case np_listener_new np sock addr w4 of
            (Inl e, w5) \<Rightarrow> (Inl e, w5)
          | (Inr li, w5) \<Rightarrow> (Inr (socket_new li), w5)))))"

definition tcp_listener_accept ::
  "('st, 'li, 'ud, 'p, 'w) net_platform \<Rightarrow> 'li tcp_listener \<Rightarrow> 'w \<Rightarrow> (('st tcp_stream \<times> socket_addr) io_result \<times> 'w) option" where
  "tcp_listener_accept np l w =
     map_option (\<lambda>(r, w1). (result_map (\<lambda>(s, a). (socket_new s, a)) r, w1)) (np_listener_accept np (so_sys l) w)"

definition tcp_listener_try_clone ::
  "('st, 'li, 'ud, 'p, 'w) net_platform \<Rightarrow> 'li tcp_listener \<Rightarrow> 'w \<Rightarrow> 'li tcp_listener io_result \<times> 'w" where
  "tcp_listener_try_clone np l w =
     (case np_listener_clone np (so_sys l) w of (r, w1) \<Rightarrow> (result_map (socket_clone l) r, w1))"

definition tcp_listener_get ::
  "('st, 'li, 'ud, 'p, 'w) net_platform \<Rightarrow> 'li tcp_listener \<Rightarrow> socket_get \<Rightarrow> 'w \<Rightarrow> socket_value io_result \<times> 'w" where
  "tcp_listener_get np l g w = np_listener_get np (so_sys l) g w"

definition tcp_listener_set ::
  "('st, 'li, 'ud, 'p, 'w) net_platform \<Rightarrow> 'li tcp_listener \<Rightarrow> socket_set \<Rightarrow> 'w \<Rightarrow> unit io_result \<times> 'w" where
  "tcp_listener_set np l x w = np_listener_set np (so_sys l) x w"

definition tcp_listener_register ::
  "('st, 'li, 'ud, 'p, 'w) net_platform \<Rightarrow> 'li tcp_listener \<Rightarrow> 'p \<Rightarrow> token \<Rightarrow> ready \<Rightarrow> poll_opt \<Rightarrow> 'w \<Rightarrow>
     (unit io_result \<times> 'li tcp_listener \<times> 'p \<times> 'w) option" where
  "tcp_listener_register np = socket_register (np_selector_id np) (np_listener_evented np)"

definition tcp_listener_reregister ::
  "('st, 'li, 'ud, 'p, 'w) net_platform \<Rightarrow> 'li tcp_listener \<Rightarrow> 'p \<Rightarrow> token \<Rightarrow> ready \<Rightarrow> poll_opt \<Rightarrow> 'w \<Rightarrow>
     (unit io_result \<times> 'li tcp_listener \<times> 'p \<times> 'w) option" where
  "tcp_listener_reregister np = socket_reregister (np_listener_evented np)"

definition tcp_listener_deregister ::
  "('st, 'li, 'ud, 'p, 'w) net_platform \<Rightarrow> 'li tcp_listener \<Rightarrow> 'p \<Rightarrow> 'w \<Rightarrow> (unit io_result \<times> 'li tcp_listener \<times> 'p \<times> 'w) option" where
  "tcp_listener_deregister np = socket_deregister (np_listener_evented np)"

section \<open>\<open>UdpSocket\<close>\<close>

definition udp_from_socket ::
  "('st, 'li, 'ud, 'p, 'w) net_platform \<Rightarrow> fd \<Rightarrow> 'w \<Rightarrow> 'ud udp_socket io_result \<times> 'w" where
  "udp_from_socket np sock w =
     (case np_udp_new np sock w of (Inl e, w1) \<Rightarrow> (Inl e, w1) | (Inr u, w1) \<Rightarrow> (Inr (socket_new u), w1))"

definition udp_bind ::
  "'w net_sys \<Rightarrow> ('st, 'li, 'ud, 'p, 'w) net_platform \<Rightarrow> socket_addr \<Rightarrow> 'w \<Rightarrow> 'ud udp_socket io_result \<times> 'w" where
  "udp_bind nt np addr w =
     (case nt_udp_bind nt addr w of (Inl e, w1) \<Rightarrow> (Inl e, w1) | (Inr sock, w1) \<Rightarrow> udp_from_socket np sock w1)"

definition udp_try_clone ::
  "('st, 'li, 'ud, 'p, 'w) net_platform \<Rightarrow> 'ud udp_socket \<Rightarrow> 'w \<Rightarrow> 'ud udp_socket io_result \<times> 'w" where
  "udp_try_clone np u w =
     (case np_udp_clone np (so_sys u) w of (r, w1) \<Rightarrow> (result_map (socket_clone u) r, w1))"

definition udp_send_to ::
  "('st, 'li, 'ud, 'p, 'w) net_platform \<Rightarrow> 'ud udp_socket \<Rightarrow> u8 list \<Rightarrow> socket_addr \<Rightarrow> 'w \<Rightarrow> (usize option io_result \<times> 'w) option" where
  "udp_send_to np u buf target w = np_udp_send_to np (so_sys u) buf target w"

definition udp_recv_from ::
  "('st, 'li, 'ud, 'p, 'w) net_platform \<Rightarrow> 'ud udp_socket \<Rightarrow> nat \<Rightarrow> 'w \<Rightarrow> ((u8 list \<times> socket_addr) option io_result \<times> 'w) option" where
  "udp_recv_from np u len w = np_udp_recv_from np (so_sys u) len w"

definition udp_get ::
  "('st, 'li, 'ud, 'p, 'w) net_platform \<Rightarrow> 'ud udp_socket \<Rightarrow> socket_get \<Rightarrow> 'w \<Rightarrow> socket_value io_result \<times> 'w" where
  "udp_get np u g w = np_udp_get np (so_sys u) g w"

definition udp_set ::
  "('st, 'li, 'ud, 'p, 'w) net_platform \<Rightarrow> 'ud udp_socket \<Rightarrow> socket_set \<Rightarrow> 'w \<Rightarrow> unit io_result \<times> 'w" where
  "udp_set np u x w = np_udp_set np (so_sys u) x w"

definition udp_register ::
  "('st, 'li, 'ud, 'p, 'w) net_platform \<Rightarrow> 'ud udp_socket \<Rightarrow> 'p \<Rightarrow> token \<Rightarrow> ready \<Rightarrow> poll_opt \<Rightarrow> 'w \<Rightarrow>
     (unit io_result \<times> 'ud udp_socket \<times> 'p \<times> 'w) option" where
  "udp_register np = socket_register (np_selector_id np) (np_udp_evented np)"

definition udp_reregister ::
  "('st, 'li, 'ud, 'p, 'w) net_platform \<Rightarrow> 'ud udp_socket \<Rightarrow> 'p \<Rightarrow> token \<Rightarrow> ready \<Rightarrow> poll_opt \<Rightarrow> 'w \<Rightarrow>
     (unit io_result \<times> 'ud udp_socket \<times> 'p \<times> 'w) option" where
  "udp_reregister np = socket_reregister (np_udp_evented np)"

definition udp_deregister ::
  "('st, 'li, 'ud, 'p, 'w) net_platform \<Rightarrow> 'ud udp_socket \<Rightarrow> 'p \<Rightarrow> 'w \<Rightarrow> (unit io_result \<times> 'ud udp_socket \<times> 'p \<times> 'w) option" where
  "udp_deregister np = socket_deregister (np_udp_evented np)"

end
