(* ===== verification/Mio_Unix_Net.thy ===== *)
theory Mio_Unix_Net
  imports Mio_Net
begin

text \<open>
  The Unix sockets: \<open>src/sys/unix/tcp.rs\<close> and \<open>udp.rs\<close> as the value \<open>unix_platform\<close> of the platform the code of \<open>src/net\<close> is
  written against, the \<open>Evented\<close> methods of \<open>Io\<close> and of the Unix domain socket, and \<open>src/deprecated/unix.rs\<close> with
  \<open>UnixSocket\<close>, \<open>UnixStream\<close>, \<open>UnixListener\<close>, \<open>PipeReader\<close> and \<open>PipeWriter\<close>, all of which are wrappers of a descriptor.
\<close>

section \<open>Registering descriptors\<close>

text \<open>What \<open>EventedFd\<close> uses of the selector of a \<open>Poll\<close>, for epoll and for kqueue.\<close>

record ('s, 'o) fd_ops =
  fdo_id :: "'s \<Rightarrow> usize"
  fdo_register :: "fd \<Rightarrow> 's \<Rightarrow> token \<Rightarrow> ready \<Rightarrow> poll_opt \<Rightarrow> 'o \<Rightarrow> unit io_result \<times> 's \<times> 'o"
  fdo_reregister :: "fd \<Rightarrow> 's \<Rightarrow> token \<Rightarrow> ready \<Rightarrow> poll_opt \<Rightarrow> 'o \<Rightarrow> unit io_result \<times> 's \<times> 'o"
  fdo_deregister :: "fd \<Rightarrow> 's \<Rightarrow> 'o \<Rightarrow> unit io_result \<times> 's \<times> 'o"

definition epoll_fd_ops :: "'o unix_sys \<Rightarrow> 'o epoll_sys \<Rightarrow> (epoll_selector, 'o) fd_ops" where
  "epoll_fd_ops os ep =
     \<lparr>fdo_id = epoll_id,
      fdo_register = (\<lambda>fd s tok i p w. case evented_fd_register os ep fd s tok i p w of (r, w1) \<Rightarrow> (r, s, w1)),
      fdo_reregister = (\<lambda>fd s tok i p w. case evented_fd_reregister os ep fd s tok i p w of (r, w1) \<Rightarrow> (r, s, w1)),
      fdo_deregister = (\<lambda>fd s w. case evented_fd_deregister os ep fd s w of (r, w1) \<Rightarrow> (r, s, w1))\<rparr>"

definition kqueue_fd_ops :: "'o unix_sys \<Rightarrow> 'o kqueue_sys \<Rightarrow> (kqueue_selector, 'o) fd_ops" where
  "kqueue_fd_ops os ks =
     \<lparr>fdo_id = kqueue_id,
      fdo_register = (\<lambda>fd s tok i p w. kqueue_register os ks s fd tok i p w),
      fdo_reregister = (\<lambda>fd s tok i p w. kqueue_reregister os ks s fd tok i p w),
      fdo_deregister = (\<lambda>fd s w. kqueue_deregister os ks s fd w)\<rparr>"

text \<open>\<open>Evented for Io\<close>, and the methods of the types that only wrap an \<open>Io\<close> or a descriptor.\<close>

definition io_evented :: "('s, 'o) fd_ops \<Rightarrow> (fd, 's, 'o) evented_ops" where
  "io_evented fo =
     \<lparr>evo_register = (\<lambda>fd s tok i p w. Some (fdo_register fo fd s tok i p w)),
      evo_reregister = (\<lambda>fd s tok i p w. Some (fdo_reregister fo fd s tok i p w)),
      evo_deregister = (\<lambda>fd s w. Some (fdo_deregister fo fd s w))\<rparr>"

definition sys_unix_socket_evented :: "('s, 'o) fd_ops \<Rightarrow> (fd, 's, 'o) evented_ops" where
  "sys_unix_socket_evented fo = io_evented fo"

definition sys_tcp_stream_evented :: "('s, 'o) fd_ops \<Rightarrow> (fd, 's, 'o) evented_ops" where
  "sys_tcp_stream_evented fo = io_evented fo"

definition sys_tcp_listener_evented :: "('s, 'o) fd_ops \<Rightarrow> (fd, 's, 'o) evented_ops" where
  "sys_tcp_listener_evented fo = io_evented fo"

definition sys_udp_evented :: "('s, 'o) fd_ops \<Rightarrow> (fd, 's, 'o) evented_ops" where
  "sys_udp_evented fo = io_evented fo"

section \<open>\<open>TcpStream\<close>\<close>

definition sys_tcp_connect :: "'o unix_sys \<Rightarrow> 'o net_sys \<Rightarrow> fd \<Rightarrow> socket_addr \<Rightarrow> 'o \<Rightarrow> fd io_result \<times> 'o" where
  "sys_tcp_connect os nt stream addr w =
     try_fd nt stream (set_nonblock os stream w) (\<lambda>w1.
       case nt_connect nt stream addr w1 of
         (Inr _, w2) \<Rightarrow> (Inr stream, w2)
       | (Inl e, w2) \<Rightarrow>
           if raw_os_error e = Some EINPROGRESS then (Inr stream, w2) else (Inl e, nt_close nt stream w2))"

definition sys_tcp_from_stream :: "fd \<Rightarrow> fd" where "sys_tcp_from_stream stream = stream"

definition sys_tcp_try_clone :: "'o net_sys \<Rightarrow> fd \<Rightarrow> 'o \<Rightarrow> fd io_result \<times> 'o" where
  "sys_tcp_try_clone nt fd w = nt_try_clone nt fd w"

text \<open>The accessors of the three socket types go to the socket of the standard library.\<close>

definition sys_tcp_stream_get :: "'o net_sys \<Rightarrow> fd \<Rightarrow> socket_get \<Rightarrow> 'o \<Rightarrow> socket_value io_result \<times> 'o" where
  "sys_tcp_stream_get nt fd g w = nt_get nt fd g w"

definition sys_tcp_stream_set :: "'o net_sys \<Rightarrow> fd \<Rightarrow> socket_set \<Rightarrow> 'o \<Rightarrow> unit io_result \<times> 'o" where
  "sys_tcp_stream_set nt fd x w = nt_set nt fd x w"

definition sys_tcp_stream_shutdown :: "'o net_sys \<Rightarrow> fd \<Rightarrow> shutdown \<Rightarrow> 'o \<Rightarrow> unit io_result \<times> 'o" where
  "sys_tcp_stream_shutdown nt fd how w = nt_shutdown nt fd how w"

definition sys_tcp_listener_get :: "'o net_sys \<Rightarrow> fd \<Rightarrow> socket_get \<Rightarrow> 'o \<Rightarrow> socket_value io_result \<times> 'o" where
  "sys_tcp_listener_get nt fd g w = nt_get nt fd g w"

definition sys_tcp_listener_set :: "'o net_sys \<Rightarrow> fd \<Rightarrow> socket_set \<Rightarrow> 'o \<Rightarrow> unit io_result \<times> 'o" where
  "sys_tcp_listener_set nt fd x w = nt_set nt fd x w"

definition sys_udp_get :: "'o net_sys \<Rightarrow> fd \<Rightarrow> socket_get \<Rightarrow> 'o \<Rightarrow> socket_value io_result \<times> 'o" where
  "sys_udp_get nt fd g w = nt_get nt fd g w"

definition sys_udp_set :: "'o net_sys \<Rightarrow> fd \<Rightarrow> socket_set \<Rightarrow> 'o \<Rightarrow> unit io_result \<times> 'o" where
  "sys_udp_set nt fd x w = nt_set nt fd x w"

text \<open>\<open>readv\<close> and \<open>writev\<close> pass at most \<open>c_int::max_value()\<close> buffers.\<close>

definition C_INT_MAX :: nat where "C_INT_MAX = 2 ^ 31 - 1"

definition rc_result :: "'o unix_sys \<Rightarrow> int \<times> 'o \<Rightarrow> usize io_result \<times> 'o" where
  "rc_result os r = (case r of (rc, w) \<Rightarrow> (if rc < 0 then Inl (OsError (os_errno os w)) else Inr (of_int rc), w))"

definition sys_tcp_readv :: "'o unix_sys \<Rightarrow> 'o net_sys \<Rightarrow> fd \<Rightarrow> iovec list \<Rightarrow> 'o \<Rightarrow> usize io_result \<times> 'o" where
  "sys_tcp_readv os nt fd bufs w =
     (let slice = as_iovec_slice bufs;
          len = min C_INT_MAX (length slice)
      in rc_result os (nt_readv nt fd slice (int len) w))"

definition sys_tcp_writev :: "'o unix_sys \<Rightarrow> 'o net_sys \<Rightarrow> fd \<Rightarrow> iovec list \<Rightarrow> 'o \<Rightarrow> usize io_result \<times> 'o" where
  "sys_tcp_writev os nt fd bufs w =
     (let slice = as_iovec_slice bufs;
          len = min C_INT_MAX (length slice)
      in rc_result os (nt_writev nt fd slice (int len) w))"

section \<open>\<open>TcpListener\<close>\<close>

definition sys_tcp_listener_new :: "'o unix_sys \<Rightarrow> 'o net_sys \<Rightarrow> fd \<Rightarrow> socket_addr \<Rightarrow> 'o \<Rightarrow> fd io_result \<times> 'o" where
  "sys_tcp_listener_new os nt inner addr w = try_fd nt inner (set_nonblock os inner w) (\<lambda>w1. (Inr inner, w1))"

definition sys_tcp_listener_try_clone :: "'o net_sys \<Rightarrow> fd \<Rightarrow> 'o \<Rightarrow> fd io_result \<times> 'o" where
  "sys_tcp_listener_try_clone nt fd w = nt_try_clone nt fd w"

definition sys_tcp_accept :: "'o unix_sys \<Rightarrow> 'o net_sys \<Rightarrow> fd \<Rightarrow> 'o \<Rightarrow> (fd \<times> socket_addr) io_result \<times> 'o" where
  "sys_tcp_accept os nt fd w =
     (case nt_accept nt fd w of
        (Inl e, w1) \<Rightarrow> (Inl e, w1)
      | (Inr (s, a), w1) \<Rightarrow> try_fd nt s (set_nonblock os s w1) (\<lambda>w2. (Inr (s, a), w2)))"

section \<open>\<open>UdpSocket\<close>\<close>

definition sys_udp_new :: "'o net_sys \<Rightarrow> fd \<Rightarrow> 'o \<Rightarrow> fd io_result \<times> 'o" where
  "sys_udp_new nt socket w = try_fd nt socket (nt_set_nonblocking nt socket True w) (\<lambda>w1. (Inr socket, w1))"

definition sys_udp_try_clone :: "'o net_sys \<Rightarrow> fd \<Rightarrow> 'o \<Rightarrow> fd io_result \<times> 'o" where
  "sys_udp_try_clone nt fd w = nt_try_clone nt fd w"

definition sys_udp_send_to :: "'o net_sys \<Rightarrow> fd \<Rightarrow> u8 list \<Rightarrow> socket_addr \<Rightarrow> 'o \<Rightarrow> usize option io_result \<times> 'o" where
  "sys_udp_send_to nt fd buf target w = (case nt_send_to nt fd buf target w of (r, w1) \<Rightarrow> (map_non_block r, w1))"

definition sys_udp_recv_from :: "'o net_sys \<Rightarrow> fd \<Rightarrow> nat \<Rightarrow> 'o \<Rightarrow> (u8 list \<times> socket_addr) option io_result \<times> 'o" where
  "sys_udp_recv_from nt fd len w = (case nt_recv_from nt fd len w of (r, w1) \<Rightarrow> (map_non_block r, w1))"

section \<open>The platform\<close>

definition unix_platform ::
  "'o unix_sys \<Rightarrow> 'o net_sys \<Rightarrow> ('s, 'o) fd_ops \<Rightarrow> (fd, fd, fd, 's, 'o) net_platform" where
  "unix_platform os nt fo =
     \<lparr>np_windows = False, np_selector_id = fdo_id fo,
      np_stream_connect = sys_tcp_connect os nt, np_stream_from = (\<lambda>fd w. (sys_tcp_from_stream fd, w)),
      np_stream_clone = sys_tcp_try_clone nt, np_stream_get = sys_tcp_stream_get nt, np_stream_set = sys_tcp_stream_set nt,
      np_stream_shutdown = sys_tcp_stream_shutdown nt,
      np_stream_read = (\<lambda>fd len w. Some (nt_read nt fd len w)), np_stream_write = (\<lambda>fd buf w. Some (nt_write nt fd buf w)),
      np_stream_readv = (\<lambda>fd bufs w. Some (sys_tcp_readv os nt fd bufs w)),
      np_stream_writev = (\<lambda>fd bufs w. Some (sys_tcp_writev os nt fd bufs w)),
      np_stream_evented = sys_tcp_stream_evented fo,
      np_listener_new = sys_tcp_listener_new os nt, np_listener_accept = (\<lambda>fd w. Some (sys_tcp_accept os nt fd w)),
      np_listener_clone = sys_tcp_listener_try_clone nt, np_listener_get = sys_tcp_listener_get nt,
      np_listener_set = sys_tcp_listener_set nt,
      np_listener_evented = sys_tcp_listener_evented fo,
      np_udp_new = sys_udp_new nt, np_udp_clone = sys_udp_try_clone nt, np_udp_get = sys_udp_get nt, np_udp_set = sys_udp_set nt,
      np_udp_send_to = (\<lambda>fd buf target w. Some (sys_udp_send_to nt fd buf target w)),
      np_udp_recv_from = (\<lambda>fd len w. Some (sys_udp_recv_from nt fd len w)),
      np_udp_evented = sys_udp_evented fo\<rparr>"

section \<open>The deprecated Unix sockets\<close>

definition dep_socket_stream :: "'o unix_sys \<Rightarrow> 'o \<Rightarrow> fd io_result \<times> 'o" where
  "dep_socket_stream os w = unix_socket_stream os w"

text \<open>\<open>UnixSocket::connect\<close> consumes the socket: it becomes the stream, with a flag that the connection is
  complete, or is closed.\<close>

definition dep_socket_connect :: "'o unix_sys \<Rightarrow> fd \<Rightarrow> u8 list \<Rightarrow> 'o \<Rightarrow> (fd \<times> bool) io_result \<times> 'o" where
  "dep_socket_connect os fd addr w =
     (case unix_socket_connect os fd addr w of
        (Inr _, w1) \<Rightarrow> (Inr (fd, True), w1)
      | (Inl e, w1) \<Rightarrow>
          if error_kind_of e = WouldBlock then (Inr (fd, False), w1) else (Inl e, os_close os fd w1))"

definition dep_socket_bind :: "'o unix_sys \<Rightarrow> fd \<Rightarrow> u8 list \<Rightarrow> 'o \<Rightarrow> unit io_result \<times> 'o" where
  "dep_socket_bind os fd addr w = unix_socket_bind os fd addr w"

definition dep_socket_listen :: "'o unix_sys \<Rightarrow> fd \<Rightarrow> usize \<Rightarrow> 'o \<Rightarrow> fd io_result \<times> 'o" where
  "dep_socket_listen os fd backlog w =
     (case unix_socket_listen os fd backlog w of (Inl e, w1) \<Rightarrow> (Inl e, os_close os fd w1) | (Inr _, w1) \<Rightarrow> (Inr fd, w1))"

definition dep_socket_try_clone :: "'o unix_sys \<Rightarrow> fd \<Rightarrow> 'o \<Rightarrow> fd io_result \<times> 'o" where
  "dep_socket_try_clone os fd w = unix_socket_try_clone os fd w"

definition dep_socket_evented :: "('s, 'o) fd_ops \<Rightarrow> (fd, 's, 'o) evented_ops" where
  "dep_socket_evented fo = sys_unix_socket_evented fo"

definition dep_stream_connect :: "'o unix_sys \<Rightarrow> u8 list \<Rightarrow> 'o \<Rightarrow> fd io_result \<times> 'o" where
  "dep_stream_connect os path w =
     (case dep_socket_stream os w of
        (Inl e, w1) \<Rightarrow> (Inl e, w1)
      | (Inr sock, w1) \<Rightarrow> (case dep_socket_connect os sock path w1 of (r, w2) \<Rightarrow> (result_map fst r, w2)))"

definition dep_stream_try_clone :: "'o unix_sys \<Rightarrow> fd \<Rightarrow> 'o \<Rightarrow> fd io_result \<times> 'o" where
  "dep_stream_try_clone os fd w = unix_socket_try_clone os fd w"

definition dep_stream_shutdown :: "'o unix_sys \<Rightarrow> fd \<Rightarrow> shutdown \<Rightarrow> 'o \<Rightarrow> usize io_result \<times> 'o" where
  "dep_stream_shutdown os fd how w = (case unix_socket_shutdown os fd how w of (r, w1) \<Rightarrow> (result_map (\<lambda>_. 0) r, w1))"

definition dep_stream_read_recv_fd :: "'o unix_sys \<Rightarrow> fd \<Rightarrow> nat \<Rightarrow> 'o \<Rightarrow> (u8 list \<times> fd option) io_result \<times> 'o" where
  "dep_stream_read_recv_fd os fd len w = unix_socket_read_recv_fd os fd len w"

definition dep_stream_try_read_recv_fd :: "'o unix_sys \<Rightarrow> fd \<Rightarrow> nat \<Rightarrow> 'o \<Rightarrow> (u8 list \<times> fd option) option io_result \<times> 'o" where
  "dep_stream_try_read_recv_fd os fd len w =
     (case dep_stream_read_recv_fd os fd len w of (r, w1) \<Rightarrow> (map_non_block r, w1))"

definition dep_stream_write_send_fd :: "'o unix_sys \<Rightarrow> fd \<Rightarrow> u8 list \<Rightarrow> fd \<Rightarrow> 'o \<Rightarrow> int io_result \<times> 'o" where
  "dep_stream_write_send_fd os fd buf send w = unix_socket_write_send_fd os fd buf send w"

definition dep_stream_try_write_send_fd :: "'o unix_sys \<Rightarrow> fd \<Rightarrow> u8 list \<Rightarrow> fd \<Rightarrow> 'o \<Rightarrow> int option io_result \<times> 'o" where
  "dep_stream_try_write_send_fd os fd buf send w =
     (case dep_stream_write_send_fd os fd buf send w of (r, w1) \<Rightarrow> (map_non_block r, w1))"

definition dep_stream_read :: "'o unix_sys \<Rightarrow> fd \<Rightarrow> nat \<Rightarrow> 'o \<Rightarrow> u8 list io_result \<times> 'o" where
  "dep_stream_read os fd len w = io_read os fd len w"

definition dep_stream_write :: "'o unix_sys \<Rightarrow> fd \<Rightarrow> u8 list \<Rightarrow> 'o \<Rightarrow> int io_result \<times> 'o" where
  "dep_stream_write os fd buf w = io_write os fd buf w"

definition dep_stream_evented :: "('s, 'o) fd_ops \<Rightarrow> (fd, 's, 'o) evented_ops" where
  "dep_stream_evented fo = sys_unix_socket_evented fo"

text \<open>\<open>UnixListener::bind\<close>: the socket is dropped if it cannot be bound; \<open>listen\<close> consumes it.\<close>

definition dep_listener_bind :: "'o unix_sys \<Rightarrow> u8 list \<Rightarrow> 'o \<Rightarrow> fd io_result \<times> 'o" where
  "dep_listener_bind os addr w =
     (case dep_socket_stream os w of
        (Inl e, w1) \<Rightarrow> (Inl e, w1)
      | (Inr sock, w1) \<Rightarrow>
          (case dep_socket_bind os sock addr w1 of
             (Inl e, w2) \<Rightarrow> (Inl e, os_close os sock w2)
           | (Inr _, w2) \<Rightarrow> dep_socket_listen os sock 256 w2))"

definition dep_listener_accept :: "'o unix_sys \<Rightarrow> fd \<Rightarrow> 'o \<Rightarrow> fd io_result \<times> 'o" where
  "dep_listener_accept os fd w = unix_socket_accept os fd w"

definition dep_listener_try_clone :: "'o unix_sys \<Rightarrow> fd \<Rightarrow> 'o \<Rightarrow> fd io_result \<times> 'o" where
  "dep_listener_try_clone os fd w = unix_socket_try_clone os fd w"

definition dep_listener_evented :: "('s, 'o) fd_ops \<Rightarrow> (fd, 's, 'o) evented_ops" where
  "dep_listener_evented fo = sys_unix_socket_evented fo"

definition dep_listener_try_accept :: "'o unix_sys \<Rightarrow> fd \<Rightarrow> 'o \<Rightarrow> fd option io_result \<times> 'o" where
  "dep_listener_try_accept os fd w = (case dep_listener_accept os fd w of (r, w1) \<Rightarrow> (map_non_block r, w1))"

section \<open>Pipes\<close>

definition dep_pipe :: "'o unix_sys \<Rightarrow> 'o \<Rightarrow> (fd \<times> fd) io_result \<times> 'o" where
  "dep_pipe os w = (case sys_pipe os w of (Inl e, w1) \<Rightarrow> (Inl e, w1) | (Inr (rd, wr), w1) \<Rightarrow> (Inr (rd, wr), w1))"

text \<open>The ends of the pipes of a child process; the handle is dropped if it cannot be made nonblocking.\<close>

definition child_pipe :: "'o unix_sys \<Rightarrow> fd \<Rightarrow> 'o \<Rightarrow> fd io_result \<times> 'o" where
  "child_pipe os fd w =
     (case set_nonblock os fd w of (Inl e, w1) \<Rightarrow> (Inl e, os_close os fd w1) | (Inr _, w1) \<Rightarrow> (Inr fd, w1))"

definition pipe_reader_from_stdout :: "'o unix_sys \<Rightarrow> fd \<Rightarrow> 'o \<Rightarrow> fd io_result \<times> 'o" where
  "pipe_reader_from_stdout os stdout w = child_pipe os stdout w"

definition pipe_reader_from_stderr :: "'o unix_sys \<Rightarrow> fd \<Rightarrow> 'o \<Rightarrow> fd io_result \<times> 'o" where
  "pipe_reader_from_stderr os stderr w = child_pipe os stderr w"

definition pipe_writer_from_stdin :: "'o unix_sys \<Rightarrow> fd \<Rightarrow> 'o \<Rightarrow> fd io_result \<times> 'o" where
  "pipe_writer_from_stdin os stdin w = child_pipe os stdin w"

definition pipe_reader_read :: "'o unix_sys \<Rightarrow> fd \<Rightarrow> nat \<Rightarrow> 'o \<Rightarrow> u8 list io_result \<times> 'o" where
  "pipe_reader_read os fd len w = io_read os fd len w"

definition pipe_writer_write :: "'o unix_sys \<Rightarrow> fd \<Rightarrow> u8 list \<Rightarrow> 'o \<Rightarrow> int io_result \<times> 'o" where
  "pipe_writer_write os fd buf w = io_write os fd buf w"

definition pipe_writer_flush :: "unit io_result" where "pipe_writer_flush = io_flush"

definition pipe_reader_evented :: "('s, 'o) fd_ops \<Rightarrow> (fd, 's, 'o) evented_ops" where
  "pipe_reader_evented fo = io_evented fo"

definition pipe_writer_evented :: "('s, 'o) fd_ops \<Rightarrow> (fd, 's, 'o) evented_ops" where
  "pipe_writer_evented fo = io_evented fo"

section \<open>Raw descriptors\<close>

text \<open>On Unix the socket of the platform is its descriptor.  A handle made from a descriptor has no selector yet.\<close>

definition tcp_stream_into_raw_fd :: "fd tcp_stream \<Rightarrow> fd" where
  "tcp_stream_into_raw_fd s = so_sys s"

definition tcp_stream_as_raw_fd :: "fd tcp_stream \<Rightarrow> fd" where
  "tcp_stream_as_raw_fd s = so_sys s"

definition tcp_stream_from_raw_fd :: "fd \<Rightarrow> fd tcp_stream" where
  "tcp_stream_from_raw_fd fd = \<lparr>so_sys = fd, so_selector_id = selector_id_new\<rparr>"

definition tcp_listener_into_raw_fd :: "fd tcp_listener \<Rightarrow> fd" where
  "tcp_listener_into_raw_fd s = so_sys s"

definition tcp_listener_as_raw_fd :: "fd tcp_listener \<Rightarrow> fd" where
  "tcp_listener_as_raw_fd s = so_sys s"

definition tcp_listener_from_raw_fd :: "fd \<Rightarrow> fd tcp_listener" where
  "tcp_listener_from_raw_fd fd = \<lparr>so_sys = fd, so_selector_id = selector_id_new\<rparr>"

definition udp_into_raw_fd :: "fd udp_socket \<Rightarrow> fd" where
  "udp_into_raw_fd s = so_sys s"

definition udp_as_raw_fd :: "fd udp_socket \<Rightarrow> fd" where
  "udp_as_raw_fd s = so_sys s"

definition udp_from_raw_fd :: "fd \<Rightarrow> fd udp_socket" where
  "udp_from_raw_fd fd = \<lparr>so_sys = fd, so_selector_id = selector_id_new\<rparr>"

end
