(* ===== verification/Mio_Net_Props.thy ===== *)
theory Mio_Net_Props
  imports Mio_Unix_Net Mio_Sys_Props
begin

text \<open>
  Properties of the sockets: a socket and its clones stay with one selector, and no constructor leaks a descriptor
  or returns one that blocks.
\<close>

section \<open>Sequences of calls on a socket\<close>

text \<open>The handles of a socket (the original and its clones), the polls of the program, and the rest of the world.  A
  call names its handle and its poll by number.\<close>

record ('y, 'p, 'w) socket_state =
  ss_handles :: "'y net_socket list"
  ss_polls :: "nat \<Rightarrow> 'p"
  ss_world :: 'w

datatype socket_call =
  CallRegister nat nat token ready poll_opt | CallReregister nat nat token ready poll_opt | CallDeregister nat nat | CallClone nat

definition stream_result ::
  "nat \<Rightarrow> nat \<Rightarrow> ('y, 'p, 'w) socket_state \<Rightarrow> (unit io_result \<times> 'y net_socket \<times> 'p \<times> 'w) option \<Rightarrow>
     (unit io_result \<times> ('y, 'p, 'w) socket_state) option" where
  "stream_result h k st res =
     map_option (\<lambda>(r, s, p, w). (r, \<lparr>ss_handles = (ss_handles st)[h := s], ss_polls = (ss_polls st)(k := p), ss_world = w\<rparr>)) res"

text \<open>A call on a handle that does not exist is not made.\<close>

fun stream_call ::
  "('st, 'li, 'ud, 'p, 'w) net_platform \<Rightarrow> socket_call \<Rightarrow> ('st, 'p, 'w) socket_state \<Rightarrow>
     (unit io_result \<times> ('st, 'p, 'w) socket_state) option" where
  "stream_call np (CallRegister h k tok i o') st =
     (if h < length (ss_handles st)
      then stream_result h k st (tcp_stream_register np (ss_handles st ! h) (ss_polls st k) tok i o' (ss_world st)) else None)"
| "stream_call np (CallReregister h k tok i o') st =
     (if h < length (ss_handles st)
      then stream_result h k st (tcp_stream_reregister np (ss_handles st ! h) (ss_polls st k) tok i o' (ss_world st)) else None)"
| "stream_call np (CallDeregister h k) st =
     (if h < length (ss_handles st)
      then stream_result h k st (tcp_stream_deregister np (ss_handles st ! h) (ss_polls st k) (ss_world st)) else None)"
| "stream_call np (CallClone h) st =
     (if h < length (ss_handles st)
      then (case tcp_stream_try_clone np (ss_handles st ! h) (ss_world st) of
              (Inl e, w) \<Rightarrow> Some (Inl e, st\<lparr>ss_world := w\<rparr>)
            | (Inr s, w) \<Rightarrow> Some (Inr (), st\<lparr>ss_handles := ss_handles st @ [s], ss_world := w\<rparr>))
      else None)"

fun stream_calls ::
  "('st, 'li, 'ud, 'p, 'w) net_platform \<Rightarrow> socket_call list \<Rightarrow> ('st, 'p, 'w) socket_state \<Rightarrow> ('st, 'p, 'w) socket_state option" where
  "stream_calls np [] st = Some st"
| "stream_calls np (c # cs) st = Option.bind (stream_call np c st) (\<lambda>(_, st1). stream_calls np cs st1)"

text \<open>The id of a selector is fixed when it is created: registering descriptors does not change it.\<close>

definition fixed_id :: "('p \<Rightarrow> usize) \<Rightarrow> ('y, 'p, 'w) evented_ops \<Rightarrow> bool" where
  "fixed_id pid evo \<longleftrightarrow>
     (\<forall>y p tok i o' w r p' w'. evo_register evo y p tok i o' w = Some (r, p', w') \<longrightarrow> pid p' = pid p) \<and>
     (\<forall>y p tok i o' w r p' w'. evo_reregister evo y p tok i o' w = Some (r, p', w') \<longrightarrow> pid p' = pid p) \<and>
     (\<forall>y p w r p' w'. evo_deregister evo y p w = Some (r, p', w') \<longrightarrow> pid p' = pid p)"

lemma fixed_idD:
  assumes "fixed_id pid evo"
  shows "evo_register evo y p tok i o' w = Some (r, p', w') \<Longrightarrow> pid p' = pid p"
    and "evo_reregister evo y p tok i o' w = Some (r, p', w') \<Longrightarrow> pid p' = pid p"
    and "evo_deregister evo y p w = Some (r, p', w') \<Longrightarrow> pid p' = pid p"
  using assms unfolding fixed_id_def by metis+

lemma flush_changes_id: "flush_changes os ks s w = (r, s', w') \<Longrightarrow> kq_id s' = kq_id s"
  by (auto simp: flush_changes_def Let_def split: prod.splits if_splits sum.splits)

lemma ev_register_id [simp]: "kq_id (ev_register s fd tok filt en opts) = kq_id s" "kq_id (ev_push s fd tk filt flags) = kq_id s"
  by (simp_all add: ev_register_def ev_push_def Let_def)

lemma unix_fixed_id:
  "fixed_id (np_selector_id (unix_platform os nt (epoll_fd_ops os ep))) (np_stream_evented (unix_platform os nt (epoll_fd_ops os ep)))"
  "fixed_id (np_selector_id (unix_platform os nt (kqueue_fd_ops os ks))) (np_stream_evented (unix_platform os nt (kqueue_fd_ops os ks)))"
  by (auto simp: fixed_id_def unix_platform_def sys_tcp_stream_evented_def io_evented_def epoll_fd_ops_def kqueue_fd_ops_def
      kqueue_register_def kqueue_reregister_def kqueue_deregister_def kqueue_id_def Let_def dest!: flush_changes_id split: prod.splits)

abbreviation already_registered :: io_error where
  "already_registered \<equiv> CustomError Other ''socket already registered''"

definition polls_named :: "('st, 'li, 'ud, 'p, 'w) net_platform \<Rightarrow> (nat \<Rightarrow> usize) \<Rightarrow> ('st, 'p, 'w) socket_state \<Rightarrow> bool" where
  "polls_named np ids st \<longleftrightarrow> (\<forall>k. np_selector_id np (ss_polls st k) = ids k)"

lemma socket_register_cases:
  assumes "tcp_stream_register np s p tok i o' w = Some (r, s', p', w')"
  shows "so_selector_id s \<noteq> 0 \<and> so_selector_id s \<noteq> np_selector_id np p \<and> r = Inl already_registered \<and> s' = s \<and> p' = p \<and> w' = w \<or>
    (so_selector_id s = 0 \<or> so_selector_id s = np_selector_id np p) \<and> so_selector_id s' = np_selector_id np p \<and>
    (fixed_id (np_selector_id np) (np_stream_evented np) \<longrightarrow> np_selector_id np p' = np_selector_id np p)"
  using assms
  by (auto simp: tcp_stream_register_def socket_register_def associate_selector_def dest: fixed_idD(1) split: if_splits)

lemma stream_call_step:
  assumes fixed: "fixed_id (np_selector_id np) (np_stream_evented np)" and named: "polls_named np ids st"
    and call: "stream_call np c st = Some (r, st')"
  shows "polls_named np ids st'" "length (ss_handles st) \<le> length (ss_handles st')"
    and "h < length (ss_handles st) \<Longrightarrow> so_selector_id (ss_handles st ! h) \<noteq> 0 \<Longrightarrow>
      so_selector_id (ss_handles st' ! h) = so_selector_id (ss_handles st ! h)"
proof -
  have "polls_named np ids st' \<and> length (ss_handles st) \<le> length (ss_handles st') \<and>
    (\<forall>h < length (ss_handles st). so_selector_id (ss_handles st ! h) \<noteq> 0 \<longrightarrow>
      so_selector_id (ss_handles st' ! h) = so_selector_id (ss_handles st ! h))"
  proof (cases c)
    case (CallRegister h k tok i o')
    then obtain s p w where c: "tcp_stream_register np (ss_handles st ! h) (ss_polls st k) tok i o' (ss_world st) = Some (r, s, p, w)"
      "st' = \<lparr>ss_handles = (ss_handles st)[h := s], ss_polls = (ss_polls st)(k := p), ss_world = w\<rparr>" "h < length (ss_handles st)"
      using call by (auto simp: stream_result_def split: if_splits)
    show ?thesis using socket_register_cases [OF c(1)] fixed named c(2,3) by (auto simp: polls_named_def nth_list_update)
  next
    case (CallReregister h k tok i o')
    then show ?thesis
      using call named
      by (auto simp: stream_result_def tcp_stream_reregister_def socket_reregister_def polls_named_def nth_list_update
          dest: fixed_idD(2) [OF fixed] split: if_splits)
  next
    case (CallDeregister h k)
    then show ?thesis
      using call named
      by (auto simp: stream_result_def tcp_stream_deregister_def socket_deregister_def polls_named_def nth_list_update
          dest: fixed_idD(3) [OF fixed] split: if_splits)
  next
    case (CallClone h)
    then show ?thesis
      using call named by (auto simp: polls_named_def nth_append split: if_splits prod.splits sum.splits)
  qed
  then show "polls_named np ids st'" "length (ss_handles st) \<le> length (ss_handles st')"
    "h < length (ss_handles st) \<Longrightarrow> so_selector_id (ss_handles st ! h) \<noteq> 0 \<Longrightarrow>
      so_selector_id (ss_handles st' ! h) = so_selector_id (ss_handles st ! h)" by blast+
qed

lemma stream_calls_keep:
  assumes fixed: "fixed_id (np_selector_id np) (np_stream_evented np)"
  shows "stream_calls np cs st = Some st' \<Longrightarrow> polls_named np ids st \<Longrightarrow>
    polls_named np ids st' \<and> length (ss_handles st) \<le> length (ss_handles st') \<and>
    (\<forall>h < length (ss_handles st). so_selector_id (ss_handles st ! h) \<noteq> 0 \<longrightarrow>
      so_selector_id (ss_handles st' ! h) = so_selector_id (ss_handles st ! h))"
proof (induction cs arbitrary: st)
  case (Cons c cs)
  then obtain r st1 where c: "stream_call np c st = Some (r, st1)" "stream_calls np cs st1 = Some st'"
    by (auto simp: Option.bind_eq_Some_conv)
  note s = stream_call_step [OF fixed Cons.prems(2) c(1)]
  show ?case using Cons.IH [OF c(2) s(1)] s by (metis less_le_trans order_trans)
qed simp

section \<open>One selector per socket\<close>

text \<open>C32.  A stream stays with one selector.  Once a handle is associated with a selector, no sequence of calls on it and
  on its clones, through any polls, changes that; registering it with a poll of another selector then fails with
  "socket already registered" and changes nothing; and a registration with any other outcome, also one the
  operating system refuses, associates the handle with the selector of its poll.  A clone made after that is
  associated too.\<close>

theorem socket_one_selector:
  assumes "fixed_id (np_selector_id np) (np_stream_evented np)" and "polls_named np ids st" and "\<forall>k. ids k \<noteq> 0"
    and "stream_calls np cs st = Some st'"
  shows "(\<forall>h < length (ss_handles st). so_selector_id (ss_handles st ! h) \<noteq> 0 \<longrightarrow>
      so_selector_id (ss_handles st' ! h) = so_selector_id (ss_handles st ! h)) \<and>
    (\<forall>h < length (ss_handles st'). so_selector_id (ss_handles st' ! h) \<notin> {0, ids k} \<longrightarrow>
      stream_call np (CallRegister h k tok i o') st' = Some (Inl already_registered, st')) \<and>
    (\<forall>h r st''. stream_call np (CallRegister h k tok i o') st' = Some (r, st'') \<and> so_selector_id (ss_handles st' ! h) \<in> {0, ids k} \<longrightarrow>
      so_selector_id (ss_handles st'' ! h) = ids k) \<and>
    (\<forall>h st''. stream_call np (CallClone h) st' = Some (Inr (), st'') \<longrightarrow>
      so_selector_id (last (ss_handles st'')) = so_selector_id (ss_handles st' ! h))"
proof -
  have k: "np_selector_id np (ss_polls st' k) = ids k" and keep: "\<forall>h < length (ss_handles st). so_selector_id (ss_handles st ! h) \<noteq> 0 \<longrightarrow>
      so_selector_id (ss_handles st' ! h) = so_selector_id (ss_handles st ! h)"
    using stream_calls_keep [OF assms(1,4,2)] by (simp_all add: polls_named_def)
  have refuse: "stream_call np (CallRegister h k tok i o') st' = Some (Inl already_registered, st')"
    if "h < length (ss_handles st')" "so_selector_id (ss_handles st' ! h) \<notin> {0, ids k}" for h
    using that k by (simp add: stream_result_def tcp_stream_register_def socket_register_def associate_selector_def)
  have bind: "so_selector_id (ss_handles st'' ! h) = ids k"
    if "stream_call np (CallRegister h k tok i o') st' = Some (r, st'')" "so_selector_id (ss_handles st' ! h) \<in> {0, ids k}" for h r st''
    using that k assms(3)
    by (auto simp: stream_result_def split: if_splits dest!: socket_register_cases)
  have clone: "so_selector_id (last (ss_handles st'')) = so_selector_id (ss_handles st' ! h)"
    if "stream_call np (CallClone h) st' = Some (Inr (), st'')" for h st''
    using that by (auto simp: tcp_stream_try_clone_def result_map_def socket_clone_def selector_id_clone_def split: if_splits prod.splits sum.splits)
  show ?thesis using keep refuse bind clone by blast
qed

definition no_net :: "'o net_sys" where
  "no_net = \<lparr>nt_tcp_v4 = (\<lambda>w. (Inl would_block, w)), nt_tcp_v6 = (\<lambda>w. (Inl would_block, w)), nt_reuse_address = (\<lambda>_ _ w. (Inr (), w)),
     nt_bind = (\<lambda>_ _ w. (Inr (), w)), nt_listen = (\<lambda>_ _ w. (Inr (), w)), nt_to_tcp_stream = (\<lambda>_ w. (Inr (), w)),
     nt_connect = (\<lambda>_ _ w. (Inl (OsError EINPROGRESS), w)), nt_udp_bind = (\<lambda>_ w. (Inl would_block, w)),
     nt_set_nonblocking = (\<lambda>_ _ w. (Inr (), w)), nt_accept = (\<lambda>_ w. (Inl would_block, w)), nt_try_clone = (\<lambda>fd w. (Inr (fd + 1), w)),
     nt_close = (\<lambda>_ w. w), nt_shutdown = (\<lambda>_ _ w. (Inr (), w)), nt_set = (\<lambda>_ _ w. (Inr (), w)), nt_get = (\<lambda>_ _ w. (Inr (BoolValue True), w)),
     nt_read = (\<lambda>_ _ w. (Inl would_block, w)), nt_write = (\<lambda>_ _ w. (Inl would_block, w)), nt_readv = (\<lambda>_ _ _ w. (0, w)),
     nt_writev = (\<lambda>_ _ _ w. (0, w)), nt_send_to = (\<lambda>_ _ _ w. (Inl would_block, w)), nt_recv_from = (\<lambda>_ _ w. (Inl would_block, w))\<rparr>"

text \<open>A stream registered with the first of two epoll selectors, which refuses it, cannot be registered with the second.\<close>

definition refusing_epoll :: "'o epoll_sys" where
  "refusing_epoll = \<lparr>es_create1 = None, es_create = (\<lambda>_ w. (3, w)), es_wait = (\<lambda>_ _ _ w. ((0, []), w)), es_ctl = (\<lambda>_ _ _ _ w. (- 1, w))\<rparr>"

theorem socket_one_selector_witness:
  "\<exists>st'. stream_calls (unix_platform sample_os no_net (epoll_fd_ops sample_os refusing_epoll)) [CallRegister 0 0 (Token 1) ready_readable pollopt_edge]
       \<lparr>ss_handles = [socket_new 7], ss_polls = (\<lambda>k. \<lparr>ep_id = if k = 0 then 1 else 2, ep_fd = int k\<rparr>), ss_world = 0\<rparr> = Some st' \<and>
     so_selector_id (ss_handles st' ! 0) = 1 \<and>
     stream_call (unix_platform sample_os no_net (epoll_fd_ops sample_os refusing_epoll)) (CallRegister 0 1 (Token 1) ready_readable pollopt_edge) st' =
       Some (Inl already_registered, st')"
proof -
  let ?np = "unix_platform sample_os no_net (epoll_fd_ops sample_os refusing_epoll)"
  let ?st = "\<lparr>ss_handles = [socket_new 7], ss_polls = (\<lambda>k :: nat. \<lparr>ep_id = if k = 0 then 1 else 2, ep_fd = int k\<rparr>), ss_world = 0\<rparr>"
  let ?st' = "?st\<lparr>ss_handles := [\<lparr>so_sys = 7, so_selector_id = 1\<rparr>]\<rparr>"
  have run: "stream_calls ?np [CallRegister 0 0 (Token 1) ready_readable pollopt_edge] ?st = Some ?st'"
    by (simp add: stream_result_def tcp_stream_register_def socket_register_def associate_selector_def socket_new_def selector_id_new_def
        unix_platform_def epoll_fd_ops_def epoll_id_def sys_tcp_stream_evented_def io_evented_def evented_fd_register_def epoll_register_def
        epoll_ctl_op_def refusing_epoll_def cvt_def is_minus_one_def fun_eq_iff)
  have named: "polls_named ?np (\<lambda>k. if k = 0 then 1 else 2) ?st"
    by (simp add: polls_named_def unix_platform_def epoll_fd_ops_def epoll_id_def)
  show ?thesis
    using socket_one_selector [OF unix_fixed_id(1) named _ run, of 1 "Token 1" ready_readable pollopt_edge] run
    by (intro exI [of _ ?st']) simp
qed

section \<open>Descriptors of sockets\<close>

lemma unix_platform_simps [simp]:
  "np_windows (unix_platform os nt fo) = False" "np_stream_connect (unix_platform os nt fo) = sys_tcp_connect os nt"
  "np_stream_from (unix_platform os nt fo) fd w = (fd, w)" "np_listener_new (unix_platform os nt fo) = sys_tcp_listener_new os nt"
  "np_listener_accept (unix_platform os nt fo) fd w = Some (sys_tcp_accept os nt fd w)" "np_udp_new (unix_platform os nt fo) = sys_udp_new nt"
  by (simp_all add: unix_platform_def sys_tcp_from_stream_def)

text \<open>The documented effect of the socket calls on descriptors, beside \<open>fd_laws\<close>: the calls that create a socket return a
  new descriptor or none; \<open>set_nonblocking\<close> sets the flag or fails; the calls on an existing socket neither
  create nor close one, nor make it blocking.\<close>

definition keeps_fds :: "'o fd_view \<Rightarrow> 'o \<Rightarrow> 'r \<times> 'o \<Rightarrow> bool" where
  "keeps_fds v w res \<longleftrightarrow> fv_open v (snd res) = fv_open v w \<and> fv_nonblock v w \<subseteq> fv_nonblock v (snd res)"

definition creates_fd :: "'o fd_view \<Rightarrow> 'o \<Rightarrow> ('r \<Rightarrow> fd) \<Rightarrow> 'r io_result \<times> 'o \<Rightarrow> bool" where
  "creates_fd v w fd_of res \<longleftrightarrow>
     (case res of
        (Inl _, w1) \<Rightarrow> fv_open v w1 = fv_open v w
      | (Inr x, w1) \<Rightarrow> fd_of x \<notin> fv_open v w \<and> fv_open v w1 = insert (fd_of x) (fv_open v w))"

definition socket_laws :: "'o unix_sys \<Rightarrow> 'o net_sys \<Rightarrow> 'o fd_view \<Rightarrow> bool" where
  "socket_laws os nt v \<longleftrightarrow> fd_laws os v \<and>
     (\<forall>fd w. fv_open v (nt_close nt fd w) = fv_open v w - {fd}) \<and>
     (\<forall>w. creates_fd v w id (nt_tcp_v4 nt w) \<and> creates_fd v w id (nt_tcp_v6 nt w)) \<and>
     (\<forall>addr w. creates_fd v w id (nt_udp_bind nt addr w)) \<and> (\<forall>fd w. creates_fd v w fst (nt_accept nt fd w)) \<and>
     (\<forall>fd w. keeps_fds v w (nt_set_nonblocking nt fd True w)) \<and>
     (\<forall>fd w w'. nt_set_nonblocking nt fd True w = (Inr (), w') \<longrightarrow> fd \<in> fv_nonblock v w') \<and>
     (\<forall>fd b w. keeps_fds v w (nt_reuse_address nt fd b w)) \<and> (\<forall>fd addr w. keeps_fds v w (nt_bind nt fd addr w)) \<and>
     (\<forall>fd n w. keeps_fds v w (nt_listen nt fd n w)) \<and> (\<forall>fd w. keeps_fds v w (nt_to_tcp_stream nt fd w)) \<and>
     (\<forall>fd addr w. keeps_fds v w (nt_connect nt fd addr w)) \<and> (\<forall>fd a n w. keeps_fds v w (os_connect os fd a n w)) \<and>
     (\<forall>fd a n w. keeps_fds v w (os_bind os fd a n w)) \<and> (\<forall>fd n w. keeps_fds v w (os_listen os fd n w))"

text \<open>A constructor either fails with the descriptors as they were, or returns a new, nonblocking one.  A conversion
  of a descriptor it is given consumes it on failure.\<close>

definition sock_ok :: "'o fd_view \<Rightarrow> fd set \<Rightarrow> ('r \<Rightarrow> fd) \<Rightarrow> 'r io_result \<times> 'o \<Rightarrow> bool" where
  "sock_ok v fds fd_of res \<longleftrightarrow>
     (case res of
        (Inl _, w1) \<Rightarrow> fv_open v w1 = fds
      | (Inr x, w1) \<Rightarrow> fd_of x \<notin> fds \<and> fv_open v w1 = insert (fd_of x) fds \<and> fd_of x \<in> fv_nonblock v w1)"

definition owns :: "'o fd_view \<Rightarrow> fd set \<Rightarrow> fd \<Rightarrow> 'o \<Rightarrow> bool" where
  "owns v fds fd w \<longleftrightarrow> fd \<notin> fds \<and> fv_open v w = insert fd fds"

lemma socket_lawsD:
  assumes "socket_laws os nt v"
  shows "fd_laws os v" "fv_open v (nt_close nt fd w) = fv_open v w - {fd}"
    "creates_fd v w id (nt_tcp_v4 nt w)" "creates_fd v w id (nt_tcp_v6 nt w)" "creates_fd v w id (nt_udp_bind nt addr w)"
    "creates_fd v w fst (nt_accept nt fd w)" "keeps_fds v w (nt_set_nonblocking nt fd True w)"
    "nt_set_nonblocking nt fd True w = (Inr (), w') \<Longrightarrow> fd \<in> fv_nonblock v w'"
    "keeps_fds v w (nt_reuse_address nt fd b w)" "keeps_fds v w (nt_bind nt fd addr w)" "keeps_fds v w (nt_listen nt fd n w)"
    "keeps_fds v w (nt_to_tcp_stream nt fd w)" "keeps_fds v w (nt_connect nt fd addr w)"
    "keeps_fds v w (os_connect os fd a len w)" "keeps_fds v w (os_bind os fd a len w)" "keeps_fds v w (os_listen os fd m w)"
  using assms unfolding socket_laws_def by simp_all

text \<open>\<open>try!\<close> while a descriptor is owned: the rest of the function is reached with the descriptor still owned.\<close>

lemma try_fd_ok:
  assumes laws: "socket_laws os nt v" and own: "owns v fds fd w" and call: "fv_open v (snd r) = fv_open v w"
    and rest: "\<And>w'. owns v fds fd w' \<Longrightarrow> r = (Inr (), w') \<Longrightarrow> sock_ok v fds fd_of (k w')"
  shows "sock_ok v fds fd_of (try_fd nt fd r k)"
proof (cases r)
  case (Pair x w')
  have own': "owns v fds fd w'" using own call Pair by (simp add: owns_def)
  show ?thesis
  proof (cases x)
    case (Inl e)
    then show ?thesis using own' socket_lawsD(2) [OF laws] Pair by (simp add: try_fd_def sock_ok_def owns_def)
  next
    case (Inr u)
    then show ?thesis using rest [OF own'] Pair by (simp add: try_fd_def)
  qed
qed

lemma keeps_open: "keeps_fds v w r \<Longrightarrow> fv_open v (snd r) = fv_open v w"
  by (simp add: keeps_fds_def)

lemma create_then:
  assumes "creates_fd v w fd_of res" and "\<And>x w'. owns v (fv_open v w) (fd_of x) w' \<Longrightarrow> sock_ok v (fv_open v w) g (k x w')"
  shows "sock_ok v (fv_open v w) g (case res of (Inl e, w1) \<Rightarrow> (Inl e, w1) | (Inr x, w1) \<Rightarrow> k x w1)"
proof (cases res)
  case (Pair r w1)
  show ?thesis
  proof (cases r)
    case (Inl e)
    then show ?thesis using assms(1) Pair by (simp add: creates_fd_def sock_ok_def)
  next
    case (Inr x)
    then show ?thesis using assms(1) assms(2) [of x w1] Pair by (simp add: creates_fd_def owns_def)
  qed
qed

lemma sock_ok_case:
  "sock_ok v fds f res \<Longrightarrow> (\<And>x. g (h x) = f x) \<Longrightarrow>
     sock_ok v fds g (case res of (Inl e, w1) \<Rightarrow> (Inl e, w1) | (Inr x, w1) \<Rightarrow> (Inr (h x), w1))"
  by (auto simp: sock_ok_def split: prod.splits sum.splits)

lemma sock_ok_result_map:
  "sock_ok v fds f res \<Longrightarrow> (\<And>x. g (h x) = f x) \<Longrightarrow> sock_ok v fds g (case res of (r, w1) \<Rightarrow> (result_map h r, w1))"
  by (auto simp: sock_ok_def result_map_def split: prod.splits sum.splits)

lemma builder_creates: "socket_laws os nt v \<Longrightarrow> creates_fd v w id (tcp_builder_new nt addr w)"
  by (cases addr) (simp_all add: tcp_builder_new_def socket_lawsD)

lemma set_nonblock_laws:
  assumes "fd_laws os v"
  shows "fv_open v (snd (set_nonblock os fd w)) = fv_open v w"
    and "set_nonblock os fd w = (Inr (), w') \<Longrightarrow> fd \<in> fv_nonblock v w'"
  using fd_lawsD(2) [OF assms, of fd w "fst (os_fionbio os fd w)" "snd (os_fionbio os fd w)"]
  by (auto simp: set_nonblock_def cvt_def is_minus_one_def split: prod.splits if_splits)

lemma owned_ok: "owns v fds (fd_of x) w \<Longrightarrow> fd_of x \<in> fv_nonblock v w \<Longrightarrow> sock_ok v fds fd_of (Inr x, w)"
  by (simp add: owns_def sock_ok_def)

lemma sys_tcp_connect_ok:
  assumes laws: "socket_laws os nt v" and own: "owns v fds fd w"
  shows "sock_ok v fds id (sys_tcp_connect os nt fd addr w)"
  unfolding sys_tcp_connect_def
proof (rule try_fd_ok [OF laws own])
  fix w1
  assume w1: "owns v fds fd w1" "set_nonblock os fd w = (Inr (), w1)"
  obtain r w2 where c: "nt_connect nt fd addr w1 = (r, w2)" by (metis prod.exhaust)
  have "owns v fds fd w2" "fd \<in> fv_nonblock v w2"
    using w1 c socket_lawsD(13) [OF laws, of w1 fd addr] set_nonblock_laws(2) [OF socket_lawsD(1) [OF laws] w1(2)]
    by (auto simp: keeps_fds_def owns_def)
  then show "sock_ok v fds id (case nt_connect nt fd addr w1 of
      (Inl e, w2) \<Rightarrow> if raw_os_error e = Some EINPROGRESS then (Inr fd, w2) else (Inl e, nt_close nt fd w2) | (Inr _, w2) \<Rightarrow> (Inr fd, w2))"
    using c socket_lawsD(2) [OF laws] by (auto simp: sock_ok_def owns_def split: sum.splits)
qed (rule set_nonblock_laws(1) [OF socket_lawsD(1) [OF laws]])

lemma sys_nonblocking_ok:
  assumes laws: "socket_laws os nt v" and own: "owns v fds fd w"
  shows "sock_ok v fds id (sys_tcp_listener_new os nt fd addr w)" "sock_ok v fds id (sys_udp_new nt fd w)"
    and "sock_ok v fds fst (try_fd nt fd (set_nonblock os fd w) (\<lambda>w2. (Inr (fd, a), w2)))"
proof -
  note nb = set_nonblock_laws [OF socket_lawsD(1) [OF laws], of fd]
  show "sock_ok v fds id (sys_tcp_listener_new os nt fd addr w)"
    unfolding sys_tcp_listener_new_def by (rule try_fd_ok [OF laws own nb(1)]) (rule owned_ok, simp_all add: nb(2))
  show "sock_ok v fds fst (try_fd nt fd (set_nonblock os fd w) (\<lambda>w2. (Inr (fd, a), w2)))"
    by (rule try_fd_ok [OF laws own nb(1)]) (rule owned_ok, simp_all add: nb(2))
  show "sock_ok v fds id (sys_udp_new nt fd w)"
    unfolding sys_udp_new_def
    by (rule try_fd_ok [OF laws own keeps_open [OF socket_lawsD(7) [OF laws]]]) (rule owned_ok, simp_all add: socket_lawsD(8) [OF laws])
qed

lemma sys_tcp_accept_ok:
  assumes laws: "socket_laws os nt v"
  shows "sock_ok v (fv_open v w) fst (sys_tcp_accept os nt fd w)"
proof -
  have "sys_tcp_accept os nt fd w = (case nt_accept nt fd w of (Inl e, w1) \<Rightarrow> (Inl e, w1)
      | (Inr x, w1) \<Rightarrow> try_fd nt (fst x) (set_nonblock os (fst x) w1) (\<lambda>w2. (Inr (fst x, snd x), w2)))"
    by (auto simp: sys_tcp_accept_def split: prod.splits sum.splits)
  then show ?thesis by (simp only:) (rule create_then [OF socket_lawsD(6) [OF laws]], rule sys_nonblocking_ok(3) [OF laws])
qed

lemma unix_tcp_connect_ok:
  assumes laws: "socket_laws os nt v"
  shows "sock_ok v (fv_open v w) so_sys (tcp_stream_connect nt (unix_platform os nt fo) addr w)"
  unfolding tcp_stream_connect_def
proof (rule create_then [OF builder_creates [OF laws]])
  fix sock w1
  assume own: "owns v (fv_open v w) (id sock) w1"
  have conn: "sock_ok v (fv_open v w) so_sys (tcp_stream_connect_stream (unix_platform os nt fo) sock addr w2)"
    if "owns v (fv_open v w) sock w2" for w2
    unfolding tcp_stream_connect_stream_def
    by (rule sock_ok_case [where f = id]) (use sys_tcp_connect_ok [OF laws that] in \<open>simp_all add: socket_new_def\<close>)
  show "sock_ok v (fv_open v w) so_sys
      (try_fd nt sock (if np_windows (unix_platform os nt fo) then nt_bind nt sock (inaddr_any addr) w1 else (Inr (), w1)) (\<lambda>w2.
        try_fd nt sock (nt_to_tcp_stream nt sock w2) (tcp_stream_connect_stream (unix_platform os nt fo) sock addr)))"
    using own by (auto intro!: try_fd_ok [OF laws] conn simp: keeps_open [OF socket_lawsD(12) [OF laws]])
qed

lemma unix_listener_bind_ok:
  assumes laws: "socket_laws os nt v"
  shows "sock_ok v (fv_open v w) so_sys (tcp_listener_bind nt (unix_platform os nt fo) addr w)"
  unfolding tcp_listener_bind_def
proof (rule create_then [OF builder_creates [OF laws]])
  fix sock w1
  assume own: "owns v (fv_open v w) (id sock) w1"
  have new: "sock_ok v (fv_open v w) so_sys (case sys_tcp_listener_new os nt sock addr w4 of (Inl e, w5) \<Rightarrow> (Inl e, w5) | (Inr li, w5) \<Rightarrow> (Inr (socket_new li), w5))"
    if "owns v (fv_open v w) sock w4" for w4
    by (rule sock_ok_case [where f = id]) (use sys_nonblocking_ok(1) [OF laws that] in \<open>simp_all add: socket_new_def\<close>)
  show "sock_ok v (fv_open v w) so_sys
      (try_fd nt sock (if np_windows (unix_platform os nt fo) then (Inr (), w1) else nt_reuse_address nt sock True w1) (\<lambda>w2.
        try_fd nt sock (nt_bind nt sock addr w2) (\<lambda>w3. try_fd nt sock (nt_listen nt sock 1024 w3) (\<lambda>w4.
          case np_listener_new (unix_platform os nt fo) sock addr w4 of (Inl e, w5) \<Rightarrow> (Inl e, w5) | (Inr li, w5) \<Rightarrow> (Inr (socket_new li), w5)))))"
    using own
    by (auto intro!: try_fd_ok [OF laws _ keeps_open [OF socket_lawsD(9) [OF laws]]] try_fd_ok [OF laws _ keeps_open [OF socket_lawsD(10) [OF laws]]]
        try_fd_ok [OF laws _ keeps_open [OF socket_lawsD(11) [OF laws]]] new)
qed

lemma unix_udp_bind_ok:
  assumes laws: "socket_laws os nt v"
  shows "sock_ok v (fv_open v w) so_sys (udp_bind nt (unix_platform os nt fo) addr w)"
  unfolding udp_bind_def udp_from_socket_def
proof (rule create_then [OF socket_lawsD(5) [OF laws]])
  fix sock w1
  assume "owns v (fv_open v w) (id sock) w1"
  then show "sock_ok v (fv_open v w) so_sys
      (case np_udp_new (unix_platform os nt fo) sock w1 of (Inl e, w2) \<Rightarrow> (Inl e, w2) | (Inr u, w2) \<Rightarrow> (Inr (socket_new u), w2))"
    by (intro sock_ok_case [where f = id]) (simp_all add: socket_new_def sys_nonblocking_ok(2) [OF laws])
qed

lemma unix_from_stream_ok:
  assumes laws: "socket_laws os nt v" and own: "owns v fds fd w"
  shows "sock_ok v fds so_sys (tcp_stream_from_stream nt (unix_platform os nt fo) fd w)"
  unfolding tcp_stream_from_stream_def
  by (rule try_fd_ok [OF laws own keeps_open [OF socket_lawsD(7) [OF laws]]])
    (simp add: sock_ok_def owns_def socket_new_def socket_lawsD(8) [OF laws])

text \<open>The Unix domain sockets: a descriptor from \<open>unix_socket_stream\<close> that later calls keep or close.\<close>

lemma unix_stream_creates:
  assumes "socket_laws os nt v"
  shows "sock_ok v (fv_open v w) id (unix_socket_stream os w)" "sock_ok v (fv_open v w) id (unix_socket_accept os lfd w)"
  using unix_socket_fds [OF socket_lawsD(1) [OF assms], of w lfd]
  by (auto simp: fd_result_ok_def sock_ok_def split: prod.splits sum.splits)

lemma unix_call_keeps:
  assumes "socket_laws os nt v"
  shows "keeps_fds v w (unix_socket_connect os fd path w)" "keeps_fds v w (unix_socket_bind os fd path w)" "keeps_fds v w (unix_socket_listen os fd n w)"
proof -
  have map: "keeps_fds v w (let (r, w1) = cvt os res in (result_map f r, w1))" if "keeps_fds v w res" for res and f :: "int \<Rightarrow> unit"
    using that by (cases res) (simp add: cvt_def keeps_fds_def)
  have keep: "keeps_fds v w (Inl e :: unit io_result, w)" for e by (simp add: keeps_fds_def)
  show "keeps_fds v w (unix_socket_connect os fd path w)" "keeps_fds v w (unix_socket_bind os fd path w)" "keeps_fds v w (unix_socket_listen os fd n w)"
    unfolding unix_socket_connect_def unix_socket_bind_def unix_socket_listen_def
    using map [OF socket_lawsD(14) [OF assms]] map [OF socket_lawsD(15) [OF assms]] map [OF socket_lawsD(16) [OF assms]] keep
    by (simp_all split: sum.split)
qed

text \<open>A call on an owned nonblocking descriptor after which it is closed or kept.\<close>

lemma dep_connect_ok:
  assumes laws: "socket_laws os nt v" and own: "owns v fds fd w" "fd \<in> fv_nonblock v w"
  shows "sock_ok v fds fst (dep_socket_connect os fd path w)" "sock_ok v fds id (dep_socket_listen os fd n w)"
    "dep_socket_bind os fd path w = (r, w') \<Longrightarrow> owns v fds fd w' \<and> fd \<in> fv_nonblock v w'"
proof -
  have close: "fv_open v (os_close os fd w') = fds" if "owns v fds fd w'" for w'
    using that fd_lawsD(1) [OF socket_lawsD(1) [OF laws]] by (auto simp: owns_def)
  have kept: "owns v fds fd w' \<and> fd \<in> fv_nonblock v w'" if "keeps_fds v w (r, w')" for r :: "unit io_result" and w'
    using that own by (auto simp: keeps_fds_def owns_def)
  obtain r1 w1 where c: "unix_socket_connect os fd path w = (r1, w1)" by (metis prod.exhaust)
  then show "sock_ok v fds fst (dep_socket_connect os fd path w)"
    using kept [of r1 w1] unix_call_keeps(1) [OF laws, of w fd path] close [of w1]
    by (auto simp: dep_socket_connect_def sock_ok_def owns_def split: sum.splits)
  obtain r2 w2 where l: "unix_socket_listen os fd n w = (r2, w2)" by (metis prod.exhaust)
  then show "sock_ok v fds id (dep_socket_listen os fd n w)"
    using kept [of r2 w2] unix_call_keeps(3) [OF laws, of w fd n] close [of w2]
    by (auto simp: dep_socket_listen_def sock_ok_def owns_def split: sum.splits)
  show "dep_socket_bind os fd path w = (r, w') \<Longrightarrow> owns v fds fd w' \<and> fd \<in> fv_nonblock v w'"
    using kept unix_call_keeps(2) [OF laws, of w fd path] by (simp add: dep_socket_bind_def)
qed

lemma dep_constructors_ok:
  assumes laws: "socket_laws os nt v"
  shows "sock_ok v (fv_open v w) id (dep_stream_connect os path w)" "sock_ok v (fv_open v w) id (dep_listener_bind os path w)"
proof -
  obtain r w1 where s: "unix_socket_stream os w = (r, w1)" by (metis prod.exhaust)
  have ok: "sock_ok v (fv_open v w) id (r, w1)" using unix_stream_creates(1) [OF laws, of w] s by simp
  have own: "owns v (fv_open v w) fd w1 \<and> fd \<in> fv_nonblock v w1" if "r = Inr fd" for fd
    using ok that by (simp add: sock_ok_def owns_def)
  show "sock_ok v (fv_open v w) id (dep_stream_connect os path w)"
  proof (cases r)
    case (Inr fd)
    show ?thesis
      using sock_ok_result_map [where g = id and h = fst, OF dep_connect_ok(1) [OF laws], of "fv_open v w" fd w1 path] own [OF Inr] s Inr
      by (simp add: dep_stream_connect_def dep_socket_stream_def)
  qed (use ok s in \<open>simp add: dep_stream_connect_def dep_socket_stream_def\<close>)
  show "sock_ok v (fv_open v w) id (dep_listener_bind os path w)"
  proof (cases r)
    case (Inr fd)
    obtain r2 w2 where b: "dep_socket_bind os fd path w1 = (r2, w2)" by (metis prod.exhaust)
    have "owns v (fv_open v w) fd w2 \<and> fd \<in> fv_nonblock v w2" using dep_connect_ok(3) [OF laws _ _ b] own [OF Inr] by blast
    then show ?thesis
      using dep_connect_ok(2) [OF laws, of _ fd w2 256] fd_lawsD(1) [OF socket_lawsD(1) [OF laws]] s b Inr
      by (auto simp: dep_listener_bind_def dep_socket_stream_def sock_ok_def owns_def split: sum.splits)
  qed (use ok s in \<open>simp add: dep_listener_bind_def dep_socket_stream_def\<close>)
qed


text \<open>Sockets on the operating system of the descriptor sets; a connection is always in progress.\<close>

definition fd_net :: "fd_state net_sys" where
  "fd_net = no_net\<lparr>nt_tcp_v4 := (\<lambda>w. if finite (fst w) then (Inr (fresh_fd w), (insert (fresh_fd w) (fst w), snd w)) else (Inl would_block, w)),
     nt_set_nonblocking := (\<lambda>fd _ (a, b, c). (Inr (), (a, insert fd b, c))), nt_close := (\<lambda>fd (a, b, c). (a - {fd}, b, c))\<rparr>"

lemma fd_net_laws: "socket_laws fd_os fd_net fd_os_view"
  using fd_os_laws fresh_fd_new
  by (auto simp: socket_laws_def creates_fd_def keeps_fds_def fd_net_def no_net_def fd_os_view_def fd_os_def)


section \<open>Raw descriptors\<close>

lemma from_raw_fd_new:
  "tcp_stream_from_raw_fd fd = socket_new fd" "tcp_listener_from_raw_fd fd = socket_new fd" "udp_from_raw_fd fd = socket_new fd"
  by (simp_all add: tcp_stream_from_raw_fd_def tcp_listener_from_raw_fd_def udp_from_raw_fd_def socket_new_def)

text \<open>Going through the descriptor keeps the socket and forgets its selector, so the new handle can join any selector.\<close>

lemma raw_fd_roundtrip:
  "tcp_stream_from_raw_fd (tcp_stream_into_raw_fd s) = s\<lparr>so_selector_id := selector_id_new\<rparr>"
  "tcp_listener_from_raw_fd (tcp_listener_into_raw_fd l) = l\<lparr>so_selector_id := selector_id_new\<rparr>"
  "udp_from_raw_fd (udp_into_raw_fd u) = u\<lparr>so_selector_id := selector_id_new\<rparr>"
  by (simp_all add: from_raw_fd_new tcp_stream_into_raw_fd_def tcp_listener_into_raw_fd_def udp_into_raw_fd_def socket_new_def)

end
