(* ===== verification/Mio_Windows.thy ===== *)
theory Mio_Windows
  imports Mio_Net
begin

text \<open>
  The Windows platform: \<open>src/sys/windows/mod.rs\<close>, \<open>buffer_pool.rs\<close>, \<open>from_raw_arc.rs\<close>, \<open>iovec.rs\<close>, \<open>selector.rs\<close> and
  \<open>awakener.rs\<close>.  Windows itself, with the wrappers of \<open>miow\<close>, \<open>winapi\<close> and \<open>net2\<close>, is a record of calls on a state \<open>'o\<close>.  An
  \<open>Overlapped\<close> is part of an I/O object behind a \<open>FromRawArc\<close>; a pointer to it is the constructor that names the field
  with the address of the object, and the callback stored beside it is the function the sources give for that field.
  The operating system's state is the second component of the queue's awakener, as on Unix.
\<close>

section \<open>Calls\<close>

datatype overlapped =
  StreamRead nat | StreamWrite nat | ListenerAccept nat | UdpRead nat | UdpWrite nat

text \<open>\<open>CompletionStatus\<close>; the awakener posts the null pointer.\<close>

record completion =
  cs_bytes :: u32
  cs_token :: usize
  cs_overlapped :: "overlapped option"

text \<open>Overlapped calls return \<open>Some n\<close> when they completed at once.\<close>

record 'o win_sys =
  ws_last_error :: "'o \<Rightarrow> int"
  ws_port_new :: "'o \<Rightarrow> nat io_result \<times> 'o"
  ws_get_many :: "nat \<Rightarrow> nat \<Rightarrow> duration option \<Rightarrow> 'o \<Rightarrow> completion list io_result \<times> 'o"
  ws_post :: "nat \<Rightarrow> completion \<Rightarrow> 'o \<Rightarrow> unit io_result \<times> 'o"
  ws_add_socket :: "nat \<Rightarrow> usize \<Rightarrow> fd \<Rightarrow> 'o \<Rightarrow> unit io_result \<times> 'o"
  ws_add_handle :: "nat \<Rightarrow> usize \<Rightarrow> fd \<Rightarrow> 'o \<Rightarrow> unit io_result \<times> 'o"
  ws_notification_modes :: "fd \<Rightarrow> u8 \<Rightarrow> 'o \<Rightarrow> int \<times> 'o"
  ws_cancel_io :: "fd \<Rightarrow> overlapped \<Rightarrow> 'o \<Rightarrow> int \<times> 'o"
  ws_close :: "fd \<Rightarrow> 'o \<Rightarrow> 'o"
  ws_set_nonblocking :: "fd \<Rightarrow> bool \<Rightarrow> 'o \<Rightarrow> unit io_result \<times> 'o"
  ws_try_clone :: "fd \<Rightarrow> 'o \<Rightarrow> fd io_result \<times> 'o"
  ws_read :: "fd \<Rightarrow> nat \<Rightarrow> 'o \<Rightarrow> u8 list io_result \<times> 'o"
  ws_read_overlapped :: "fd \<Rightarrow> overlapped \<Rightarrow> 'o \<Rightarrow> nat option io_result \<times> 'o"
  ws_write_overlapped :: "fd \<Rightarrow> u8 list \<Rightarrow> overlapped \<Rightarrow> 'o \<Rightarrow> nat option io_result \<times> 'o"
  ws_connect_overlapped :: "fd \<Rightarrow> socket_addr \<Rightarrow> overlapped \<Rightarrow> 'o \<Rightarrow> nat option io_result \<times> 'o"
  ws_connect_complete :: "fd \<Rightarrow> 'o \<Rightarrow> unit io_result \<times> 'o"
  ws_tcp_v4 :: "'o \<Rightarrow> fd io_result \<times> 'o"
  ws_tcp_v6 :: "'o \<Rightarrow> fd io_result \<times> 'o"
  ws_accept_overlapped :: "fd \<Rightarrow> fd \<Rightarrow> overlapped \<Rightarrow> 'o \<Rightarrow> (fd \<times> bool) io_result \<times> 'o"
  ws_accept_complete :: "fd \<Rightarrow> fd \<Rightarrow> 'o \<Rightarrow> unit io_result \<times> 'o"
  ws_accept_remote :: "fd \<Rightarrow> 'o \<Rightarrow> socket_addr option io_result \<times> 'o"
  ws_recv_from_overlapped :: "fd \<Rightarrow> nat \<Rightarrow> overlapped \<Rightarrow> 'o \<Rightarrow> nat option io_result \<times> 'o"
  ws_send_to_overlapped :: "fd \<Rightarrow> u8 list \<Rightarrow> socket_addr \<Rightarrow> overlapped \<Rightarrow> 'o \<Rightarrow> nat option io_result \<times> 'o"
  ws_received :: "overlapped \<Rightarrow> 'o \<Rightarrow> u8 list"
  ws_received_from :: "overlapped \<Rightarrow> 'o \<Rightarrow> socket_addr option"

definition WSAECONNRESET :: int where "WSAECONNRESET = 10054"
definition WSAEWOULDBLOCK :: int where "WSAEWOULDBLOCK = 10035"
definition WSAEMSGSIZE :: int where "WSAEMSGSIZE = 10040"
definition WAIT_TIMEOUT :: int where "WAIT_TIMEOUT = 258"

text \<open>\<open>Error::kind\<close> on Windows, as far as the sources look at it.\<close>

fun win_error_kind :: "io_error \<Rightarrow> error_kind" where
  "win_error_kind (CustomError k _) = k"
| "win_error_kind (OsError n) = (if n = WSAEWOULDBLOCK then WouldBlock else Other)"

definition wouldblock :: io_error where
  "wouldblock = CustomError WouldBlock ''operation would block''"

text \<open>\<open>io::would_block()\<close> on Windows.\<close>

definition win_would_block :: io_error where
  "win_would_block = OsError WSAEWOULDBLOCK"

definition win_cancel :: "'o win_sys \<Rightarrow> fd \<Rightarrow> overlapped \<Rightarrow> 'o \<Rightarrow> unit io_result \<times> 'o" where
  "win_cancel ws socket ov w =
     (case ws_cancel_io ws socket ov w of (ret, w1) \<Rightarrow> (if ret = 0 then Inl (OsError (ws_last_error ws w1)) else Inr (), w1))"

definition FILE_SKIP_COMPLETION_PORT_ON_SUCCESS :: u8 where "FILE_SKIP_COMPLETION_PORT_ON_SUCCESS = 1"
definition FILE_SKIP_SET_EVENT_ON_HANDLE :: u8 where "FILE_SKIP_SET_EVENT_ON_HANDLE = 2"

definition no_notify_on_instant_completion :: "'o win_sys \<Rightarrow> fd \<Rightarrow> 'o \<Rightarrow> unit io_result \<times> 'o" where
  "no_notify_on_instant_completion ws handle w =
     (let flags = FILE_SKIP_COMPLETION_PORT_ON_SUCCESS OR FILE_SKIP_SET_EVENT_ON_HANDLE
      in case ws_notification_modes ws handle flags w of
           (r, w1) \<Rightarrow> (if r = 1 then Inr () else Inl (OsError (ws_last_error ws w1)), w1))"

section \<open>Buffers\<close>

text \<open>A \<open>Vec<u8>\<close>: its capacity and its contents.\<close>

record byte_vec =
  bv_cap :: nat
  bv_data :: "u8 list"

definition vec_with_capacity :: "nat \<Rightarrow> byte_vec" where
  "vec_with_capacity c = \<lparr>bv_cap = c, bv_data = []\<rparr>"

text \<open>\<open>extend_from_slice\<close>: a vector that is too small grows to at least twice its capacity.\<close>

definition vec_extend :: "byte_vec \<Rightarrow> u8 list \<Rightarrow> byte_vec" where
  "vec_extend v xs =
     (let n = length (bv_data v) + length xs
      in \<lparr>bv_cap = (if bv_cap v < n then max (2 * bv_cap v) n else bv_cap v), bv_data = bv_data v @ xs\<rparr>)"

record buffer_pool =
  bp_pool :: "byte_vec list"
  bp_capacity :: nat

definition buffer_pool_new :: "nat \<Rightarrow> buffer_pool" where
  "buffer_pool_new c = \<lparr>bp_pool = [], bp_capacity = c\<rparr>"

definition buffer_pool_get :: "buffer_pool \<Rightarrow> nat \<Rightarrow> byte_vec \<times> buffer_pool" where
  "buffer_pool_get bp default_cap =
     (if bp_pool bp = [] then (vec_with_capacity default_cap, bp)
      else (last (bp_pool bp), bp\<lparr>bp_pool := butlast (bp_pool bp)\<rparr>))"

definition buffer_pool_put :: "buffer_pool \<Rightarrow> byte_vec \<Rightarrow> buffer_pool" where
  "buffer_pool_put bp buf =
     (if length (bp_pool bp) < bp_capacity bp then bp\<lparr>bp_pool := bp_pool bp @ [buf\<lparr>bv_data := []\<rparr>]\<rparr> else bp)"

text \<open>\<open>WSABUF\<close> has a 32-bit length, so a longer slice is cut.\<close>

definition win_iovec_from :: "u8 list \<Rightarrow> u8 list" where
  "win_iovec_from bytes = take (min (2 ^ 32 - 1) (length bytes)) bytes"

definition win_iovec_as_bytes :: "u8 list \<Rightarrow> u8 list" where
  "win_iovec_as_bytes v = v"

section \<open>\<open>FromRawArc\<close>\<close>

text \<open>The count of references; \<open>arc_drop\<close> also says whether this was the last one, so that the data is freed.
  \<open>from_raw\<close> takes over a reference that was forgotten.\<close>

definition arc_new :: usize where "arc_new = 1"

definition arc_from_raw :: "usize \<Rightarrow> usize" where "arc_from_raw cnt = cnt"

definition arc_clone :: "usize \<Rightarrow> usize" where "arc_clone cnt = cnt + 1"

definition arc_drop :: "usize \<Rightarrow> bool \<times> usize" where "arc_drop cnt = (cnt = 1, cnt - 1)"

section \<open>\<open>Selector\<close>\<close>

text \<open>\<open>SelectorInner\<close>; \<open>sel_addr\<close> is the address of the shared \<open>Arc\<close>, which \<open>identical\<close> compares.\<close>

record win_selector =
  sel_addr :: nat
  sel_id :: usize
  sel_port :: nat
  sel_buffers :: buffer_pool

text \<open>\<open>next_id\<close> is the global counter.\<close>

definition win_selector_new :: "'o win_sys \<Rightarrow> nat \<Rightarrow> usize \<Rightarrow> 'o \<Rightarrow> win_selector io_result \<times> usize \<times> 'o" where
  "win_selector_new ws addr next_id w =
     (case ws_port_new ws w of
        (r, w1) \<Rightarrow>
          (result_map (\<lambda>cp. \<lparr>sel_addr = addr, sel_id = next_id + 1, sel_port = cp, sel_buffers = buffer_pool_new 256\<rparr>) r, next_id + 1, w1))"

definition win_selector_id :: "win_selector \<Rightarrow> usize" where
  "win_selector_id s = sel_id s"

text \<open>The awakener: its token and the port of its selector, once registered.\<close>

type_synonym win_awakener = "(token \<times> nat) option"

type_synonym 'o win_poll = "(win_selector, win_awakener, 'o) poll"

definition win_awakener_new :: "win_awakener io_result" where
  "win_awakener_new = Inr None"

definition win_wakeup :: "'o win_sys \<Rightarrow> win_awakener \<times> 'o \<Rightarrow> unit io_result \<times> (win_awakener \<times> 'o)" where
  "win_wakeup ws aw =
     (case aw of
        (None, w) \<Rightarrow> (Inr (), aw)
      | (Some (tok, port), w) \<Rightarrow>
          (case ws_post ws port \<lparr>cs_bytes = 0, cs_token = usize_from_token tok, cs_overlapped = None\<rparr> w of
             (r, w1) \<Rightarrow> (r, Some (tok, port), w1)))"

definition win_cleanup :: "win_awakener \<times> 'o \<Rightarrow> win_awakener \<times> 'o" where
  "win_cleanup aw = aw"

definition win_awakener_register ::
  "win_selector \<Rightarrow> token \<Rightarrow> ready \<Rightarrow> poll_opt \<Rightarrow> win_awakener \<Rightarrow> (unit io_result \<times> win_awakener) option" where
  "win_awakener_register s tok evts opts a =
     (if opts = pollopt_edge \<and> evts = ready_readable then Some (Inr (), Some (tok, sel_port s)) else None)"

definition win_awakener_reregister ::
  "win_selector \<Rightarrow> token \<Rightarrow> ready \<Rightarrow> poll_opt \<Rightarrow> win_awakener \<Rightarrow> (unit io_result \<times> win_awakener) option" where
  "win_awakener_reregister s tok evts opts a = win_awakener_register s tok evts opts a"

definition win_awakener_deregister :: "win_awakener \<Rightarrow> unit io_result \<times> win_awakener" where
  "win_awakener_deregister a = (Inr (), None)"

text \<open>A call of Windows on the state kept in the queue of a poll.\<close>

definition win_os :: "('o \<Rightarrow> 'r \<times> 'o) \<Rightarrow> 'o win_poll \<Rightarrow> 'r \<times> 'o win_poll" where
  "win_os f p =
     (case awakener (pl_queue p) of
        (a, w) \<Rightarrow> (case f w of (r, w1) \<Rightarrow> (r, p\<lparr>pl_queue := (pl_queue p)\<lparr>awakener := (a, w1)\<rparr>\<rparr>)))"

section \<open>\<open>Events\<close> and \<open>select\<close>\<close>

record win_events =
  wev_statuses :: "completion list"
  wev_events :: "event list"

definition completion_zero :: completion where
  "completion_zero = \<lparr>cs_bytes = 0, cs_token = 0, cs_overlapped = None\<rparr>"

definition win_events_with_capacity :: "nat \<Rightarrow> win_events" where
  "win_events_with_capacity cap = \<lparr>wev_statuses = replicate cap completion_zero, wev_events = []\<rparr>"

definition win_events_is_empty :: "win_events \<Rightarrow> bool" where
  "win_events_is_empty e \<longleftrightarrow> wev_events e = []"

definition win_events_len :: "win_events \<Rightarrow> nat" where
  "win_events_len e = length (wev_events e)"

definition win_events_get :: "win_events \<Rightarrow> nat \<Rightarrow> event option" where
  "win_events_get e idx = (if idx < length (wev_events e) then Some (wev_events e ! idx) else None)"

definition win_events_push :: "win_events \<Rightarrow> event \<Rightarrow> win_events" where
  "win_events_push e evt = e\<lparr>wev_events := wev_events e @ [evt]\<rparr>"

text \<open>The loop over the statuses: \<open>callback\<close> is the callback found behind an \<open>OVERLAPPED\<close> pointer, acting on the program's
  state \<open>'st\<close>.  A null pointer whose token is not the awakener's is a failed assertion.\<close>

fun run_callbacks ::
  "(overlapped \<Rightarrow> completion \<Rightarrow> 'st \<Rightarrow> 'st option) \<Rightarrow> token \<Rightarrow> completion list \<Rightarrow> bool \<Rightarrow> 'st \<Rightarrow> (bool \<times> 'st) option" where
  "run_callbacks callback aw [] ret st = Some (ret, st)"
| "run_callbacks callback aw (status # statuses) ret st =
     (case cs_overlapped status of
        None \<Rightarrow> if cs_token status = usize_from_token aw then run_callbacks callback aw statuses True st else None
      | Some ov \<Rightarrow> Option.bind (callback ov status st) (run_callbacks callback aw statuses ret))"

definition win_select ::
  "'o win_sys \<Rightarrow> (overlapped \<Rightarrow> completion \<Rightarrow> 'o win_poll \<times> 'h \<Rightarrow> ('o win_poll \<times> 'h) option) \<Rightarrow> win_events \<Rightarrow> token \<Rightarrow>
     duration option \<Rightarrow> 'o win_poll \<times> 'h \<Rightarrow> (bool io_result \<times> win_events \<times> 'o win_poll \<times> 'h) option" where
  "win_select ws callback evts aw timeout ph =
     (case ph of
        (p, h) \<Rightarrow>
          let evts1 = evts\<lparr>wev_events := []\<rparr>
          in case win_os (ws_get_many ws (sel_port (pl_selector p)) (length (wev_statuses evts1)) timeout) p of
               (Inl e, p1) \<Rightarrow> if raw_os_error e = Some WAIT_TIMEOUT then Some (Inr False, evts1, p1, h) else Some (Inl e, evts1, p1, h)
             | (Inr sts, p1) \<Rightarrow>
                 map_option (\<lambda>(ret, p2, h2). (Inr ret, evts1\<lparr>wev_statuses := sts @ drop (length sts) (wev_statuses evts1)\<rparr>, p2, h2))
                   (run_callbacks callback aw sts False (p1, h)))"

section \<open>\<open>Binding\<close> and \<open>ReadyBinding\<close>\<close>

text \<open>The selector is kept in a cell that is filled once.\<close>

definition binding_new :: "('bc, nat) lazycell_ops \<Rightarrow> 'bc" where
  "binding_new lc = lazy_new lc"

definition check_same_selector :: "('bc, nat) lazycell_ops \<Rightarrow> 'bc \<Rightarrow> 'o win_poll \<Rightarrow> unit io_result" where
  "check_same_selector lc b p =
     (case lazy_borrow lc b of
        Some prev \<Rightarrow> if prev = sel_addr (pl_selector p) then Inr () else Inl (CustomError Other ''socket already registered'')
      | None \<Rightarrow> Inl (CustomError Other ''socket already registered''))"

definition binding_register_socket ::
  "'o win_sys \<Rightarrow> ('bc, nat) lazycell_ops \<Rightarrow> 'bc \<Rightarrow> fd \<Rightarrow> token \<Rightarrow> 'o win_poll \<Rightarrow> unit io_result \<times> 'bc \<times> 'o win_poll" where
  "binding_register_socket ws lc b handle tok p =
     (let b1 = (case lazy_fill lc b (sel_addr (pl_selector p)) of Some b' \<Rightarrow> b' | None \<Rightarrow> b)
      in case check_same_selector lc b1 p of
           Inl e \<Rightarrow> (Inl e, b1, p)
         | Inr _ \<Rightarrow>
             (case win_os (ws_add_socket ws (sel_port (pl_selector p)) (usize_from_token tok) handle) p of
                (r, p1) \<Rightarrow> (r, b1, p1)))"

definition binding_register_handle ::
  "'o win_sys \<Rightarrow> ('bc, nat) lazycell_ops \<Rightarrow> 'bc \<Rightarrow> fd \<Rightarrow> token \<Rightarrow> 'o win_poll \<Rightarrow> unit io_result \<times> 'bc \<times> 'o win_poll" where
  "binding_register_handle ws lc b handle tok p =
     (let b1 = (case lazy_fill lc b (sel_addr (pl_selector p)) of Some b' \<Rightarrow> b' | None \<Rightarrow> b)
      in case check_same_selector lc b1 p of
           Inl e \<Rightarrow> (Inl e, b1, p)
         | Inr _ \<Rightarrow>
             (case win_os (ws_add_handle ws (sel_port (pl_selector p)) (usize_from_token tok) handle) p of
                (r, p1) \<Rightarrow> (r, b1, p1)))"

definition binding_reregister_handle :: "('bc, nat) lazycell_ops \<Rightarrow> 'bc \<Rightarrow> 'o win_poll \<Rightarrow> unit io_result" where
  "binding_reregister_handle lc b p = check_same_selector lc b p"

definition binding_deregister_handle :: "('bc, nat) lazycell_ops \<Rightarrow> 'bc \<Rightarrow> 'o win_poll \<Rightarrow> unit io_result" where
  "binding_deregister_handle lc b p = check_same_selector lc b p"

definition binding_reregister_socket :: "('bc, nat) lazycell_ops \<Rightarrow> 'bc \<Rightarrow> 'o win_poll \<Rightarrow> unit io_result" where
  "binding_reregister_socket lc b p = check_same_selector lc b p"

definition binding_deregister_socket :: "('bc, nat) lazycell_ops \<Rightarrow> 'bc \<Rightarrow> 'o win_poll \<Rightarrow> unit io_result" where
  "binding_deregister_socket lc b p = check_same_selector lc b p"

record 'bc ready_binding =
  rb_binding :: 'bc
  rb_readiness :: "registration_inner option"

definition ready_binding_new :: "('bc, nat) lazycell_ops \<Rightarrow> 'bc ready_binding" where
  "ready_binding_new lc = \<lparr>rb_binding = binding_new lc, rb_readiness = None\<rparr>"

definition rb_registered :: "'bc ready_binding \<Rightarrow> bool" where
  "rb_registered rb \<longleftrightarrow> rb_readiness rb \<noteq> None"

text \<open>\<open>p\<close> is the poll whose selector the binding holds, if it holds one.\<close>

definition rb_get_buffer :: "('bc, nat) lazycell_ops \<Rightarrow> 'bc ready_binding \<Rightarrow> nat \<Rightarrow> 'o win_poll \<Rightarrow> byte_vec \<times> 'o win_poll" where
  "rb_get_buffer lc rb sz p =
     (case lazy_borrow lc (rb_binding rb) of
        Some _ \<Rightarrow>
          (case buffer_pool_get (sel_buffers (pl_selector p)) sz of
             (v, bp) \<Rightarrow> (v, p\<lparr>pl_selector := (pl_selector p)\<lparr>sel_buffers := bp\<rparr>\<rparr>))
      | None \<Rightarrow> (vec_with_capacity sz, p))"

definition rb_put_buffer :: "('bc, nat) lazycell_ops \<Rightarrow> 'bc ready_binding \<Rightarrow> byte_vec \<Rightarrow> 'o win_poll \<Rightarrow> 'o win_poll" where
  "rb_put_buffer lc rb buf p =
     (case lazy_borrow lc (rb_binding rb) of
        Some _ \<Rightarrow> p\<lparr>pl_selector := (pl_selector p)\<lparr>sel_buffers := buffer_pool_put (sel_buffers (pl_selector p)) buf\<rparr>\<rparr>
      | None \<Rightarrow> p)"

text \<open>A failing \<open>set_readiness\<close> panics.\<close>

definition rb_set_readiness :: "'o win_sys \<Rightarrow> 'bc ready_binding \<Rightarrow> ready \<Rightarrow> 'o win_poll \<Rightarrow> 'o win_poll option" where
  "rb_set_readiness ws rb r p =
     (case rb_readiness rb of
        None \<Rightarrow> Some p
      | Some i \<Rightarrow> do {
          (res, q) \<leftarrow> inner_set_readiness (win_wakeup ws) (pl_queue p) i r;
          (case res of Inl _ \<Rightarrow> None | Inr _ \<Rightarrow> Some (p\<lparr>pl_queue := q\<rparr>)) })"

definition rb_get_readiness :: "'bc ready_binding \<Rightarrow> 'o win_poll \<Rightarrow> ready option" where
  "rb_get_readiness rb p = (case rb_readiness rb of Some i \<Rightarrow> inner_readiness (pl_queue p) i | None \<Rightarrow> Some ready_none)"

definition with_hup :: "ready \<Rightarrow> ready" where
  "with_hup evts = (if ready_is_readable evts then ready_bitor evts ready_hup else evts)"

text \<open>The results carry the binding, the registration of the socket, and the poll.  Replaced handles are dropped.\<close>

definition rb_register_socket ::
  "'o win_sys \<Rightarrow> ('bc, nat) lazycell_ops \<Rightarrow> 'bc ready_binding \<Rightarrow> registration_inner option \<Rightarrow> fd \<Rightarrow> 'o win_poll \<Rightarrow> token \<Rightarrow>
     ready \<Rightarrow> poll_opt \<Rightarrow> (unit io_result \<times> 'bc ready_binding \<times> registration_inner option \<times> 'o win_poll) option" where
  "rb_register_socket ws lc rb reg socket p tok evts opts =
     (case binding_register_socket ws lc (rb_binding rb) socket tok p of
        (Inl e, b1, p1) \<Rightarrow> Some (Inl e, rb\<lparr>rb_binding := b1\<rparr>, reg, p1)
      | (Inr _, b1, p1) \<Rightarrow> do {
          ((r, s), q1) \<leftarrow> registration_new (win_wakeup ws) (pl_queue p1) tok (with_hup evts) opts;
          q2 \<leftarrow> (case rb_readiness rb of None \<Rightarrow> Some q1 | Some old \<Rightarrow> set_readiness_drop (win_wakeup ws) q1 old);
          q3 \<leftarrow> (case reg of None \<Rightarrow> Some q2 | Some old \<Rightarrow> registration_drop (win_wakeup ws) q2 old);
          Some (Inr (), \<lparr>rb_binding = b1, rb_readiness = Some s\<rparr>, Some r, p1\<lparr>pl_queue := q3\<rparr>) })"

text \<open>\<open>unwrap\<close> of a registration that was never made panics.\<close>

definition rb_reregister_socket ::
  "('bc, nat) lazycell_ops \<Rightarrow> 'bc ready_binding \<Rightarrow> registration_inner option \<Rightarrow> 'o win_poll \<Rightarrow> token \<Rightarrow> ready \<Rightarrow> poll_opt \<Rightarrow>
     (unit io_result \<times> 'o win_poll) option" where
  "rb_reregister_socket lc rb reg p tok evts opts =
     (case binding_reregister_socket lc (rb_binding rb) p of
        Inl e \<Rightarrow> Some (Inl e, p)
      | Inr _ \<Rightarrow> do {
          r \<leftarrow> reg;
          (res, q) \<leftarrow> registration_update (pl_queue p) r tok (with_hup evts) opts;
          Some (res, p\<lparr>pl_queue := q\<rparr>) })"

definition rb_deregister ::
  "('bc, nat) lazycell_ops \<Rightarrow> 'bc ready_binding \<Rightarrow> registration_inner option \<Rightarrow> 'o win_poll \<Rightarrow>
     (unit io_result \<times> 'o win_poll) option" where
  "rb_deregister lc rb reg p =
     (case binding_deregister_socket lc (rb_binding rb) p of
        Inl e \<Rightarrow> Some (Inl e, p)
      | Inr _ \<Rightarrow> do {
          r \<leftarrow> reg;
          (res, q) \<leftarrow> registration_deregister (pl_queue p) r;
          Some (res, p\<lparr>pl_queue := q\<rparr>) })"

end
