(* ===== verification/Mio_Windows_Tcp.thy ===== *)
theory Mio_Windows_Tcp
  imports Mio_Windows
begin

text \<open>
  \<open>src/sys/windows/tcp.rs\<close>: streams and listeners over I/O completion ports.  A stream or listener is one record: the
  shared object behind the \<open>FromRawArc\<close> (with its address and count) together with the registration that its
  handle owns.  \<open>mem::forget(self.clone())\<close> is an increment of the count, and a completion callback ends with the decrement
  for the reference it took over.  Operations take the poll the object is bound to; \<open>None\<close> is a panic or a loop that
  does not end.
\<close>

datatype ('p, 'r) win_state = StEmpty | StPending 'p | StReady 'r | StError io_error

section \<open>\<open>TcpStream\<close>\<close>

record 'bc win_stream =
  wt_addr :: nat
  wt_cnt :: usize
  wt_socket :: fd
  wt_iocp :: "'bc ready_binding"
  wt_deferred :: "socket_addr option"
  wt_read :: "(unit, unit) win_state"
  wt_write :: "(byte_vec \<times> nat, byte_vec \<times> nat) win_state"
  wt_instant :: bool
  wt_registration :: "registration_inner option"

definition win_stream_new :: "('bc, nat) lazycell_ops \<Rightarrow> nat \<Rightarrow> fd \<Rightarrow> socket_addr option \<Rightarrow> 'bc win_stream" where
  "win_stream_new lc addr socket deferred =
     \<lparr>wt_addr = addr, wt_cnt = arc_new, wt_socket = socket, wt_iocp = ready_binding_new lc, wt_deferred = deferred,
      wt_read = StEmpty, wt_write = StEmpty, wt_instant = False, wt_registration = None\<rparr>"

definition win_stream_connect ::
  "'o win_sys \<Rightarrow> ('bc, nat) lazycell_ops \<Rightarrow> nat \<Rightarrow> fd \<Rightarrow> socket_addr \<Rightarrow> 'o \<Rightarrow> 'bc win_stream io_result \<times> 'o" where
  "win_stream_connect ws lc obj socket addr w =
     (case ws_set_nonblocking ws socket True w of
        (Inl e, w1) \<Rightarrow> (Inl e, ws_close ws socket w1)
      | (Inr _, w1) \<Rightarrow> (Inr (win_stream_new lc obj socket (Some addr)), w1))"

definition win_stream_from_stream :: "('bc, nat) lazycell_ops \<Rightarrow> nat \<Rightarrow> fd \<Rightarrow> 'bc win_stream" where
  "win_stream_from_stream lc obj socket = win_stream_new lc obj socket None"

definition win_stream_try_clone ::
  "'o win_sys \<Rightarrow> ('bc, nat) lazycell_ops \<Rightarrow> nat \<Rightarrow> 'bc win_stream \<Rightarrow> 'o \<Rightarrow> 'bc win_stream io_result \<times> 'o" where
  "win_stream_try_clone ws lc obj s w =
     (case ws_try_clone ws (wt_socket s) w of (r, w1) \<Rightarrow> (result_map (\<lambda>fd. win_stream_new lc obj fd None) r, w1))"

text \<open>Options and addresses are those of the socket.\<close>

definition win_stream_get :: "'o net_sys \<Rightarrow> 'bc win_stream \<Rightarrow> socket_get \<Rightarrow> 'o \<Rightarrow> socket_value io_result \<times> 'o" where
  "win_stream_get nt s g w = nt_get nt (wt_socket s) g w"

definition win_stream_set :: "'o net_sys \<Rightarrow> 'bc win_stream \<Rightarrow> socket_set \<Rightarrow> 'o \<Rightarrow> unit io_result \<times> 'o" where
  "win_stream_set nt s x w = nt_set nt (wt_socket s) x w"

definition win_stream_shutdown :: "'o net_sys \<Rightarrow> 'bc win_stream \<Rightarrow> shutdown \<Rightarrow> 'o \<Rightarrow> unit io_result \<times> 'o" where
  "win_stream_shutdown nt s how w = nt_shutdown nt (wt_socket s) how w"

definition win_stream_fmt :: string where "win_stream_fmt = ''TcpStream { ... }''"

definition stream_add_readiness :: "'o win_sys \<Rightarrow> 'bc win_stream \<Rightarrow> ready \<Rightarrow> 'o win_poll \<Rightarrow> 'o win_poll option" where
  "stream_add_readiness ws s r p = do {
     cur \<leftarrow> rb_get_readiness (wt_iocp s) p;
     rb_set_readiness ws (wt_iocp s) (ready_bitor r cur) p }"

definition stream_clear_readiness :: "'o win_sys \<Rightarrow> 'bc win_stream \<Rightarrow> ready \<Rightarrow> 'o win_poll \<Rightarrow> 'o win_poll option" where
  "stream_clear_readiness ws s r p = do {
     cur \<leftarrow> rb_get_readiness (wt_iocp s) p;
     rb_set_readiness ws (wt_iocp s) (ready_bitand cur (ready_not r)) p }"

definition stream_schedule_connect ::
  "'o win_sys \<Rightarrow> 'bc win_stream \<Rightarrow> socket_addr \<Rightarrow> 'o win_poll \<Rightarrow> unit io_result \<times> 'bc win_stream \<times> 'o win_poll" where
  "stream_schedule_connect ws s addr p =
     (case win_os (ws_connect_overlapped ws (wt_socket s) addr (StreamRead (wt_addr s))) p of
        (Inl e, p1) \<Rightarrow> (Inl e, s, p1)
      | (Inr _, p1) \<Rightarrow> (Inr (), s\<lparr>wt_cnt := arc_clone (wt_cnt s)\<rparr>, p1))"

text \<open>The three outcomes of the overlapped read.\<close>

definition stream_read_scheduled ::
  "'o win_sys \<Rightarrow> 'bc win_stream \<Rightarrow> nat option io_result \<Rightarrow> 'o win_poll \<Rightarrow> ('bc win_stream \<times> 'o win_poll) option" where
  "stream_read_scheduled ws s res p =
     (case res of
        Inr t \<Rightarrow>
          if t \<noteq> None \<and> wt_instant s
          then map_option (\<lambda>p1. (s\<lparr>wt_read := StReady ()\<rparr>, p1)) (stream_add_readiness ws s ready_readable p)
          else Some (s\<lparr>wt_read := StPending (), wt_cnt := arc_clone (wt_cnt s)\<rparr>, p)
      | Inl e \<Rightarrow>
          let r = (if raw_os_error e = Some WSAECONNRESET then ready_bitor ready_readable ready_hup else ready_readable)
          in map_option (\<lambda>p1. (s\<lparr>wt_read := StError e\<rparr>, p1)) (stream_add_readiness ws s r p))"

definition stream_schedule_read :: "'o win_sys \<Rightarrow> 'bc win_stream \<Rightarrow> 'o win_poll \<Rightarrow> ('bc win_stream \<times> 'o win_poll) option" where
  "stream_schedule_read ws s p =
     (case wt_read s of
        StPending _ \<Rightarrow> Some (s, p)
      | StReady _ \<Rightarrow> map_option (\<lambda>p1. (s, p1)) (stream_add_readiness ws s ready_readable p)
      | StError _ \<Rightarrow> map_option (\<lambda>p1. (s, p1)) (stream_add_readiness ws s ready_readable p)
      | StEmpty \<Rightarrow> do {
          p1 \<leftarrow> stream_clear_readiness ws s ready_readable p;
          (case win_os (ws_read_overlapped ws (wt_socket s) (StreamRead (wt_addr s))) p1 of
             (res, p2) \<Rightarrow> stream_read_scheduled ws s res p2) })"

text \<open>The loop of \<open>schedule_write\<close>; \<open>&buf[pos..]\<close> panics beyond the end.\<close>

partial_function (option) stream_write_loop ::
  "'o win_sys \<Rightarrow> ('bc, nat) lazycell_ops \<Rightarrow> 'bc win_stream \<Rightarrow> byte_vec \<Rightarrow> nat \<Rightarrow> 'o win_poll \<Rightarrow> ('bc win_stream \<times> 'o win_poll) option" where
  "stream_write_loop ws lc s buf pos p =
     (if length (bv_data buf) < pos then None
      else
        (case win_os (ws_write_overlapped ws (wt_socket s) (drop pos (bv_data buf)) (StreamWrite (wt_addr s))) p of
           (ret, p1) \<Rightarrow>
             (case ret of
                Inr t \<Rightarrow>
                  if t \<noteq> None \<and> wt_instant s
                  then
                    if the t = length (bv_data buf) - pos
                    then map_option (\<lambda>p2. (s\<lparr>wt_write := StEmpty\<rparr>, p2)) (stream_add_readiness ws s ready_writable p1)
                    else stream_write_loop ws lc s buf (pos + the t) p1
                  else Some (s\<lparr>wt_write := StPending (buf, pos), wt_cnt := arc_clone (wt_cnt s)\<rparr>, p1)
              | Inl e \<Rightarrow>
                  map_option (\<lambda>p2. (s\<lparr>wt_write := StError e\<rparr>, rb_put_buffer lc (wt_iocp s) buf p2))
                    (stream_add_readiness ws s ready_writable p1))))"

declare stream_write_loop.simps [code]

definition stream_schedule_write ::
  "'o win_sys \<Rightarrow> ('bc, nat) lazycell_ops \<Rightarrow> 'bc win_stream \<Rightarrow> byte_vec \<Rightarrow> nat \<Rightarrow> 'o win_poll \<Rightarrow> ('bc win_stream \<times> 'o win_poll) option" where
  "stream_schedule_write ws lc s buf pos p = do {
     p1 \<leftarrow> stream_clear_readiness ws s ready_writable p;
     stream_write_loop ws lc s buf pos p1 }"

definition stream_post_register ::
  "'o win_sys \<Rightarrow> ready \<Rightarrow> 'bc win_stream \<Rightarrow> 'o win_poll \<Rightarrow> ('bc win_stream \<times> 'o win_poll) option" where
  "stream_post_register ws interest s p = do {
     (s1, p1) \<leftarrow> (if ready_is_readable interest then stream_schedule_read ws s p else Some (s, p));
     if ready_is_writable interest \<and> wt_write s1 = StEmpty
     then map_option (\<lambda>p2. (s1, p2)) (stream_add_readiness ws s1 ready_writable p1)
     else Some (s1, p1) }"

text \<open>The loop of \<open>readv\<close> over the lengths of the buffers; \<open>amt\<close> holds the bytes read so far.\<close>

fun stream_read_bufs ::
  "'o win_sys \<Rightarrow> 'bc win_stream \<Rightarrow> u8 list \<Rightarrow> nat list \<Rightarrow> 'o win_poll \<Rightarrow> (u8 list io_result \<times> 'bc win_stream \<times> 'o win_poll) option" where
  "stream_read_bufs ws s amt [] p = Some (Inr amt, s, p)"
| "stream_read_bufs ws s amt (n # ns) p =
     (case win_os (ws_read ws (wt_socket s) n) p of
        (Inr bytes, p1) \<Rightarrow>
          if length bytes < n then Some (Inr (amt @ bytes), s, p1) else stream_read_bufs ws s (amt @ bytes) ns p1
      | (Inl e, p1) \<Rightarrow>
          if amt \<noteq> [] \<and> win_error_kind e = WouldBlock
          then map_option (\<lambda>(s1, p2). (Inr amt, s1, p2)) (stream_schedule_read ws (s\<lparr>wt_read := StEmpty\<rparr>) p1)
          else if amt \<noteq> [] then Some (Inr amt, s\<lparr>wt_read := StError e\<rparr>, p1)
          else map_option (\<lambda>(s1, p2). (Inl e, s1, p2)) (stream_schedule_read ws (s\<lparr>wt_read := StEmpty\<rparr>) p1))"

definition win_stream_readv ::
  "'o win_sys \<Rightarrow> 'bc win_stream \<Rightarrow> nat list \<Rightarrow> 'o win_poll \<Rightarrow> (u8 list io_result \<times> 'bc win_stream \<times> 'o win_poll) option" where
  "win_stream_readv ws s bufs p =
     (case wt_read s of
        StEmpty \<Rightarrow> Some (Inl wouldblock, s, p)
      | StPending _ \<Rightarrow> Some (Inl wouldblock, s, p)
      | StError e \<Rightarrow> map_option (\<lambda>(s1, p1). (Inl e, s1, p1)) (stream_schedule_read ws (s\<lparr>wt_read := StEmpty\<rparr>) p)
      | StReady _ \<Rightarrow> stream_read_bufs ws s [] bufs p)"

definition win_stream_read ::
  "'o win_sys \<Rightarrow> 'bc win_stream \<Rightarrow> nat \<Rightarrow> 'o win_poll \<Rightarrow> (u8 list io_result \<times> 'bc win_stream \<times> 'o win_poll) option" where
  "win_stream_read ws s n p = win_stream_readv ws s [min (2 ^ 32 - 1) n] p"

definition win_stream_writev ::
  "'o win_sys \<Rightarrow> ('bc, nat) lazycell_ops \<Rightarrow> 'bc win_stream \<Rightarrow> u8 list list \<Rightarrow> 'o win_poll \<Rightarrow>
     (nat io_result \<times> 'bc win_stream \<times> 'o win_poll) option" where
  "win_stream_writev ws lc s bufs p =
     (if wt_write s \<noteq> StEmpty then Some (Inl wouldblock, s, p)
      else if \<not> rb_registered (wt_iocp s) then Some (Inl wouldblock, s, p)
      else if bufs = [] then Some (Inr 0, s, p)
      else
        let len = sum_list (map (\<lambda>b. length (win_iovec_as_bytes b)) bufs)
        in case rb_get_buffer lc (wt_iocp s) len p of
             (buf, p1) \<Rightarrow>
               map_option (\<lambda>(s1, p2). (Inr len, s1, p2))
                 (stream_schedule_write ws lc s (foldl vec_extend buf (map win_iovec_as_bytes bufs)) 0 p1))"

definition win_stream_write ::
  "'o win_sys \<Rightarrow> ('bc, nat) lazycell_ops \<Rightarrow> 'bc win_stream \<Rightarrow> u8 list \<Rightarrow> 'o win_poll \<Rightarrow> (nat io_result \<times> 'bc win_stream \<times> 'o win_poll) option" where
  "win_stream_write ws lc s buf p = win_stream_writev ws lc s [win_iovec_from buf] p"

definition win_stream_flush :: "unit io_result" where "win_stream_flush = Inr ()"

text \<open>Dropping a reference; with the last one the object goes: its \<open>SetReadiness\<close>, then its socket.\<close>

definition stream_release ::
  "'o win_sys \<Rightarrow> 'bc win_stream \<Rightarrow> 'o win_poll \<Rightarrow> ('bc win_stream option \<times> 'o win_poll) option" where
  "stream_release ws s p =
     (case arc_drop (wt_cnt s) of
        (False, cnt) \<Rightarrow> Some (Some (s\<lparr>wt_cnt := cnt\<rparr>), p)
      | (True, _) \<Rightarrow> do {
          q \<leftarrow> (case rb_readiness (wt_iocp s) of None \<Rightarrow> Some (pl_queue p) | Some h \<Rightarrow> set_readiness_drop (win_wakeup ws) (pl_queue p) h);
          (case win_os (\<lambda>w. ((), ws_close ws (wt_socket s) w)) (p\<lparr>pl_queue := q\<rparr>) of (_, p1) \<Rightarrow> Some (None, p1)) })"

text \<open>The callbacks.  A read that did not complete means that the connect has finished.\<close>

definition connect_done :: "'o win_sys \<Rightarrow> 'bc win_stream \<Rightarrow> 'o win_poll \<Rightarrow> ('bc win_stream \<times> 'o win_poll) option" where
  "connect_done ws s p =
     (case win_os (ws_connect_complete ws (wt_socket s)) p of
        (Inr _, p1) \<Rightarrow> do {
          p2 \<leftarrow> stream_add_readiness ws s ready_writable p1;
          stream_schedule_read ws s p2 }
      | (Inl e, p1) \<Rightarrow> do {
          p2 \<leftarrow> stream_add_readiness ws s ready_readable p1;
          Some (s\<lparr>wt_read := StError e\<rparr>, p2) })"

definition read_done ::
  "'o win_sys \<Rightarrow> completion \<Rightarrow> 'bc win_stream \<Rightarrow> 'o win_poll \<Rightarrow> ('bc win_stream option \<times> 'o win_poll) option" where
  "read_done ws status s p = do {
     (s1, p1) \<leftarrow> (case wt_read s of
        StPending _ \<Rightarrow>
          if cs_bytes status = 0
          then map_option (\<lambda>p1. (s\<lparr>wt_read := StReady ()\<rparr>, p1)) (stream_add_readiness ws s ready_readable p)
          else None
      | _ \<Rightarrow> connect_done ws s p);
     stream_release ws s1 p1 }"

definition write_done ::
  "'o win_sys \<Rightarrow> ('bc, nat) lazycell_ops \<Rightarrow> completion \<Rightarrow> 'bc win_stream \<Rightarrow> 'o win_poll \<Rightarrow> ('bc win_stream option \<times> 'o win_poll) option" where
  "write_done ws lc status s p = do {
     (s1, p1) \<leftarrow> (case wt_write s of
        StPending (buf, pos) \<Rightarrow>
          let s' = s\<lparr>wt_write := StEmpty\<rparr>;
              new_pos = pos + unat (cs_bytes status)
          in if new_pos = length (bv_data buf)
             then map_option (\<lambda>p1. (s', p1)) (stream_add_readiness ws s' ready_writable p)
             else stream_schedule_write ws lc s' buf new_pos p
      | _ \<Rightarrow> None);
     stream_release ws s1 p1 }"

definition win_stream_register ::
  "'o win_sys \<Rightarrow> ('bc, nat) lazycell_ops \<Rightarrow> 'bc win_stream \<Rightarrow> 'o win_poll \<Rightarrow> token \<Rightarrow> ready \<Rightarrow> poll_opt \<Rightarrow>
     (unit io_result \<times> 'bc win_stream \<times> 'o win_poll) option" where
  "win_stream_register ws lc s p tok interest opts = do {
     (r, rb, reg, p1) \<leftarrow> rb_register_socket ws lc (wt_iocp s) (wt_registration s) (wt_socket s) p tok interest opts;
     let s1 = s\<lparr>wt_iocp := rb, wt_registration := reg\<rparr>;
     (case r of
        Inl e \<Rightarrow> Some (Inl e, s1, p1)
      | Inr _ \<Rightarrow>
          (case win_os (no_notify_on_instant_completion ws (wt_socket s1)) p1 of
             (Inl e, p2) \<Rightarrow> Some (Inl e, s1, p2)
           | (Inr _, p2) \<Rightarrow>
               (case wt_deferred s1 of
                  Some addr \<Rightarrow> Some (stream_schedule_connect ws (s1\<lparr>wt_instant := True, wt_deferred := None\<rparr>) addr p2)
                | None \<Rightarrow> map_option (\<lambda>(s2, p3). (Inr (), s2, p3)) (stream_post_register ws interest (s1\<lparr>wt_instant := True\<rparr>) p2)))) }"

definition win_stream_reregister ::
  "'o win_sys \<Rightarrow> ('bc, nat) lazycell_ops \<Rightarrow> 'bc win_stream \<Rightarrow> 'o win_poll \<Rightarrow> token \<Rightarrow> ready \<Rightarrow> poll_opt \<Rightarrow>
     (unit io_result \<times> 'bc win_stream \<times> 'o win_poll) option" where
  "win_stream_reregister ws lc s p tok interest opts = do {
     (r, p1) \<leftarrow> rb_reregister_socket lc (wt_iocp s) (wt_registration s) p tok interest opts;
     (case r of
        Inl e \<Rightarrow> Some (Inl e, s, p1)
      | Inr _ \<Rightarrow> map_option (\<lambda>(s2, p2). (Inr (), s2, p2)) (stream_post_register ws interest s p1)) }"

definition win_stream_deregister ::
  "('bc, nat) lazycell_ops \<Rightarrow> 'bc win_stream \<Rightarrow> 'o win_poll \<Rightarrow> (unit io_result \<times> 'bc win_stream \<times> 'o win_poll) option" where
  "win_stream_deregister lc s p = map_option (\<lambda>(r, p1). (r, s, p1)) (rb_deregister lc (wt_iocp s) (wt_registration s) p)"

text \<open>Dropping the handle: a read or connect in flight is cancelled, the reference is dropped, then the registration.\<close>

definition win_stream_drop ::
  "'o win_sys \<Rightarrow> 'bc win_stream \<Rightarrow> 'o win_poll \<Rightarrow> ('bc win_stream option \<times> 'o win_poll) option" where
  "win_stream_drop ws s p =
     (let p1 = (case wt_read s of
          StReady _ \<Rightarrow> p
        | StError _ \<Rightarrow> p
        | _ \<Rightarrow> snd (win_os (win_cancel ws (wt_socket s) (StreamRead (wt_addr s))) p))
      in do {
        (s1, p2) \<leftarrow> stream_release ws s p1;
        q \<leftarrow> (case wt_registration s of None \<Rightarrow> Some (pl_queue p2) | Some r \<Rightarrow> registration_drop (win_wakeup ws) (pl_queue p2) r);
        Some (map_option (\<lambda>x. x\<lparr>wt_registration := None\<rparr>) s1, p2\<lparr>pl_queue := q\<rparr>) })"

section \<open>\<open>TcpListener\<close>\<close>

datatype family = FamilyV4 | FamilyV6

record 'bc win_listener =
  wl_addr :: nat
  wl_cnt :: usize
  wl_socket :: fd
  wl_family :: family
  wl_iocp :: "'bc ready_binding"
  wl_accept :: "(fd, fd \<times> socket_addr) win_state"
  wl_instant :: bool
  wl_registration :: "registration_inner option"

definition win_listener_new_family :: "('bc, nat) lazycell_ops \<Rightarrow> nat \<Rightarrow> fd \<Rightarrow> family \<Rightarrow> 'bc win_listener" where
  "win_listener_new_family lc obj socket fam =
     \<lparr>wl_addr = obj, wl_cnt = arc_new, wl_socket = socket, wl_family = fam, wl_iocp = ready_binding_new lc,
      wl_accept = StEmpty, wl_instant = False, wl_registration = None\<rparr>"

definition win_listener_new :: "('bc, nat) lazycell_ops \<Rightarrow> nat \<Rightarrow> fd \<Rightarrow> socket_addr \<Rightarrow> 'bc win_listener io_result" where
  "win_listener_new lc obj socket addr =
     Inr (win_listener_new_family lc obj socket (case addr of SocketV4 _ _ \<Rightarrow> FamilyV4 | SocketV6 _ _ _ _ \<Rightarrow> FamilyV6))"

definition win_listener_try_clone ::
  "'o win_sys \<Rightarrow> ('bc, nat) lazycell_ops \<Rightarrow> nat \<Rightarrow> 'bc win_listener \<Rightarrow> 'o \<Rightarrow> 'bc win_listener io_result \<times> 'o" where
  "win_listener_try_clone ws lc obj l w =
     (case ws_try_clone ws (wl_socket l) w of (r, w1) \<Rightarrow> (result_map (\<lambda>fd. win_listener_new_family lc obj fd (wl_family l)) r, w1))"

definition win_listener_get :: "'o net_sys \<Rightarrow> 'bc win_listener \<Rightarrow> socket_get \<Rightarrow> 'o \<Rightarrow> socket_value io_result \<times> 'o" where
  "win_listener_get nt l g w = nt_get nt (wl_socket l) g w"

definition win_listener_set :: "'o net_sys \<Rightarrow> 'bc win_listener \<Rightarrow> socket_set \<Rightarrow> 'o \<Rightarrow> unit io_result \<times> 'o" where
  "win_listener_set nt l x w = nt_set nt (wl_socket l) x w"

definition win_listener_fmt :: string where "win_listener_fmt = ''TcpListener { ... }''"

definition listener_add_readiness :: "'o win_sys \<Rightarrow> 'bc win_listener \<Rightarrow> ready \<Rightarrow> 'o win_poll \<Rightarrow> 'o win_poll option" where
  "listener_add_readiness ws l r p = do {
     cur \<leftarrow> rb_get_readiness (wl_iocp l) p;
     rb_set_readiness ws (wl_iocp l) (ready_bitor r cur) p }"

text \<open>A new socket of the listener's family, and the accept on it; the socket is closed if the accept fails.\<close>

definition start_accept :: "'o win_sys \<Rightarrow> 'bc win_listener \<Rightarrow> 'o \<Rightarrow> (fd \<times> bool) io_result \<times> 'o" where
  "start_accept ws l w =
     (case (case wl_family l of FamilyV4 \<Rightarrow> ws_tcp_v4 ws w | FamilyV6 \<Rightarrow> ws_tcp_v6 ws w) of
        (Inl e, w1) \<Rightarrow> (Inl e, w1)
      | (Inr builder, w1) \<Rightarrow>
          (case ws_accept_overlapped ws (wl_socket l) builder (ListenerAccept (wl_addr l)) w1 of
             (Inl e, w2) \<Rightarrow> (Inl e, ws_close ws builder w2)
           | (Inr r, w2) \<Rightarrow> (Inr r, w2)))"

definition listener_schedule_accept ::
  "'o win_sys \<Rightarrow> 'bc win_listener \<Rightarrow> 'o win_poll \<Rightarrow> ('bc win_listener \<times> 'o win_poll) option" where
  "listener_schedule_accept ws l p =
     (if wl_accept l \<noteq> StEmpty then Some (l, p)
      else do {
        cur \<leftarrow> rb_get_readiness (wl_iocp l) p;
        p1 \<leftarrow> rb_set_readiness ws (wl_iocp l) (ready_bitand cur (ready_not ready_readable)) p;
        (case win_os (start_accept ws l) p1 of
           (Inr (socket, _), p2) \<Rightarrow> Some (l\<lparr>wl_accept := StPending socket, wl_cnt := arc_clone (wl_cnt l)\<rparr>, p2)
         | (Inl e, p2) \<Rightarrow> map_option (\<lambda>p3. (l\<lparr>wl_accept := StError e\<rparr>, p3)) (listener_add_readiness ws l ready_readable p2)) })"

text \<open>\<open>accept\<close>: \<open>obj\<close> is the address of the new stream.  A failing \<open>set_nonblocking\<close> returns at once and closes the socket.\<close>

definition win_listener_accept ::
  "'o win_sys \<Rightarrow> ('bc, nat) lazycell_ops \<Rightarrow> nat \<Rightarrow> 'bc win_listener \<Rightarrow> 'o win_poll \<Rightarrow>
     (('bc win_stream \<times> socket_addr) io_result \<times> 'bc win_listener \<times> 'o win_poll) option" where
  "win_listener_accept ws lc obj l p =
     (let l1 = l\<lparr>wl_accept := StEmpty\<rparr>
      in case wl_accept l of
           StEmpty \<Rightarrow> Some (Inl win_would_block, l1, p)
         | StPending t \<Rightarrow> Some (Inl win_would_block, l, p)
         | StReady (s, a) \<Rightarrow>
             (case win_os (ws_set_nonblocking ws s True) p of
                (Inl e, p1) \<Rightarrow> Some (Inl e, l1, snd (win_os (\<lambda>w. ((), ws_close ws s w)) p1))
              | (Inr _, p1) \<Rightarrow>
                  map_option (\<lambda>(l2, p2). (Inr (win_stream_new lc obj s None, a), l2, p2)) (listener_schedule_accept ws l1 p1))
         | StError e \<Rightarrow> map_option (\<lambda>(l2, p2). (Inl e, l2, p2)) (listener_schedule_accept ws l1 p))"

text \<open>The object goes with the last reference: its \<open>SetReadiness\<close>, a socket that was being or has been accepted, its own.\<close>

definition listener_sockets :: "'bc win_listener \<Rightarrow> fd list" where
  "listener_sockets l = (case wl_accept l of StPending s \<Rightarrow> [s] | StReady (s, _) \<Rightarrow> [s] | _ \<Rightarrow> []) @ [wl_socket l]"

definition listener_release ::
  "'o win_sys \<Rightarrow> 'bc win_listener \<Rightarrow> 'o win_poll \<Rightarrow> ('bc win_listener option \<times> 'o win_poll) option" where
  "listener_release ws l p =
     (case arc_drop (wl_cnt l) of
        (False, cnt) \<Rightarrow> Some (Some (l\<lparr>wl_cnt := cnt\<rparr>), p)
      | (True, _) \<Rightarrow> do {
          q \<leftarrow> (case rb_readiness (wl_iocp l) of None \<Rightarrow> Some (pl_queue p) | Some h \<Rightarrow> set_readiness_drop (win_wakeup ws) (pl_queue p) h);
          (case win_os (\<lambda>w. ((), fold (ws_close ws) (listener_sockets l) w)) (p\<lparr>pl_queue := q\<rparr>) of (_, p1) \<Rightarrow> Some (None, p1)) })"

definition accept_result :: "'o win_sys \<Rightarrow> fd \<Rightarrow> fd \<Rightarrow> 'o \<Rightarrow> socket_addr io_result \<times> 'o" where
  "accept_result ws listener socket w =
     (case ws_accept_complete ws listener socket w of
        (Inl e, w1) \<Rightarrow> (Inl e, w1)
      | (Inr _, w1) \<Rightarrow>
          (case ws_accept_remote ws listener w1 of
             (Inl e, w2) \<Rightarrow> (Inl e, w2)
           | (Inr None, w2) \<Rightarrow> (Inl (CustomError Other ''could not obtain remote address''), w2)
           | (Inr (Some a), w2) \<Rightarrow> (Inr a, w2)))"

definition accept_done ::
  "'o win_sys \<Rightarrow> completion \<Rightarrow> 'bc win_listener \<Rightarrow> 'o win_poll \<Rightarrow> ('bc win_listener option \<times> 'o win_poll) option" where
  "accept_done ws status l p =
     (case wl_accept l of
        StPending socket \<Rightarrow>
          (case win_os (accept_result ws (wl_socket l) socket) p of
             (res, p1) \<Rightarrow>
               let l1 = l\<lparr>wl_accept := (case res of Inr a \<Rightarrow> StReady (socket, a) | Inl e \<Rightarrow> StError e)\<rparr>
               in do {
                 p2 \<leftarrow> listener_add_readiness ws l1 ready_readable p1;
                 let p3 = (case res of Inr _ \<Rightarrow> p2 | Inl _ \<Rightarrow> snd (win_os (\<lambda>w. ((), ws_close ws socket w)) p2));
                 listener_release ws l1 p3 })
      | _ \<Rightarrow> None)"

definition win_listener_register ::
  "'o win_sys \<Rightarrow> ('bc, nat) lazycell_ops \<Rightarrow> 'bc win_listener \<Rightarrow> 'o win_poll \<Rightarrow> token \<Rightarrow> ready \<Rightarrow> poll_opt \<Rightarrow>
     (unit io_result \<times> 'bc win_listener \<times> 'o win_poll) option" where
  "win_listener_register ws lc l p tok interest opts = do {
     (r, rb, reg, p1) \<leftarrow> rb_register_socket ws lc (wl_iocp l) (wl_registration l) (wl_socket l) p tok interest opts;
     let l1 = l\<lparr>wl_iocp := rb, wl_registration := reg\<rparr>;
     (case r of
        Inl e \<Rightarrow> Some (Inl e, l1, p1)
      | Inr _ \<Rightarrow>
          (case win_os (no_notify_on_instant_completion ws (wl_socket l1)) p1 of
             (Inl e, p2) \<Rightarrow> Some (Inl e, l1, p2)
           | (Inr _, p2) \<Rightarrow> map_option (\<lambda>(l2, p3). (Inr (), l2, p3)) (listener_schedule_accept ws (l1\<lparr>wl_instant := True\<rparr>) p2))) }"

definition win_listener_reregister ::
  "'o win_sys \<Rightarrow> ('bc, nat) lazycell_ops \<Rightarrow> 'bc win_listener \<Rightarrow> 'o win_poll \<Rightarrow> token \<Rightarrow> ready \<Rightarrow> poll_opt \<Rightarrow>
     (unit io_result \<times> 'bc win_listener \<times> 'o win_poll) option" where
  "win_listener_reregister ws lc l p tok interest opts = do {
     (r, p1) \<leftarrow> rb_reregister_socket lc (wl_iocp l) (wl_registration l) p tok interest opts;
     (case r of
        Inl e \<Rightarrow> Some (Inl e, l, p1)
      | Inr _ \<Rightarrow> map_option (\<lambda>(l2, p2). (Inr (), l2, p2)) (listener_schedule_accept ws l p1)) }"

definition win_listener_deregister ::
  "('bc, nat) lazycell_ops \<Rightarrow> 'bc win_listener \<Rightarrow> 'o win_poll \<Rightarrow> (unit io_result \<times> 'bc win_listener \<times> 'o win_poll) option" where
  "win_listener_deregister lc l p = map_option (\<lambda>(r, p1). (r, l, p1)) (rb_deregister lc (wl_iocp l) (wl_registration l) p)"

definition win_listener_drop ::
  "'o win_sys \<Rightarrow> 'bc win_listener \<Rightarrow> 'o win_poll \<Rightarrow> ('bc win_listener option \<times> 'o win_poll) option" where
  "win_listener_drop ws l p =
     (let p1 = (case wl_accept l of
          StPending _ \<Rightarrow> snd (win_os (win_cancel ws (wl_socket l) (ListenerAccept (wl_addr l))) p)
        | _ \<Rightarrow> p)
      in do {
        (l1, p2) \<leftarrow> listener_release ws l p1;
        q \<leftarrow> (case wl_registration l of None \<Rightarrow> Some (pl_queue p2) | Some r \<Rightarrow> registration_drop (win_wakeup ws) (pl_queue p2) r);
        Some (map_option (\<lambda>x. x\<lparr>wl_registration := None\<rparr>) l1, p2\<lparr>pl_queue := q\<rparr>) })"

end
