(* ===== verification/Mio_Windows_Udp.thy ===== *)
theory Mio_Windows_Udp
  imports Mio_Windows_Tcp
begin

text \<open>
  \<open>src/sys/windows/udp.rs\<close>, and the heap of I/O objects: the callback behind an \<open>OVERLAPPED\<close> pointer, as \<open>Selector::select\<close> runs
  it, acts on the object the pointer lies in.
\<close>

section \<open>\<open>UdpSocket\<close>\<close>

record 'bc win_udp =
  wu_addr :: nat
  wu_cnt :: usize
  wu_socket :: fd
  wu_iocp :: "'bc ready_binding"
  wu_read :: "(byte_vec, byte_vec) win_state"
  wu_write :: "(byte_vec, byte_vec \<times> nat) win_state"
  wu_registration :: "registration_inner option"

definition win_udp_new :: "('bc, nat) lazycell_ops \<Rightarrow> nat \<Rightarrow> fd \<Rightarrow> 'bc win_udp io_result" where
  "win_udp_new lc obj socket =
     Inr \<lparr>wu_addr = obj, wu_cnt = arc_new, wu_socket = socket, wu_iocp = ready_binding_new lc, wu_read = StEmpty,
       wu_write = StEmpty, wu_registration = None\<rparr>"

definition win_udp_try_clone ::
  "'o win_sys \<Rightarrow> ('bc, nat) lazycell_ops \<Rightarrow> nat \<Rightarrow> 'bc win_udp \<Rightarrow> 'o \<Rightarrow> 'bc win_udp io_result \<times> 'o" where
  "win_udp_try_clone ws lc obj u w =
     (case ws_try_clone ws (wu_socket u) w of (r, w1) \<Rightarrow> (and_then r (win_udp_new lc obj), w1))"

definition win_udp_get :: "'o net_sys \<Rightarrow> 'bc win_udp \<Rightarrow> socket_get \<Rightarrow> 'o \<Rightarrow> socket_value io_result \<times> 'o" where
  "win_udp_get nt u g w = nt_get nt (wu_socket u) g w"

definition win_udp_set :: "'o net_sys \<Rightarrow> 'bc win_udp \<Rightarrow> socket_set \<Rightarrow> 'o \<Rightarrow> unit io_result \<times> 'o" where
  "win_udp_set nt u x w = nt_set nt (wu_socket u) x w"

definition win_udp_fmt :: string where "win_udp_fmt = ''UdpSocket { ... }''"

definition udp_add_readiness :: "'o win_sys \<Rightarrow> 'bc win_udp \<Rightarrow> ready \<Rightarrow> 'o win_poll \<Rightarrow> 'o win_poll option" where
  "udp_add_readiness ws u r p = do {
     cur \<leftarrow> rb_get_readiness (wu_iocp u) p;
     rb_set_readiness ws (wu_iocp u) (ready_bitor r cur) p }"

definition UDP_BUFFER :: nat where "UDP_BUFFER = 64 * 1024"

text \<open>\<open>Vec::write\<close> appends everything.  If the send cannot be scheduled the buffer is dropped.\<close>

definition win_udp_send_to ::
  "'o win_sys \<Rightarrow> ('bc, nat) lazycell_ops \<Rightarrow> 'bc win_udp \<Rightarrow> u8 list \<Rightarrow> socket_addr \<Rightarrow> 'o win_poll \<Rightarrow>
     (nat option io_result \<times> 'bc win_udp \<times> 'o win_poll) option" where
  "win_udp_send_to ws lc u buf target p =
     (if wu_write u \<noteq> StEmpty then Some (Inr None, u, p)
      else if \<not> rb_registered (wu_iocp u) then Some (Inr None, u, p)
      else do {
        interest \<leftarrow> rb_get_readiness (wu_iocp u) p;
        p1 \<leftarrow> rb_set_readiness ws (wu_iocp u) (ready_bitand interest (ready_not ready_writable)) p;
        (case rb_get_buffer lc (wu_iocp u) UDP_BUFFER p1 of
           (v, p2) \<Rightarrow>
             let owned_buf = vec_extend v buf
             in case win_os (ws_send_to_overlapped ws (wu_socket u) (bv_data owned_buf) target (UdpWrite (wu_addr u))) p2 of
                  (Inl e, p3) \<Rightarrow> Some (Inl e, u, p3)
                | (Inr _, p3) \<Rightarrow>
                    Some (Inr (Some (length buf)), u\<lparr>wu_write := StPending owned_buf, wu_cnt := arc_clone (wu_cnt u)\<rparr>, p3)) })"

definition udp_schedule_read ::
  "'o win_sys \<Rightarrow> ('bc, nat) lazycell_ops \<Rightarrow> 'bc win_udp \<Rightarrow> 'o win_poll \<Rightarrow> ('bc win_udp \<times> 'o win_poll) option" where
  "udp_schedule_read ws lc u p =
     (if wu_read u \<noteq> StEmpty then Some (u, p)
      else do {
        interest \<leftarrow> rb_get_readiness (wu_iocp u) p;
        p1 \<leftarrow> rb_set_readiness ws (wu_iocp u) (ready_bitand interest (ready_not ready_readable)) p;
        (case rb_get_buffer lc (wu_iocp u) UDP_BUFFER p1 of
           (v, p2) \<Rightarrow>
             (case win_os (ws_recv_from_overlapped ws (wu_socket u) (bv_cap v) (UdpRead (wu_addr u))) p2 of
                (Inr _, p3) \<Rightarrow> Some (u\<lparr>wu_read := StPending v, wu_cnt := arc_clone (wu_cnt u)\<rparr>, p3)
              | (Inl e, p3) \<Rightarrow>
                  map_option (\<lambda>p4. (u\<lparr>wu_read := StError e\<rparr>, rb_put_buffer lc (wu_iocp u) v p4))
                    (udp_add_readiness ws u ready_readable p3))) })"

text \<open>\<open>recv_from\<close> into a buffer of \<open>len\<close> bytes; the sender's address is in the socket's address buffer.\<close>

definition win_udp_recv_from ::
  "'o win_sys \<Rightarrow> ('bc, nat) lazycell_ops \<Rightarrow> 'bc win_udp \<Rightarrow> nat \<Rightarrow> 'o win_poll \<Rightarrow>
     ((u8 list \<times> socket_addr) option io_result \<times> 'bc win_udp \<times> 'o win_poll) option" where
  "win_udp_recv_from ws lc u len p =
     (let u1 = u\<lparr>wu_read := StEmpty\<rparr>
      in case wu_read u of
           StEmpty \<Rightarrow> Some (Inr None, u1, p)
         | StPending b \<Rightarrow> Some (Inr None, u, p)
         | StReady data \<Rightarrow>
             if len < length (bv_data data) then Some (Inl (OsError WSAEMSGSIZE), u, p)
             else
               let r = (case ws_received_from ws (UdpRead (wu_addr u)) (snd (awakener (pl_queue p))) of
                          Some addr \<Rightarrow> Inr (Some (bv_data data, addr))
                        | None \<Rightarrow> Inl (CustomError Other ''failed to parse socket address''))
               in map_option (\<lambda>(u2, p2). (r, u2, p2)) (udp_schedule_read ws lc u1 (rb_put_buffer lc (wu_iocp u) data p))
         | StError e \<Rightarrow> map_option (\<lambda>(u2, p2). (Inl e, u2, p2)) (udp_schedule_read ws lc u1 p))"

definition udp_post_register ::
  "'o win_sys \<Rightarrow> ('bc, nat) lazycell_ops \<Rightarrow> ready \<Rightarrow> 'bc win_udp \<Rightarrow> 'o win_poll \<Rightarrow> ('bc win_udp \<times> 'o win_poll) option" where
  "udp_post_register ws lc interest u p = do {
     (u1, p1) \<leftarrow> (if ready_is_readable interest then udp_schedule_read ws lc u p else Some (u, p));
     if ready_is_writable interest \<and> wu_write u1 = StEmpty
     then map_option (\<lambda>p2. (u1, p2)) (udp_add_readiness ws u1 ready_writable p1)
     else Some (u1, p1) }"

definition win_udp_register ::
  "'o win_sys \<Rightarrow> ('bc, nat) lazycell_ops \<Rightarrow> 'bc win_udp \<Rightarrow> 'o win_poll \<Rightarrow> token \<Rightarrow> ready \<Rightarrow> poll_opt \<Rightarrow>
     (unit io_result \<times> 'bc win_udp \<times> 'o win_poll) option" where
  "win_udp_register ws lc u p tok interest opts = do {
     (r, rb, reg, p1) \<leftarrow> rb_register_socket ws lc (wu_iocp u) (wu_registration u) (wu_socket u) p tok interest opts;
     let u1 = u\<lparr>wu_iocp := rb, wu_registration := reg\<rparr>;
     (case r of
        Inl e \<Rightarrow> Some (Inl e, u1, p1)
      | Inr _ \<Rightarrow> map_option (\<lambda>(u2, p2). (Inr (), u2, p2)) (udp_post_register ws lc interest u1 p1)) }"

definition win_udp_reregister ::
  "'o win_sys \<Rightarrow> ('bc, nat) lazycell_ops \<Rightarrow> 'bc win_udp \<Rightarrow> 'o win_poll \<Rightarrow> token \<Rightarrow> ready \<Rightarrow> poll_opt \<Rightarrow>
     (unit io_result \<times> 'bc win_udp \<times> 'o win_poll) option" where
  "win_udp_reregister ws lc u p tok interest opts = do {
     (r, p1) \<leftarrow> rb_reregister_socket lc (wu_iocp u) (wu_registration u) p tok interest opts;
     (case r of
        Inl e \<Rightarrow> Some (Inl e, u, p1)
      | Inr _ \<Rightarrow> map_option (\<lambda>(u2, p2). (Inr (), u2, p2)) (udp_post_register ws lc interest u p1)) }"

definition win_udp_deregister ::
  "('bc, nat) lazycell_ops \<Rightarrow> 'bc win_udp \<Rightarrow> 'o win_poll \<Rightarrow> (unit io_result \<times> 'bc win_udp \<times> 'o win_poll) option" where
  "win_udp_deregister lc u p = map_option (\<lambda>(r, p1). (r, u, p1)) (rb_deregister lc (wu_iocp u) (wu_registration u) p)"

definition udp_release ::
  "'o win_sys \<Rightarrow> 'bc win_udp \<Rightarrow> 'o win_poll \<Rightarrow> ('bc win_udp option \<times> 'o win_poll) option" where
  "udp_release ws u p =
     (case arc_drop (wu_cnt u) of
        (False, cnt) \<Rightarrow> Some (Some (u\<lparr>wu_cnt := cnt\<rparr>), p)
      | (True, _) \<Rightarrow>
          (case win_os (\<lambda>w. ((), ws_close ws (wu_socket u) w)) p of
             (_, p1) \<Rightarrow> do {
               q \<leftarrow> (case rb_readiness (wu_iocp u) of
                      None \<Rightarrow> Some (pl_queue p1) | Some h \<Rightarrow> set_readiness_drop (win_wakeup ws) (pl_queue p1) h);
               Some (None, p1\<lparr>pl_queue := q\<rparr>) }))"

definition win_udp_drop ::
  "'o win_sys \<Rightarrow> 'bc win_udp \<Rightarrow> 'o win_poll \<Rightarrow> ('bc win_udp option \<times> 'o win_poll) option" where
  "win_udp_drop ws u p =
     (let p1 = (case wu_read u of
          StPending _ \<Rightarrow> snd (win_os (win_cancel ws (wu_socket u) (UdpRead (wu_addr u))) p)
        | _ \<Rightarrow> p)
      in do {
        (u1, p2) \<leftarrow> udp_release ws u p1;
        q \<leftarrow> (case wu_registration u of None \<Rightarrow> Some (pl_queue p2) | Some r \<Rightarrow> registration_drop (win_wakeup ws) (pl_queue p2) r);
        Some (map_option (\<lambda>x. x\<lparr>wu_registration := None\<rparr>) u1, p2\<lparr>pl_queue := q\<rparr>) })"

definition send_done ::
  "'o win_sys \<Rightarrow> completion \<Rightarrow> 'bc win_udp \<Rightarrow> 'o win_poll \<Rightarrow> ('bc win_udp option \<times> 'o win_poll) option" where
  "send_done ws status u p = do {
     let u1 = u\<lparr>wu_write := StEmpty\<rparr>;
     p1 \<leftarrow> udp_add_readiness ws u1 ready_writable p;
     udp_release ws u1 p1 }"

text \<open>The received bytes are the first \<open>bytes_transferred\<close> of the buffer the system filled.\<close>

definition recv_done ::
  "'o win_sys \<Rightarrow> completion \<Rightarrow> 'bc win_udp \<Rightarrow> 'o win_poll \<Rightarrow> ('bc win_udp option \<times> 'o win_poll) option" where
  "recv_done ws status u p =
     (case wu_read u of
        StPending buf \<Rightarrow> do {
          let bytes = take (unat (cs_bytes status)) (ws_received ws (UdpRead (wu_addr u)) (snd (awakener (pl_queue p))));
          let u1 = u\<lparr>wu_read := StReady (buf\<lparr>bv_data := bytes\<rparr>)\<rparr>;
          p1 \<leftarrow> udp_add_readiness ws u1 ready_readable p;
          udp_release ws u1 p1 }
      | _ \<Rightarrow> None)"

section \<open>The heap of I/O objects\<close>

record 'bc win_heap =
  wh_streams :: "nat \<rightharpoonup> 'bc win_stream"
  wh_listeners :: "nat \<rightharpoonup> 'bc win_listener"
  wh_udps :: "nat \<rightharpoonup> 'bc win_udp"

text \<open>\<open>overlapped2arc!\<close> and the callback: an object that is gone is a dangling pointer.\<close>

fun win_callback ::
  "'o win_sys \<Rightarrow> ('bc, nat) lazycell_ops \<Rightarrow> overlapped \<Rightarrow> completion \<Rightarrow> 'o win_poll \<times> 'bc win_heap \<Rightarrow>
     ('o win_poll \<times> 'bc win_heap) option" where
  "win_callback ws lc (StreamRead a) status (p, h) = do {
     s \<leftarrow> wh_streams h a;
     (s1, p1) \<leftarrow> read_done ws status s p;
     Some (p1, h\<lparr>wh_streams := (wh_streams h)(a := s1)\<rparr>) }"
| "win_callback ws lc (StreamWrite a) status (p, h) = do {
     s \<leftarrow> wh_streams h a;
     (s1, p1) \<leftarrow> write_done ws lc status s p;
     Some (p1, h\<lparr>wh_streams := (wh_streams h)(a := s1)\<rparr>) }"
| "win_callback ws lc (ListenerAccept a) status (p, h) = do {
     l \<leftarrow> wh_listeners h a;
     (l1, p1) \<leftarrow> accept_done ws status l p;
     Some (p1, h\<lparr>wh_listeners := (wh_listeners h)(a := l1)\<rparr>) }"
| "win_callback ws lc (UdpRead a) status (p, h) = do {
     u \<leftarrow> wh_udps h a;
     (u1, p1) \<leftarrow> recv_done ws status u p;
     Some (p1, h\<lparr>wh_udps := (wh_udps h)(a := u1)\<rparr>) }"
| "win_callback ws lc (UdpWrite a) status (p, h) = do {
     u \<leftarrow> wh_udps h a;
     (u1, p1) \<leftarrow> send_done ws status u p;
     Some (p1, h\<lparr>wh_udps := (wh_udps h)(a := u1)\<rparr>) }"

end
