(* ===== verification/Mio_Windows_Queue.thy ===== *)
theory Mio_Windows_Queue
  imports Mio_Windows_Udp Mio_Evented
begin

text \<open>
  The library shared by the Windows sockets: what their readiness does to the queue and to the operating system, the handles that
  a socket holds in the queue, its binding and its buffers, and how it is registered.  \<open>io\<close> stands for what is observed of a
  socket in the state of the operating system.
\<close>

section \<open>Readiness\<close>

lemma ready_bits_ops:
  "bit (ready_bits (ready_bitor a b)) n \<longleftrightarrow> bit (ready_bits a) n \<or> bit (ready_bits b) n"
  "bit (ready_bits (ready_bitand a b)) n \<longleftrightarrow> bit (ready_bits a) n \<and> bit (ready_bits b) n"
  by (simp_all add: ready_bitor_def ready_bitand_def bit_or_iff bit_and_iff)

lemma ready_not_bits:
  "bit (ready_bits (ready_not a)) n \<longleftrightarrow> n < 4 \<and> \<not> bit (ready_bits a) n"
proof -
  have "n \<in> flags_of (ready_bits (ready_not a)) \<longleftrightarrow> n \<in> {0, 1, 2, 3} - flags_of (ready_bits a)"
    by (simp add: rd.flags_bnot flags_ready_all)
  then show ?thesis by (auto simp: flags_of_def)
qed

lemma ready_const_bits:
  "bit (ready_bits ready_readable) n \<longleftrightarrow> n = 0" "bit (ready_bits ready_writable) n \<longleftrightarrow> n = 1"
  "bit (ready_bits ready_hup) n \<longleftrightarrow> n = 3" "\<not> bit (ready_bits ready_none) n"
  using flags_of_numerals(1,2,4) by (auto simp: flags_of_def ready_readable_def ready_writable_def ready_hup_def ready_none_def)

lemmas ready_rules = ready_pred_bits ready_bits_ops ready_not_bits ready_const_bits

section \<open>Queue handles\<close>

text \<open>The state of the operating system behind a poll, and a poll after a call that has changed it.\<close>

definition os_of :: "'o win_poll \<Rightarrow> 'o" where
  "os_of p = snd (awakener (pl_queue p))"

definition with_os :: "'o \<Rightarrow> 'o win_poll \<Rightarrow> 'o win_poll" where
  "with_os w p = p\<lparr>pl_queue := (pl_queue p)\<lparr>awakener := (fst (awakener (pl_queue p)), w)\<rparr>\<rparr>"

lemma win_os_eq: "win_os f p = (fst (f (os_of p)), with_os (snd (f (os_of p))) p)"
  by (cases "awakener (pl_queue p)") (simp add: win_os_def os_of_def with_os_def split: prod.splits)

text \<open>The registration of a socket in the queue: \<open>c\<close> handles refer to its node, which carries the readiness \<open>r\<close>.\<close>

definition queued :: "registration_inner option \<Rightarrow> usize \<Rightarrow> ready \<Rightarrow> 'o win_poll \<Rightarrow> bool" where
  "queued ho c r p \<longleftrightarrow> queue_wf (pl_queue p) \<and>
     (case ho of
        None \<Rightarrow> r = ready_none
      | Some h \<Rightarrow> ri_queue h = queue_id (pl_queue p) \<and> c \<noteq> 0 \<and> (\<exists>n. ri_node h = Node n \<and> counts (pl_queue p) n = Some c) \<and>
          inner_readiness (pl_queue p) h = Some r \<and> \<not> event_is_drop r)"

lemma queued_handle: "queued (Some h) c r p \<Longrightarrow> handle_ok (pl_queue p) h"
  by (auto simp: queued_def handle_ok_def counts_def)

lemma queued_wf: "queued ho c r p \<Longrightarrow> queue_wf (pl_queue p)"
  by (simp add: queued_def)

lemma queue_wf_awakener: "queue_wf (q\<lparr>awakener := w\<rparr>) \<longleftrightarrow> queue_wf q"
proof
  assume "queue_wf (q\<lparr>awakener := w\<rparr>)"
  from keepsD(1) [OF keeps_awakener [OF this, of "{}" "awakener q"]] show "queue_wf q" by simp
next
  assume "queue_wf q"
  from keepsD(1) [OF keeps_awakener [OF this, of "{}" w]] show "queue_wf (q\<lparr>awakener := w\<rparr>)" .
qed

lemma queued_simps [simp]:
  "queued ho c r (with_os w p) \<longleftrightarrow> queued ho c r p"
  "queued ho c r (p\<lparr>pl_selector := s\<rparr>) \<longleftrightarrow> queued ho c r p"
  by (cases ho; simp add: queued_def with_os_def queue_wf_awakener counts_def inner_readiness_def ready_ref_as_ref_def
      split: node_ptr.splits)+

lemma os_of_simps [simp]:
  "os_of (p\<lparr>pl_selector := s\<rparr>) = os_of p" "os_of (with_os w p) = w" "pl_selector (with_os w p) = pl_selector p"
  "awake (pl_queue (with_os w p)) = awake (pl_queue p)"
  by (simp_all add: os_of_def with_os_def awake_def)

text \<open>Setting a readiness does nothing to the operating system, or wakes the poll once.\<close>

lemma ready_ref_modify_awakener: "ready_ref_modify f ptr q = Some q' \<Longrightarrow> awakener q' = awakener q"
  by (auto simp: ready_ref_modify_def split: node_ptr.splits)

lemma prepend_awakener: "prepend_readiness_node q ptr = Some (b, q') \<Longrightarrow> awakener q' = awakener q"
  by (auto simp: prepend_readiness_node_def Let_def Option.bind_eq_Some_conv dest!: ready_ref_modify_awakener)

lemma queue_for_processing_awakener: "queue_for_processing q h = Some (b, q') \<Longrightarrow> awakener q' = awakener q"
  by (auto simp: queue_for_processing_def Let_def Option.bind_eq_Some_conv split: if_splits
      dest!: ready_ref_modify_awakener prepend_awakener)

lemma set_readiness_awakener:
  assumes "inner_set_readiness wake q h r = Some (res, q')"
  shows "res = Inr () \<and> awakener q' = awakener q \<or> (res, awakener q') = wake (awakener q)"
  using assms
  by (auto simp: inner_set_readiness_def queue_wakeup_def case_prod_beta Let_def Option.bind_eq_Some_conv split: if_splits
      dest!: ready_ref_modify_awakener queue_for_processing_awakener)

section \<open>Changing the readiness\<close>

text \<open>A step that leaves the socket, the selector and the handles of the queue alone.\<close>

definition quiet :: "('o \<Rightarrow> 'x) \<Rightarrow> 'o win_poll \<Rightarrow> 'o win_poll \<Rightarrow> bool" where
  "quiet io p p' \<longleftrightarrow> io (os_of p') = io (os_of p) \<and> pl_selector p' = pl_selector p"

text \<open>Posting to the port of the awakener succeeds and does not touch what is observed.\<close>

definition post_laws :: "'o win_sys \<Rightarrow> ('o \<Rightarrow> 'x) \<Rightarrow> bool" where
  "post_laws ws io \<longleftrightarrow> (\<forall>port c w. fst (ws_post ws port c w) = Inr () \<and> io (snd (ws_post ws port c w)) = io w)"

lemma win_wakeup_laws:
  assumes "post_laws ws io"
  shows "fst (win_wakeup ws aw) = Inr ()" and "io (snd (snd (win_wakeup ws aw))) = io (snd aw)"
  using assms by (auto simp: win_wakeup_def post_laws_def split: option.splits prod.splits) (metis snd_conv fst_conv)+

lemma rb_set_readiness_ok:
  assumes laws: "post_laws ws io" and q: "queued (rb_readiness rb) c r p" and r': "\<not> event_is_drop r'"
  shows "\<exists>p'. rb_set_readiness ws rb r' p = Some p' \<and> queued (rb_readiness rb) c (if rb_registered rb then r' else ready_none) p' \<and>
    quiet io p p'"
proof (cases "rb_readiness rb")
  case None
  then show ?thesis using q by (simp add: rb_set_readiness_def rb_registered_def quiet_def queued_def)
next
  case (Some h)
  note h = queued_handle [OF q [unfolded Some]] and wf = queued_wf [OF q]
  obtain res q' where q': "inner_set_readiness (win_wakeup ws) (pl_queue p) h r' = Some (res, q')"
    and k: "keeps {ri_node h} (pl_queue p) q'" and r: "inner_readiness q' h = Some r'"
    using keeps_set_readiness [OF wf h r'] by blast
  have cs: "queue_id q' = queue_id (pl_queue p)" "counts q' = counts (pl_queue p)"
    using queue_wf_set_readiness [OF wf h r', of "win_wakeup ws"] q' by auto
  have "res = Inr ()" "io (snd (awakener q')) = io (os_of p)"
    using set_readiness_awakener [OF q'] win_wakeup_laws [OF laws, of "awakener (pl_queue p)"]
    by (auto simp: os_of_def) (metis fst_conv snd_conv)+
  then show ?thesis
    using q q' keepsD(1) [OF k] r r' cs Some
    by (simp add: rb_set_readiness_def rb_registered_def quiet_def queued_def os_of_def)
qed

lemma rb_get_readiness_queued: "queued (rb_readiness rb) c r p \<Longrightarrow> rb_get_readiness rb p = Some r"
  by (auto simp: rb_get_readiness_def queued_def split: option.splits)

text \<open>Adding to and clearing from the readiness of a registered socket.\<close>

lemma rb_change_readiness:
  assumes laws: "post_laws ws io" and q: "queued (rb_readiness rb) c r p" and reg: "rb_registered rb"
  shows "\<not> event_is_drop r' \<Longrightarrow> \<exists>p'. Option.bind (rb_get_readiness rb p) (\<lambda>cur. rb_set_readiness ws rb (ready_bitor r' cur) p) = Some p' \<and>
      queued (rb_readiness rb) c (ready_bitor r' r) p' \<and> quiet io p p'"
    and "\<exists>p'. Option.bind (rb_get_readiness rb p) (\<lambda>cur. rb_set_readiness ws rb (ready_bitand cur (ready_not r')) p) = Some p' \<and>
      queued (rb_readiness rb) c (ready_bitand r (ready_not r')) p' \<and> quiet io p p'"
proof -
  have r: "\<not> event_is_drop r" using q reg by (auto simp: queued_def rb_registered_def)
  note set = rb_set_readiness_ok [OF laws q] and get = rb_get_readiness_queued [OF q]
  have "\<not> event_is_drop (ready_bitand r (ready_not r'))" using r by (simp add: ready_rules)
  from set [OF this] show "\<exists>p'. Option.bind (rb_get_readiness rb p) (\<lambda>cur. rb_set_readiness ws rb (ready_bitand cur (ready_not r')) p) = Some p' \<and>
      queued (rb_readiness rb) c (ready_bitand r (ready_not r')) p' \<and> quiet io p p'"
    by (simp add: get reg)
  assume "\<not> event_is_drop r'"
  then have "\<not> event_is_drop (ready_bitor r' r)" using r by (simp add: ready_rules)
  from set [OF this] show "\<exists>p'. Option.bind (rb_get_readiness rb p) (\<lambda>cur. rb_set_readiness ws rb (ready_bitor r' cur) p) = Some p' \<and>
      queued (rb_readiness rb) c (ready_bitor r' r) p' \<and> quiet io p p'"
    by (simp add: get reg)
qed

section \<open>Buffers and bindings\<close>

definition pool_ok :: "buffer_pool \<Rightarrow> bool" where
  "pool_ok bp \<longleftrightarrow> length (bp_pool bp) \<le> bp_capacity bp \<and> list_all (\<lambda>b. bv_data b = []) (bp_pool bp)"

definition bind_inv :: "('bc, nat) lazycell_ops \<Rightarrow> 'bc ready_binding \<Rightarrow> win_selector \<Rightarrow> bool" where
  "bind_inv lc rb sel \<longleftrightarrow>
     (case lazy_borrow lc (rb_binding rb) of None \<Rightarrow> \<not> rb_registered rb | Some x \<Rightarrow> x = sel_addr sel) \<and> pool_ok (sel_buffers sel)"

lemma bind_inv_put_buffer:
  assumes "bind_inv lc rb (pl_selector p)"
  shows "bind_inv lc rb (pl_selector (rb_put_buffer lc rb buf p))" and "queued ho c r (rb_put_buffer lc rb buf p) \<longleftrightarrow> queued ho c r p"
    and "os_of (rb_put_buffer lc rb buf p) = os_of p"
  using assms by (auto simp: bind_inv_def rb_put_buffer_def buffer_pool_put_def pool_ok_def split: option.splits)

lemma bind_inv_get_buffer:
  assumes "bind_inv lc rb (pl_selector p)" and "rb_get_buffer lc rb n p = (buf, p')"
  shows "bind_inv lc rb (pl_selector p')" and "bv_data buf = []" and "queued ho c r p' \<longleftrightarrow> queued ho c r p" and "os_of p' = os_of p"
proof -
  show "bind_inv lc rb (pl_selector p')" "bv_data buf = []" "queued ho c r p' \<longleftrightarrow> queued ho c r p" "os_of p' = os_of p"
    using assms
    by (auto simp: bind_inv_def rb_get_buffer_def buffer_pool_get_def pool_ok_def vec_with_capacity_def list_all_iff
        split: option.splits if_splits) (metis in_set_butlastD)
qed

section \<open>Dropping handles\<close>

lemma inner_drop_io:
  assumes laws: "post_laws ws io" and drop: "inner_drop (win_wakeup ws) q h = Some q'"
  shows "io (snd (awakener q')) = io (snd (awakener q))"
  using drop win_wakeup_laws(2) [OF laws, of "awakener q"]
  by (auto simp: inner_drop_def Let_def Option.bind_eq_Some_conv split: if_splits
      dest!: ready_ref_modify_awakener set_readiness_awakener) (metis snd_conv)?

lemma registration_drop_io:
  assumes laws: "post_laws ws io" and drop: "registration_drop (win_wakeup ws) q h = Some q'"
  shows "io (snd (awakener q')) = io (snd (awakener q))"
  using drop inner_drop_io [OF laws]
  by (auto simp: registration_drop_def Option.bind_eq_Some_conv dest!: ready_ref_modify_awakener) (metis)?

text \<open>What is left of the registration in the queue when the object is gone: \<open>c\<close> handles.\<close>

definition left_handles :: "registration_inner option \<Rightarrow> usize \<Rightarrow> 'o win_poll \<Rightarrow> bool" where
  "left_handles ho c p \<longleftrightarrow> queue_wf (pl_queue p) \<and>
     (case ho of None \<Rightarrow> True | Some h \<Rightarrow> ri_queue h = queue_id (pl_queue p) \<and> (\<exists>n. ri_node h = Node n \<and> counts (pl_queue p) n = Some c))"

lemma left_handles_with_os [simp]: "left_handles ho c (with_os w p) \<longleftrightarrow> left_handles ho c p"
  by (cases ho) (simp_all add: left_handles_def with_os_def queue_wf_awakener counts_def)

lemma set_readiness_drop_left:
  assumes laws: "post_laws ws io" and q: "queued ho c r p"
  shows "\<exists>q. (case ho of None \<Rightarrow> Some (pl_queue p) | Some h \<Rightarrow> set_readiness_drop (win_wakeup ws) (pl_queue p) h) = Some q \<and>
    left_handles ho (c - 1) (p\<lparr>pl_queue := q\<rparr>) \<and> io (os_of (p\<lparr>pl_queue := q\<rparr>)) = io (os_of p)"
proof (cases ho)
  case None
  then show ?thesis using q by (simp add: left_handles_def queued_def)
next
  case (Some h)
  obtain q' n rc where q': "inner_drop (win_wakeup ws) (pl_queue p) h = Some q'" "queue_wf q'" "queue_id q' = queue_id (pl_queue p)"
    "ri_node h = Node n" "counts (pl_queue p) n = Some rc" "counts q' = (counts (pl_queue p))(n \<mapsto> rc - 1)"
    using queue_wf_drop [OF queued_wf [OF q] queued_handle [OF q [unfolded Some]]] by blast
  then show ?thesis
    using q inner_drop_io [OF laws q'(1)] by (auto simp: Some left_handles_def queued_def set_readiness_drop_def os_of_def)
qed

section \<open>Registration\<close>

lemma registration_new_io:
  assumes laws: "post_laws ws io" and new: "registration_new (win_wakeup ws) q t i opts = Some (hs, q')"
  shows "io (snd (awakener q')) = io (snd (awakener q))"
proof -
  have "awakener q1 = awakener q" if "inner_new q t i opts = Some (h, q1)" for h q1
    using that by (auto simp: inner_new_def new_readiness_node_def Let_def Option.bind_eq_Some_conv split: option.splits
        dest!: ready_ref_modify_awakener)
  moreover have "awakener q2 = awakener q1" if "inner_clone q1 h = Some (h', q2)" for h h' and q1 q2 :: "(win_awakener \<times> 'a) readiness_queue"
    using that by (auto simp: inner_clone_def Let_def Option.bind_eq_Some_conv split: if_splits dest!: ready_ref_modify_awakener)
  ultimately show ?thesis
    using new inner_drop_io [OF laws] by (fastforce simp: registration_new_def Option.bind_eq_Some_conv)
qed

lemma inner_update_awakener: "inner_update q h t i opts = Some (res, q') \<Longrightarrow> awakener q' = awakener q"
  by (auto simp: inner_update_def Option.bind_eq_Some_conv split: if_splits
      dest!: ready_ref_modify_awakener queue_for_processing_awakener)

lemma queued_new:
  assumes laws: "post_laws ws io" and wf: "queue_wf (pl_queue p)"
  shows "\<exists>h q. registration_new (win_wakeup ws) (pl_queue p) t i opts = Some ((h, h), q) \<and>
    queued (Some h) 2 ready_none (p\<lparr>pl_queue := q\<rparr>) \<and> io (os_of (p\<lparr>pl_queue := q\<rparr>)) = io (os_of p)"
proof -
  obtain n q where new: "registration_new (win_wakeup ws) (pl_queue p) t i opts =
      Some ((\<lparr>ri_queue = queue_id (pl_queue p), ri_node = Node n\<rparr>, \<lparr>ri_queue = queue_id (pl_queue p), ri_node = Node n\<rparr>), q)"
    "queue_wf q" "queue_id q = queue_id (pl_queue p)" "counts q = (counts (pl_queue p))(n \<mapsto> 2)"
    using queue_wf_registration_new [OF wf] by blast
  let ?h = "\<lparr>ri_queue = queue_id (pl_queue p), ri_node = Node n\<rparr>"
  have "node_view q ?h = Some (readiness_node_new t i opts 2)" using keeps_new [OF wf, of "win_wakeup ws" t i opts] new(1) by auto
  then have "inner_readiness q ?h = Some ready_none"
    by (simp add: inner_readiness_view readiness_node_new_def event_from_usize_def ready_none_def)
  then show ?thesis
    using new registration_new_io [OF laws new(1)] by (auto simp: queued_def os_of_def)
qed

lemma queued_update:
  assumes q: "queued (Some h) c r p" and aw: "awake (pl_queue p)"
  shows "\<exists>q. inner_update (pl_queue p) h t i opts = Some (Inr (), q) \<and> queued (Some h) c r (p\<lparr>pl_queue := q\<rparr>) \<and>
    os_of (p\<lparr>pl_queue := q\<rparr>) = os_of p"
proof -
  note wf = queued_wf [OF q] and h = queued_handle [OF q]
  obtain q' where q': "inner_update (pl_queue p) h t i opts = Some (Inr (), q')" "inner_readiness q' h = inner_readiness (pl_queue p) h"
    using keeps_update [OF wf h aw] by blast
  have "queue_wf q' \<and> queue_id q' = queue_id (pl_queue p) \<and> counts q' = counts (pl_queue p)"
    using queue_wf_update [OF wf h aw [unfolded awake_def], of t i opts] q'(1) by auto
  then show ?thesis using q q' inner_update_awakener [OF q'(1)] by (simp add: queued_def os_of_def)
qed

text \<open>The handle's \<open>Registration\<close> goes while the object stays: one handle is left, and the readiness is as it was.\<close>

lemma queued_registration_drop:
  assumes laws: "post_laws ws io" and q: "queued (Some h) 2 r p"
  shows "\<exists>q. registration_drop (win_wakeup ws) (pl_queue p) h = Some q \<and> queued (Some h) 1 r (p\<lparr>pl_queue := q\<rparr>) \<and>
    io (os_of (p\<lparr>pl_queue := q\<rparr>)) = io (os_of p)"
proof -
  obtain q' n rc where q': "registration_drop (win_wakeup ws) (pl_queue p) h = Some q'" "queue_wf q'" "queue_id q' = queue_id (pl_queue p)"
    "ri_node h = Node n" "counts (pl_queue p) n = Some rc" "counts q' = (counts (pl_queue p))(n \<mapsto> rc - 1)"
    using queue_wf_registration_drop [OF queued_wf [OF q] queued_handle [OF q]] by blast
  have n: "counts (pl_queue p) n = Some 2" "inner_readiness (pl_queue p) h = Some r" using q q'(4) by (auto simp: queued_def)
  then obtain nd where nd: "node_heap (pl_queue p) n = Some nd" "ref_count nd = 2" by (auto simp: counts_def)
  have "inner_readiness q' h = Some r"
    using q'(1,4) nd n(2)
    by (auto simp: registration_drop_def inner_drop_def inner_readiness_def ready_ref_modify_def ready_ref_as_ref_def Let_def)
  then show ?thesis
    using q q' n registration_drop_io [OF laws q'(1)] by (auto simp: queued_def os_of_def)
qed

lemma registration_drop_left:
  assumes laws: "post_laws ws io" and q: "left_handles ho 1 p"
  shows "\<exists>q. (case ho of None \<Rightarrow> Some (pl_queue p) | Some h \<Rightarrow> registration_drop (win_wakeup ws) (pl_queue p) h) = Some q \<and>
    left_handles ho 0 (p\<lparr>pl_queue := q\<rparr>) \<and> io (os_of (p\<lparr>pl_queue := q\<rparr>)) = io (os_of p)"
proof (cases ho)
  case None
  then show ?thesis using q by (simp add: left_handles_def)
next
  case (Some h)
  have h: "handle_ok (pl_queue p) h" and wf: "queue_wf (pl_queue p)" using q by (auto simp: Some left_handles_def handle_ok_def counts_def)
  obtain q' n rc where q': "registration_drop (win_wakeup ws) (pl_queue p) h = Some q'" "queue_wf q'" "queue_id q' = queue_id (pl_queue p)"
    "ri_node h = Node n" "counts (pl_queue p) n = Some rc" "counts q' = (counts (pl_queue p))(n \<mapsto> rc - 1)"
    using queue_wf_registration_drop [OF wf h] by blast
  then show ?thesis using q registration_drop_io [OF laws q'(1)] by (auto simp: Some left_handles_def os_of_def)
qed

lemma lazy_fill_borrow:
  assumes "lazycell_laws lc" and "lazy_borrow lc b = None \<or> lazy_borrow lc b = Some v"
  shows "lazy_borrow lc (case lazy_fill lc b v of Some b' \<Rightarrow> b' | None \<Rightarrow> b) = Some v"
proof -
  have "case lazy_borrow lc b of None \<Rightarrow> (\<exists>c'. lazy_fill lc b v = Some c' \<and> lazy_borrow lc c' = Some v) | Some _ \<Rightarrow> lazy_fill lc b v = None"
    using assms(1) by (simp add: lazycell_laws_def)
  then show ?thesis using assms(2) by auto
qed

lemma binding_register_bind:
  assumes lc: "lazycell_laws lc" and b: "bind_inv lc rb (pl_selector p)"
    and add: "ws_add_socket ws (sel_port (pl_selector p)) (usize_from_token tok) fd (os_of p) = (res, w)"
  shows "\<exists>b1. binding_register_socket ws lc (rb_binding rb) fd tok p = (res, b1, with_os w p) \<and>
    lazy_borrow lc b1 = Some (sel_addr (pl_selector p))"
proof -
  have "lazy_borrow lc (rb_binding rb) = None \<or> lazy_borrow lc (rb_binding rb) = Some (sel_addr (pl_selector p))"
    using b by (auto simp: bind_inv_def split: option.splits)
  from lazy_fill_borrow [OF lc this] show ?thesis
    by (simp add: binding_register_socket_def check_same_selector_def win_os_eq Let_def add)
qed

text \<open>Registering fails without changing anything, or makes the registration.\<close>

lemma rb_register_socket_cases:
  assumes laws: "post_laws ws io" and lc: "lazycell_laws lc" and b: "bind_inv lc rb (pl_selector p)" and q: "queued (rb_readiness rb) 2 r p"
    and add: "\<And>res w. ws_add_socket ws (sel_port (pl_selector p)) (usize_from_token tok) fd (os_of p) = (res, w) \<Longrightarrow>
      (case res of Inl _ \<Rightarrow> io w = io (os_of p) | Inr _ \<Rightarrow> rb_readiness rb = None \<and> io w = y)"
  obtains e b1 w where "rb_register_socket ws lc rb (rb_readiness rb) fd p tok evts opts =
      Some (Inl e, rb\<lparr>rb_binding := b1\<rparr>, rb_readiness rb, with_os w p)"
    "lazy_borrow lc b1 = Some (sel_addr (pl_selector p))" "io w = io (os_of p)"
  | b1 h p' where "rb_register_socket ws lc rb (rb_readiness rb) fd p tok evts opts =
      Some (Inr (), \<lparr>rb_binding = b1, rb_readiness = Some h\<rparr>, Some h, p')" "rb_readiness rb = None"
    "lazy_borrow lc b1 = Some (sel_addr (pl_selector p))" "io (os_of p') = y"
    "pl_selector p' = pl_selector p" "queued (Some h) 2 ready_none p'"
proof -
  obtain res w where add': "ws_add_socket ws (sel_port (pl_selector p)) (usize_from_token tok) fd (os_of p) = (res, w)" by fastforce
  note law = add [OF add']
  obtain b1 where b1: "binding_register_socket ws lc (rb_binding rb) fd tok p = (res, b1, with_os w p)"
    "lazy_borrow lc b1 = Some (sel_addr (pl_selector p))"
    using binding_register_bind [OF lc b add'] by blast
  show thesis
  proof (cases res)
    case (Inl e)
    then show thesis using that(1) [of e b1 w] b1 law by (simp add: rb_register_socket_def)
  next
    case (Inr u)
    then have none: "rb_readiness rb = None" using law by simp
    have "queue_wf (pl_queue (with_os w p))" using queued_wf q queued_simps(1) by metis
    from queued_new [OF laws this] obtain h q where
      h: "registration_new (win_wakeup ws) (pl_queue (with_os w p)) tok (with_hup evts) opts = Some ((h, h), q)"
      "queued (Some h) 2 ready_none ((with_os w p)\<lparr>pl_queue := q\<rparr>)" "io (os_of ((with_os w p)\<lparr>pl_queue := q\<rparr>)) = io w"
      by (metis os_of_simps(2))
    show thesis
      using that(2) [of b1 h "(with_os w p)\<lparr>pl_queue := q\<rparr>"] h b1 Inr law none
      by (simp add: rb_register_socket_def)
  qed
qed

text \<open>Without a registration \<open>reregister\<close> and \<open>deregister\<close> panic when an earlier \<open>register\<close> has filled the binding.\<close>

definition registration_made :: "('bc, nat) lazycell_ops \<Rightarrow> 'bc ready_binding \<Rightarrow> bool" where
  "registration_made lc rb \<longleftrightarrow> lazy_borrow lc (rb_binding rb) = None \<or> rb_registered rb"

lemma rb_reregister_ok:
  assumes b: "bind_inv lc rb (pl_selector p)" and q: "queued (rb_readiness rb) c r p" and made: "registration_made lc rb" and aw: "awake (pl_queue p)"
  shows "\<exists>res p'. rb_reregister_socket lc rb (rb_readiness rb) p tok evts opts = Some (res, p') \<and> queued (rb_readiness rb) c r p' \<and>
      os_of p' = os_of p \<and> pl_selector p' = pl_selector p \<and> (res = Inr () \<longrightarrow> rb_registered rb)"
    and "\<exists>res p'. rb_deregister lc rb (rb_readiness rb) p = Some (res, p') \<and> queued (rb_readiness rb) c r p' \<and>
      os_of p' = os_of p \<and> pl_selector p' = pl_selector p"
proof -
  note defs = rb_reregister_socket_def rb_deregister_def binding_reregister_socket_def binding_deregister_socket_def
    registration_update_def registration_deregister_def
  have none: "check_same_selector lc (rb_binding rb) p = Inl (CustomError Other ''socket already registered'')" if "rb_readiness rb = None"
    using made that by (simp add: registration_made_def rb_registered_def check_same_selector_def)
  have same: "check_same_selector lc (rb_binding rb) p = Inr ()" if "rb_readiness rb = Some h" for h
    using b that by (auto simp: bind_inv_def rb_registered_def check_same_selector_def split: option.splits)
  have upd: "\<exists>q. inner_update (pl_queue p) h t i pr = Some (Inr (), q) \<and> queued (Some h) c r (p\<lparr>pl_queue := q\<rparr>) \<and> os_of (p\<lparr>pl_queue := q\<rparr>) = os_of p"
    if "rb_readiness rb = Some h" for h t i pr
    using queued_update [OF q [unfolded that] aw] .
  show "\<exists>res p'. rb_reregister_socket lc rb (rb_readiness rb) p tok evts opts = Some (res, p') \<and> queued (rb_readiness rb) c r p' \<and>
      os_of p' = os_of p \<and> pl_selector p' = pl_selector p \<and> (res = Inr () \<longrightarrow> rb_registered rb)"
    using q none same upd [of _ tok "with_hup evts" opts] by (cases "rb_readiness rb") (fastforce simp: defs rb_registered_def)+
  show "\<exists>res p'. rb_deregister lc rb (rb_readiness rb) p = Some (res, p') \<and> queued (rb_readiness rb) c r p' \<and>
      os_of p' = os_of p \<and> pl_selector p' = pl_selector p"
    using q none same upd [of _ "Token 0" ready_none pollopt_empty] by (cases "rb_readiness rb") (fastforce simp: defs)+
qed

section \<open>The rest of the program\<close>

text \<open>Other sockets, other registrations and the poll itself leave the handles of a socket and what is observed of it alone.\<close>

definition others_step :: "('o \<Rightarrow> 'x) \<Rightarrow> 'bc ready_binding option \<Rightarrow> 'o win_poll \<Rightarrow> 'o win_poll \<Rightarrow> bool" where
  "others_step io rb p p' \<longleftrightarrow> io (os_of p') = io (os_of p) \<and> sel_addr (pl_selector p') = sel_addr (pl_selector p) \<and>
     pool_ok (sel_buffers (pl_selector p')) \<and>
     (case rb of None \<Rightarrow> True | Some b \<Rightarrow> \<forall>c r. queued (rb_readiness b) c r p \<longrightarrow> queued (rb_readiness b) c r p')"

lemma others_step_io: "others_step io rb p p' \<Longrightarrow> io (os_of p') = io (os_of p)"
  by (simp add: others_step_def)

lemma others_stepD:
  assumes "others_step io (Some rb) p p'"
  shows "io (os_of p') = io (os_of p)" and "queued (rb_readiness rb) c r p \<Longrightarrow> queued (rb_readiness rb) c r p'"
    and "bind_inv lc rb (pl_selector p) \<Longrightarrow> bind_inv lc rb (pl_selector p')"
  using assms by (auto simp: others_step_def bind_inv_def split: option.splits)

section \<open>A system to build on\<close>

text \<open>A system whose sockets do nothing: calls fail and change nothing.  A poll on it, and a packet.\<close>

definition offline_sys :: "'o win_sys" where
  "offline_sys =
     \<lparr>ws_last_error = (\<lambda>w. 87),
      ws_port_new = (\<lambda>w. (Inr 1, w)),
      ws_get_many = (\<lambda>port n t w. (Inl (OsError WAIT_TIMEOUT), w)),
      ws_post = (\<lambda>port c w. (Inr (), w)),
      ws_add_socket = (\<lambda>port k s w. (Inl (OsError 87), w)),
      ws_add_handle = (\<lambda>port k s w. (Inl (OsError 87), w)),
      ws_notification_modes = (\<lambda>s flags w. (0, w)),
      ws_cancel_io = (\<lambda>s ov w. (1, w)),
      ws_close = (\<lambda>s w. w),
      ws_set_nonblocking = (\<lambda>s b w. (Inr (), w)),
      ws_try_clone = (\<lambda>s w. (Inl (OsError 87), w)),
      ws_read = (\<lambda>s n w. (Inl (OsError 87), w)),
      ws_read_overlapped = (\<lambda>s ov w. (Inl (OsError 87), w)),
      ws_write_overlapped = (\<lambda>s b ov w. (Inl (OsError 87), w)),
      ws_connect_overlapped = (\<lambda>s d ov w. (Inl (OsError 87), w)),
      ws_connect_complete = (\<lambda>s w. (Inl (OsError 87), w)),
      ws_tcp_v4 = (\<lambda>w. (Inl (OsError 87), w)),
      ws_tcp_v6 = (\<lambda>w. (Inl (OsError 87), w)),
      ws_accept_overlapped = (\<lambda>s t ov w. (Inl (OsError 87), w)),
      ws_accept_complete = (\<lambda>s t w. (Inl (OsError 87), w)),
      ws_accept_remote = (\<lambda>s w. (Inl (OsError 87), w)),
      ws_recv_from_overlapped = (\<lambda>s n ov w. (Inl (OsError 87), w)),
      ws_send_to_overlapped = (\<lambda>s b d ov w. (Inl (OsError 87), w)),
      ws_received = (\<lambda>ov w. []),
      ws_received_from = (\<lambda>ov w. None)\<rparr>"

definition offline_poll :: "'o \<Rightarrow> 'o win_poll" where
  "offline_poll w = \<lparr>pl_selector = \<lparr>sel_addr = 1, sel_id = 1, sel_port = 1, sel_buffers = buffer_pool_new 256\<rparr>,
     pl_queue = readiness_queue_new 0 (None, w)\<rparr>"

definition packet :: "nat \<Rightarrow> completion" where
  "packet n = \<lparr>cs_bytes = word_of_nat n, cs_token = 0, cs_overlapped = None\<rparr>"

lemma offline_poll:
  "os_of (offline_poll w) = w" "queue_wf (pl_queue (offline_poll w))" "pool_ok (sel_buffers (pl_selector (offline_poll w)))"
  using queue_wf_new
  by (simp_all add: offline_poll_def os_of_def pool_ok_def buffer_pool_new_def readiness_queue_new_def)

end
