(* ===== verification/Mio_Windows_Spec.thy ===== *)
theory Mio_Windows_Spec
  imports Mio_Windows_Queue
begin

text \<open>
  The library for the Windows streams: the documented behaviour of completion ports, the invariant of a stream with its
  reference count, its readiness and the operations in flight, and the proof that every operation of the stream and every
  completion callback keeps it.
\<close>

section \<open>Completion ports\<close>

text \<open>What can be observed of one stream's socket: the packets that the port owes for its read and its write, the bytes of the
  write in flight, the bytes handed to the network, whether an operation that completes at once skips its packet, and
  whether the socket belongs to a port.  The packets of a batch count as owed until their callbacks run.\<close>

record socket_io =
  io_reads :: nat
  io_writes :: nat
  io_data :: "u8 list"
  io_sent :: "u8 list"
  io_skip :: bool
  io_bound :: bool

text \<open>Documented behaviour.  Cancelling an operation does not take back its packet; a handle joins one port only; a
  write that completes at once has sent something.\<close>

definition read_starts :: "socket_io \<Rightarrow> nat option io_result \<Rightarrow> socket_io \<Rightarrow> bool" where
  "read_starts x res x' \<longleftrightarrow>
     (case res of
        Inl _ \<Rightarrow> x' = x
      | Inr t \<Rightarrow> x' = (if t \<noteq> None \<and> io_skip x then x else x\<lparr>io_reads := io_reads x + 1\<rparr>))"

definition write_starts :: "u8 list \<Rightarrow> socket_io \<Rightarrow> nat option io_result \<Rightarrow> socket_io \<Rightarrow> bool" where
  "write_starts bytes x res x' \<longleftrightarrow>
     (case res of
        Inl _ \<Rightarrow> x' = x
      | Inr t \<Rightarrow>
          if t \<noteq> None \<and> io_skip x
          then the t \<le> length bytes \<and> (the t = 0 \<longrightarrow> bytes = []) \<and> x' = x\<lparr>io_sent := io_sent x @ take (the t) bytes\<rparr>
          else x' = x\<lparr>io_writes := io_writes x + 1, io_data := bytes\<rparr>)"

text \<open>A connect never completes at once.\<close>

definition connect_pends :: "socket_io \<Rightarrow> nat option io_result \<Rightarrow> socket_io \<Rightarrow> bool" where
  "connect_pends x res x' \<longleftrightarrow> (case res of Inl _ \<Rightarrow> x' = x | Inr t \<Rightarrow> t = None \<and> x' = x\<lparr>io_reads := io_reads x + 1\<rparr>)"

definition iocp_laws :: "'o win_sys \<Rightarrow> nat \<Rightarrow> fd \<Rightarrow> ('o \<Rightarrow> socket_io) \<Rightarrow> bool" where
  "iocp_laws ws a s io \<longleftrightarrow>
     post_laws ws io \<and>
     (\<forall>n w. io (snd (ws_read ws s n w)) = io w) \<and>
     (\<forall>w. io (snd (ws_connect_complete ws s w)) = io w) \<and>
     (\<forall>w. io (snd (ws_cancel_io ws s (StreamRead a) w)) = io w) \<and>
     (\<forall>w. io (ws_close ws s w) = io w) \<and>
     (\<forall>port k w. case ws_add_socket ws port k s w of
        (Inl _, w') \<Rightarrow> io w' = io w
      | (Inr _, w') \<Rightarrow> \<not> io_bound (io w) \<and> io w' = (io w)\<lparr>io_bound := True\<rparr>) \<and>
     (\<forall>w. case ws_notification_modes ws s (FILE_SKIP_COMPLETION_PORT_ON_SUCCESS OR FILE_SKIP_SET_EVENT_ON_HANDLE) w of
        (r, w') \<Rightarrow> io w' = (if r = 1 then (io w)\<lparr>io_skip := True\<rparr> else io w)) \<and>
     (\<forall>w. read_starts (io w) (fst (ws_read_overlapped ws s (StreamRead a) w)) (io (snd (ws_read_overlapped ws s (StreamRead a) w)))) \<and>
     (\<forall>d w. connect_pends (io w) (fst (ws_connect_overlapped ws s d (StreamRead a) w))
        (io (snd (ws_connect_overlapped ws s d (StreamRead a) w)))) \<and>
     (\<forall>b w. write_starts b (io w) (fst (ws_write_overlapped ws s b (StreamWrite a) w))
        (io (snd (ws_write_overlapped ws s b (StreamWrite a) w))))"

text \<open>A packet is taken from the port.  Reads ask for no bytes.\<close>

definition read_completes :: "completion \<Rightarrow> socket_io \<Rightarrow> socket_io \<Rightarrow> bool" where
  "read_completes status x x' \<longleftrightarrow> io_reads x \<noteq> 0 \<and> cs_bytes status = 0 \<and> x' = x\<lparr>io_reads := io_reads x - 1\<rparr>"

definition write_completes :: "completion \<Rightarrow> socket_io \<Rightarrow> socket_io \<Rightarrow> bool" where
  "write_completes status x x' \<longleftrightarrow>
     io_writes x \<noteq> 0 \<and> unat (cs_bytes status) \<le> length (io_data x) \<and>
     x' = x\<lparr>io_writes := io_writes x - 1, io_sent := io_sent x @ take (unat (cs_bytes status)) (io_data x)\<rparr>"

lemma iocp_post: "iocp_laws ws a fd io \<Longrightarrow> post_laws ws io"
  by (simp add: iocp_laws_def)

lemma stream_readiness_ok:
  assumes laws: "iocp_laws ws a fd io" and q: "queued (rb_readiness (wt_iocp s)) c r p" and reg: "rb_registered (wt_iocp s)"
  shows "\<not> event_is_drop r' \<Longrightarrow> \<exists>p'. stream_add_readiness ws s r' p = Some p' \<and>
      queued (rb_readiness (wt_iocp s)) c (ready_bitor r' r) p' \<and> quiet io p p'"
    and "\<exists>p'. stream_clear_readiness ws s r' p = Some p' \<and>
      queued (rb_readiness (wt_iocp s)) c (ready_bitand r (ready_not r')) p' \<and> quiet io p p'"
  using rb_change_readiness [OF iocp_post [OF laws] q reg] by (simp_all add: stream_add_readiness_def stream_clear_readiness_def)

section \<open>The invariant\<close>

text \<open>The bytes of the write that is not over: what has been sent, with what is still to be sent, is what was accepted.  After an
  error the rest is lost.\<close>

definition write_inv :: "(byte_vec \<times> nat, byte_vec \<times> nat) win_state \<Rightarrow> ready \<Rightarrow> socket_io \<Rightarrow> u8 list \<Rightarrow> bool" where
  "write_inv st r x acc \<longleftrightarrow>
     (case st of
        StEmpty \<Rightarrow> io_writes x = 0 \<and> io_sent x = acc
      | StPending (buf, pos) \<Rightarrow>
          io_writes x = 1 \<and> pos \<le> length (bv_data buf) \<and> io_data x = drop pos (bv_data buf) \<and> io_sent x @ io_data x = acc
      | StReady _ \<Rightarrow> False
      | StError _ \<Rightarrow> io_writes x = 0 \<and> ready_is_writable r \<and> (\<exists>lost. io_sent x @ lost = acc))"

definition read_pending :: "(unit, unit) win_state \<Rightarrow> nat" where
  "read_pending st = (case st of StPending _ \<Rightarrow> 1 | _ \<Rightarrow> 0)"

definition read_over :: "(unit, unit) win_state \<Rightarrow> bool" where
  "read_over st \<longleftrightarrow> (case st of StReady _ \<Rightarrow> True | StError _ \<Rightarrow> True | _ \<Rightarrow> False)"

text \<open>At most the read and, once it was started, the connect are in flight.\<close>

definition read_inv :: "'bc win_stream \<Rightarrow> ready \<Rightarrow> socket_io \<Rightarrow> bool" where
  "read_inv s r x \<longleftrightarrow>
     read_pending (wt_read s) \<le> io_reads x \<and>
     io_reads x \<le> read_pending (wt_read s) + (if wt_deferred s = None then 1 else 0) \<and>
     (read_over (wt_read s) \<longrightarrow> ready_is_readable r)"

text \<open>\<open>k\<close> references are held by the handle and by a running callback; every other one is lent to an operation in flight.\<close>

definition io_inv :: "nat \<Rightarrow> 'bc win_stream \<Rightarrow> ready \<Rightarrow> socket_io \<Rightarrow> u8 list \<Rightarrow> bool" where
  "io_inv k s r x acc \<longleftrightarrow>
     unat (wt_cnt s) = k + io_reads x + io_writes x \<and> k \<le> 2 \<and> wt_instant s = io_skip x \<and>
     (if rb_registered (wt_iocp s) then io_bound x else wt_read s = StEmpty \<and> wt_write s = StEmpty \<and> io_reads x = 0) \<and>
     read_inv s r x \<and> write_inv (wt_write s) r x acc"

definition stream_inv ::
  "('bc, nat) lazycell_ops \<Rightarrow> nat \<Rightarrow> fd \<Rightarrow> ('o \<Rightarrow> socket_io) \<Rightarrow> nat \<Rightarrow> bool \<Rightarrow> 'bc win_stream \<Rightarrow> u8 list \<Rightarrow> 'o win_poll \<Rightarrow> bool" where
  "stream_inv lc a fd io k alive s acc p \<longleftrightarrow>
     wt_addr s = a \<and> wt_socket s = fd \<and> bind_inv lc (wt_iocp s) (pl_selector p) \<and>
     wt_registration s = (if alive then rb_readiness (wt_iocp s) else None) \<and>
     (\<exists>r. queued (rb_readiness (wt_iocp s)) (if alive then 2 else 1) r p \<and> io_inv k s r (io (os_of p)) acc)"

lemmas io_inv_defs = io_inv_def read_inv_def write_inv_def read_pending_def read_over_def

lemma io_inv_cnt:
  assumes "io_inv k s r x acc"
  shows "unat (wt_cnt s) \<le> 5" and "unat (arc_clone (wt_cnt s)) = unat (wt_cnt s) + 1"
proof -
  show le: "unat (wt_cnt s) \<le> 5"
    using assms by (auto simp: io_inv_defs split: win_state.splits if_splits)
  then have "unat (wt_cnt s) + unat (1 :: usize) < 2 ^ 64" by simp
  then show "unat (arc_clone (wt_cnt s)) = unat (wt_cnt s) + 1" by (simp add: arc_clone_def unat_word_ariths)
qed

lemma io_inv_mono:
  assumes "io_inv k s r x acc" and "ready_is_readable r \<Longrightarrow> ready_is_readable r'" and "ready_is_writable r \<Longrightarrow> ready_is_writable r'"
  shows "io_inv k s r' x acc"
  using assms by (auto simp: io_inv_defs split: win_state.splits if_splits)

lemma io_inv_empty:
  assumes "io_inv k s r x acc" and "\<not> read_over (wt_read s)" and "ready_is_writable r \<Longrightarrow> ready_is_writable r'"
  shows "io_inv k s r' x acc"
  using assms by (auto simp: io_inv_defs split: win_state.splits if_splits)

lemma io_inv_reading:
  assumes "io_inv k s r x acc" and "wt_read s = StEmpty" and "rb_registered (wt_iocp s)"
  shows "io_inv k (s\<lparr>wt_read := StPending (), wt_cnt := arc_clone (wt_cnt s)\<rparr>) r (x\<lparr>io_reads := io_reads x + 1\<rparr>) acc"
    and "ready_is_readable r \<Longrightarrow> read_over st \<Longrightarrow> io_inv k (s\<lparr>wt_read := st\<rparr>) r x acc"
  using assms io_inv_cnt(2) [OF assms(1)] by (auto simp: io_inv_defs split: win_state.splits if_splits)

lemma io_inv_reread:
  "io_inv k s r x acc \<Longrightarrow> read_over (wt_read s) \<Longrightarrow> io_inv k (s\<lparr>wt_read := StEmpty\<rparr>) r x acc"
  by (auto simp: io_inv_defs split: win_state.splits if_splits)

lemma stream_invE:
  assumes "stream_inv lc a fd io k alive s acc p"
  obtains r where "wt_addr s = a" "wt_socket s = fd" "bind_inv lc (wt_iocp s) (pl_selector p)"
    "wt_registration s = (if alive then rb_readiness (wt_iocp s) else None)"
    "queued (rb_readiness (wt_iocp s)) (if alive then 2 else 1) r p" "io_inv k s r (io (os_of p)) acc"
  using assms by (auto simp: stream_inv_def)

text \<open>Adding a readiness keeps the invariant.\<close>

lemma stream_add_readiness_inv:
  assumes laws: "iocp_laws ws a fd io" and inv: "stream_inv lc a fd io k alive s acc p" and reg: "rb_registered (wt_iocp s)"
    and r': "\<not> event_is_drop r'"
  shows "\<exists>p'. stream_add_readiness ws s r' p = Some p' \<and> stream_inv lc a fd io k alive s acc p' \<and>
    (\<exists>r. queued (rb_readiness (wt_iocp s)) (if alive then 2 else 1) (ready_bitor r' r) p' \<and> io_inv k s (ready_bitor r' r) (io (os_of p')) acc) \<and>
    quiet io p p'"
proof -
  from inv obtain r where s: "wt_addr s = a" "wt_socket s = fd" "bind_inv lc (wt_iocp s) (pl_selector p)"
    "wt_registration s = (if alive then rb_readiness (wt_iocp s) else None)"
    "queued (rb_readiness (wt_iocp s)) (if alive then 2 else 1) r p" "io_inv k s r (io (os_of p)) acc"
    by (rule stream_invE)
  obtain p' where p': "stream_add_readiness ws s r' p = Some p'"
    "queued (rb_readiness (wt_iocp s)) (if alive then 2 else 1) (ready_bitor r' r) p'" "quiet io p p'"
    using stream_readiness_ok(1) [OF laws s(5) reg r'] by blast
  have "io_inv k s (ready_bitor r' r) (io (os_of p')) acc"
    using p'(3) io_inv_mono [OF s(6), of "ready_bitor r' r"] by (simp add: quiet_def ready_rules)
  then show ?thesis using s p' by (auto simp: stream_inv_def quiet_def)
qed

lemma stream_read_scheduled_inv:
  assumes laws: "iocp_laws ws a fd io" and inv: "stream_inv lc a fd io k alive s acc p" and reg: "rb_registered (wt_iocp s)"
    and read: "wt_read s = StEmpty" and starts: "read_starts (io (os_of p)) res (io w')"
  shows "\<exists>s' p'. stream_read_scheduled ws s res (with_os w' p) = Some (s', p') \<and> stream_inv lc a fd io k alive s' acc p'"
proof (cases "\<exists>t. res = Inr t \<and> \<not> (t \<noteq> None \<and> wt_instant s)")
  case True
  then obtain t where t: "res = Inr t" "\<not> (t \<noteq> None \<and> wt_instant s)" by blast
  have "wt_instant s = io_skip (io (os_of p))" using inv by (auto simp: stream_inv_def io_inv_def)
  then have "io w' = (io (os_of p))\<lparr>io_reads := io_reads (io (os_of p)) + 1\<rparr>"
    using starts t by (auto simp: read_starts_def)
  then show ?thesis
    using inv t io_inv_reading(1) [OF _ read reg, of k _ "io (os_of p)" acc] by (auto simp: stream_inv_def stream_read_scheduled_def)
next
  case False
  let ?r = "case res of Inl e \<Rightarrow> (if raw_os_error e = Some WSAECONNRESET then ready_bitor ready_readable ready_hup else ready_readable)
    | Inr _ \<Rightarrow> ready_readable"
  let ?st = "case res of Inl e \<Rightarrow> StError e | Inr _ \<Rightarrow> StReady ()"
  have "wt_instant s = io_skip (io (os_of p))" using inv by (auto simp: stream_inv_def io_inv_def)
  then have io: "io w' = io (os_of p)" using starts False by (auto simp: read_starts_def split: sum.splits)
  have inv': "stream_inv lc a fd io k alive s acc (with_os w' p)" using inv by (simp add: stream_inv_def io)
  have r: "\<not> event_is_drop ?r" "ready_is_readable (ready_bitor ?r r)" for r
    by (auto simp: ready_rules split: sum.splits)
  obtain p' r0 where p': "stream_add_readiness ws s ?r (with_os w' p) = Some p'" "stream_inv lc a fd io k alive s acc p'"
    "queued (rb_readiness (wt_iocp s)) (if alive then 2 else 1) (ready_bitor ?r r0) p'" "io_inv k s (ready_bitor ?r r0) (io (os_of p')) acc"
    using stream_add_readiness_inv [OF laws inv' reg r(1)] by blast
  have "read_over ?st" by (auto simp: read_over_def split: sum.splits)
  from io_inv_reading(2) [OF p'(4) read reg r(2) this] have "stream_inv lc a fd io k alive (s\<lparr>wt_read := ?st\<rparr>) acc p'"
    using p'(2,3) by (auto simp: stream_inv_def)
  then show ?thesis using p'(1) False by (auto simp: stream_read_scheduled_def split: sum.splits)
qed

lemma iocp_read_starts:
  "iocp_laws ws a fd io \<Longrightarrow>
     read_starts (io w) (fst (ws_read_overlapped ws fd (StreamRead a) w)) (io (snd (ws_read_overlapped ws fd (StreamRead a) w)))"
  by (simp add: iocp_laws_def)

lemma stream_schedule_read_inv:
  assumes laws: "iocp_laws ws a fd io" and inv: "stream_inv lc a fd io k alive s acc p" and reg: "rb_registered (wt_iocp s)"
  shows "\<exists>s' p'. stream_schedule_read ws s p = Some (s', p') \<and> stream_inv lc a fd io k alive s' acc p'"
proof (cases "wt_read s")
  case (StPending u)
  then show ?thesis using inv by (simp add: stream_schedule_read_def)
next
  case (StReady u)
  then show ?thesis
    using stream_add_readiness_inv [OF laws inv reg, of ready_readable] by (auto simp: stream_schedule_read_def ready_rules)
next
  case (StError e)
  then show ?thesis
    using stream_add_readiness_inv [OF laws inv reg, of ready_readable] by (auto simp: stream_schedule_read_def ready_rules)
next
  case StEmpty
  from inv obtain r where s: "wt_addr s = a" "wt_socket s = fd" "bind_inv lc (wt_iocp s) (pl_selector p)"
    "wt_registration s = (if alive then rb_readiness (wt_iocp s) else None)"
    "queued (rb_readiness (wt_iocp s)) (if alive then 2 else 1) r p" "io_inv k s r (io (os_of p)) acc"
    by (rule stream_invE)
  obtain p1 where p1: "stream_clear_readiness ws s ready_readable p = Some p1"
    "queued (rb_readiness (wt_iocp s)) (if alive then 2 else 1) (ready_bitand r (ready_not ready_readable)) p1" "quiet io p p1"
    using stream_readiness_ok(2) [OF laws s(5) reg] by blast
  have "io_inv k s (ready_bitand r (ready_not ready_readable)) (io (os_of p1)) acc"
    using p1(3) io_inv_empty [OF s(6)] StEmpty by (auto simp: quiet_def ready_rules read_over_def)
  then have "stream_inv lc a fd io k alive s acc p1" using s p1 by (auto simp: stream_inv_def quiet_def)
  from stream_read_scheduled_inv [OF laws this reg StEmpty iocp_read_starts [OF laws]]
  show ?thesis using p1(1) StEmpty s by (auto simp: stream_schedule_read_def win_os_eq)
qed

section \<open>Reading\<close>

lemma stream_inv_with_os:
  "stream_inv lc a fd io k alive s acc p \<Longrightarrow> io w = io (os_of p) \<Longrightarrow> stream_inv lc a fd io k alive s acc (with_os w p)"
  by (simp add: stream_inv_def)

lemma stream_inv_registered:
  assumes "stream_inv lc a fd io k alive s acc p" and "wt_read s \<noteq> StEmpty \<or> wt_write s \<noteq> StEmpty \<or> io_reads (io (os_of p)) \<noteq> 0"
  shows "rb_registered (wt_iocp s)"
  using assms by (auto simp: stream_inv_def io_inv_def split: if_splits)

lemma stream_inv_reread:
  assumes "stream_inv lc a fd io k alive s acc p" and "read_over (wt_read s)"
  shows "stream_inv lc a fd io k alive (s\<lparr>wt_read := StEmpty\<rparr>) acc p"
  using assms io_inv_reread [OF _ assms(2)] by (auto simp: stream_inv_def)

lemma stream_inv_read_error:
  assumes "stream_inv lc a fd io k alive s acc p" and "wt_read s = StReady ()"
  shows "stream_inv lc a fd io k alive (s\<lparr>wt_read := StError e\<rparr>) acc p"
proof -
  have "io_inv k (s\<lparr>wt_read := StError e\<rparr>) r x acc" if "io_inv k s r x acc" for r x
    using that assms(2) by (simp add: io_inv_defs split: if_splits)
  then show ?thesis using assms(1) by (auto simp: stream_inv_def)
qed

lemma stream_read_again_inv:
  assumes laws: "iocp_laws ws a fd io" and inv: "stream_inv lc a fd io k alive s acc p" and over: "read_over (wt_read s)"
  shows "\<exists>s' p'. stream_schedule_read ws (s\<lparr>wt_read := StEmpty\<rparr>) p = Some (s', p') \<and> stream_inv lc a fd io k alive s' acc p'"
proof -
  have "wt_read s \<noteq> StEmpty" using over by (auto simp: read_over_def)
  then have "rb_registered (wt_iocp (s\<lparr>wt_read := StEmpty\<rparr>))" using stream_inv_registered [OF inv] by simp
  from stream_schedule_read_inv [OF laws stream_inv_reread [OF inv over] this] show ?thesis .
qed

lemma iocp_quiet_calls:
  assumes "iocp_laws ws a fd io"
  shows "io (snd (ws_read ws fd n w)) = io w" and "io (snd (ws_connect_complete ws fd w)) = io w"
    and "io (snd (win_cancel ws fd (StreamRead a) w)) = io w" and "io (ws_close ws fd w) = io w"
  using assms by (simp_all add: iocp_laws_def win_cancel_def split: prod.splits) (metis snd_conv)?

lemma stream_read_bufs_inv:
  assumes laws: "iocp_laws ws a fd io"
  shows "stream_inv lc a fd io k alive s acc p \<Longrightarrow> wt_read s = StReady () \<Longrightarrow>
    \<exists>res s' p'. stream_read_bufs ws s amt bufs p = Some (res, s', p') \<and> stream_inv lc a fd io k alive s' acc p'"
proof (induction bufs arbitrary: amt p)
  case (Cons n ns)
  let ?p = "with_os (snd (ws_read ws fd n (os_of p))) p"
  have fd: "wt_socket s = fd" using Cons.prems(1) by (simp add: stream_inv_def)
  have inv: "stream_inv lc a fd io k alive s acc ?p"
    by (rule stream_inv_with_os [OF Cons.prems(1)]) (simp add: iocp_quiet_calls(1) [OF laws])
  show ?case
  proof (cases "fst (ws_read ws fd n (os_of p))")
    case (Inr bytes)
    then show ?thesis using Cons.IH [OF inv Cons.prems(2)] inv fd by (simp add: win_os_eq)
  next
    case (Inl e)
    have over: "read_over (wt_read s)" using Cons.prems(2) by (simp add: read_over_def)
    show ?thesis
      using Inl fd stream_read_again_inv [OF laws inv over] stream_inv_read_error [OF inv Cons.prems(2)] by (auto simp: win_os_eq)
  qed
qed simp

lemma win_stream_readv_inv:
  assumes laws: "iocp_laws ws a fd io" and inv: "stream_inv lc a fd io k alive s acc p"
  shows "\<exists>res s' p'. win_stream_readv ws s bufs p = Some (res, s', p') \<and> stream_inv lc a fd io k alive s' acc p'"
  using inv stream_read_bufs_inv [OF laws inv] stream_read_again_inv [OF laws inv]
  by (cases "wt_read s") (auto simp: win_stream_readv_def read_over_def)

section \<open>Writing\<close>

lemma io_inv_write_empty:
  assumes "io_inv k s r x (io_sent x)" and "wt_write s = StEmpty"
  shows "io_inv k s r (x\<lparr>io_sent := y\<rparr>) y"
    and "(ready_is_readable r \<Longrightarrow> ready_is_readable r') \<Longrightarrow> io_inv k s r' x (io_sent x)"
  using assms by (auto simp: io_inv_defs split: win_state.splits if_splits)

lemma io_inv_writing:
  assumes "io_inv k s r x (io_sent x)" and "wt_write s = StEmpty" and "rb_registered (wt_iocp s)" and "pos \<le> length (bv_data buf)"
  shows "io_inv k (s\<lparr>wt_write := StPending (buf, pos), wt_cnt := arc_clone (wt_cnt s)\<rparr>) r
      (x\<lparr>io_writes := io_writes x + 1, io_data := drop pos (bv_data buf)\<rparr>) (io_sent x @ drop pos (bv_data buf))"
    and "ready_is_writable r \<Longrightarrow> io_inv k (s\<lparr>wt_write := StError e\<rparr>) r x (io_sent x @ lost)"
  using assms io_inv_cnt(2) [OF assms(1)] by (auto simp: io_inv_defs split: win_state.splits if_splits)

text \<open>The three ways a write goes: it fails, it is in flight, or it has completed at once.\<close>

lemma stream_write_error_inv:
  assumes laws: "iocp_laws ws a fd io" and inv: "stream_inv lc a fd io k alive s (io_sent (io (os_of p))) p"
    and empty: "wt_write s = StEmpty" and reg: "rb_registered (wt_iocp s)" and pos: "pos \<le> length (bv_data buf)"
  shows "\<exists>p'. stream_add_readiness ws s ready_writable p = Some p' \<and>
    stream_inv lc a fd io k alive (s\<lparr>wt_write := StError e\<rparr>) (io_sent (io (os_of p)) @ lost) (rb_put_buffer lc (wt_iocp s) buf p')"
proof -
  obtain p' r where p': "stream_add_readiness ws s ready_writable p = Some p'" "stream_inv lc a fd io k alive s (io_sent (io (os_of p))) p'"
    "queued (rb_readiness (wt_iocp s)) (if alive then 2 else 1) (ready_bitor ready_writable r) p'"
    "io_inv k s (ready_bitor ready_writable r) (io (os_of p')) (io_sent (io (os_of p)))" "quiet io p p'"
    using stream_add_readiness_inv [OF laws inv reg, of ready_writable] by (auto simp: ready_rules)
  have x: "io (os_of p') = io (os_of p)" using p'(5) by (simp add: quiet_def)
  have "ready_is_writable (ready_bitor ready_writable r)" by (simp add: ready_rules)
  from io_inv_writing(2) [OF p'(4) [unfolded x] empty reg pos this]
  have "io_inv k (s\<lparr>wt_write := StError e\<rparr>) (ready_bitor ready_writable r) (io (os_of p')) (io_sent (io (os_of p)) @ lost)"
    by (simp add: x)
  then show ?thesis
    using p'(1,2,3) bind_inv_put_buffer [where lc = lc and rb = "wt_iocp s" and p = p' and buf = buf] by (auto simp: stream_inv_def)
qed

lemma stream_write_pending_inv:
  assumes inv: "stream_inv lc a fd io k alive s (io_sent (io (os_of p))) p" and empty: "wt_write s = StEmpty"
    and reg: "rb_registered (wt_iocp s)" and pos: "pos \<le> length (bv_data buf)"
    and w: "io w = (io (os_of p))\<lparr>io_writes := io_writes (io (os_of p)) + 1, io_data := drop pos (bv_data buf)\<rparr>"
  shows "stream_inv lc a fd io k alive (s\<lparr>wt_write := StPending (buf, pos), wt_cnt := arc_clone (wt_cnt s)\<rparr>)
    (io_sent (io (os_of p)) @ drop pos (bv_data buf)) (with_os w p)"
  using inv io_inv_writing(1) [OF _ empty reg pos] by (auto simp: stream_inv_def w)

lemma stream_write_instant_inv:
  assumes inv: "stream_inv lc a fd io k alive s (io_sent (io (os_of p))) p" and empty: "wt_write s = StEmpty"
    and w: "io w = (io (os_of p))\<lparr>io_sent := y\<rparr>"
  shows "stream_inv lc a fd io k alive s (io_sent (io (os_of (with_os w p)))) (with_os w p)"
  using inv io_inv_write_empty(1) [OF _ empty] by (auto simp: stream_inv_def w)

lemma iocp_write_starts:
  assumes "iocp_laws ws a fd io" and "ws_write_overlapped ws fd b (StreamWrite a) w = (res, w')"
  shows "write_starts b (io w) res (io w')"
proof -
  have "write_starts b (io w) (fst (ws_write_overlapped ws fd b (StreamWrite a) w)) (io (snd (ws_write_overlapped ws fd b (StreamWrite a) w)))"
    using assms(1) by (simp add: iocp_laws_def)
  then show ?thesis by (simp add: assms(2))
qed

text \<open>The loop goes on only while a write completes at once and has sent something, so it ends; the bytes sent before the loop
  are followed by those that the loop was given.\<close>

lemma stream_write_loop_inv:
  assumes laws: "iocp_laws ws a fd io" and empty: "wt_write s = StEmpty" and reg: "rb_registered (wt_iocp s)"
  shows "stream_inv lc a fd io k alive s (io_sent (io (os_of p))) p \<Longrightarrow> pos \<le> length (bv_data buf) \<Longrightarrow>
    \<exists>s' p'. stream_write_loop ws lc s buf pos p = Some (s', p') \<and>
      stream_inv lc a fd io k alive s' (io_sent (io (os_of p)) @ drop pos (bv_data buf)) p'"
proof (induction "length (bv_data buf) - pos" arbitrary: pos p rule: less_induct)
  case less
  let ?x = "io (os_of p)" and ?data = "drop pos (bv_data buf)"
  obtain res w where res: "ws_write_overlapped ws fd ?data (StreamWrite a) (os_of p) = (res, w)" by fastforce
  have s: "wt_addr s = a" "wt_socket s = fd" "wt_instant s = io_skip ?x" using less.prems(1) by (auto simp: stream_inv_def io_inv_def)
  have starts: "write_starts ?data ?x res (io w)" by (rule iocp_write_starts [OF laws res])
  have same: "s\<lparr>wt_write := StEmpty\<rparr> = s" using empty by (cases s) simp
  note unfold = stream_write_loop.simps [of ws lc s buf pos p] win_os_eq s(1,2) res same
  show ?case
  proof (cases res)
    case (Inl e)
    then have x: "io w = ?x" using starts by (simp add: write_starts_def)
    have "stream_inv lc a fd io k alive s (io_sent (io (os_of (with_os w p)))) (with_os w p)"
      using stream_inv_with_os [OF less.prems(1) x] by (simp add: x)
    from stream_write_error_inv [OF laws this empty reg less.prems(2), of e ?data]
    show ?thesis using less.prems(2) by (auto simp: unfold Inl x)
  next
    case (Inr t)
    show ?thesis
    proof (cases "t \<noteq> None \<and> wt_instant s")
      case False
      then have "io w = ?x\<lparr>io_writes := io_writes ?x + 1, io_data := ?data\<rparr>" using starts Inr s(3) by (auto simp: write_starts_def)
      from stream_write_pending_inv [OF less.prems(1) empty reg less.prems(2) this]
      show ?thesis using False less.prems(2) by (auto simp: unfold Inr)
    next
      case True
      then obtain n where t: "t = Some n" by blast
      have n: "n \<le> length (bv_data buf) - pos" "n = 0 \<Longrightarrow> length (bv_data buf) \<le> pos"
        and x: "io w = ?x\<lparr>io_sent := io_sent ?x @ take n ?data\<rparr>"
        using starts Inr True s(3) t by (auto simp: write_starts_def)
      note inv = stream_write_instant_inv [OF less.prems(1) empty x]
      show ?thesis
      proof (cases "n = length (bv_data buf) - pos")
        case all_sent: True
        then show ?thesis
          using stream_add_readiness_inv [OF laws inv reg, of ready_writable] True t less.prems(2) empty
          by (auto simp: unfold Inr x ready_rules)
      next
        case more: False
        then have "length (bv_data buf) - (pos + n) < length (bv_data buf) - pos" "pos + n \<le> length (bv_data buf)"
          using n less.prems(2) by (cases "n = 0"; simp)+
        moreover have "take n ?data @ drop (pos + n) (bv_data buf) = ?data"
          using append_take_drop_id [of n ?data] by (simp add: add.commute)
        ultimately show ?thesis
          using less.hyps [of "pos + n" "with_os w p"] inv more True t less.prems(2) by (auto simp: unfold Inr x)
      qed
    qed
  qed
qed

lemma stream_schedule_write_inv:
  assumes laws: "iocp_laws ws a fd io" and inv: "stream_inv lc a fd io k alive s (io_sent (io (os_of p))) p"
    and empty: "wt_write s = StEmpty" and reg: "rb_registered (wt_iocp s)" and pos: "pos \<le> length (bv_data buf)"
  shows "\<exists>s' p'. stream_schedule_write ws lc s buf pos p = Some (s', p') \<and>
      stream_inv lc a fd io k alive s' (io_sent (io (os_of p)) @ drop pos (bv_data buf)) p'"
proof -
  let ?x = "io (os_of p)"
  from inv obtain r where s: "wt_addr s = a" "wt_socket s = fd" "bind_inv lc (wt_iocp s) (pl_selector p)"
    "wt_registration s = (if alive then rb_readiness (wt_iocp s) else None)"
    "queued (rb_readiness (wt_iocp s)) (if alive then 2 else 1) r p" "io_inv k s r ?x (io_sent ?x)"
    by (rule stream_invE)
  let ?r = "ready_bitand r (ready_not ready_writable)"
  obtain p1 where p1: "stream_clear_readiness ws s ready_writable p = Some p1"
    "queued (rb_readiness (wt_iocp s)) (if alive then 2 else 1) ?r p1" "quiet io p p1"
    using stream_readiness_ok(2) [OF laws s(5) reg] by blast
  have x: "io (os_of p1) = ?x" using p1(3) by (simp add: quiet_def)
  have "io_inv k s ?r ?x (io_sent ?x)" by (rule io_inv_write_empty(2) [OF s(6) empty]) (simp add: ready_rules)
  then have "stream_inv lc a fd io k alive s (io_sent (io (os_of p1))) p1"
    using s p1(2,3) by (auto simp: stream_inv_def x quiet_def)
  from stream_write_loop_inv [OF laws empty reg this pos] show ?thesis by (simp add: stream_schedule_write_def p1(1) x)
qed

lemma vec_extend_data: "bv_data (foldl vec_extend buf bufs) = bv_data buf @ concat bufs"
  by (induction bufs arbitrary: buf) (simp_all add: vec_extend_def Let_def)

definition accepted :: "u8 list list \<Rightarrow> nat io_result \<Rightarrow> u8 list" where
  "accepted bufs res = (case res of Inl _ \<Rightarrow> [] | Inr n \<Rightarrow> take n (concat bufs))"

lemma win_stream_writev_inv:
  assumes laws: "iocp_laws ws a fd io" and inv: "stream_inv lc a fd io k alive s acc p"
  shows "\<exists>res s' p'. win_stream_writev ws lc s bufs p = Some (res, s', p') \<and>
    stream_inv lc a fd io k alive s' (acc @ accepted bufs res) p'"
proof (cases "wt_write s = StEmpty \<and> rb_registered (wt_iocp s) \<and> bufs \<noteq> []")
  case False
  then show ?thesis using inv by (auto simp: win_stream_writev_def accepted_def)
next
  case True
  let ?len = "sum_list (map (\<lambda>b. length (win_iovec_as_bytes b)) bufs)"
  obtain buf p1 where get: "rb_get_buffer lc (wt_iocp s) ?len p = (buf, p1)" by fastforce
  have "acc = io_sent (io (os_of p))" using inv True by (auto simp: stream_inv_def io_inv_def write_inv_def)
  then have inv1: "stream_inv lc a fd io k alive s (io_sent (io (os_of p1))) p1" and acc: "acc = io_sent (io (os_of p1))" and data: "bv_data buf = []"
    using inv bind_inv_get_buffer [OF _ get] by (auto simp: stream_inv_def)
  have len: "length (concat bufs) = ?len" and id: "map win_iovec_as_bytes bufs = bufs"
    by (simp_all add: length_concat win_iovec_as_bytes_def comp_def map_idI)
  have "\<exists>s' p'. stream_schedule_write ws lc s (foldl vec_extend buf bufs) 0 p1 = Some (s', p') \<and>
      stream_inv lc a fd io k alive s' (acc @ concat bufs) p'"
    using stream_schedule_write_inv [OF laws inv1, of 0 "foldl vec_extend buf bufs"] True by (simp add: vec_extend_data data acc)
  then show ?thesis using True get len by (auto simp: win_stream_writev_def accepted_def id)
qed

text \<open>What scheduling a read leaves alone.\<close>

lemma stream_read_scheduled_frame:
  assumes "stream_read_scheduled ws s res p = Some (s', p')"
  shows "wt_iocp s' = wt_iocp s \<and> wt_write s' = wt_write s"
  using assms by (auto simp: stream_read_scheduled_def Let_def split: sum.splits if_splits)

lemma stream_schedule_read_frame:
  assumes "stream_schedule_read ws s p = Some (s', p')"
  shows "wt_iocp s' = wt_iocp s \<and> wt_write s' = wt_write s"
  using assms
  by (auto simp: stream_schedule_read_def case_prod_beta Option.bind_eq_Some_conv split: win_state.splits dest: stream_read_scheduled_frame)

lemma stream_post_register_inv:
  assumes laws: "iocp_laws ws a fd io" and inv: "stream_inv lc a fd io k alive s acc p" and reg: "rb_registered (wt_iocp s)"
  shows "\<exists>s' p'. stream_post_register ws interest s p = Some (s', p') \<and> stream_inv lc a fd io k alive s' acc p'"
proof -
  have "\<exists>s1 p1. (if ready_is_readable interest then stream_schedule_read ws s p else Some (s, p)) = Some (s1, p1) \<and>
      stream_inv lc a fd io k alive s1 acc p1 \<and> rb_registered (wt_iocp s1)"
    using stream_schedule_read_inv [OF laws inv reg] stream_schedule_read_frame [of ws s p] inv reg
    by (cases "ready_is_readable interest") fastforce+
  then obtain s1 p1 where 1: "(if ready_is_readable interest then stream_schedule_read ws s p else Some (s, p)) = Some (s1, p1)"
    "stream_inv lc a fd io k alive s1 acc p1" "rb_registered (wt_iocp s1)" by blast
  show ?thesis
    using stream_add_readiness_inv [OF laws 1(2,3), of ready_writable] 1(1,2) by (auto simp: stream_post_register_def ready_rules)
qed

section \<open>References\<close>

lemma io_inv_release:
  assumes "io_inv (Suc k) s r x acc"
  shows "wt_cnt s = 1 \<longleftrightarrow> k + io_reads x + io_writes x = 0" and "io_inv k (s\<lparr>wt_cnt := wt_cnt s - 1\<rparr>) r x acc"
proof -
  have n: "unat (wt_cnt s) = Suc (k + io_reads x + io_writes x)" using assms by (simp add: io_inv_def)
  then show "wt_cnt s = 1 \<longleftrightarrow> k + io_reads x + io_writes x = 0" by (simp add: word_unat_eq_iff)
  have "wt_cnt s \<noteq> 0" using n by auto
  then have "unat (wt_cnt s - 1) = k + io_reads x + io_writes x" using n by (simp add: unat_minus_one)
  then show "io_inv k (s\<lparr>wt_cnt := wt_cnt s - 1\<rparr>) r x acc" using assms by (simp add: io_inv_def read_inv_def)
qed

text \<open>Giving up a reference: the object goes exactly with the last one, and then no packet for it is owed.\<close>

lemma stream_release_inv:
  assumes laws: "iocp_laws ws a fd io" and inv: "stream_inv lc a fd io (Suc k) alive s acc p"
  shows "\<exists>so p'. stream_release ws s p = Some (so, p') \<and> io (os_of p') = io (os_of p) \<and>
    (case so of
       None \<Rightarrow> k + io_reads (io (os_of p)) + io_writes (io (os_of p)) = 0 \<and> left_handles (rb_readiness (wt_iocp s)) ((if alive then 2 else 1) - 1) p'
     | Some s' \<Rightarrow> k + io_reads (io (os_of p)) + io_writes (io (os_of p)) \<noteq> 0 \<and> stream_inv lc a fd io k alive s' acc p' \<and>
         s' = s\<lparr>wt_cnt := wt_cnt s - 1\<rparr>)"
proof -
  from inv obtain r where s: "wt_addr s = a" "wt_socket s = fd" "bind_inv lc (wt_iocp s) (pl_selector p)"
    "wt_registration s = (if alive then rb_readiness (wt_iocp s) else None)"
    "queued (rb_readiness (wt_iocp s)) (if alive then 2 else 1) r p" "io_inv (Suc k) s r (io (os_of p)) acc"
    by (rule stream_invE)
  note rel = io_inv_release [OF s(6)]
  show ?thesis
  proof (cases "wt_cnt s = 1")
    case False
    then show ?thesis using s rel by (auto simp: stream_release_def arc_drop_def stream_inv_def)
  next
    case True
    obtain q where "(case rb_readiness (wt_iocp s) of None \<Rightarrow> Some (pl_queue p) | Some h \<Rightarrow> set_readiness_drop (win_wakeup ws) (pl_queue p) h) = Some q"
      "left_handles (rb_readiness (wt_iocp s)) ((if alive then 2 else 1) - 1) (p\<lparr>pl_queue := q\<rparr>)" "io (os_of (p\<lparr>pl_queue := q\<rparr>)) = io (os_of p)"
      using set_readiness_drop_left [OF iocp_post [OF laws] s(5)] by blast
    then show ?thesis
      using True rel(1) s(2) iocp_quiet_calls(4) [OF laws] by (simp add: stream_release_def arc_drop_def win_os_eq)
  qed
qed

section \<open>Callbacks\<close>

text \<open>When a packet arrives, the reference lent to the operation belongs to its callback.\<close>

lemma io_inv_read_done:
  assumes "io_inv k s r x acc" and "k \<le> 1" and "read_completes status x x'"
  shows "wt_read s = StPending () \<Longrightarrow> io_inv (Suc k) (s\<lparr>wt_read := StEmpty\<rparr>) r x' acc"
    and "wt_read s \<noteq> StPending () \<Longrightarrow> io_inv (Suc k) s r x' acc"
  using assms by (auto simp: io_inv_defs read_completes_def split: win_state.splits if_splits)

lemma io_inv_connect_error:
  assumes "io_inv k s r x acc" and "wt_read s \<noteq> StPending ()" and "ready_is_readable r" and "rb_registered (wt_iocp s)"
  shows "io_inv k (s\<lparr>wt_read := StError e\<rparr>) r x acc"
  using assms by (auto simp: io_inv_defs split: win_state.splits if_splits)

lemma connect_done_inv:
  assumes laws: "iocp_laws ws a fd io" and inv: "stream_inv lc a fd io k alive s acc p" and reg: "rb_registered (wt_iocp s)"
    and read: "wt_read s \<noteq> StPending ()"
  shows "\<exists>s' p'. connect_done ws s p = Some (s', p') \<and> stream_inv lc a fd io k alive s' acc p'"
proof -
  let ?p = "with_os (snd (ws_connect_complete ws fd (os_of p))) p"
  have fd: "wt_socket s = fd" using inv by (simp add: stream_inv_def)
  have inv: "stream_inv lc a fd io k alive s acc ?p"
    by (rule stream_inv_with_os [OF inv]) (simp add: iocp_quiet_calls(2) [OF laws])
  show ?thesis
  proof (cases "fst (ws_connect_complete ws fd (os_of p))")
    case (Inr u)
    obtain p2 where "stream_add_readiness ws s ready_writable ?p = Some p2" "stream_inv lc a fd io k alive s acc p2"
      using stream_add_readiness_inv [OF laws inv reg, of ready_writable] by (auto simp: ready_rules)
    then show ?thesis using stream_schedule_read_inv [OF laws _ reg] fd Inr by (simp add: connect_done_def win_os_eq)
  next
    case (Inl e)
    obtain p2 r where p2: "stream_add_readiness ws s ready_readable ?p = Some p2" "stream_inv lc a fd io k alive s acc p2"
      "queued (rb_readiness (wt_iocp s)) (if alive then 2 else 1) (ready_bitor ready_readable r) p2"
      "io_inv k s (ready_bitor ready_readable r) (io (os_of p2)) acc"
      using stream_add_readiness_inv [OF laws inv reg, of ready_readable] by (auto simp: ready_rules)
    have "io_inv k (s\<lparr>wt_read := StError e\<rparr>) (ready_bitor ready_readable r) (io (os_of p2)) acc"
      by (rule io_inv_connect_error [OF p2(4) read _ reg]) (simp add: ready_rules)
    then show ?thesis using p2 fd Inl by (auto simp: connect_done_def win_os_eq stream_inv_def)
  qed
qed

lemma read_done_inv:
  assumes laws: "iocp_laws ws a fd io" and inv: "stream_inv lc a fd io k alive s acc p" and k: "k \<le> 1"
    and comp: "read_completes status (io (os_of p)) (io w)"
  shows "\<exists>s1 p1. (case wt_read s of
        StPending _ \<Rightarrow>
          if cs_bytes status = 0
          then map_option (\<lambda>p1. (s\<lparr>wt_read := StReady ()\<rparr>, p1)) (stream_add_readiness ws s ready_readable (with_os w p))
          else None
      | _ \<Rightarrow> connect_done ws s (with_os w p)) = Some (s1, p1) \<and> stream_inv lc a fd io (Suc k) alive s1 acc p1"
proof -
  have reg: "rb_registered (wt_iocp s)" using stream_inv_registered [OF inv] comp by (simp add: read_completes_def)
  show ?thesis
  proof (cases "wt_read s = StPending ()")
    case True
    let ?s = "s\<lparr>wt_read := StEmpty\<rparr>"
    have inv': "stream_inv lc a fd io (Suc k) alive ?s acc (with_os w p)"
      using inv io_inv_read_done(1) [OF _ k comp True] by (auto simp: stream_inv_def)
    obtain p1 r where p1: "stream_add_readiness ws ?s ready_readable (with_os w p) = Some p1" "stream_inv lc a fd io (Suc k) alive ?s acc p1"
      "queued (rb_readiness (wt_iocp ?s)) (if alive then 2 else 1) (ready_bitor ready_readable r) p1"
      "io_inv (Suc k) ?s (ready_bitor ready_readable r) (io (os_of p1)) acc"
      using stream_add_readiness_inv [OF laws inv', of ready_readable] reg by (auto simp: ready_rules)
    have "io_inv (Suc k) (?s\<lparr>wt_read := StReady ()\<rparr>) (ready_bitor ready_readable r) (io (os_of p1)) acc"
      by (rule io_inv_reading(2) [OF p1(4)]) (use reg in \<open>simp_all add: ready_rules read_over_def\<close>)
    then have "stream_inv lc a fd io (Suc k) alive (s\<lparr>wt_read := StReady ()\<rparr>) acc p1" using p1(2,3) by (auto simp: stream_inv_def)
    moreover have "stream_add_readiness ws ?s ready_readable = stream_add_readiness ws s ready_readable"
      by (simp add: stream_add_readiness_def fun_eq_iff)
    ultimately show ?thesis using True comp p1(1) by (simp add: read_completes_def)
  next
    case False
    have "stream_inv lc a fd io (Suc k) alive s acc (with_os w p)"
      using inv io_inv_read_done(2) [OF _ k comp False] by (auto simp: stream_inv_def)
    from connect_done_inv [OF laws this reg False] show ?thesis using False by (cases "wt_read s") auto
  qed
qed

lemma io_inv_write_done:
  assumes "io_inv k s r x acc" and "k \<le> 1" and "write_completes status x x'"
  obtains buf pos where "wt_write s = StPending (buf, pos)" "pos + unat (cs_bytes status) \<le> length (bv_data buf)"
    "io_inv (Suc k) (s\<lparr>wt_write := StEmpty\<rparr>) r x' (io_sent x')" "io_sent x' @ drop (pos + unat (cs_bytes status)) (bv_data buf) = acc"
proof -
  obtain buf pos where w: "wt_write s = StPending (buf, pos)"
    using assms by (auto simp: io_inv_def write_inv_def write_completes_def split: win_state.splits)
  let ?n = "unat (cs_bytes status)"
  have data: "pos \<le> length (bv_data buf)" "io_data x = drop pos (bv_data buf)" "io_sent x @ io_data x = acc" "io_writes x = 1"
    using assms(1) w by (auto simp: io_inv_def write_inv_def)
  have "?n \<le> length (bv_data buf) - pos" using assms(3) data by (simp add: write_completes_def)
  then have le: "pos + ?n \<le> length (bv_data buf)" using data(1) by simp
  have inv: "io_inv (Suc k) (s\<lparr>wt_write := StEmpty\<rparr>) r x' (io_sent x')"
    using assms w data(4) by (auto simp: io_inv_defs write_completes_def split: if_splits)
  have "take ?n (io_data x) @ drop (pos + ?n) (bv_data buf) = io_data x"
    using append_take_drop_id [of ?n "io_data x"] by (simp add: data(2) add.commute)
  then have "io_sent x' @ drop (pos + ?n) (bv_data buf) = acc" using assms(3) data(3) by (simp add: write_completes_def)
  with w le inv show thesis by (rule that)
qed

lemma write_done_inv:
  assumes laws: "iocp_laws ws a fd io" and inv: "stream_inv lc a fd io k alive s acc p" and k: "k \<le> 1"
    and comp: "write_completes status (io (os_of p)) (io w)"
  shows "\<exists>buf pos s1 p1. wt_write s = StPending (buf, pos) \<and>
    (if pos + unat (cs_bytes status) = length (bv_data buf)
     then map_option (\<lambda>p1. (s\<lparr>wt_write := StEmpty\<rparr>, p1)) (stream_add_readiness ws (s\<lparr>wt_write := StEmpty\<rparr>) ready_writable (with_os w p))
     else stream_schedule_write ws lc (s\<lparr>wt_write := StEmpty\<rparr>) buf (pos + unat (cs_bytes status)) (with_os w p)) = Some (s1, p1) \<and>
    stream_inv lc a fd io (Suc k) alive s1 acc p1"
proof -
  let ?s = "s\<lparr>wt_write := StEmpty\<rparr>"
  obtain r where r: "queued (rb_readiness (wt_iocp s)) (if alive then 2 else 1) r p" "io_inv k s r (io (os_of p)) acc"
    using inv by (auto simp: stream_inv_def)
  obtain buf pos where w: "wt_write s = StPending (buf, pos)" "pos + unat (cs_bytes status) \<le> length (bv_data buf)"
    "io_inv (Suc k) ?s r (io w) (io_sent (io w))" "io_sent (io w) @ drop (pos + unat (cs_bytes status)) (bv_data buf) = acc"
    by (rule io_inv_write_done [OF r(2) k comp])
  have reg: "rb_registered (wt_iocp ?s)" using stream_inv_registered [OF inv] w(1) by simp
  have inv': "stream_inv lc a fd io (Suc k) alive ?s (io_sent (io (os_of (with_os w p)))) (with_os w p)"
    using inv w(3) r(1) by (auto simp: stream_inv_def)
  show ?thesis
    using w stream_add_readiness_inv [OF laws inv' reg, of ready_writable] stream_schedule_write_inv [OF laws inv' _ reg w(2)]
    by (auto simp: ready_rules)
qed

end
