(* ===== verification/Mio_Objects.thy ===== *)
theory Mio_Objects
  imports Mio_Prelude
begin

text \<open>
  Objects whose operations are called in any order.  An operation that is enabled must not panic; a state is reached from an
  initial one by enabled operations.  A lent object is reference counted: its handle holds one reference and every
  operation in flight another one, and it is freed with the last reference.
\<close>

inductive reached :: "('op \<Rightarrow> 'st \<Rightarrow> bool) \<Rightarrow> ('op \<Rightarrow> 'st \<Rightarrow> 'st option) \<Rightarrow> ('st \<Rightarrow> bool) \<Rightarrow> 'st \<Rightarrow> bool"
  for enabled run init where
  reached_init: "init st \<Longrightarrow> reached enabled run init st"
| reached_step: "reached enabled run init st \<Longrightarrow> enabled op st \<Longrightarrow> run op st = Some st' \<Longrightarrow> reached enabled run init st'"

text \<open>The reference count of an object with \<open>n\<close> loans; \<open>None\<close> when it has been freed.\<close>

definition lent :: "bool \<Rightarrow> nat \<Rightarrow> nat option" where
  "lent alive n = (if alive then Some (Suc n) else if n = 0 then None else Some n)"

lemma lent_None [simp]: "lent alive n = None \<longleftrightarrow> \<not> alive \<and> n = 0"
  by (simp add: lent_def)

locale guarded_object =
  fixes run :: "'op \<Rightarrow> 'st \<Rightarrow> 'st option" and enabled :: "'op \<Rightarrow> 'st \<Rightarrow> bool" and good :: "'st \<Rightarrow> bool"
  assumes good_run: "good st \<Longrightarrow> enabled op st \<Longrightarrow> \<exists>st'. run op st = Some st' \<and> good st'"
begin

lemma reached_good:
  assumes "reached enabled run init st" and "\<And>st. init st \<Longrightarrow> good st"
  shows "good st"
  using assms(1) by induction (use assms(2) good_run in fastforce)+

lemma reached_runs:
  assumes "reached enabled run init st" and "\<And>st. init st \<Longrightarrow> good st" and "enabled op st"
  shows "run op st \<noteq> None"
  using good_run [OF reached_good [OF assms(1,2)] assms(3)] by auto

lemma reached_the:
  assumes "reached enabled run init st" and "\<And>st. init st \<Longrightarrow> good st" and "enabled op st"
  shows "reached enabled run init (the (run op st))"
  using reached_runs [OF assms] reached_step [OF assms(1,3)] by auto

end

locale lent_object = guarded_object +
  fixes count :: "'b \<Rightarrow> nat option" and alive :: "'b \<Rightarrow> bool" and owed :: "'b \<Rightarrow> nat"
  assumes good_count: "good st \<Longrightarrow> count st = lent (alive st) (owed st)"
begin

lemma reached_safe:
  assumes "reached enabled run init st" and "\<And>st. init st \<Longrightarrow> good st"
  shows "(enabled op st \<longrightarrow> run op st \<noteq> None) \<and> count st = lent (alive st) (owed st)"
  using reached_runs [OF assms] good_count [OF reached_good [OF assms]] by blast

lemma reached_freed:
  assumes "reached enabled run init st" and "\<And>st. init st \<Longrightarrow> good st"
  shows "count st = None \<longleftrightarrow> \<not> alive st \<and> owed st = 0"
  using good_count [OF reached_good [OF assms]] by simp

end

end
