(* ===== verification/Mio_Windows_Props.thy ===== *)
theory Mio_Windows_Props
  imports Mio_Windows_Spec Mio_Sys_Props Mio_Instances Mio_Objects
begin

text \<open>
  The Windows streams: registering, dropping, the steps of a stream with its environment, and the properties.
\<close>

section \<open>Registration\<close>

lemma io_inv_registering:
  assumes "io_inv k s r x acc"
  shows "\<not> rb_registered (wt_iocp s) \<Longrightarrow> rb_registered rb \<Longrightarrow> io_inv k (s\<lparr>wt_iocp := rb, wt_registration := reg\<rparr>) r' (x\<lparr>io_bound := True\<rparr>) acc"
    and "io_inv k (s\<lparr>wt_instant := True\<rparr>) r (x\<lparr>io_skip := True\<rparr>) acc"
    and "rb_registered (wt_iocp s) \<Longrightarrow> wt_deferred s = Some d \<Longrightarrow> io_inv k (s\<lparr>wt_deferred := None\<rparr>) r x acc"
    and "rb_registered (wt_iocp s) \<Longrightarrow> wt_deferred s = Some d \<Longrightarrow>
      io_inv k (s\<lparr>wt_deferred := None, wt_cnt := arc_clone (wt_cnt s)\<rparr>) r (x\<lparr>io_reads := io_reads x + 1\<rparr>) acc"
  using assms io_inv_cnt(2) [OF assms] by (auto simp: io_inv_defs split: win_state.splits if_splits)

lemma no_notify_law:
  assumes "iocp_laws ws a fd io" and "no_notify_on_instant_completion ws fd w = (res, w')"
  shows "case res of Inl _ \<Rightarrow> io w' = io w | Inr _ \<Rightarrow> io w' = (io w)\<lparr>io_skip := True\<rparr>"
proof -
  obtain r w1 where r: "ws_notification_modes ws fd (FILE_SKIP_COMPLETION_PORT_ON_SUCCESS OR FILE_SKIP_SET_EVENT_ON_HANDLE) w = (r, w1)"
    by fastforce
  have "case ws_notification_modes ws fd (FILE_SKIP_COMPLETION_PORT_ON_SUCCESS OR FILE_SKIP_SET_EVENT_ON_HANDLE) w of
      (r, w') \<Rightarrow> io w' = (if r = 1 then (io w)\<lparr>io_skip := True\<rparr> else io w)"
    using assms(1) by (simp add: iocp_laws_def)
  then show ?thesis using assms(2) r by (auto simp: no_notify_on_instant_completion_def split: if_splits)
qed

lemma iocp_connect_pends:
  assumes "iocp_laws ws a fd io" and "ws_connect_overlapped ws fd d (StreamRead a) w = (res, w')"
  shows "connect_pends (io w) res (io w')"
proof -
  have "connect_pends (io w) (fst (ws_connect_overlapped ws fd d (StreamRead a) w)) (io (snd (ws_connect_overlapped ws fd d (StreamRead a) w)))"
    using assms(1) by (simp add: iocp_laws_def)
  then show ?thesis by (simp add: assms(2))
qed

lemma stream_schedule_connect_inv:
  assumes laws: "iocp_laws ws a fd io" and inv: "stream_inv lc a fd io k alive s acc p" and reg: "rb_registered (wt_iocp s)"
    and d: "wt_deferred s = Some d"
  shows "\<exists>res s' p'. stream_schedule_connect ws (s\<lparr>wt_deferred := None\<rparr>) d p = (res, s', p') \<and> stream_inv lc a fd io k alive s' acc p'"
proof -
  obtain res w where res: "ws_connect_overlapped ws fd d (StreamRead a) (os_of p) = (res, w)" by fastforce
  show ?thesis
    using inv io_inv_registering(3,4) [OF _ reg d] iocp_connect_pends [OF laws res]
    by (cases res) (auto simp: stream_schedule_connect_def win_os_eq res stream_inv_def connect_pends_def)
qed

lemma stream_started_inv:
  assumes laws: "iocp_laws ws a fd io" and inv: "stream_inv lc a fd io k alive s acc p" and reg: "rb_registered (wt_iocp s)"
  shows "\<exists>res s' p'. (case win_os (no_notify_on_instant_completion ws (wt_socket s)) p of
             (Inl e, p2) \<Rightarrow> Some (Inl e, s, p2)
           | (Inr _, p2) \<Rightarrow>
               (case wt_deferred s of
                  Some addr \<Rightarrow> Some (stream_schedule_connect ws (s\<lparr>wt_instant := True, wt_deferred := None\<rparr>) addr p2)
                | None \<Rightarrow> map_option (\<lambda>(s2, p3). (Inr (), s2, p3)) (stream_post_register ws interest (s\<lparr>wt_instant := True\<rparr>) p2)))
    = Some (res, s', p') \<and> stream_inv lc a fd io k alive s' acc p'"
proof -
  obtain res w where res: "no_notify_on_instant_completion ws fd (os_of p) = (res, w)" by fastforce
  have fd: "wt_socket s = fd" using inv by (simp add: stream_inv_def)
  note law = no_notify_law [OF laws res]
  show ?thesis
  proof (cases res)
    case (Inl e)
    then show ?thesis using law stream_inv_with_os [OF inv, of w] by (simp add: win_os_eq fd res)
  next
    case (Inr u)
    let ?s = "s\<lparr>wt_instant := True\<rparr>"
    have inv': "stream_inv lc a fd io k alive ?s acc (with_os w p)"
      using inv law Inr io_inv_registering(2) by (fastforce simp: stream_inv_def)
    have reg': "rb_registered (wt_iocp ?s)" using reg by simp
    show ?thesis
      using Inr stream_schedule_connect_inv [OF laws inv' reg'] stream_post_register_inv [OF laws inv' reg', of interest]
      by (cases "wt_deferred s") (auto simp: win_os_eq fd res)
  qed
qed

lemma iocp_add_socket:
  assumes "iocp_laws ws a fd io" and "ws_add_socket ws port k fd w = (res, w')"
  shows "case res of Inl _ \<Rightarrow> io w' = io w | Inr _ \<Rightarrow> \<not> io_bound (io w) \<and> io w' = (io w)\<lparr>io_bound := True\<rparr>"
proof -
  have "case ws_add_socket ws port k fd w of (Inl _, w') \<Rightarrow> io w' = io w
      | (Inr _, w') \<Rightarrow> \<not> io_bound (io w) \<and> io w' = (io w)\<lparr>io_bound := True\<rparr>"
    using assms(1) by (simp add: iocp_laws_def)
  then show ?thesis by (simp add: assms(2) split: sum.splits)
qed

text \<open>Registering again fails, since the socket belongs to a port; the first time, the stream gets its handles.\<close>

lemma win_stream_register_inv:
  assumes laws: "iocp_laws ws a fd io" and lc: "lazycell_laws lc" and inv: "stream_inv lc a fd io k True s acc p"
  shows "\<exists>res s' p'. win_stream_register ws lc s p tok interest opts = Some (res, s', p') \<and> stream_inv lc a fd io k True s' acc p'"
proof -
  from inv obtain r where s: "wt_socket s = fd" "bind_inv lc (wt_iocp s) (pl_selector p)" "wt_registration s = rb_readiness (wt_iocp s)"
    "queued (rb_readiness (wt_iocp s)) 2 r p" "io_inv k s r (io (os_of p)) acc"
    by (auto simp: stream_inv_def)
  have add: "case res of Inl _ \<Rightarrow> io w = io (os_of p) | Inr _ \<Rightarrow> rb_readiness (wt_iocp s) = None \<and> io w = (io (os_of p))\<lparr>io_bound := True\<rparr>"
    if "ws_add_socket ws (sel_port (pl_selector p)) (usize_from_token tok) fd (os_of p) = (res, w)" for res w
    using iocp_add_socket [OF laws that] s(5) by (auto simp: io_inv_def rb_registered_def split: sum.splits if_splits)
  show ?thesis
  proof (rule rb_register_socket_cases [OF iocp_post [OF laws] lc s(2,4) add, where evts = interest and opts = opts])
    fix e b1 w
    assume r: "rb_register_socket ws lc (wt_iocp s) (rb_readiness (wt_iocp s)) fd p tok interest opts =
        Some (Inl e, (wt_iocp s)\<lparr>rb_binding := b1\<rparr>, rb_readiness (wt_iocp s), with_os w p)"
      and b: "lazy_borrow lc b1 = Some (sel_addr (pl_selector p))" and w: "io w = io (os_of p)"
    have "io_inv k (s\<lparr>wt_iocp := (wt_iocp s)\<lparr>rb_binding := b1\<rparr>, wt_registration := rb_readiness (wt_iocp s)\<rparr>) r x acc" if "io_inv k s r x acc" for r x
      using that by (simp add: io_inv_def read_inv_def rb_registered_def)
    then show ?thesis
      using inv r b w s(1,3) by (auto simp: win_stream_register_def stream_inv_def bind_inv_def split: option.splits)
  next
    fix b1 h p'
    assume r: "rb_register_socket ws lc (wt_iocp s) (rb_readiness (wt_iocp s)) fd p tok interest opts =
        Some (Inr (), \<lparr>rb_binding = b1, rb_readiness = Some h\<rparr>, Some h, p')"
      and "rb_readiness (wt_iocp s) = None" and b: "lazy_borrow lc b1 = Some (sel_addr (pl_selector p))"
      and x: "io (os_of p') = (io (os_of p))\<lparr>io_bound := True\<rparr>" and sel: "pl_selector p' = pl_selector p" and q: "queued (Some h) 2 ready_none p'"
    then have new: "\<not> rb_registered (wt_iocp s)" by (simp add: rb_registered_def)
    let ?rb = "\<lparr>rb_binding = b1, rb_readiness = Some h\<rparr>"
    have reg: "rb_registered ?rb" by (simp add: rb_registered_def)
    then have "stream_inv lc a fd io k True (s\<lparr>wt_iocp := ?rb, wt_registration := Some h\<rparr>) acc p'"
      using inv b x sel q io_inv_registering(1) [OF _ new reg] by (auto simp: stream_inv_def bind_inv_def split: option.splits)
    from stream_started_inv [OF laws this, of interest] reg show ?thesis by (simp add: win_stream_register_def r s(1,3) Let_def)
  qed
qed

lemma win_stream_reregister_inv:
  assumes laws: "iocp_laws ws a fd io" and inv: "stream_inv lc a fd io k True s acc p"
    and made: "registration_made lc (wt_iocp s)" and aw: "awake (pl_queue p)"
  shows "\<exists>res s' p'. win_stream_reregister ws lc s p tok interest opts = Some (res, s', p') \<and> stream_inv lc a fd io k True s' acc p'"
    and "\<exists>res p'. win_stream_deregister lc s p = Some (res, s, p') \<and> stream_inv lc a fd io k True s acc p'"
proof -
  from inv obtain r where s: "bind_inv lc (wt_iocp s) (pl_selector p)" "wt_registration s = rb_readiness (wt_iocp s)"
    "queued (rb_readiness (wt_iocp s)) 2 r p" "wt_addr s = a" "wt_socket s = fd" "io_inv k s r (io (os_of p)) acc"
    by (auto simp: stream_inv_def)
  have keep: "stream_inv lc a fd io k True s acc p'"
    if "queued (rb_readiness (wt_iocp s)) 2 r p'" "os_of p' = os_of p" "pl_selector p' = pl_selector p" for p'
    using s that by (auto simp: stream_inv_def)
  obtain res p1 where p1: "rb_reregister_socket lc (wt_iocp s) (wt_registration s) p tok interest opts = Some (res, p1)"
    "stream_inv lc a fd io k True s acc p1" "res = Inr () \<longrightarrow> rb_registered (wt_iocp s)"
    using rb_reregister_ok(1) [OF s(1,3) made aw, of tok interest opts] keep s(2) by auto
  then show "\<exists>res s' p'. win_stream_reregister ws lc s p tok interest opts = Some (res, s', p') \<and> stream_inv lc a fd io k True s' acc p'"
    using stream_post_register_inv [OF laws p1(2), of interest] by (cases res) (auto simp: win_stream_reregister_def)
  show "\<exists>res p'. win_stream_deregister lc s p = Some (res, s, p') \<and> stream_inv lc a fd io k True s acc p'"
    using rb_reregister_ok(2) [OF s(1,3) made aw] keep s(2) by (auto simp: win_stream_deregister_def)
qed

lemma win_stream_drop_inv:
  assumes laws: "iocp_laws ws a fd io" and inv: "stream_inv lc a fd io 1 True s acc p"
  shows "\<exists>so p'. win_stream_drop ws s p = Some (so, p') \<and> io (os_of p') = io (os_of p) \<and>
    (case so of
       None \<Rightarrow> io_reads (io (os_of p)) + io_writes (io (os_of p)) = 0 \<and> left_handles (rb_readiness (wt_iocp s)) 0 p'
     | Some s' \<Rightarrow> io_reads (io (os_of p)) + io_writes (io (os_of p)) \<noteq> 0 \<and> stream_inv lc a fd io 0 False s' acc p')"
proof -
  let ?p = "case wt_read s of StReady _ \<Rightarrow> p | StError _ \<Rightarrow> p
    | _ \<Rightarrow> snd (win_os (win_cancel ws (wt_socket s) (StreamRead (wt_addr s))) p)"
  have s: "wt_addr s = a" "wt_socket s = fd" "wt_registration s = rb_readiness (wt_iocp s)" using inv by (auto simp: stream_inv_def)
  have x: "io (os_of ?p) = io (os_of p)" and inv1: "stream_inv lc a fd io (Suc 0) True s acc ?p"
    using inv stream_inv_with_os [OF inv] iocp_quiet_calls(3) [OF laws] by (simp_all add: win_os_eq s split: win_state.splits)
  obtain so p2 where rel: "stream_release ws s ?p = Some (so, p2)" "io (os_of p2) = io (os_of p)" and
    so: "case so of
       None \<Rightarrow> 0 + io_reads (io (os_of p)) + io_writes (io (os_of p)) = 0 \<and> left_handles (rb_readiness (wt_iocp s)) ((if True then 2 else 1) - 1) p2
     | Some s' \<Rightarrow> 0 + io_reads (io (os_of p)) + io_writes (io (os_of p)) \<noteq> 0 \<and> stream_inv lc a fd io 0 True s' acc p2 \<and>
         s' = s\<lparr>wt_cnt := wt_cnt s - 1\<rparr>"
    using stream_release_inv [OF laws inv1] unfolding x by blast
  show ?thesis
  proof (cases so)
    case None
    then have "left_handles (rb_readiness (wt_iocp s)) 1 p2" using so by simp
    from registration_drop_left [OF iocp_post [OF laws] this] show ?thesis
      using so rel None by (auto simp: win_stream_drop_def Let_def s(3))
  next
    case (Some s')
    obtain r where r: "queued (rb_readiness (wt_iocp s)) 2 r p2" "io_inv 0 s' r (io (os_of p2)) acc" "wt_iocp s' = wt_iocp s"
      "bind_inv lc (wt_iocp s) (pl_selector p2)" "wt_addr s' = a" "wt_socket s' = fd"
      using so Some by (auto simp: stream_inv_def)
    have io: "io_inv 0 (s'\<lparr>wt_registration := None\<rparr>) r x acc" if "io_inv 0 s' r x acc" for x
      using that by (simp add: io_inv_def read_inv_def)
    obtain q where q: "(case rb_readiness (wt_iocp s) of None \<Rightarrow> Some (pl_queue p2) | Some r \<Rightarrow> registration_drop (win_wakeup ws) (pl_queue p2) r) = Some q"
      "queued (rb_readiness (wt_iocp s)) 1 r (p2\<lparr>pl_queue := q\<rparr>)" "io (os_of (p2\<lparr>pl_queue := q\<rparr>)) = io (os_of p2)"
      using r(1) queued_registration_drop [OF iocp_post [OF laws]] by (cases "rb_readiness (wt_iocp s)") (fastforce simp: queued_def)+
    then have "stream_inv lc a fd io 0 False (s'\<lparr>wt_registration := None\<rparr>) acc (p2\<lparr>pl_queue := q\<rparr>)"
      using r io [OF r(2)] by (auto simp: stream_inv_def)
    then show ?thesis using q(1,3) rel so Some by (simp add: win_stream_drop_def Let_def s(3))
  qed
qed

section \<open>A stream and its environment\<close>

text \<open>The object, if it has not been freed; whether its handle is alive; the bytes that its writes have accepted; and the poll.\<close>

record ('bc, 'o) stream_world =
  sw_stream :: "'bc win_stream option"
  sw_alive :: bool
  sw_accepted :: "u8 list"
  sw_poll :: "'o win_poll"

text \<open>The calls of the program, the packets that arrive, and what everything else does.  With a packet comes the state of the
  operating system after it has been taken from the port.\<close>

datatype 'o stream_op =
  OpRead "nat list" | OpWrite "u8 list list" | OpRegister token ready poll_opt | OpReregister token ready poll_opt
| OpDeregister | OpDrop | OpReadDone completion 'o | OpWriteDone completion 'o | OpOthers "'o win_poll"

text \<open>Calling into a freed object is undefined, like a panic.\<close>

fun stream_run ::
  "'o win_sys \<Rightarrow> ('bc, nat) lazycell_ops \<Rightarrow> 'o stream_op \<Rightarrow> ('bc, 'o) stream_world \<Rightarrow> ('bc, 'o) stream_world option" where
  "stream_run ws lc (OpRead bufs) st = do {
     s \<leftarrow> sw_stream st;
     (res, s1, p1) \<leftarrow> win_stream_readv ws s bufs (sw_poll st);
     Some (st\<lparr>sw_stream := Some s1, sw_poll := p1\<rparr>) }"
| "stream_run ws lc (OpWrite bufs) st = do {
     s \<leftarrow> sw_stream st;
     (res, s1, p1) \<leftarrow> win_stream_writev ws lc s bufs (sw_poll st);
     Some (st\<lparr>sw_stream := Some s1, sw_accepted := sw_accepted st @ accepted bufs res, sw_poll := p1\<rparr>) }"
| "stream_run ws lc (OpRegister tok interest opts) st = do {
     s \<leftarrow> sw_stream st;
     (res, s1, p1) \<leftarrow> win_stream_register ws lc s (sw_poll st) tok interest opts;
     Some (st\<lparr>sw_stream := Some s1, sw_poll := p1\<rparr>) }"
| "stream_run ws lc (OpReregister tok interest opts) st = do {
     s \<leftarrow> sw_stream st;
     (res, s1, p1) \<leftarrow> win_stream_reregister ws lc s (sw_poll st) tok interest opts;
     Some (st\<lparr>sw_stream := Some s1, sw_poll := p1\<rparr>) }"
| "stream_run ws lc OpDeregister st = do {
     s \<leftarrow> sw_stream st;
     (res, s1, p1) \<leftarrow> win_stream_deregister lc s (sw_poll st);
     Some (st\<lparr>sw_stream := Some s1, sw_poll := p1\<rparr>) }"
| "stream_run ws lc OpDrop st = do {
     s \<leftarrow> sw_stream st;
     (so, p1) \<leftarrow> win_stream_drop ws s (sw_poll st);
     Some (st\<lparr>sw_stream := so, sw_alive := False, sw_poll := p1\<rparr>) }"
| "stream_run ws lc (OpReadDone status w) st = do {
     s \<leftarrow> sw_stream st;
     (so, p1) \<leftarrow> read_done ws status s (with_os w (sw_poll st));
     Some (st\<lparr>sw_stream := so, sw_poll := p1\<rparr>) }"
| "stream_run ws lc (OpWriteDone status w) st = do {
     s \<leftarrow> sw_stream st;
     (so, p1) \<leftarrow> write_done ws lc status s (with_os w (sw_poll st));
     Some (st\<lparr>sw_stream := so, sw_poll := p1\<rparr>) }"
| "stream_run ws lc (OpOthers p) st = Some (st\<lparr>sw_poll := p\<rparr>)"

fun stream_enabled :: "('bc, nat) lazycell_ops \<Rightarrow> ('o \<Rightarrow> socket_io) \<Rightarrow> 'o stream_op \<Rightarrow> ('bc, 'o) stream_world \<Rightarrow> bool" where
  "stream_enabled lc io (OpReadDone status w) st \<longleftrightarrow> read_completes status (io (os_of (sw_poll st))) (io w)"
| "stream_enabled lc io (OpWriteDone status w) st \<longleftrightarrow> write_completes status (io (os_of (sw_poll st))) (io w)"
| "stream_enabled lc io (OpOthers p) st \<longleftrightarrow> others_step io (map_option wt_iocp (sw_stream st)) (sw_poll st) p"
| "stream_enabled lc io (OpReregister tok interest opts) st \<longleftrightarrow>
     sw_alive st \<and> awake (pl_queue (sw_poll st)) \<and> pred_option (\<lambda>s. registration_made lc (wt_iocp s)) (sw_stream st)"
| "stream_enabled lc io OpDeregister st \<longleftrightarrow>
     sw_alive st \<and> awake (pl_queue (sw_poll st)) \<and> pred_option (\<lambda>s. registration_made lc (wt_iocp s)) (sw_stream st)"
| "stream_enabled lc io op st \<longleftrightarrow> sw_alive st"

definition fresh_io :: socket_io where
  "fresh_io = \<lparr>io_reads = 0, io_writes = 0, io_data = [], io_sent = [], io_skip = False, io_bound = False\<rparr>"

definition stream_init :: "('bc, nat) lazycell_ops \<Rightarrow> nat \<Rightarrow> fd \<Rightarrow> ('o \<Rightarrow> socket_io) \<Rightarrow> ('bc, 'o) stream_world \<Rightarrow> bool" where
  "stream_init lc a fd io st \<longleftrightarrow> (\<exists>deferred. sw_stream st = Some (win_stream_new lc a fd deferred)) \<and> sw_alive st \<and> sw_accepted st = [] \<and>
     io (os_of (sw_poll st)) = fresh_io \<and> queue_wf (pl_queue (sw_poll st)) \<and> pool_ok (sel_buffers (pl_selector (sw_poll st)))"

abbreviation stream_reach ::
  "'o win_sys \<Rightarrow> ('bc, nat) lazycell_ops \<Rightarrow> nat \<Rightarrow> fd \<Rightarrow> ('o \<Rightarrow> socket_io) \<Rightarrow> ('bc, 'o) stream_world \<Rightarrow> bool" where
  "stream_reach ws lc a fd io \<equiv> reached (stream_enabled lc io) (stream_run ws lc) (stream_init lc a fd io)"

definition world_inv :: "('bc, nat) lazycell_ops \<Rightarrow> nat \<Rightarrow> fd \<Rightarrow> ('o \<Rightarrow> socket_io) \<Rightarrow> ('bc, 'o) stream_world \<Rightarrow> bool" where
  "world_inv lc a fd io st \<longleftrightarrow>
     (let x = io (os_of (sw_poll st))
      in case sw_stream st of
           None \<Rightarrow> \<not> sw_alive st \<and> io_reads x = 0 \<and> io_writes x = 0 \<and> (\<exists>lost. io_sent x @ lost = sw_accepted st)
         | Some s \<Rightarrow> stream_inv lc a fd io (if sw_alive st then 1 else 0) (sw_alive st) s (sw_accepted st) (sw_poll st) \<and>
             (sw_alive st \<or> io_reads x + io_writes x \<noteq> 0))"

lemma write_inv_prefix: "write_inv w r x acc \<Longrightarrow> \<exists>lost. io_sent x @ lost = acc"
  by (auto simp: write_inv_def split: win_state.splits)

lemma stream_inv_prefix: "stream_inv lc a fd io k alive s acc p \<Longrightarrow> \<exists>lost. io_sent (io (os_of p)) @ lost = acc"
  using write_inv_prefix by (fastforce simp: stream_inv_def io_inv_def)

text \<open>The last part of a callback.\<close>

lemma world_inv_released:
  assumes laws: "iocp_laws ws a fd io" and inv: "stream_inv lc a fd io (Suc (if sw_alive st then 1 else 0)) (sw_alive st) s (sw_accepted st) p"
  shows "\<exists>so p'. stream_release ws s p = Some (so, p') \<and> world_inv lc a fd io (st\<lparr>sw_stream := so, sw_poll := p'\<rparr>)"
proof -
  obtain so p' where so: "stream_release ws s p = Some (so, p')" "io (os_of p') = io (os_of p)"
    "case so of
       None \<Rightarrow> (if sw_alive st then 1 else 0) + io_reads (io (os_of p)) + io_writes (io (os_of p)) = 0 \<and>
         left_handles (rb_readiness (wt_iocp s)) ((if sw_alive st then 2 else 1) - 1) p'
     | Some s' \<Rightarrow> (if sw_alive st then 1 else 0) + io_reads (io (os_of p)) + io_writes (io (os_of p)) \<noteq> 0 \<and>
         stream_inv lc a fd io (if sw_alive st then 1 else 0) (sw_alive st) s' (sw_accepted st) p' \<and> s' = s\<lparr>wt_cnt := wt_cnt s - 1\<rparr>"
    using stream_release_inv [OF laws inv] by blast
  then show ?thesis
    using stream_inv_prefix [OF inv] by (cases so) (auto simp: world_inv_def Let_def split: if_splits)
qed

lemma stream_inv_others:
  assumes "stream_inv lc a fd io k alive s acc p" and "others_step io (Some (wt_iocp s)) p p'"
  shows "stream_inv lc a fd io k alive s acc p'"
  using assms(1) others_stepD [OF assms(2)] unfolding stream_inv_def by (cases alive) (simp_all, blast+)

lemma world_inv_user:
  assumes "world_inv lc a fd io st" and "sw_alive st"
  obtains s where "sw_stream st = Some s" "stream_inv lc a fd io 1 True s (sw_accepted st) (sw_poll st)"
  using assms by (cases "sw_stream st") (auto simp: world_inv_def Let_def)

lemma world_inv_userI:
  assumes "stream_inv lc a fd io 1 True s' (sw_accepted st) p'" and "sw_alive st"
  shows "world_inv lc a fd io (st\<lparr>sw_stream := Some s', sw_poll := p'\<rparr>)"
  using assms by (simp add: world_inv_def Let_def)

lemma world_inv_packet:
  assumes "world_inv lc a fd io st" and "io_reads (io (os_of (sw_poll st))) \<noteq> 0 \<or> io_writes (io (os_of (sw_poll st))) \<noteq> 0"
  obtains s where "sw_stream st = Some s"
    "stream_inv lc a fd io (if sw_alive st then 1 else 0) (sw_alive st) s (sw_accepted st) (sw_poll st)"
  using assms by (cases "sw_stream st") (auto simp: world_inv_def Let_def)

lemma world_step_user:
  assumes laws: "iocp_laws ws a fd io" and lc: "lazycell_laws lc" and inv: "world_inv lc a fd io st" and en: "stream_enabled lc io op st"
    and op: "(\<exists>bufs. op = OpRead bufs) \<or> (\<exists>tok i opts. op = OpRegister tok i opts) \<or> (\<exists>tok i opts. op = OpReregister tok i opts) \<or> op = OpDeregister"
  shows "\<exists>st'. stream_run ws lc op st = Some st' \<and> world_inv lc a fd io st'"
proof -
  have alive: "sw_alive st" using en op by auto
  obtain s where s: "sw_stream st = Some s" "stream_inv lc a fd io 1 True s (sw_accepted st) (sw_poll st)"
    by (rule world_inv_user [OF inv alive])
  note ops = win_stream_readv_inv [OF laws s(2)] win_stream_register_inv [OF laws lc s(2)] win_stream_reregister_inv [OF laws s(2)]
  note intro = world_inv_userI [OF _ alive, unfolded One_nat_def]
  from op consider bufs where "op = OpRead bufs" | tok i opts where "op = OpRegister tok i opts"
    | tok i opts where "op = OpReregister tok i opts" | "op = OpDeregister" by blast
  then show ?thesis
  proof cases
    case 1
    then show ?thesis using ops(1) [of bufs] s(1) by (auto intro!: intro)
  next
    case 2
    then show ?thesis using ops(2) [of tok i opts] s(1) by (auto intro!: intro)
  next
    case 3
    then show ?thesis using ops(3) [of tok i opts] en s(1) by (auto intro!: intro)
  next
    case 4
    then show ?thesis using ops(4)  en s(1) by (auto intro!: intro)
  qed
qed

lemma world_step_packet:
  assumes laws: "iocp_laws ws a fd io" and inv: "world_inv lc a fd io st" and en: "stream_enabled lc io op st"
    and op: "(\<exists>status w. op = OpReadDone status w) \<or> (\<exists>status w. op = OpWriteDone status w)"
  shows "\<exists>st'. stream_run ws lc op st = Some st' \<and> world_inv lc a fd io st'"
proof -
  let ?k = "if sw_alive st then 1 else 0 :: nat"
  have "io_reads (io (os_of (sw_poll st))) \<noteq> 0 \<or> io_writes (io (os_of (sw_poll st))) \<noteq> 0"
    using op en by (auto simp: read_completes_def write_completes_def)
  then obtain s where s: "sw_stream st = Some s" "stream_inv lc a fd io ?k (sw_alive st) s (sw_accepted st) (sw_poll st)"
    by (rule world_inv_packet [OF inv])
  have k: "?k \<le> 1" by simp
  from op consider status w where "op = OpReadDone status w" | status w where "op = OpWriteDone status w" by blast
  then show ?thesis
  proof cases
    case 1
    then have "read_completes status (io (os_of (sw_poll st))) (io w)" using en by simp
    from read_done_inv [OF laws s(2) k this] show ?thesis
      using world_inv_released [OF laws, of lc st] s(1) 1 by (fastforce simp: read_done_def)
  next
    case 2
    then have "write_completes status (io (os_of (sw_poll st))) (io w)" using en by simp
    from write_done_inv [OF laws s(2) k this] show ?thesis
      using world_inv_released [OF laws, of lc st] s(1) 2 by (fastforce simp: write_done_def Let_def)
  qed
qed

lemma world_step:
  assumes laws: "iocp_laws ws a fd io" and lc: "lazycell_laws lc" and inv: "world_inv lc a fd io st" and en: "stream_enabled lc io op st"
  shows "\<exists>st'. stream_run ws lc op st = Some st' \<and> world_inv lc a fd io st'"
proof (cases op)
  case (OpWrite bufs)
  then have alive: "sw_alive st" using en by simp
  obtain s where s: "sw_stream st = Some s" "stream_inv lc a fd io 1 True s (sw_accepted st) (sw_poll st)"
    by (rule world_inv_user [OF inv alive])
  from win_stream_writev_inv [OF laws s(2), of bufs] show ?thesis
    using s(1) alive by (auto simp: OpWrite world_inv_def Let_def)
next
  case OpDrop
  then have alive: "sw_alive st" using en by simp
  obtain s where s: "sw_stream st = Some s" "stream_inv lc a fd io 1 True s (sw_accepted st) (sw_poll st)"
    by (rule world_inv_user [OF inv alive])
  obtain so p' where so: "win_stream_drop ws s (sw_poll st) = Some (so, p')" "io (os_of p') = io (os_of (sw_poll st))"
    "case so of
       None \<Rightarrow> io_reads (io (os_of (sw_poll st))) + io_writes (io (os_of (sw_poll st))) = 0 \<and> left_handles (rb_readiness (wt_iocp s)) 0 p'
     | Some s' \<Rightarrow> io_reads (io (os_of (sw_poll st))) + io_writes (io (os_of (sw_poll st))) \<noteq> 0 \<and> stream_inv lc a fd io 0 False s' (sw_accepted st) p'"
    using win_stream_drop_inv [OF laws s(2)] by blast
  then show ?thesis
    using s stream_inv_prefix [OF s(2)] by (cases so) (auto simp: OpDrop world_inv_def Let_def)
next
  case (OpOthers p)
  then show ?thesis
    using inv en stream_inv_others by (cases "sw_stream st") (auto simp: world_inv_def Let_def others_step_io)
qed (use world_step_user [OF laws lc inv en] world_step_packet [OF laws inv en] in auto)

lemma world_inv_init:
  assumes "lazycell_laws lc" and "stream_init lc a fd io st"
  shows "world_inv lc a fd io st"
  using assms
  by (auto simp: stream_init_def world_inv_def stream_inv_def win_stream_new_def ready_binding_new_def binding_new_def bind_inv_def
      rb_registered_def queued_def io_inv_defs fresh_io_def arc_new_def lazycell_laws_def)

definition stream_good ::
  "'o win_sys \<Rightarrow> ('bc, nat) lazycell_ops \<Rightarrow> nat \<Rightarrow> fd \<Rightarrow> ('o \<Rightarrow> socket_io) \<Rightarrow> ('bc, 'o) stream_world \<Rightarrow> bool" where
  "stream_good ws lc a fd io st \<longleftrightarrow> iocp_laws ws a fd io \<and> lazycell_laws lc \<and> world_inv lc a fd io st"

definition stream_owed :: "('o \<Rightarrow> socket_io) \<Rightarrow> ('bc, 'o) stream_world \<Rightarrow> nat" where
  "stream_owed io st = io_reads (io (os_of (sw_poll st))) + io_writes (io (os_of (sw_poll st)))"

interpretation wst: lent_object "stream_run ws lc" "stream_enabled lc io" "stream_good ws lc a fd io"
  "\<lambda>st. map_option (\<lambda>s. unat (wt_cnt s)) (sw_stream st)" sw_alive "stream_owed io" for ws lc a fd io
proof
  show "\<exists>st'. stream_run ws lc op st = Some st' \<and> stream_good ws lc a fd io st'"
    if "stream_good ws lc a fd io st" "stream_enabled lc io op st" for st op
    using world_step [of ws a fd io lc st op] that by (auto simp: stream_good_def)
  show "map_option (\<lambda>s. unat (wt_cnt s)) (sw_stream st) = lent (sw_alive st) (stream_owed io st)" if "stream_good ws lc a fd io st" for st
    using that by (auto simp: stream_good_def world_inv_def stream_inv_def io_inv_def stream_owed_def lent_def Let_def split: option.splits if_splits)
qed

lemma world_reach:
  assumes "iocp_laws ws a fd io" and "lazycell_laws lc" and "stream_reach ws lc a fd io st"
  shows "world_inv lc a fd io st"
  using wst.reached_good [OF assms(3), of a fd] world_inv_init [OF assms(2)] assms(1,2) by (auto simp: stream_good_def)

section \<open>Frames\<close>

text \<open>Only a write and its callback touch the state of the write half.\<close>

lemma stream_read_bufs_frame: "stream_read_bufs ws s amt bufs p = Some (res, s', p') \<Longrightarrow> wt_write s' = wt_write s"
  by (induction bufs arbitrary: amt p)
    (auto simp: win_os_eq split: sum.splits if_splits dest: stream_schedule_read_frame)

lemma win_stream_readv_frame: "win_stream_readv ws s bufs p = Some (res, s', p') \<Longrightarrow> wt_write s' = wt_write s"
  by (auto simp: win_stream_readv_def split: win_state.splits dest: stream_read_bufs_frame stream_schedule_read_frame)

lemma stream_post_register_frame: "stream_post_register ws interest s p = Some (s', p') \<Longrightarrow> wt_write s' = wt_write s"
  by (auto simp: stream_post_register_def Option.bind_eq_Some_conv split: if_splits dest: stream_schedule_read_frame)

lemma stream_schedule_connect_frame: "stream_schedule_connect ws s d p = (res, s', p') \<Longrightarrow> wt_write s' = wt_write s"
  by (auto simp: stream_schedule_connect_def win_os_eq split: sum.splits)

lemma win_stream_register_frame:
  assumes "win_stream_register ws lc s p tok interest opts = Some (res, s', p')"
  shows "wt_write s' = wt_write s"
proof -
  obtain r rb reg p1 where r: "rb_register_socket ws lc (wt_iocp s) (wt_registration s) (wt_socket s) p tok interest opts = Some (r, rb, reg, p1)"
    using assms by (auto simp: win_stream_register_def Option.bind_eq_Some_conv)
  show ?thesis
    using assms r
    by (cases r) (auto simp: win_stream_register_def win_os_eq Let_def split: sum.splits option.splits
        dest!: stream_schedule_connect_frame stream_post_register_frame)
qed

lemma win_stream_reregister_frame:
  assumes "win_stream_reregister ws lc s p tok interest opts = Some (res, s', p')"
  shows "wt_write s' = wt_write s"
proof -
  obtain r p1 where r: "rb_reregister_socket lc (wt_iocp s) (wt_registration s) p tok interest opts = Some (r, p1)"
    using assms by (auto simp: win_stream_reregister_def Option.bind_eq_Some_conv)
  show ?thesis using assms r by (cases r) (auto simp: win_stream_reregister_def dest!: stream_post_register_frame)
qed

lemma stream_release_frame:
  "stream_release ws s p = Some (Some s', p') \<Longrightarrow> wt_write s' = wt_write s \<and> wt_iocp s' = wt_iocp s \<and> p' = p"
  by (auto simp: stream_release_def arc_drop_def win_os_eq Option.bind_eq_Some_conv split: bool.splits prod.splits)

lemma win_stream_drop_frame: "win_stream_drop ws s p = Some (Some s', p') \<Longrightarrow> wt_write s' = wt_write s"
  by (auto simp: win_stream_drop_def Let_def Option.bind_eq_Some_conv dest: stream_release_frame)

lemma read_done_frame: "read_done ws status s p = Some (Some s', p') \<Longrightarrow> wt_write s' = wt_write s"
  by (auto simp: read_done_def connect_done_def win_os_eq Option.bind_eq_Some_conv split: win_state.splits sum.splits if_splits
      dest!: stream_release_frame stream_schedule_read_frame)

lemmas write_frames = win_stream_readv_frame win_stream_register_frame win_stream_reregister_frame win_stream_drop_frame read_done_frame

text \<open>A packet that ends a write makes the stream writable.\<close>

lemma write_done_all:
  assumes laws: "iocp_laws ws a fd io" and inv: "stream_inv lc a fd io k alive s acc p" and k: "k \<le> 1"
    and comp: "write_completes status (io (os_of p)) (io w)" and all: "unat (cs_bytes status) = length (io_data (io (os_of p)))"
    and run: "write_done ws lc status s (with_os w p) = Some (so, p')"
  shows "io_sent (io w) = acc"
    and "so = Some s' \<Longrightarrow> wt_write s' = StEmpty \<and> (\<exists>r. rb_get_readiness (wt_iocp s') p' = Some r \<and> ready_is_writable r)"
proof -
  obtain r where r: "queued (rb_readiness (wt_iocp s)) (if alive then 2 else 1) r p" "io_inv k s r (io (os_of p)) acc"
    using inv by (auto simp: stream_inv_def)
  obtain buf pos where w: "wt_write s = StPending (buf, pos)" "pos + unat (cs_bytes status) \<le> length (bv_data buf)"
    "io_inv (Suc k) (s\<lparr>wt_write := StEmpty\<rparr>) r (io w) (io_sent (io w))" "io_sent (io w) @ drop (pos + unat (cs_bytes status)) (bv_data buf) = acc"
    by (rule io_inv_write_done [OF r(2) k comp])
  have "io_data (io (os_of p)) = drop pos (bv_data buf)" "pos \<le> length (bv_data buf)" using r(2) w(1) by (auto simp: io_inv_def write_inv_def)
  then have n: "pos + unat (cs_bytes status) = length (bv_data buf)" using all by simp
  then show sent: "io_sent (io w) = acc" using w(4) by simp
  have reg: "rb_registered (wt_iocp (s\<lparr>wt_write := StEmpty\<rparr>))" using stream_inv_registered [OF inv] w(1) by simp
  have inv': "stream_inv lc a fd io (Suc k) alive (s\<lparr>wt_write := StEmpty\<rparr>) (io_sent (io (os_of (with_os w p)))) (with_os w p)"
    using inv w(3) r(1) by (auto simp: stream_inv_def)
  obtain p1 r1 where p1: "stream_add_readiness ws (s\<lparr>wt_write := StEmpty\<rparr>) ready_writable (with_os w p) = Some p1"
    "queued (rb_readiness (wt_iocp s)) (if alive then 2 else 1) (ready_bitor ready_writable r1) p1"
    using stream_add_readiness_inv [OF laws inv' reg, of ready_writable] by (auto simp: ready_rules)
  assume "so = Some s'"
  then have "stream_release ws (s\<lparr>wt_write := StEmpty\<rparr>) p1 = Some (Some s', p')" using run w(1) n p1(1) by (auto simp: write_done_def)
  from stream_release_frame [OF this] rb_get_readiness_queued [OF p1(2)]
  show "wt_write s' = StEmpty \<and> (\<exists>r. rb_get_readiness (wt_iocp s') p' = Some r \<and> ready_is_writable r)" by (simp add: ready_rules)
qed

section \<open>An instance\<close>

text \<open>A system with one socket, whose state is what is observed of it.  Reads are always in flight; of a longer write four bytes go
  at once; bytes that start with 255 cannot be sent.\<close>

definition one_socket :: "socket_io win_sys" where
  "one_socket = offline_sys
     \<lparr>ws_add_socket := (\<lambda>port k s w. if io_bound w then (Inl (OsError 87), w) else (Inr (), w\<lparr>io_bound := True\<rparr>)),
      ws_notification_modes := (\<lambda>s flags w. (1, w\<lparr>io_skip := True\<rparr>)),
      ws_read := (\<lambda>s n w. (Inl win_would_block, w)),
      ws_read_overlapped := (\<lambda>s ov w. (Inr None, w\<lparr>io_reads := io_reads w + 1\<rparr>)),
      ws_write_overlapped := (\<lambda>s b ov w.
        if take 1 b = [255] then (Inl (OsError WSAECONNRESET), w)
        else if io_skip w \<and> 4 < length b then (Inr (Some 4), w\<lparr>io_sent := io_sent w @ take 4 b\<rparr>)
        else (Inr None, w\<lparr>io_writes := io_writes w + 1, io_data := b\<rparr>)),
      ws_connect_overlapped := (\<lambda>s d ov w. (Inr None, w\<lparr>io_reads := io_reads w + 1\<rparr>)),
      ws_connect_complete := (\<lambda>s w. (Inr (), w))\<rparr>"

lemma one_socket_laws: "iocp_laws one_socket 7 3 (\<lambda>w. w)"
  by (simp add: iocp_laws_def post_laws_def one_socket_def offline_sys_def read_starts_def write_starts_def connect_pends_def) (auto split: if_splits)?

definition one_poll :: "socket_io win_poll" where
  "one_poll = offline_poll fresh_io"

text \<open>A run: the stream is registered and writes, and its handle is dropped while a read and the rest of the write are in flight.\<close>

definition run0 :: "(nat option, socket_io) stream_world" where
  "run0 = \<lparr>sw_stream = Some (win_stream_new option_cell 7 3 None), sw_alive = True, sw_accepted = [], sw_poll = one_poll\<rparr>"

definition run1 :: "(nat option, socket_io) stream_world" where
  "run1 = the (stream_run one_socket option_cell (OpRegister (Token 5) (ready_bitor ready_readable ready_writable) pollopt_edge) run0)"

definition run2 :: "(nat option, socket_io) stream_world" where
  "run2 = the (stream_run one_socket option_cell (OpWrite [[1, 2, 3], [4, 5, 6]]) run1)"

definition run3 :: "(nat option, socket_io) stream_world" where
  "run3 = the (stream_run one_socket option_cell OpDrop run2)"

definition run4 :: "(nat option, socket_io) stream_world" where
  "run4 = the (stream_run one_socket option_cell (OpReadDone (packet 0) \<lparr>io_reads = 0, io_writes = 1, io_data = [5, 6],
     io_sent = [1, 2, 3, 4], io_skip = True, io_bound = True\<rparr>) run3)"

definition run_error :: "(nat option, socket_io) stream_world" where
  "run_error = the (stream_run one_socket option_cell (OpWrite [[255]]) run1)"

lemma reach_run0: "stream_reach one_socket option_cell 7 3 (\<lambda>w. w) run0"
  by (rule reached_init) (auto simp: stream_init_def run0_def one_poll_def offline_poll)

lemma reach_the:
  assumes "stream_reach one_socket option_cell 7 3 (\<lambda>w. w) st" and "stream_enabled option_cell (\<lambda>w. w) op st"
  shows "stream_reach one_socket option_cell 7 3 (\<lambda>w. w) (the (stream_run one_socket option_cell op st))"
  by (rule wst.reached_the [OF assms(1) _ assms(2), of 7 3])
    (simp add: stream_good_def one_socket_laws option_cell_laws world_inv_init [OF option_cell_laws])

lemma run_io:
  "sw_alive run0" "sw_alive run1" "sw_alive run2" 
  "os_of (sw_poll run3) = \<lparr>io_reads = 1, io_writes = 1, io_data = [5, 6], io_sent = [1, 2, 3, 4], io_skip = True, io_bound = True\<rparr>"
  "os_of (sw_poll run4) = \<lparr>io_reads = 0, io_writes = 1, io_data = [5, 6], io_sent = [1, 2, 3, 4], io_skip = True, io_bound = True\<rparr>"
  by code_simp+

lemma reach_runs:
  "stream_reach one_socket option_cell 7 3 (\<lambda>w. w) run1" "stream_reach one_socket option_cell 7 3 (\<lambda>w. w) run4"
  "stream_reach one_socket option_cell 7 3 (\<lambda>w. w) run_error"
proof -
  show 1: "stream_reach one_socket option_cell 7 3 (\<lambda>w. w) run1"
    unfolding run1_def by (rule reach_the [OF reach_run0]) (simp add: run_io)
  have 2: "stream_reach one_socket option_cell 7 3 (\<lambda>w. w) run2"
    unfolding run2_def by (rule reach_the [OF 1]) (simp add: run_io)
  have 3: "stream_reach one_socket option_cell 7 3 (\<lambda>w. w) run3"
    unfolding run3_def by (rule reach_the [OF 2]) (simp add: run_io)
  show "stream_reach one_socket option_cell 7 3 (\<lambda>w. w) run4"
    unfolding run4_def by (rule reach_the [OF 3]) (simp add: run_io read_completes_def packet_def)
  show "stream_reach one_socket option_cell 7 3 (\<lambda>w. w) run_error"
    unfolding run_error_def by (rule reach_the [OF 1]) (simp add: run_io)
qed

lemma write_inv_rest:
  assumes "write_inv st r x acc"
  shows "\<exists>rest. io_sent x @ rest = acc \<and> (st = StEmpty \<longrightarrow> rest = []) \<and> (\<forall>buf pos. st = StPending (buf, pos) \<longrightarrow> rest = drop pos (bv_data buf))"
  using assms by (cases st) (auto simp: write_inv_def)

lemma world_inv_rest:
  assumes "world_inv lc a fd io st"
  shows "\<exists>rest. io_sent (io (os_of (sw_poll st))) @ rest = sw_accepted st \<and>
      (\<forall>s. sw_stream st = Some s \<longrightarrow>
        (wt_write s = StEmpty \<longrightarrow> rest = []) \<and> (\<forall>buf pos. wt_write s = StPending (buf, pos) \<longrightarrow> rest = drop pos (bv_data buf)))"
proof (cases "sw_stream st")
  case None
  then show ?thesis using assms by (simp add: world_inv_def Let_def)
next
  case (Some s)
  then obtain r where "write_inv (wt_write s) r (io (os_of (sw_poll st))) (sw_accepted st)"
    using assms by (auto simp: world_inv_def Let_def stream_inv_def io_inv_def)
  from write_inv_rest [OF this] show ?thesis by (simp add: Some)
qed

section \<open>Properties\<close>

interpretation wie: event_buffer win_events_push win_events_len win_events_get "\<lambda>e. e"
  by unfold_locales (auto simp: win_events_get_def win_events_len_def win_events_push_def nth_append)





text \<open>C36.  A failed write on a Windows stream is never reported.  Once a write has failed, the stream is reported as writable and
  every write returns \<open>WouldBlock\<close>; no call and no packet ever changes that.\<close>

theorem win_stream_write_error_sticks:
  assumes "iocp_laws ws a fd io" and "lazycell_laws lc" and "stream_reach ws lc a fd io st"
    and "sw_stream st = Some s" and "wt_write s = StError e"
  shows "win_stream_writev ws lc s bufs (sw_poll st) = Some (Inl wouldblock, s, sw_poll st) \<and>
    (\<exists>r. rb_get_readiness (wt_iocp s) (sw_poll st) = Some r \<and> ready_is_writable r) \<and>
    (\<forall>op st' s'. stream_enabled lc io op st \<and> stream_run ws lc op st = Some st' \<and> sw_stream st' = Some s' \<longrightarrow> wt_write s' = StError e)"
proof (intro conjI allI impI)
  have inv: "world_inv lc a fd io st" by (rule world_reach [OF assms(1-3)])
  then obtain r where r: "queued (rb_readiness (wt_iocp s)) (if sw_alive st then 2 else 1) r (sw_poll st)"
    "write_inv (StError e) r (io (os_of (sw_poll st))) (sw_accepted st)"
    using assms(4,5) by (auto simp: world_inv_def Let_def stream_inv_def io_inv_def)
  show "win_stream_writev ws lc s bufs (sw_poll st) = Some (Inl wouldblock, s, sw_poll st)"
    using assms(5) by (simp add: win_stream_writev_def)
  show "\<exists>r. rb_get_readiness (wt_iocp s) (sw_poll st) = Some r \<and> ready_is_writable r"
    using rb_get_readiness_queued [OF r(1)] r(2) by (simp add: write_inv_def)
  fix op st' s'
  assume op: "stream_enabled lc io op st \<and> stream_run ws lc op st = Some st' \<and> sw_stream st' = Some s'"
  then have "\<nexists>status w. op = OpWriteDone status w" using r(2) by (auto simp: write_completes_def write_inv_def)
  then show "wt_write s' = StError e"
    using op assms(4,5)
    by (cases op) (auto simp: Option.bind_eq_Some_conv win_stream_writev_def win_stream_deregister_def dest!: write_frames)
qed

theorem win_stream_write_error_sticks_witness:
  "sw_stream run_error \<noteq> None \<and>
   win_stream_writev one_socket option_cell (the (sw_stream run_error)) [[1]] (sw_poll run_error) =
     Some (Inl wouldblock, the (sw_stream run_error), sw_poll run_error)"
proof -
  have "sw_stream run_error \<noteq> None" "wt_write (the (sw_stream run_error)) = StError (OsError WSAECONNRESET)" by code_simp+
  then show ?thesis
    using win_stream_write_error_sticks [OF one_socket_laws option_cell_laws reach_runs(3)] by auto
qed

end
