(* ===== verification/Mio_Windows_Datagrams.thy ===== *)
theory Mio_Windows_Datagrams
  imports Mio_Windows_Queue Mio_Instances Mio_Objects
begin

text \<open>
  The Windows UDP sockets: the documented behaviour of their completion port, the invariant of a socket with its reference
  count, its readiness and the operations in flight, and what every call and every callback does to it.
\<close>

section \<open>Completion ports\<close>

text \<open>What can be observed of one socket: the packets that the port owes for its receive and its send, the datagrams handed to
  the network, and whether the socket belongs to a port.\<close>

record udp_io =
  ui_reads :: nat
  ui_writes :: nat
  ui_sent :: "(u8 list \<times> socket_addr) list"
  ui_bound :: bool

text \<open>Documented behaviour.  An operation that starts owes a packet, whether it completes at once or not; one that cannot
  start owes none.  Cancelling does not take back the packet, and a handle joins one port only.\<close>

definition udp_laws :: "'o win_sys \<Rightarrow> nat \<Rightarrow> fd \<Rightarrow> ('o \<Rightarrow> udp_io) \<Rightarrow> bool" where
  "udp_laws ws a s io \<longleftrightarrow>
     post_laws ws io \<and>
     (\<forall>w. io (snd (ws_cancel_io ws s (UdpRead a) w)) = io w) \<and>
     (\<forall>w. io (ws_close ws s w) = io w) \<and>
     (\<forall>port k w. case ws_add_socket ws port k s w of
        (Inl _, w') \<Rightarrow> io w' = io w
      | (Inr _, w') \<Rightarrow> \<not> ui_bound (io w) \<and> io w' = (io w)\<lparr>ui_bound := True\<rparr>) \<and>
     (\<forall>n w. case ws_recv_from_overlapped ws s n (UdpRead a) w of
        (Inl _, w') \<Rightarrow> io w' = io w
      | (Inr _, w') \<Rightarrow> io w' = (io w)\<lparr>ui_reads := ui_reads (io w) + 1\<rparr>) \<and>
     (\<forall>b d w. case ws_send_to_overlapped ws s b d (UdpWrite a) w of
        (Inl _, w') \<Rightarrow> io w' = io w
      | (Inr _, w') \<Rightarrow> io w' = (io w)\<lparr>ui_writes := ui_writes (io w) + 1, ui_sent := ui_sent (io w) @ [(b, d)]\<rparr>)"

definition recv_completes :: "udp_io \<Rightarrow> udp_io \<Rightarrow> bool" where
  "recv_completes x x' \<longleftrightarrow> ui_reads x \<noteq> 0 \<and> x' = x\<lparr>ui_reads := ui_reads x - 1\<rparr>"

definition send_completes :: "udp_io \<Rightarrow> udp_io \<Rightarrow> bool" where
  "send_completes x x' \<longleftrightarrow> ui_writes x \<noteq> 0 \<and> x' = x\<lparr>ui_writes := ui_writes x - 1\<rparr>"

lemma udp_post: "udp_laws ws a fd io \<Longrightarrow> post_laws ws io"
  by (simp add: udp_laws_def)

lemma udp_quiet_calls:
  assumes "udp_laws ws a fd io"
  shows "io (snd (win_cancel ws fd (UdpRead a) w)) = io w" and "io (ws_close ws fd w) = io w"
proof -
  have law: "io (snd (ws_cancel_io ws fd (UdpRead a) w)) = io w" "io (ws_close ws fd w) = io w"
    using assms by (simp_all add: udp_laws_def)
  then show "io (snd (win_cancel ws fd (UdpRead a) w)) = io w" "io (ws_close ws fd w) = io w"
    by (simp_all add: win_cancel_def case_prod_beta)
qed

lemma udp_starts:
  assumes "udp_laws ws a fd io"
  shows "ws_add_socket ws port k fd w = (res, w') \<Longrightarrow>
      (case res of Inl _ \<Rightarrow> io w' = io w | Inr _ \<Rightarrow> \<not> ui_bound (io w) \<and> io w' = (io w)\<lparr>ui_bound := True\<rparr>)"
    and "ws_recv_from_overlapped ws fd n (UdpRead a) w = (res1, w1) \<Longrightarrow>
      (case res1 of Inl _ \<Rightarrow> io w1 = io w | Inr _ \<Rightarrow> io w1 = (io w)\<lparr>ui_reads := ui_reads (io w) + 1\<rparr>)"
    and "ws_send_to_overlapped ws fd b d (UdpWrite a) w = (res2, w2) \<Longrightarrow>
      (case res2 of Inl _ \<Rightarrow> io w2 = io w
       | Inr _ \<Rightarrow> io w2 = (io w)\<lparr>ui_writes := ui_writes (io w) + 1, ui_sent := ui_sent (io w) @ [(b, d)]\<rparr>)"
proof -
  have "\<forall>port k w. case ws_add_socket ws port k fd w of (Inl _, w') \<Rightarrow> io w' = io w
      | (Inr _, w') \<Rightarrow> \<not> ui_bound (io w) \<and> io w' = (io w)\<lparr>ui_bound := True\<rparr>"
    "\<forall>n w. case ws_recv_from_overlapped ws fd n (UdpRead a) w of (Inl _, w') \<Rightarrow> io w' = io w
      | (Inr _, w') \<Rightarrow> io w' = (io w)\<lparr>ui_reads := ui_reads (io w) + 1\<rparr>"
    "\<forall>b d w. case ws_send_to_overlapped ws fd b d (UdpWrite a) w of (Inl _, w') \<Rightarrow> io w' = io w
      | (Inr _, w') \<Rightarrow> io w' = (io w)\<lparr>ui_writes := ui_writes (io w) + 1, ui_sent := ui_sent (io w) @ [(b, d)]\<rparr>"
    using assms by (simp_all add: udp_laws_def)
  note law = this(1) [rule_format, where port = port and k = k and w = w] this(2) [rule_format, where n = n and w = w]
    this(3) [rule_format, where b = b and d = d and w = w]
  show "ws_add_socket ws port k fd w = (res, w') \<Longrightarrow>
      (case res of Inl _ \<Rightarrow> io w' = io w | Inr _ \<Rightarrow> \<not> ui_bound (io w) \<and> io w' = (io w)\<lparr>ui_bound := True\<rparr>)"
    using law(1) by (simp split: sum.splits)
  show "ws_recv_from_overlapped ws fd n (UdpRead a) w = (res1, w1) \<Longrightarrow>
      (case res1 of Inl _ \<Rightarrow> io w1 = io w | Inr _ \<Rightarrow> io w1 = (io w)\<lparr>ui_reads := ui_reads (io w) + 1\<rparr>)"
    using law(2) by (simp split: sum.splits)
  show "ws_send_to_overlapped ws fd b d (UdpWrite a) w = (res2, w2) \<Longrightarrow>
      (case res2 of Inl _ \<Rightarrow> io w2 = io w
       | Inr _ \<Rightarrow> io w2 = (io w)\<lparr>ui_writes := ui_writes (io w) + 1, ui_sent := ui_sent (io w) @ [(b, d)]\<rparr>)"
    using law(3) by (simp split: sum.splits)
qed

section \<open>The invariant\<close>

definition udp_pending :: "('p, 'r) win_state \<Rightarrow> nat" where
  "udp_pending st = (case st of StPending _ \<Rightarrow> 1 | _ \<Rightarrow> 0)"

definition udp_over :: "('p, 'r) win_state \<Rightarrow> bool" where
  "udp_over st \<longleftrightarrow> (case st of StReady _ \<Rightarrow> True | StError _ \<Rightarrow> True | _ \<Rightarrow> False)"

lemma udp_state_simps [simp]:
  "udp_pending StEmpty = 0" "udp_pending (StPending b) = 1" "udp_pending (StReady d) = 0" "udp_pending (StError e) = 0"
  "\<not> udp_over StEmpty" "\<not> udp_over (StPending b)" "udp_over (StReady d)" "udp_over (StError e)"
  by (simp_all add: udp_pending_def udp_over_def)

text \<open>\<open>k\<close> references are held by the handle and by a running callback; every other one is lent to an operation in flight.  A
  receive that is over is reported as readable; a send is never over, it is forgotten.\<close>

definition udp_io_inv :: "nat \<Rightarrow> 'bc win_udp \<Rightarrow> ready \<Rightarrow> udp_io \<Rightarrow> (u8 list \<times> socket_addr) list \<Rightarrow> bool" where
  "udp_io_inv k u r x acc \<longleftrightarrow>
     unat (wu_cnt u) = k + ui_reads x + ui_writes x \<and> k \<le> 2 \<and>
     (if rb_registered (wu_iocp u) then ui_bound x else wu_read u = StEmpty \<and> wu_write u = StEmpty) \<and>
     ui_reads x = udp_pending (wu_read u) \<and> ui_writes x = udp_pending (wu_write u) \<and> \<not> udp_over (wu_write u) \<and>
     (udp_over (wu_read u) \<longrightarrow> ready_is_readable r) \<and> ui_sent x = acc"

definition udp_at ::
  "('bc, nat) lazycell_ops \<Rightarrow> nat \<Rightarrow> fd \<Rightarrow> ('o \<Rightarrow> udp_io) \<Rightarrow> nat \<Rightarrow> bool \<Rightarrow> 'bc win_udp \<Rightarrow> (u8 list \<times> socket_addr) list \<Rightarrow>
     ready \<Rightarrow> 'o win_poll \<Rightarrow> bool" where
  "udp_at lc a fd io k alive u acc r p \<longleftrightarrow>
     wu_addr u = a \<and> wu_socket u = fd \<and> bind_inv lc (wu_iocp u) (pl_selector p) \<and>
     wu_registration u = (if alive then rb_readiness (wu_iocp u) else None) \<and>
     queued (rb_readiness (wu_iocp u)) (if alive then 2 else 1) r p \<and> udp_io_inv k u r (io (os_of p)) acc"

definition udp_inv ::
  "('bc, nat) lazycell_ops \<Rightarrow> nat \<Rightarrow> fd \<Rightarrow> ('o \<Rightarrow> udp_io) \<Rightarrow> nat \<Rightarrow> bool \<Rightarrow> 'bc win_udp \<Rightarrow> (u8 list \<times> socket_addr) list \<Rightarrow>
     'o win_poll \<Rightarrow> bool" where
  "udp_inv lc a fd io k alive u acc p \<longleftrightarrow> (\<exists>r. udp_at lc a fd io k alive u acc r p)"

lemma udp_io_inv_cnt:
  assumes "udp_io_inv k u r x acc"
  shows "unat (arc_clone (wu_cnt u)) = unat (wu_cnt u) + 1"
proof -
  have "unat (wu_cnt u) \<le> 4"
    using assms by (cases "wu_read u"; cases "wu_write u"; simp add: udp_io_inv_def)
  then have "unat (wu_cnt u) + unat (1 :: usize) < 2 ^ 64" by simp
  then show ?thesis by (simp add: arc_clone_def unat_word_ariths)
qed

lemma udp_io_inv_starts:
  assumes "udp_io_inv k u r x acc" and "rb_registered (wu_iocp u)"
  shows "wu_read u = StEmpty \<Longrightarrow>
      udp_io_inv k (u\<lparr>wu_read := StPending b, wu_cnt := arc_clone (wu_cnt u)\<rparr>) r (x\<lparr>ui_reads := ui_reads x + 1\<rparr>) acc"
    and "wu_write u = StEmpty \<Longrightarrow>
      udp_io_inv k (u\<lparr>wu_write := StPending b, wu_cnt := arc_clone (wu_cnt u)\<rparr>) r
        (x\<lparr>ui_writes := ui_writes x + 1, ui_sent := ui_sent x @ [m]\<rparr>) (acc @ [m])"
    and "wu_read u = StEmpty \<Longrightarrow> udp_over st \<Longrightarrow> ready_is_readable r \<Longrightarrow> udp_io_inv k (u\<lparr>wu_read := st\<rparr>) r x acc"
    and "udp_over (wu_read u) \<Longrightarrow> udp_io_inv k (u\<lparr>wu_read := StEmpty\<rparr>) r x acc"
  using assms(1,2) udp_io_inv_cnt [OF assms(1)] by (auto simp: udp_io_inv_def udp_pending_def udp_over_def split: win_state.splits)

text \<open>When a packet arrives, the reference lent to the operation belongs to its callback.\<close>

lemma udp_io_inv_ends:
  assumes "udp_io_inv k u r x acc" and "k \<le> 1"
  shows "recv_completes x x' \<Longrightarrow> \<exists>b. wu_read u = StPending b \<and> udp_io_inv (Suc k) (u\<lparr>wu_read := StEmpty\<rparr>) r x' acc"
    and "send_completes x x' \<Longrightarrow> udp_io_inv (Suc k) (u\<lparr>wu_write := StEmpty\<rparr>) r x' acc"
    and "recv_completes x x' \<or> send_completes x x' \<Longrightarrow> rb_registered (wu_iocp u)"
  using assms
  by (cases "wu_read u"; cases "wu_write u"; auto simp: udp_io_inv_def recv_completes_def send_completes_def split: if_splits)+

lemma udp_io_inv_release:
  assumes "udp_io_inv (Suc k) u r x acc"
  shows "wu_cnt u = 1 \<longleftrightarrow> k + ui_reads x + ui_writes x = 0" and "udp_io_inv k (u\<lparr>wu_cnt := wu_cnt u - 1\<rparr>) r x acc"
proof -
  have n: "unat (wu_cnt u) = Suc (k + ui_reads x + ui_writes x)" using assms by (simp add: udp_io_inv_def)
  then show "wu_cnt u = 1 \<longleftrightarrow> k + ui_reads x + ui_writes x = 0" by (simp add: word_unat_eq_iff)
  have "wu_cnt u \<noteq> 0" using n by auto
  then have "unat (wu_cnt u - 1) = k + ui_reads x + ui_writes x" using n by (simp add: unat_minus_one)
  then show "udp_io_inv k (u\<lparr>wu_cnt := wu_cnt u - 1\<rparr>) r x acc" using assms by (simp add: udp_io_inv_def)
qed

section \<open>Readiness and buffers\<close>

lemma udp_readiness_at:
  assumes laws: "udp_laws ws a fd io" and inv: "udp_at lc a fd io k alive u acc r p" and reg: "rb_registered (wu_iocp u)"
  shows "\<not> event_is_drop r' \<Longrightarrow> \<exists>p'. udp_add_readiness ws u r' p = Some p' \<and> udp_at lc a fd io k alive u acc (ready_bitor r' r) p'"
    and "wu_read u = StEmpty \<or> r' = ready_writable \<Longrightarrow>
      \<exists>p'. Option.bind (rb_get_readiness (wu_iocp u) p) (\<lambda>cur. rb_set_readiness ws (wu_iocp u) (ready_bitand cur (ready_not r')) p) = Some p' \<and>
        udp_at lc a fd io k alive u acc (ready_bitand r (ready_not r')) p' \<and> quiet io p p'"
proof -
  have q: "queued (rb_readiness (wu_iocp u)) (if alive then 2 else 1) r p" using inv by (simp add: udp_at_def)
  note change = rb_change_readiness [OF udp_post [OF laws] q reg]
  show "\<exists>p'. udp_add_readiness ws u r' p = Some p' \<and> udp_at lc a fd io k alive u acc (ready_bitor r' r) p'" if "\<not> event_is_drop r'"
    using change(1) [OF that] inv
    by (auto simp: udp_add_readiness_def udp_at_def udp_io_inv_def quiet_def ready_rules)
  show "\<exists>p'. Option.bind (rb_get_readiness (wu_iocp u) p) (\<lambda>cur. rb_set_readiness ws (wu_iocp u) (ready_bitand cur (ready_not r')) p) = Some p' \<and>
        udp_at lc a fd io k alive u acc (ready_bitand r (ready_not r')) p' \<and> quiet io p p'"
    if "wu_read u = StEmpty \<or> r' = ready_writable"
    using change(2) [of r'] inv that by (auto simp: udp_at_def udp_io_inv_def quiet_def ready_rules)
qed

lemma udp_buffer_at:
  assumes "udp_at lc a fd io k alive u acc r p"
  shows "udp_at lc a fd io k alive u acc r (rb_put_buffer lc (wu_iocp u) buf p)"
    and "rb_get_buffer lc (wu_iocp u) n p = (v, p') \<Longrightarrow> udp_at lc a fd io k alive u acc r p' \<and> bv_data v = [] \<and> os_of p' = os_of p"
  using assms bind_inv_put_buffer [of lc "wu_iocp u" p] bind_inv_get_buffer [of lc "wu_iocp u" p n v p'] by (auto simp: udp_at_def)

lemma udp_at_registered:
  assumes "udp_at lc a fd io k alive u acc r p" and "wu_read u \<noteq> StEmpty \<or> wu_write u \<noteq> StEmpty"
  shows "rb_registered (wu_iocp u)"
  using assms by (auto simp: udp_at_def udp_io_inv_def split: if_splits)

section \<open>Sending and receiving\<close>

lemma udp_schedule_read_at:
  assumes laws: "udp_laws ws a fd io" and inv: "udp_at lc a fd io k alive u acc r p" and reg: "rb_registered (wu_iocp u)"
  shows "\<exists>u' r' p'. udp_schedule_read ws lc u p = Some (u', p') \<and> udp_at lc a fd io k alive u' acc r' p' \<and>
    wu_iocp u' = wu_iocp u \<and> wu_write u' = wu_write u"
proof (cases "wu_read u = StEmpty")
  case False
  then show ?thesis using inv by (auto simp: udp_schedule_read_def)
next
  case empty: True
  let ?r = "ready_bitand r (ready_not ready_readable)"
  obtain p1 where p1: "Option.bind (rb_get_readiness (wu_iocp u) p)
      (\<lambda>cur. rb_set_readiness ws (wu_iocp u) (ready_bitand cur (ready_not ready_readable)) p) = Some p1"
    "udp_at lc a fd io k alive u acc ?r p1"
    using udp_readiness_at(2) [OF laws inv reg, of ready_readable] empty by blast
  obtain v p2 where v: "rb_get_buffer lc (wu_iocp u) UDP_BUFFER p1 = (v, p2)" by fastforce
  have at2: "udp_at lc a fd io k alive u acc ?r p2" using udp_buffer_at(2) [OF p1(2) v] by simp
  then have s: "wu_addr u = a" "wu_socket u = fd" by (simp_all add: udp_at_def)
  obtain res w where w: "ws_recv_from_overlapped ws fd (bv_cap v) (UdpRead a) (os_of p2) = (res, w)" by fastforce
  note law = udp_starts(2) [OF laws w]
  have run: "udp_schedule_read ws lc u p = (case res of
      Inr _ \<Rightarrow> Some (u\<lparr>wu_read := StPending v, wu_cnt := arc_clone (wu_cnt u)\<rparr>, with_os w p2)
    | Inl e \<Rightarrow> map_option (\<lambda>p4. (u\<lparr>wu_read := StError e\<rparr>, rb_put_buffer lc (wu_iocp u) v p4)) (udp_add_readiness ws u ready_readable (with_os w p2)))"
    using p1(1) by (auto simp: udp_schedule_read_def empty Option.bind_eq_Some_conv v win_os_eq s w split: sum.splits)
  show ?thesis
  proof (cases res)
    case (Inr n)
    have "udp_at lc a fd io k alive (u\<lparr>wu_read := StPending v, wu_cnt := arc_clone (wu_cnt u)\<rparr>) acc ?r (with_os w p2)"
      using at2 law Inr udp_io_inv_starts(1) [OF _ reg empty, of k ?r "io (os_of p2)" acc v] by (simp add: udp_at_def)
    then show ?thesis using run Inr by auto
  next
    case (Inl e)
    have "udp_at lc a fd io k alive u acc ?r (with_os w p2)" using at2 law Inl by (simp add: udp_at_def)
    then obtain p4 where p4: "udp_add_readiness ws u ready_readable (with_os w p2) = Some p4"
      "udp_at lc a fd io k alive u acc (ready_bitor ready_readable ?r) p4"
      using udp_readiness_at(1) [OF laws _ reg, of lc k alive acc ?r "with_os w p2" ready_readable] by (auto simp: ready_rules)
    have "udp_at lc a fd io k alive (u\<lparr>wu_read := StError e\<rparr>) acc (ready_bitor ready_readable ?r) (rb_put_buffer lc (wu_iocp u) v p4)"
      using udp_buffer_at(1) [OF p4(2), of v]
        udp_io_inv_starts(3) [OF _ reg empty, of k "ready_bitor ready_readable ?r" _ acc "StError e"]
      by (simp add: udp_at_def ready_rules)
    then show ?thesis using run Inl p4(1) by auto
  qed
qed

text \<open>A datagram that is accepted is handed to the network as a whole and with its address; one that is refused
  leaves nothing but the lost readiness.\<close>

definition udp_accepted :: "u8 list \<Rightarrow> socket_addr \<Rightarrow> nat option io_result \<Rightarrow> (u8 list \<times> socket_addr) list" where
  "udp_accepted buf target res = (case res of Inr (Some _) \<Rightarrow> [(buf, target)] | _ \<Rightarrow> [])"

lemma win_udp_send_to_at:
  assumes laws: "udp_laws ws a fd io" and inv: "udp_at lc a fd io k alive u acc r p"
  shows "\<exists>res u' r' p'. win_udp_send_to ws lc u buf target p = Some (res, u', p') \<and>
    udp_at lc a fd io k alive u' (acc @ udp_accepted buf target res) r' p' \<and>
    (case res of
       Inr (Some n) \<Rightarrow> n = length buf \<and> udp_pending (wu_write u') = 1
     | Inr None \<Rightarrow> u' = u \<and> p' = p \<and> (wu_write u \<noteq> StEmpty \<or> \<not> rb_registered (wu_iocp u))
     | Inl _ \<Rightarrow> u' = u \<and> wu_write u = StEmpty \<and> rb_registered (wu_iocp u) \<and> \<not> ready_is_writable r')"
proof (cases "wu_write u \<noteq> StEmpty \<or> \<not> rb_registered (wu_iocp u)")
  case True
  then show ?thesis using inv by (auto simp: win_udp_send_to_def udp_accepted_def)
next
  case False
  then have empty: "wu_write u = StEmpty" and reg: "rb_registered (wu_iocp u)" by auto
  let ?r = "ready_bitand r (ready_not ready_writable)"
  obtain p1 where p1: "Option.bind (rb_get_readiness (wu_iocp u) p)
      (\<lambda>cur. rb_set_readiness ws (wu_iocp u) (ready_bitand cur (ready_not ready_writable)) p) = Some p1"
    "udp_at lc a fd io k alive u acc ?r p1"
    using udp_readiness_at(2) [OF laws inv reg, of ready_writable] by blast
  obtain v p2 where v: "rb_get_buffer lc (wu_iocp u) UDP_BUFFER p1 = (v, p2)" by fastforce
  have at2: "udp_at lc a fd io k alive u acc ?r p2" "bv_data v = []" using udp_buffer_at(2) [OF p1(2) v] by simp_all
  then have s: "wu_addr u = a" "wu_socket u = fd" by (simp_all add: udp_at_def)
  have data: "bv_data (vec_extend v buf) = buf" using at2(2) by (simp add: vec_extend_def Let_def)
  obtain res w where w: "ws_send_to_overlapped ws fd buf target (UdpWrite a) (os_of p2) = (res, w)" by fastforce
  note law = udp_starts(3) [OF laws w]
  have run: "win_udp_send_to ws lc u buf target p = (case res of
      Inl e \<Rightarrow> Some (Inl e, u, with_os w p2)
    | Inr _ \<Rightarrow> Some (Inr (Some (length buf)), u\<lparr>wu_write := StPending (vec_extend v buf), wu_cnt := arc_clone (wu_cnt u)\<rparr>, with_os w p2))"
    using p1(1) by (auto simp: win_udp_send_to_def empty reg Option.bind_eq_Some_conv v win_os_eq s w data split: sum.splits)
  show ?thesis
  proof (cases res)
    case (Inr n)
    have "udp_at lc a fd io k alive (u\<lparr>wu_write := StPending (vec_extend v buf), wu_cnt := arc_clone (wu_cnt u)\<rparr>) (acc @ [(buf, target)]) ?r (with_os w p2)"
      using at2 law Inr udp_io_inv_starts(2) [OF _ reg empty, of k ?r "io (os_of p2)" acc "vec_extend v buf" "(buf, target)"] by (simp add: udp_at_def)
    then show ?thesis using run Inr by (auto simp: udp_accepted_def)
  next
    case (Inl e)
    have "udp_at lc a fd io k alive u acc ?r (with_os w p2)" using at2 law Inl by (simp add: udp_at_def)
    then show ?thesis using run Inl empty reg by (auto simp: udp_accepted_def ready_rules)
  qed
qed

lemma udp_at_reread:
  "udp_at lc a fd io k alive u acc r p \<Longrightarrow> udp_over (wu_read u) \<Longrightarrow> rb_registered (wu_iocp u) \<Longrightarrow>
     udp_at lc a fd io k alive (u\<lparr>wu_read := StEmpty\<rparr>) acc r p"
  using udp_io_inv_starts(4) by (auto simp: udp_at_def)

lemma win_udp_recv_from_inv:
  assumes laws: "udp_laws ws a fd io" and inv: "udp_inv lc a fd io k alive u acc p"
  shows "\<exists>res u' p'. win_udp_recv_from ws lc u len p = Some (res, u', p') \<and> udp_inv lc a fd io k alive u' acc p'"
proof -
  obtain r where r: "udp_at lc a fd io k alive u acc r p" using inv by (auto simp: udp_inv_def)
  show ?thesis
  proof (cases "wu_read u")
    case StEmpty
    moreover from this have "u\<lparr>wu_read := StEmpty\<rparr> = u" by (cases u) simp
    ultimately show ?thesis using inv by (simp only: win_udp_recv_from_def win_state.case Let_def) blast
  next
    case (StPending b)
    then show ?thesis using inv by (simp add: win_udp_recv_from_def)
  next
    case (StError e)
    then have reg: "rb_registered (wu_iocp u)" using udp_at_registered [OF r] by simp
    then have "udp_at lc a fd io k alive (u\<lparr>wu_read := StEmpty\<rparr>) acc r p" using udp_at_reread [OF r] StError by simp
    from udp_schedule_read_at [OF laws this] reg show ?thesis by (auto simp: win_udp_recv_from_def StError udp_inv_def)
  next
    case (StReady d)
    then have reg: "rb_registered (wu_iocp u)" using udp_at_registered [OF r] by simp
    then have "udp_at lc a fd io k alive (u\<lparr>wu_read := StEmpty\<rparr>) acc r (rb_put_buffer lc (wu_iocp u) d p)"
      using udp_at_reread [OF udp_buffer_at(1) [OF r]] StReady by simp
    from udp_schedule_read_at [OF laws this] reg show ?thesis
      using inv by (auto simp: win_udp_recv_from_def StReady udp_inv_def Let_def)
  qed
qed

section \<open>Registration\<close>

lemma udp_post_register_inv:
  assumes laws: "udp_laws ws a fd io" and inv: "udp_at lc a fd io k alive u acc r p" and reg: "rb_registered (wu_iocp u)"
  shows "\<exists>u' p'. udp_post_register ws lc interest u p = Some (u', p') \<and> udp_inv lc a fd io k alive u' acc p'"
proof -
  have "\<exists>u1 r1 p1. (if ready_is_readable interest then udp_schedule_read ws lc u p else Some (u, p)) = Some (u1, p1) \<and>
      udp_at lc a fd io k alive u1 acc r1 p1 \<and> rb_registered (wu_iocp u1)"
    using udp_schedule_read_at [OF laws inv reg] inv reg by (cases "ready_is_readable interest") fastforce+
  then obtain u1 r1 p1 where 1: "(if ready_is_readable interest then udp_schedule_read ws lc u p else Some (u, p)) = Some (u1, p1)"
    "udp_at lc a fd io k alive u1 acc r1 p1" "rb_registered (wu_iocp u1)" by blast
  then show ?thesis
    using udp_readiness_at(1) [OF laws 1(2,3), of ready_writable] by (auto simp: udp_post_register_def udp_inv_def ready_rules)
qed

lemma win_udp_register_inv:
  assumes laws: "udp_laws ws a fd io" and lc: "lazycell_laws lc" and inv: "udp_inv lc a fd io k True u acc p"
  shows "\<exists>res u' p'. win_udp_register ws lc u p tok interest opts = Some (res, u', p') \<and> udp_inv lc a fd io k True u' acc p'"
proof -
  from inv obtain r where at: "udp_at lc a fd io k True u acc r p" by (auto simp: udp_inv_def)
  then have s: "wu_socket u = fd" "bind_inv lc (wu_iocp u) (pl_selector p)" "wu_registration u = rb_readiness (wu_iocp u)"
    "queued (rb_readiness (wu_iocp u)) 2 r p" "udp_io_inv k u r (io (os_of p)) acc"
    by (auto simp: udp_at_def)
  have add: "case res of Inl _ \<Rightarrow> io w = io (os_of p) | Inr _ \<Rightarrow> rb_readiness (wu_iocp u) = None \<and> io w = (io (os_of p))\<lparr>ui_bound := True\<rparr>"
    if "ws_add_socket ws (sel_port (pl_selector p)) (usize_from_token tok) fd (os_of p) = (res, w)" for res w
    using udp_starts(1) [OF laws that] s(5) by (auto simp: udp_io_inv_def rb_registered_def split: sum.splits if_splits)
  show ?thesis
  proof (rule rb_register_socket_cases [OF udp_post [OF laws] lc s(2,4) add, where evts = interest and opts = opts])
    fix e b1 w
    assume r: "rb_register_socket ws lc (wu_iocp u) (rb_readiness (wu_iocp u)) fd p tok interest opts =
        Some (Inl e, (wu_iocp u)\<lparr>rb_binding := b1\<rparr>, rb_readiness (wu_iocp u), with_os w p)"
      and b: "lazy_borrow lc b1 = Some (sel_addr (pl_selector p))" and w: "io w = io (os_of p)"
    have "udp_at lc a fd io k True (u\<lparr>wu_iocp := (wu_iocp u)\<lparr>rb_binding := b1\<rparr>, wu_registration := rb_readiness (wu_iocp u)\<rparr>) acc r' (with_os w p)"
      if "udp_at lc a fd io k True u acc r' p" for r'
      using that b w by (auto simp: udp_at_def bind_inv_def udp_io_inv_def rb_registered_def split: option.splits)
    then show ?thesis using r at s(1,3) by (auto simp: win_udp_register_def udp_inv_def Let_def)
  next
    fix b1 h p'
    assume r: "rb_register_socket ws lc (wu_iocp u) (rb_readiness (wu_iocp u)) fd p tok interest opts =
        Some (Inr (), \<lparr>rb_binding = b1, rb_readiness = Some h\<rparr>, Some h, p')"
      and none: "rb_readiness (wu_iocp u) = None" and b: "lazy_borrow lc b1 = Some (sel_addr (pl_selector p))"
      and x: "io (os_of p') = (io (os_of p))\<lparr>ui_bound := True\<rparr>" and sel: "pl_selector p' = pl_selector p" and q: "queued (Some h) 2 ready_none p'"
    let ?rb = "\<lparr>rb_binding = b1, rb_readiness = Some h\<rparr>"
    have reg: "rb_registered (wu_iocp (u\<lparr>wu_iocp := ?rb, wu_registration := Some h\<rparr>))" by (simp add: rb_registered_def)
    have "udp_at lc a fd io k True (u\<lparr>wu_iocp := ?rb, wu_registration := Some h\<rparr>) acc ready_none p'"
      using at none b x sel q by (auto simp: udp_at_def bind_inv_def udp_io_inv_def rb_registered_def split: option.splits)
    from udp_post_register_inv [OF laws this reg, of interest] show ?thesis by (auto simp: win_udp_register_def r s(1,3) Let_def)
  qed
qed

lemma win_udp_reregister_inv:
  assumes laws: "udp_laws ws a fd io" and inv: "udp_inv lc a fd io k True u acc p"
    and made: "registration_made lc (wu_iocp u)" and aw: "awake (pl_queue p)"
  shows "\<exists>res u' p'. win_udp_reregister ws lc u p tok interest opts = Some (res, u', p') \<and> udp_inv lc a fd io k True u' acc p'"
    and "\<exists>res p'. win_udp_deregister lc u p = Some (res, u, p') \<and> udp_inv lc a fd io k True u acc p'"
proof -
  from inv obtain r where at: "udp_at lc a fd io k True u acc r p" by (auto simp: udp_inv_def)
  then have s: "bind_inv lc (wu_iocp u) (pl_selector p)" "wu_registration u = rb_readiness (wu_iocp u)" "queued (rb_readiness (wu_iocp u)) 2 r p"
    by (auto simp: udp_at_def)
  have keep: "udp_at lc a fd io k True u acc r p'"
    if "queued (rb_readiness (wu_iocp u)) 2 r p'" "os_of p' = os_of p" "pl_selector p' = pl_selector p" for p'
    using at that by (auto simp: udp_at_def)
  obtain res p1 where p1: "rb_reregister_socket lc (wu_iocp u) (wu_registration u) p tok interest opts = Some (res, p1)"
    "udp_at lc a fd io k True u acc r p1" "res = Inr () \<longrightarrow> rb_registered (wu_iocp u)"
    using rb_reregister_ok(1) [OF s(1,3) made aw, of tok interest opts] keep s(2) by auto
  then show "\<exists>res u' p'. win_udp_reregister ws lc u p tok interest opts = Some (res, u', p') \<and> udp_inv lc a fd io k True u' acc p'"
    using udp_post_register_inv [OF laws p1(2), of interest] by (cases res) (auto simp: win_udp_reregister_def udp_inv_def)
  show "\<exists>res p'. win_udp_deregister lc u p = Some (res, u, p') \<and> udp_inv lc a fd io k True u acc p'"
    using rb_reregister_ok(2) [OF s(1,3) made aw] keep s(2) by (fastforce simp: win_udp_deregister_def udp_inv_def)
qed

section \<open>References\<close>

definition udp_flight :: "udp_io \<Rightarrow> nat" where
  "udp_flight x = ui_reads x + ui_writes x"

text \<open>Giving up a reference: the object goes exactly with the last one, and then no packet for it is owed.\<close>

lemma udp_release_at:
  assumes laws: "udp_laws ws a fd io" and inv: "udp_at lc a fd io (Suc k) alive u acc r p"
  shows "\<exists>uo p'. udp_release ws u p = Some (uo, p') \<and> io (os_of p') = io (os_of p) \<and>
    (case uo of
       None \<Rightarrow> k + udp_flight (io (os_of p)) = 0 \<and> left_handles (rb_readiness (wu_iocp u)) ((if alive then 2 else 1) - 1) p'
     | Some u' \<Rightarrow> k + udp_flight (io (os_of p)) \<noteq> 0 \<and> udp_at lc a fd io k alive u' acc r p' \<and> u' = u\<lparr>wu_cnt := wu_cnt u - 1\<rparr>)"
proof -
  have s: "wu_socket u = fd" "queued (rb_readiness (wu_iocp u)) (if alive then 2 else 1) r p" "udp_io_inv (Suc k) u r (io (os_of p)) acc"
    using inv by (simp_all add: udp_at_def)
  note rel = udp_io_inv_release [OF s(3)]
  show ?thesis
  proof (cases "wu_cnt u = 1")
    case False
    then show ?thesis using inv rel by (auto simp: udp_release_def arc_drop_def udp_at_def udp_flight_def)
  next
    case True
    let ?p = "with_os (ws_close ws fd (os_of p)) p"
    have "queued (rb_readiness (wu_iocp u)) (if alive then 2 else 1) r ?p" using s(2) by simp
    from set_readiness_drop_left [OF udp_post [OF laws] this] show ?thesis
      using True rel(1) s(1) udp_quiet_calls(2) [OF laws] by (auto simp: udp_release_def arc_drop_def win_os_eq udp_flight_def)
  qed
qed

lemma win_udp_drop_inv:
  assumes laws: "udp_laws ws a fd io" and inv: "udp_inv lc a fd io 1 True u acc p"
  shows "\<exists>uo p'. win_udp_drop ws u p = Some (uo, p') \<and> io (os_of p') = io (os_of p) \<and>
    (case uo of
       None \<Rightarrow> udp_flight (io (os_of p)) = 0 \<and> left_handles (rb_readiness (wu_iocp u)) 0 p'
     | Some u' \<Rightarrow> udp_flight (io (os_of p)) \<noteq> 0 \<and> udp_inv lc a fd io 0 False u' acc p')"
proof -
  let ?p = "case wu_read u of StPending _ \<Rightarrow> snd (win_os (win_cancel ws (wu_socket u) (UdpRead (wu_addr u))) p) | _ \<Rightarrow> p"
  from inv obtain r where at: "udp_at lc a fd io 1 True u acc r p" by (auto simp: udp_inv_def)
  then have s: "wu_addr u = a" "wu_socket u = fd" "wu_registration u = rb_readiness (wu_iocp u)" by (simp_all add: udp_at_def)
  have x: "io (os_of ?p) = io (os_of p)" and at1: "udp_at lc a fd io (Suc 0) True u acc r ?p"
    using at udp_quiet_calls(1) [OF laws] by (simp_all add: win_os_eq s udp_at_def split: win_state.splits)
  obtain uo p2 where rel: "udp_release ws u ?p = Some (uo, p2)" "io (os_of p2) = io (os_of p)" and
    uo: "case uo of
       None \<Rightarrow> 0 + udp_flight (io (os_of p)) = 0 \<and> left_handles (rb_readiness (wu_iocp u)) ((if True then 2 else 1) - 1) p2
     | Some u' \<Rightarrow> 0 + udp_flight (io (os_of p)) \<noteq> 0 \<and> udp_at lc a fd io 0 True u' acc r p2 \<and> u' = u\<lparr>wu_cnt := wu_cnt u - 1\<rparr>"
    using udp_release_at [OF laws at1] unfolding x by blast
  show ?thesis
  proof (cases uo)
    case None
    then have "left_handles (rb_readiness (wu_iocp u)) 1 p2" using uo by simp
    from registration_drop_left [OF udp_post [OF laws] this] show ?thesis
      using uo rel None by (auto simp: win_udp_drop_def Let_def s(3))
  next
    case (Some u')
    have q: "queued (rb_readiness (wu_iocp u)) 2 r p2" "udp_at lc a fd io 0 True u' acc r p2" "wu_iocp u' = wu_iocp u"
      using uo Some by (auto simp: udp_at_def)
    obtain q' where q': "(case rb_readiness (wu_iocp u) of None \<Rightarrow> Some (pl_queue p2) | Some r \<Rightarrow> registration_drop (win_wakeup ws) (pl_queue p2) r) = Some q'"
      "queued (rb_readiness (wu_iocp u)) 1 r (p2\<lparr>pl_queue := q'\<rparr>)" "io (os_of (p2\<lparr>pl_queue := q'\<rparr>)) = io (os_of p2)"
      using q(1) queued_registration_drop [OF udp_post [OF laws]] by (cases "rb_readiness (wu_iocp u)") (fastforce simp: queued_def)+
    then have "udp_at lc a fd io 0 False (u'\<lparr>wu_registration := None\<rparr>) acc r (p2\<lparr>pl_queue := q'\<rparr>)"
      using q(2,3) by (simp add: udp_at_def udp_io_inv_def)
    then show ?thesis using q'(1,3) rel uo Some by (auto simp: win_udp_drop_def Let_def s(3) udp_inv_def)
  qed
qed

section \<open>Callbacks\<close>

lemma udp_readiness_cong: "wu_iocp u' = wu_iocp u \<Longrightarrow> udp_add_readiness ws u' = udp_add_readiness ws u"
  by (simp add: udp_add_readiness_def fun_eq_iff)

lemma recv_done_at:
  assumes laws: "udp_laws ws a fd io" and at: "udp_at lc a fd io k alive u acc r p" and k: "k \<le> 1"
    and comp: "recv_completes (io (os_of p)) (io w)"
  shows "\<exists>d r1 p1. recv_done ws status u (with_os w p) = udp_release ws (u\<lparr>wu_read := StReady d\<rparr>) p1 \<and>
    udp_at lc a fd io (Suc k) alive (u\<lparr>wu_read := StReady d\<rparr>) acc r1 p1"
proof -
  let ?u = "u\<lparr>wu_read := StEmpty\<rparr>"
  have io: "udp_io_inv k u r (io (os_of p)) acc" using at by (simp add: udp_at_def)
  obtain b where b: "wu_read u = StPending b" "udp_io_inv (Suc k) ?u r (io w) acc" using udp_io_inv_ends(1) [OF io k comp] by blast
  let ?d = "b\<lparr>bv_data := take (unat (cs_bytes status)) (ws_received ws (UdpRead (wu_addr u)) w)\<rparr>"
  have reg: "rb_registered (wu_iocp ?u)" using udp_io_inv_ends(3) [OF io k disjI1 [OF comp]] by simp
  have "udp_at lc a fd io (Suc k) alive ?u acc r (with_os w p)" using at b(2) by (simp add: udp_at_def)
  from udp_readiness_at(1) [OF laws this reg, of ready_readable] obtain p1 where p1:
    "udp_add_readiness ws ?u ready_readable (with_os w p) = Some p1" "udp_at lc a fd io (Suc k) alive ?u acc (ready_bitor ready_readable r) p1"
    by (auto simp: ready_rules)
  have "udp_at lc a fd io (Suc k) alive (?u\<lparr>wu_read := StReady ?d\<rparr>) acc (ready_bitor ready_readable r) p1"
    using p1(2) udp_io_inv_starts(3) [of "Suc k" ?u, OF _ reg, of _ _ acc "StReady ?d"] by (simp add: udp_at_def ready_rules)
  moreover have "recv_done ws status u (with_os w p) = udp_release ws (u\<lparr>wu_read := StReady ?d\<rparr>) p1"
    using p1(1) udp_readiness_cong [of "u\<lparr>wu_read := StReady ?d\<rparr>" ?u ws]
    by (simp add: recv_done_def b(1) Let_def os_of_def [symmetric])
  ultimately show ?thesis by auto
qed

lemma send_done_at:
  assumes laws: "udp_laws ws a fd io" and at: "udp_at lc a fd io k alive u acc r p" and k: "k \<le> 1"
    and comp: "send_completes (io (os_of p)) (io w)"
  shows "\<exists>p1. send_done ws status u (with_os w p) = udp_release ws (u\<lparr>wu_write := StEmpty\<rparr>) p1 \<and>
    udp_at lc a fd io (Suc k) alive (u\<lparr>wu_write := StEmpty\<rparr>) acc (ready_bitor ready_writable r) p1"
proof -
  let ?u = "u\<lparr>wu_write := StEmpty\<rparr>"
  have io: "udp_io_inv k u r (io (os_of p)) acc" using at by (simp add: udp_at_def)
  have reg: "rb_registered (wu_iocp ?u)" using udp_io_inv_ends(3) [OF io k disjI2 [OF comp]] by simp
  have "udp_at lc a fd io (Suc k) alive ?u acc r (with_os w p)"
    using at udp_io_inv_ends(2) [OF io k comp] by (simp add: udp_at_def)
  from udp_readiness_at(1) [OF laws this reg, of ready_writable] show ?thesis by (auto simp: send_done_def Let_def ready_rules)
qed

section \<open>A socket and its environment\<close>

record ('bc, 'o) udp_world =
  uw_socket :: "'bc win_udp option"
  uw_alive :: bool
  uw_accepted :: "(u8 list \<times> socket_addr) list"
  uw_poll :: "'o win_poll"

datatype 'o udp_op =
  DoSend "u8 list" socket_addr | DoRecv nat | DoRegister token ready poll_opt | DoReregister token ready poll_opt
| DoDeregister | DoDrop | DoSendDone completion 'o | DoRecvDone completion 'o | DoOthers "'o win_poll"

fun udp_run ::
  "'o win_sys \<Rightarrow> ('bc, nat) lazycell_ops \<Rightarrow> 'o udp_op \<Rightarrow> ('bc, 'o) udp_world \<Rightarrow> ('bc, 'o) udp_world option" where
  "udp_run ws lc (DoSend buf target) st = do {
     u \<leftarrow> uw_socket st;
     (res, u1, p1) \<leftarrow> win_udp_send_to ws lc u buf target (uw_poll st);
     Some (st\<lparr>uw_socket := Some u1, uw_accepted := uw_accepted st @ udp_accepted buf target res, uw_poll := p1\<rparr>) }"
| "udp_run ws lc (DoRecv len) st = do {
     u \<leftarrow> uw_socket st;
     (res, u1, p1) \<leftarrow> win_udp_recv_from ws lc u len (uw_poll st);
     Some (st\<lparr>uw_socket := Some u1, uw_poll := p1\<rparr>) }"
| "udp_run ws lc (DoRegister tok interest opts) st = do {
     u \<leftarrow> uw_socket st;
     (res, u1, p1) \<leftarrow> win_udp_register ws lc u (uw_poll st) tok interest opts;
     Some (st\<lparr>uw_socket := Some u1, uw_poll := p1\<rparr>) }"
| "udp_run ws lc (DoReregister tok interest opts) st = do {
     u \<leftarrow> uw_socket st;
     (res, u1, p1) \<leftarrow> win_udp_reregister ws lc u (uw_poll st) tok interest opts;
     Some (st\<lparr>uw_socket := Some u1, uw_poll := p1\<rparr>) }"
| "udp_run ws lc DoDeregister st = do {
     u \<leftarrow> uw_socket st;
     (res, u1, p1) \<leftarrow> win_udp_deregister lc u (uw_poll st);
     Some (st\<lparr>uw_socket := Some u1, uw_poll := p1\<rparr>) }"
| "udp_run ws lc DoDrop st = do {
     u \<leftarrow> uw_socket st;
     (uo, p1) \<leftarrow> win_udp_drop ws u (uw_poll st);
     Some (st\<lparr>uw_socket := uo, uw_alive := False, uw_poll := p1\<rparr>) }"
| "udp_run ws lc (DoSendDone status w) st = do {
     u \<leftarrow> uw_socket st;
     (uo, p1) \<leftarrow> send_done ws status u (with_os w (uw_poll st));
     Some (st\<lparr>uw_socket := uo, uw_poll := p1\<rparr>) }"
| "udp_run ws lc (DoRecvDone status w) st = do {
     u \<leftarrow> uw_socket st;
     (uo, p1) \<leftarrow> recv_done ws status u (with_os w (uw_poll st));
     Some (st\<lparr>uw_socket := uo, uw_poll := p1\<rparr>) }"
| "udp_run ws lc (DoOthers p) st = Some (st\<lparr>uw_poll := p\<rparr>)"

fun udp_enabled :: "('bc, nat) lazycell_ops \<Rightarrow> ('o \<Rightarrow> udp_io) \<Rightarrow> 'o udp_op \<Rightarrow> ('bc, 'o) udp_world \<Rightarrow> bool" where
  "udp_enabled lc io (DoSendDone status w) st \<longleftrightarrow> send_completes (io (os_of (uw_poll st))) (io w)"
| "udp_enabled lc io (DoRecvDone status w) st \<longleftrightarrow> recv_completes (io (os_of (uw_poll st))) (io w)"
| "udp_enabled lc io (DoOthers p) st \<longleftrightarrow> others_step io (map_option wu_iocp (uw_socket st)) (uw_poll st) p"
| "udp_enabled lc io (DoReregister tok interest opts) st \<longleftrightarrow>
     uw_alive st \<and> awake (pl_queue (uw_poll st)) \<and> pred_option (\<lambda>u. registration_made lc (wu_iocp u)) (uw_socket st)"
| "udp_enabled lc io DoDeregister st \<longleftrightarrow>
     uw_alive st \<and> awake (pl_queue (uw_poll st)) \<and> pred_option (\<lambda>u. registration_made lc (wu_iocp u)) (uw_socket st)"
| "udp_enabled lc io op st \<longleftrightarrow> uw_alive st"

definition fresh_udp_io :: udp_io where
  "fresh_udp_io = \<lparr>ui_reads = 0, ui_writes = 0, ui_sent = [], ui_bound = False\<rparr>"

definition udp_init :: "('bc, nat) lazycell_ops \<Rightarrow> nat \<Rightarrow> fd \<Rightarrow> ('o \<Rightarrow> udp_io) \<Rightarrow> ('bc, 'o) udp_world \<Rightarrow> bool" where
  "udp_init lc a fd io st \<longleftrightarrow> map_option Inr (uw_socket st) = Some (win_udp_new lc a fd) \<and> uw_alive st \<and> uw_accepted st = [] \<and>
     io (os_of (uw_poll st)) = fresh_udp_io \<and> queue_wf (pl_queue (uw_poll st)) \<and> pool_ok (sel_buffers (pl_selector (uw_poll st)))"

abbreviation udp_reach ::
  "'o win_sys \<Rightarrow> ('bc, nat) lazycell_ops \<Rightarrow> nat \<Rightarrow> fd \<Rightarrow> ('o \<Rightarrow> udp_io) \<Rightarrow> ('bc, 'o) udp_world \<Rightarrow> bool" where
  "udp_reach ws lc a fd io \<equiv> reached (udp_enabled lc io) (udp_run ws lc) (udp_init lc a fd io)"

definition udp_world_inv :: "('bc, nat) lazycell_ops \<Rightarrow> nat \<Rightarrow> fd \<Rightarrow> ('o \<Rightarrow> udp_io) \<Rightarrow> ('bc, 'o) udp_world \<Rightarrow> bool" where
  "udp_world_inv lc a fd io st \<longleftrightarrow>
     (let x = io (os_of (uw_poll st))
      in ui_sent x = uw_accepted st \<and>
         (case uw_socket st of
            None \<Rightarrow> \<not> uw_alive st \<and> udp_flight x = 0
          | Some u \<Rightarrow> udp_inv lc a fd io (if uw_alive st then 1 else 0) (uw_alive st) u (uw_accepted st) (uw_poll st) \<and>
              (uw_alive st \<or> udp_flight x \<noteq> 0)))"

lemma udp_at_sent: "udp_at lc a fd io k alive u acc r p \<Longrightarrow> ui_sent (io (os_of p)) = acc"
  by (simp add: udp_at_def udp_io_inv_def)

lemma udp_inv_sent: "udp_inv lc a fd io k alive u acc p \<Longrightarrow> ui_sent (io (os_of p)) = acc"
  using udp_at_sent by (auto simp: udp_inv_def)

lemma udp_world_user:
  assumes "udp_world_inv lc a fd io st" and "uw_alive st"
  obtains u where "uw_socket st = Some u" "udp_inv lc a fd io 1 True u (uw_accepted st) (uw_poll st)"
  using assms by (cases "uw_socket st") (auto simp: udp_world_inv_def Let_def)

lemma udp_world_userI:
  assumes "udp_inv lc a fd io 1 True u' acc p'" and "uw_alive st"
  shows "udp_world_inv lc a fd io (st\<lparr>uw_socket := Some u', uw_accepted := acc, uw_poll := p'\<rparr>)"
  using assms udp_inv_sent [OF assms(1)] by (simp add: udp_world_inv_def Let_def)

lemma udp_world_call:
  assumes laws: "udp_laws ws a fd io" and lc: "lazycell_laws lc" and inv: "udp_world_inv lc a fd io st" and en: "udp_enabled lc io op st"
    and op: "(\<exists>buf d. op = DoSend buf d) \<or> (\<exists>len. op = DoRecv len) \<or> (\<exists>tok i opts. op = DoRegister tok i opts) \<or>
      (\<exists>tok i opts. op = DoReregister tok i opts) \<or> op = DoDeregister"
  shows "\<exists>st'. udp_run ws lc op st = Some st' \<and> udp_world_inv lc a fd io st'"
proof -
  have alive: "uw_alive st" using en op by auto
  obtain u where u: "uw_socket st = Some u" "udp_inv lc a fd io 1 True u (uw_accepted st) (uw_poll st)"
    by (rule udp_world_user [OF inv alive])
  note ops = win_udp_recv_from_inv [OF laws u(2)] win_udp_register_inv [OF laws lc u(2)] win_udp_reregister_inv [OF laws u(2)]
  have same: "udp_world_inv lc a fd io (st\<lparr>uw_socket := Some u', uw_poll := p'\<rparr>)"
    if "udp_inv lc a fd io (Suc 0) True u' (uw_accepted st) p'" for u' p'
    using udp_world_userI [of lc a fd io u' "uw_accepted st" p' st] that alive by simp
  from op consider buf d where "op = DoSend buf d" | len where "op = DoRecv len" | tok i opts where "op = DoRegister tok i opts"
    | tok i opts where "op = DoReregister tok i opts" | "op = DoDeregister" by blast
  then show ?thesis
  proof cases
    case 1
    obtain r where "udp_at lc a fd io 1 True u (uw_accepted st) r (uw_poll st)" using u(2) by (auto simp: udp_inv_def)
    from win_udp_send_to_at [OF laws this, of buf d] obtain res u' r' p' where "win_udp_send_to ws lc u buf d (uw_poll st) = Some (res, u', p')"
      "udp_at lc a fd io 1 True u' (uw_accepted st @ udp_accepted buf d res) r' p'" by blast
    moreover from this(2) have "udp_inv lc a fd io 1 True u' (uw_accepted st @ udp_accepted buf d res) p'" by (auto simp: udp_inv_def)
    from udp_world_userI [OF this alive] calculation(1) show ?thesis using 1 u(1) by simp
  next
    case 2
    then show ?thesis using ops(1) [of len] u(1) by (auto intro!: same)
  next
    case 3
    then show ?thesis using ops(2) [of tok i opts] u(1) by (auto intro!: same)
  next
    case 4
    then show ?thesis using ops(3) [of tok i opts] en u(1) by (auto intro!: same)
  next
    case 5
    then show ?thesis using ops(4) en u(1) by (auto intro!: same)
  qed
qed

text \<open>The last part of a callback.\<close>

lemma udp_world_released:
  assumes laws: "udp_laws ws a fd io" and at: "udp_at lc a fd io (Suc (if uw_alive st then 1 else 0)) (uw_alive st) u (uw_accepted st) r p"
  shows "\<exists>uo p'. udp_release ws u p = Some (uo, p') \<and> udp_world_inv lc a fd io (st\<lparr>uw_socket := uo, uw_poll := p'\<rparr>)"
proof -
  obtain uo p' where uo: "udp_release ws u p = Some (uo, p')" "io (os_of p') = io (os_of p)"
    "case uo of
       None \<Rightarrow> (if uw_alive st then 1 else 0) + udp_flight (io (os_of p)) = 0 \<and>
         left_handles (rb_readiness (wu_iocp u)) ((if uw_alive st then 2 else 1) - 1) p'
     | Some u' \<Rightarrow> (if uw_alive st then 1 else 0) + udp_flight (io (os_of p)) \<noteq> 0 \<and>
         udp_at lc a fd io (if uw_alive st then 1 else 0) (uw_alive st) u' (uw_accepted st) r p' \<and> u' = u\<lparr>wu_cnt := wu_cnt u - 1\<rparr>"
    using udp_release_at [OF laws at] by blast
  then show ?thesis
    using udp_at_sent [OF at] by (cases uo) (auto simp: udp_world_inv_def udp_inv_def Let_def split: if_splits)
qed

lemma udp_world_packet:
  assumes inv: "udp_world_inv lc a fd io st" and "udp_flight (io (os_of (uw_poll st))) \<noteq> 0"
  obtains u r where "uw_socket st = Some u"
    "udp_at lc a fd io (if uw_alive st then 1 else 0) (uw_alive st) u (uw_accepted st) r (uw_poll st)"
  using assms by (cases "uw_socket st") (auto simp: udp_world_inv_def udp_inv_def Let_def)

lemma udp_world_callback:
  assumes laws: "udp_laws ws a fd io" and inv: "udp_world_inv lc a fd io st" and en: "udp_enabled lc io op st"
    and op: "op = DoRecvDone status w \<or> op = DoSendDone status w"
  shows "\<exists>st'. udp_run ws lc op st = Some st' \<and> udp_world_inv lc a fd io st'"
proof -
  have "udp_flight (io (os_of (uw_poll st))) \<noteq> 0"
    using op en by (auto simp: recv_completes_def send_completes_def udp_flight_def)
  then obtain u r where u: "uw_socket st = Some u"
    "udp_at lc a fd io (if uw_alive st then 1 else 0) (uw_alive st) u (uw_accepted st) r (uw_poll st)"
    by (rule udp_world_packet [OF inv])
  have k: "(if uw_alive st then 1 else 0) \<le> (1 :: nat)" by simp
  obtain u1 r1 p1 run where run: "udp_at lc a fd io (Suc (if uw_alive st then 1 else 0)) (uw_alive st) u1 (uw_accepted st) r1 p1"
    "run = udp_release ws u1 p1" "op = DoRecvDone status w \<and> run = recv_done ws status u (with_os w (uw_poll st)) \<or>
      op = DoSendDone status w \<and> run = send_done ws status u (with_os w (uw_poll st))"
    using op en recv_done_at [OF laws u(2) k, of w status] send_done_at [OF laws u(2) k, of w status] by fastforce
  from udp_world_released [OF laws run(1)] show ?thesis using run(2,3) u(1) by auto
qed

lemma udp_inv_others:
  assumes "udp_inv lc a fd io k alive u acc p" and "others_step io (Some (wu_iocp u)) p p'"
  shows "udp_inv lc a fd io k alive u acc p'"
  using assms(1) others_stepD [OF assms(2)] unfolding udp_inv_def udp_at_def by (cases alive) (simp_all, blast+)

lemma udp_world_step:
  assumes laws: "udp_laws ws a fd io" and lc: "lazycell_laws lc" and inv: "udp_world_inv lc a fd io st" and en: "udp_enabled lc io op st"
  shows "\<exists>st'. udp_run ws lc op st = Some st' \<and> udp_world_inv lc a fd io st'"
proof (cases op)
  case DoDrop
  then have alive: "uw_alive st" using en by simp
  obtain u where u: "uw_socket st = Some u" "udp_inv lc a fd io 1 True u (uw_accepted st) (uw_poll st)"
    by (rule udp_world_user [OF inv alive])
  obtain uo p' where uo: "win_udp_drop ws u (uw_poll st) = Some (uo, p')" "io (os_of p') = io (os_of (uw_poll st))"
    "case uo of
       None \<Rightarrow> udp_flight (io (os_of (uw_poll st))) = 0 \<and> left_handles (rb_readiness (wu_iocp u)) 0 p'
     | Some u' \<Rightarrow> udp_flight (io (os_of (uw_poll st))) \<noteq> 0 \<and> udp_inv lc a fd io 0 False u' (uw_accepted st) p'"
    using win_udp_drop_inv [OF laws u(2)] by blast
  then show ?thesis
    using u udp_inv_sent [OF u(2)] by (cases uo) (auto simp: DoDrop udp_world_inv_def Let_def)
next
  case (DoOthers p)
  then show ?thesis
    using inv en udp_inv_others by (cases "uw_socket st") (auto simp: udp_world_inv_def Let_def others_step_io)
qed (use udp_world_call [OF laws lc inv en] udp_world_callback [OF laws inv en] in auto)

lemma udp_world_init:
  assumes "lazycell_laws lc" and "udp_init lc a fd io st"
  shows "udp_world_inv lc a fd io st"
  using assms
  by (auto simp: udp_init_def udp_world_inv_def udp_inv_def udp_at_def win_udp_new_def ready_binding_new_def binding_new_def bind_inv_def
      rb_registered_def queued_def udp_io_inv_def fresh_udp_io_def arc_new_def lazycell_laws_def)

definition udp_good ::
  "'o win_sys \<Rightarrow> ('bc, nat) lazycell_ops \<Rightarrow> nat \<Rightarrow> fd \<Rightarrow> ('o \<Rightarrow> udp_io) \<Rightarrow> ('bc, 'o) udp_world \<Rightarrow> bool" where
  "udp_good ws lc a fd io st \<longleftrightarrow> udp_laws ws a fd io \<and> lazycell_laws lc \<and> udp_world_inv lc a fd io st"

interpretation wud: lent_object "udp_run ws lc" "udp_enabled lc io" "udp_good ws lc a fd io"
  "\<lambda>st. map_option (\<lambda>u. unat (wu_cnt u)) (uw_socket st)" uw_alive "\<lambda>st. udp_flight (io (os_of (uw_poll st)))" for ws lc a fd io
proof
  show "\<exists>st'. udp_run ws lc op st = Some st' \<and> udp_good ws lc a fd io st'"
    if "udp_good ws lc a fd io st" "udp_enabled lc io op st" for st op
    using udp_world_step [of ws a fd io lc st op] that by (auto simp: udp_good_def)
  show "map_option (\<lambda>u. unat (wu_cnt u)) (uw_socket st) = lent (uw_alive st) (udp_flight (io (os_of (uw_poll st))))"
    if "udp_good ws lc a fd io st" for st
    using that
    by (auto simp: udp_good_def udp_world_inv_def udp_inv_def udp_at_def udp_io_inv_def udp_flight_def lent_def Let_def split: option.splits if_splits)
qed

lemma udp_world_reach:
  assumes "udp_laws ws a fd io" and "lazycell_laws lc" and "udp_reach ws lc a fd io st"
  shows "udp_world_inv lc a fd io st"
  using wud.reached_good [OF assms(3), of a fd] udp_world_init [OF assms(2)] assms(1,2) by (auto simp: udp_good_def)

end
