(* ===== verification/Mio_Windows_Listener.thy ===== *)
theory Mio_Windows_Listener
  imports Mio_Windows_Queue Mio_Instances Mio_Objects
begin

text \<open>
  The Windows listeners: the documented behaviour of their completion port, the invariant of a listener with its reference
  count, its readiness, the accept in flight and the sockets that it has made, and what every call and every callback does to
  it.
\<close>

section \<open>Completion ports\<close>

text \<open>What can be observed of one listener: the packets that the port owes for its accept, whether an operation that completes at
  once skips its packet, whether the listener belongs to a port, and which of the sockets made for connections are open.\<close>

record listener_io =
  li_accepts :: nat
  li_skip :: bool
  li_bound :: bool
  li_open :: "fd set"

text \<open>Documented behaviour.  A new socket has a descriptor that is not in use.\<close>

definition new_socket :: "fd \<Rightarrow> listener_io \<Rightarrow> fd io_result \<Rightarrow> listener_io \<Rightarrow> bool" where
  "new_socket s x res x' \<longleftrightarrow>
     (case res of Inl _ \<Rightarrow> x' = x | Inr f \<Rightarrow> f \<noteq> s \<and> f \<notin> li_open x \<and> x' = x\<lparr>li_open := insert f (li_open x)\<rparr>)"

definition accept_starts :: "fd \<Rightarrow> listener_io \<Rightarrow> (fd \<times> bool) io_result \<Rightarrow> listener_io \<Rightarrow> bool" where
  "accept_starts t x res x' \<longleftrightarrow>
     (case res of
        Inl _ \<Rightarrow> x' = x
      | Inr (t', now) \<Rightarrow> t' = t \<and> x' = (if now \<and> li_skip x then x else x\<lparr>li_accepts := li_accepts x + 1\<rparr>))"

definition listener_laws :: "'o win_sys \<Rightarrow> nat \<Rightarrow> fd \<Rightarrow> ('o \<Rightarrow> listener_io) \<Rightarrow> bool" where
  "listener_laws ws a s io \<longleftrightarrow>
     post_laws ws io \<and>
     (\<forall>w. io (snd (ws_cancel_io ws s (ListenerAccept a) w)) = io w) \<and>
     (\<forall>f w. io (snd (ws_set_nonblocking ws f True w)) = io w) \<and>
     (\<forall>t w. io (snd (ws_accept_complete ws s t w)) = io w) \<and>
     (\<forall>w. io (snd (ws_accept_remote ws s w)) = io w) \<and>
     (\<forall>f w. io (ws_close ws f w) = (io w)\<lparr>li_open := li_open (io w) - {f}\<rparr>) \<and>
     (\<forall>port k w. case ws_add_socket ws port k s w of
        (Inl _, w') \<Rightarrow> io w' = io w
      | (Inr _, w') \<Rightarrow> \<not> li_bound (io w) \<and> io w' = (io w)\<lparr>li_bound := True\<rparr>) \<and>
     (\<forall>w. case ws_notification_modes ws s (FILE_SKIP_COMPLETION_PORT_ON_SUCCESS OR FILE_SKIP_SET_EVENT_ON_HANDLE) w of
        (r, w') \<Rightarrow> io w' = (if r = 1 then (io w)\<lparr>li_skip := True\<rparr> else io w)) \<and>
     (\<forall>w. new_socket s (io w) (fst (ws_tcp_v4 ws w)) (io (snd (ws_tcp_v4 ws w)))) \<and>
     (\<forall>w. new_socket s (io w) (fst (ws_tcp_v6 ws w)) (io (snd (ws_tcp_v6 ws w)))) \<and>
     (\<forall>t w. accept_starts t (io w) (fst (ws_accept_overlapped ws s t (ListenerAccept a) w))
        (io (snd (ws_accept_overlapped ws s t (ListenerAccept a) w))))"

definition accept_completes :: "listener_io \<Rightarrow> listener_io \<Rightarrow> bool" where
  "accept_completes x x' \<longleftrightarrow> li_accepts x \<noteq> 0 \<and> x' = x\<lparr>li_accepts := li_accepts x - 1\<rparr>"

lemma listener_post: "listener_laws ws a fd io \<Longrightarrow> post_laws ws io"
  by (simp add: listener_laws_def)

lemma listener_calls:
  assumes "listener_laws ws a fd io"
  shows "io (snd (win_cancel ws fd (ListenerAccept a) w)) = io w" and "io (snd (ws_set_nonblocking ws f True w)) = io w"
    and "io (snd (accept_result ws fd t w)) = io w" and "io (ws_close ws f w) = (io w)\<lparr>li_open := li_open (io w) - {f}\<rparr>"
    and "ws_add_socket ws port k fd w = (res, w') \<Longrightarrow>
      (case res of Inl _ \<Rightarrow> io w' = io w | Inr _ \<Rightarrow> \<not> li_bound (io w) \<and> io w' = (io w)\<lparr>li_bound := True\<rparr>)"
proof -
  have law: "io (snd (ws_cancel_io ws fd (ListenerAccept a) w)) = io w" "io (snd (ws_set_nonblocking ws f True w)) = io w"
    "io (snd (ws_accept_complete ws fd t w)) = io w" "\<And>w. io (snd (ws_accept_remote ws fd w)) = io w"
    "io (ws_close ws f w) = (io w)\<lparr>li_open := li_open (io w) - {f}\<rparr>"
    "case ws_add_socket ws port k fd w of (Inl _, w') \<Rightarrow> io w' = io w
      | (Inr _, w') \<Rightarrow> \<not> li_bound (io w) \<and> io w' = (io w)\<lparr>li_bound := True\<rparr>"
    using assms by (simp_all add: listener_laws_def)
  show "io (snd (win_cancel ws fd (ListenerAccept a) w)) = io w" using law(1) by (simp add: win_cancel_def case_prod_beta)
  show "io (snd (ws_set_nonblocking ws f True w)) = io w" "io (ws_close ws f w) = (io w)\<lparr>li_open := li_open (io w) - {f}\<rparr>" by (fact law)+
  show "io (snd (accept_result ws fd t w)) = io w"
    using law(3,4) by (simp add: accept_result_def case_prod_beta split: sum.splits option.splits)
  show "ws_add_socket ws port k fd w = (res, w') \<Longrightarrow>
      (case res of Inl _ \<Rightarrow> io w' = io w | Inr _ \<Rightarrow> \<not> li_bound (io w) \<and> io w' = (io w)\<lparr>li_bound := True\<rparr>)"
    using law(6) by (simp split: sum.splits)
qed

lemma listener_no_notify:
  assumes "listener_laws ws a fd io" and "no_notify_on_instant_completion ws fd w = (res, w')"
  shows "case res of Inl _ \<Rightarrow> io w' = io w | Inr _ \<Rightarrow> io w' = (io w)\<lparr>li_skip := True\<rparr>"
proof -
  obtain r w1 where r: "ws_notification_modes ws fd (FILE_SKIP_COMPLETION_PORT_ON_SUCCESS OR FILE_SKIP_SET_EVENT_ON_HANDLE) w = (r, w1)"
    by fastforce
  have "case ws_notification_modes ws fd (FILE_SKIP_COMPLETION_PORT_ON_SUCCESS OR FILE_SKIP_SET_EVENT_ON_HANDLE) w of
      (r, w') \<Rightarrow> io w' = (if r = 1 then (io w)\<lparr>li_skip := True\<rparr> else io w)"
    using assms(1) by (simp add: listener_laws_def)
  then show ?thesis using assms(2) r by (auto simp: no_notify_on_instant_completion_def split: if_splits)
qed

text \<open>Starting an accept leaves one more open socket, or nothing at all.\<close>

lemma start_accept_io:
  assumes laws: "listener_laws ws a fd io" and l: "wl_addr l = a" "wl_socket l = fd" and run: "start_accept ws l w = (res, w')"
  shows "case res of
      Inl _ \<Rightarrow> io w' = io w
    | Inr (t, now) \<Rightarrow> t \<noteq> fd \<and> t \<notin> li_open (io w) \<and>
        io w' = (io w)\<lparr>li_open := insert t (li_open (io w)), li_accepts := li_accepts (io w) + (if now \<and> li_skip (io w) then 0 else 1)\<rparr>"
proof -
  have v: "new_socket fd (io w) (fst (ws_tcp_v4 ws w)) (io (snd (ws_tcp_v4 ws w)))"
    "new_socket fd (io w) (fst (ws_tcp_v6 ws w)) (io (snd (ws_tcp_v6 ws w)))"
    "\<And>t w. accept_starts t (io w) (fst (ws_accept_overlapped ws fd t (ListenerAccept a) w)) (io (snd (ws_accept_overlapped ws fd t (ListenerAccept a) w)))"
    using laws by (simp_all add: listener_laws_def)
  obtain r1 w1 where 1: "(case wl_family l of FamilyV4 \<Rightarrow> ws_tcp_v4 ws w | FamilyV6 \<Rightarrow> ws_tcp_v6 ws w) = (r1, w1)" by fastforce
  have new: "new_socket fd (io w) r1 (io w1)" using v(1,2) 1 by (cases "wl_family l") auto
  show ?thesis
  proof (cases r1)
    case (Inl e)
    then show ?thesis using run 1 new by (auto simp: start_accept_def new_socket_def)
  next
    case (Inr t)
    obtain r2 w2 where 2: "ws_accept_overlapped ws fd t (ListenerAccept a) w1 = (r2, w2)" by fastforce
    have acc: "accept_starts t (io w1) r2 (io w2)" using v(3) [of t w1] 2 by simp
    show ?thesis
      using run 1 2 Inr new acc listener_calls(4) [OF laws, of t]
      by (cases r2) (auto simp: start_accept_def l new_socket_def accept_starts_def)
  qed
qed

section \<open>The invariant\<close>

definition accept_pending :: "('p, 'r) win_state \<Rightarrow> nat" where
  "accept_pending st = (case st of StPending _ \<Rightarrow> 1 | _ \<Rightarrow> 0)"

definition accept_over :: "('p, 'r) win_state \<Rightarrow> bool" where
  "accept_over st \<longleftrightarrow> (case st of StReady _ \<Rightarrow> True | StError _ \<Rightarrow> True | _ \<Rightarrow> False)"

text \<open>The socket that is being or has been accepted.\<close>

definition held :: "(fd, fd \<times> socket_addr) win_state \<Rightarrow> fd set" where
  "held st = (case st of StPending s \<Rightarrow> {s} | StReady (s, _) \<Rightarrow> {s} | _ \<Rightarrow> {})"

lemma accept_state_simps [simp]:
  "accept_pending StEmpty = 0" "accept_pending (StPending b) = 1" "accept_pending (StReady d) = 0" "accept_pending (StError e) = 0"
  "\<not> accept_over StEmpty" "\<not> accept_over (StPending b)" "accept_over (StReady d)" "accept_over (StError e)"
  "held StEmpty = {}" "held (StPending s) = {s}" "held (StReady (s, ad)) = {s}" "held (StError e) = {}"
  by (simp_all add: accept_pending_def accept_over_def held_def)

text \<open>\<open>k\<close> references are held by the handle and by a running callback, another one is lent to the accept in flight.  Its packet
  is owed unless it was skipped.  The open sockets are those given to the program and the one held by the listener.\<close>

definition listener_io_inv :: "nat \<Rightarrow> 'bc win_listener \<Rightarrow> ready \<Rightarrow> listener_io \<Rightarrow> fd set \<Rightarrow> bool" where
  "listener_io_inv k l r x given \<longleftrightarrow>
     unat (wl_cnt l) = k + accept_pending (wl_accept l) \<and> k \<le> 2 \<and>
     (if rb_registered (wl_iocp l) then li_bound x else wl_accept l = StEmpty) \<and>
     li_accepts x \<le> accept_pending (wl_accept l) \<and> (li_skip x \<or> li_accepts x = accept_pending (wl_accept l)) \<and>
     (accept_over (wl_accept l) \<longrightarrow> ready_is_readable r) \<and>
     li_open x = given \<union> held (wl_accept l) \<and> given \<inter> held (wl_accept l) = {} \<and> wl_socket l \<notin> li_open x"

definition listener_at ::
  "('bc, nat) lazycell_ops \<Rightarrow> nat \<Rightarrow> fd \<Rightarrow> ('o \<Rightarrow> listener_io) \<Rightarrow> nat \<Rightarrow> bool \<Rightarrow> 'bc win_listener \<Rightarrow> fd set \<Rightarrow> ready \<Rightarrow>
     'o win_poll \<Rightarrow> bool" where
  "listener_at lc a fd io k alive l given r p \<longleftrightarrow>
     wl_addr l = a \<and> wl_socket l = fd \<and> bind_inv lc (wl_iocp l) (pl_selector p) \<and>
     wl_registration l = (if alive then rb_readiness (wl_iocp l) else None) \<and>
     queued (rb_readiness (wl_iocp l)) (if alive then 2 else 1) r p \<and> listener_io_inv k l r (io (os_of p)) given"

definition listener_inv ::
  "('bc, nat) lazycell_ops \<Rightarrow> nat \<Rightarrow> fd \<Rightarrow> ('o \<Rightarrow> listener_io) \<Rightarrow> nat \<Rightarrow> bool \<Rightarrow> 'bc win_listener \<Rightarrow> fd set \<Rightarrow> 'o win_poll \<Rightarrow> bool" where
  "listener_inv lc a fd io k alive l given p \<longleftrightarrow> (\<exists>r. listener_at lc a fd io k alive l given r p)"

lemma listener_io_inv_cnt:
  assumes "listener_io_inv k l r x given"
  shows "unat (arc_clone (wl_cnt l)) = unat (wl_cnt l) + 1"
proof -
  have "unat (wl_cnt l) \<le> 3" using assms by (cases "wl_accept l"; simp add: listener_io_inv_def)
  then have "unat (wl_cnt l) + unat (1 :: usize) < 2 ^ 64" by simp
  then show ?thesis by (simp add: arc_clone_def unat_word_ariths)
qed

lemma listener_io_inv_starts:
  assumes "listener_io_inv k l r x given" and "rb_registered (wl_iocp l)" and "wl_accept l = StEmpty"
  shows "t \<noteq> wl_socket l \<Longrightarrow> t \<notin> li_open x \<Longrightarrow>
      listener_io_inv k (l\<lparr>wl_accept := StPending t, wl_cnt := arc_clone (wl_cnt l)\<rparr>) r
        (x\<lparr>li_open := insert t (li_open x), li_accepts := li_accepts x + (if now \<and> li_skip x then 0 else 1)\<rparr>) given"
    and "ready_is_readable r \<Longrightarrow> listener_io_inv k (l\<lparr>wl_accept := StError e\<rparr>) r x given"
    and "ready_is_readable r \<Longrightarrow> s \<noteq> wl_socket l \<Longrightarrow> s \<notin> given \<Longrightarrow>
      listener_io_inv k (l\<lparr>wl_accept := StReady (s, ad)\<rparr>) r (x\<lparr>li_open := insert s (li_open x)\<rparr>) given"
  using assms listener_io_inv_cnt [OF assms(1)] by (auto simp: listener_io_inv_def)

text \<open>The socket goes to the program.\<close>

lemma listener_io_inv_given:
  assumes "listener_io_inv k l r x given" and "rb_registered (wl_iocp l)"
  shows "wl_accept l = StReady (s, ad) \<Longrightarrow> listener_io_inv k (l\<lparr>wl_accept := StEmpty\<rparr>) r x (insert s given)"
    and "wl_accept l = StReady (s, ad) \<Longrightarrow> listener_io_inv k (l\<lparr>wl_accept := StEmpty\<rparr>) r (x\<lparr>li_open := li_open x - {s}\<rparr>) given"
    and "wl_accept l = StError e \<Longrightarrow> listener_io_inv k (l\<lparr>wl_accept := StEmpty\<rparr>) r x given"
  using assms by (auto simp: listener_io_inv_def)

text \<open>When the packet arrives, the reference lent to the accept belongs to its callback.\<close>

lemma listener_io_inv_ends:
  assumes "listener_io_inv k l r x given" and "k \<le> 1" and "accept_completes x x'"
  obtains s where "wl_accept l = StPending s" "rb_registered (wl_iocp l)" "s \<noteq> wl_socket l" "s \<notin> given" "s \<in> li_open x'"
    "listener_io_inv (Suc k) (l\<lparr>wl_accept := StEmpty\<rparr>) r (x'\<lparr>li_open := li_open x' - {s}\<rparr>) given"
  using assms by (cases "wl_accept l") (auto simp: listener_io_inv_def accept_completes_def split: if_splits)

lemma listener_io_inv_release:
  assumes "listener_io_inv (Suc k) l r x given"
  shows "wl_cnt l = 1 \<longleftrightarrow> k + accept_pending (wl_accept l) = 0" and "listener_io_inv k (l\<lparr>wl_cnt := wl_cnt l - 1\<rparr>) r x given"
proof -
  have n: "unat (wl_cnt l) = Suc (k + accept_pending (wl_accept l))" using assms by (simp add: listener_io_inv_def)
  then show "wl_cnt l = 1 \<longleftrightarrow> k + accept_pending (wl_accept l) = 0" by (simp add: word_unat_eq_iff)
  have "wl_cnt l \<noteq> 0" using n by auto
  then have "unat (wl_cnt l - 1) = k + accept_pending (wl_accept l)" using n by (simp add: unat_minus_one)
  then show "listener_io_inv k (l\<lparr>wl_cnt := wl_cnt l - 1\<rparr>) r x given" using assms by (auto simp: listener_io_inv_def)
qed

section \<open>Accepting\<close>

lemma listener_readiness_at:
  assumes laws: "listener_laws ws a fd io" and inv: "listener_at lc a fd io k alive l given r p" and reg: "rb_registered (wl_iocp l)"
  shows "\<exists>p'. listener_add_readiness ws l ready_readable p = Some p' \<and> quiet io p p' \<and>
      listener_at lc a fd io k alive l given (ready_bitor ready_readable r) p'"
    and "wl_accept l = StEmpty \<Longrightarrow>
      \<exists>p'. Option.bind (rb_get_readiness (wl_iocp l) p) (\<lambda>cur. rb_set_readiness ws (wl_iocp l) (ready_bitand cur (ready_not ready_readable)) p) = Some p' \<and>
        listener_at lc a fd io k alive l given (ready_bitand r (ready_not ready_readable)) p' \<and> quiet io p p'"
proof -
  have q: "queued (rb_readiness (wl_iocp l)) (if alive then 2 else 1) r p" using inv by (simp add: listener_at_def)
  note change = rb_change_readiness [OF listener_post [OF laws] q reg]
  have "\<not> event_is_drop ready_readable" by (simp add: ready_rules)
  from change(1) [OF this] inv show "\<exists>p'. listener_add_readiness ws l ready_readable p = Some p' \<and> quiet io p p' \<and>
      listener_at lc a fd io k alive l given (ready_bitor ready_readable r) p'"
    by (auto simp: listener_add_readiness_def listener_at_def listener_io_inv_def quiet_def ready_rules)
  show "\<exists>p'. Option.bind (rb_get_readiness (wl_iocp l) p) (\<lambda>cur. rb_set_readiness ws (wl_iocp l) (ready_bitand cur (ready_not ready_readable)) p) = Some p' \<and>
        listener_at lc a fd io k alive l given (ready_bitand r (ready_not ready_readable)) p' \<and> quiet io p p'"
    if "wl_accept l = StEmpty"
    using change(2) [of ready_readable] inv that by (auto simp: listener_at_def listener_io_inv_def quiet_def ready_rules)
qed

lemma listener_at_registered:
  assumes "listener_at lc a fd io k alive l given r p" and "wl_accept l \<noteq> StEmpty"
  shows "rb_registered (wl_iocp l)"
  using assms by (auto simp: listener_at_def listener_io_inv_def split: if_splits)

lemma listener_schedule_accept_at:
  assumes laws: "listener_laws ws a fd io" and inv: "listener_at lc a fd io k alive l given r p" and reg: "rb_registered (wl_iocp l)"
  shows "\<exists>l' r' p'. listener_schedule_accept ws l p = Some (l', p') \<and> listener_at lc a fd io k alive l' given r' p'"
proof (cases "wl_accept l = StEmpty")
  case False
  then show ?thesis using inv by (auto simp: listener_schedule_accept_def)
next
  case empty: True
  let ?r = "ready_bitand r (ready_not ready_readable)"
  obtain p1 where p1: "Option.bind (rb_get_readiness (wl_iocp l) p)
      (\<lambda>cur. rb_set_readiness ws (wl_iocp l) (ready_bitand cur (ready_not ready_readable)) p) = Some p1"
    "listener_at lc a fd io k alive l given ?r p1"
    using listener_readiness_at(2) [OF laws inv reg empty] by blast
  have s: "wl_addr l = a" "wl_socket l = fd" "listener_io_inv k l ?r (io (os_of p1)) given" using p1(2) by (simp_all add: listener_at_def)
  obtain res w where w: "start_accept ws l (os_of p1) = (res, w)" by fastforce
  note law = start_accept_io [OF laws s(1,2) w]
  have os: "win_os (start_accept ws l) p1 = (res, with_os w p1)" by (simp add: win_os_eq w)
  have run: "listener_schedule_accept ws l p = (case res of
      Inr (socket, _) \<Rightarrow> Some (l\<lparr>wl_accept := StPending socket, wl_cnt := arc_clone (wl_cnt l)\<rparr>, with_os w p1)
    | Inl e \<Rightarrow> map_option (\<lambda>p3. (l\<lparr>wl_accept := StError e\<rparr>, p3)) (listener_add_readiness ws l ready_readable (with_os w p1)))"
    using p1(1) by (cases "rb_get_readiness (wl_iocp l) p") (simp_all add: listener_schedule_accept_def empty os split: sum.splits)
  show ?thesis
  proof (cases res)
    case (Inr tn)
    then obtain t now where tn: "res = Inr (t, now)" by (cases tn) auto
    then have "listener_at lc a fd io k alive (l\<lparr>wl_accept := StPending t, wl_cnt := arc_clone (wl_cnt l)\<rparr>) given ?r (with_os w p1)"
      using p1(2) law listener_io_inv_starts(1) [OF s(3) reg empty, of t now] s(2) by (simp add: listener_at_def)
    then show ?thesis using run tn by auto
  next
    case (Inl e)
    have "listener_at lc a fd io k alive l given ?r (with_os w p1)" using p1(2) law Inl by (simp add: listener_at_def)
    from listener_readiness_at(1) [OF laws this reg] obtain p3 where p3: "listener_add_readiness ws l ready_readable (with_os w p1) = Some p3"
      "listener_at lc a fd io k alive l given (ready_bitor ready_readable ?r) p3" by blast
    then have "listener_at lc a fd io k alive (l\<lparr>wl_accept := StError e\<rparr>) given (ready_bitor ready_readable ?r) p3"
      using listener_io_inv_starts(2) [OF _ reg empty, of k "ready_bitor ready_readable ?r"] by (auto simp: listener_at_def ready_rules)
    then show ?thesis using run Inl p3(1) by auto
  qed
qed

definition handed_out :: "('bc win_stream \<times> socket_addr) io_result \<Rightarrow> fd set" where
  "handed_out res = (case res of Inr (s, _) \<Rightarrow> {wt_socket s} | Inl _ \<Rightarrow> {})"

lemma win_listener_accept_inv:
  assumes laws: "listener_laws ws a fd io" and inv: "listener_inv lc a fd io k alive l given p"
  shows "\<exists>res l' p'. win_listener_accept ws lc obj l p = Some (res, l', p') \<and>
    listener_inv lc a fd io k alive l' (given \<union> handed_out res) p'"
proof -
  obtain r where r: "listener_at lc a fd io k alive l given r p" using inv by (auto simp: listener_inv_def)
  note again = listener_schedule_accept_at [OF laws]
  show ?thesis
  proof (cases "wl_accept l")
    case StEmpty
    moreover from this have "l\<lparr>wl_accept := StEmpty\<rparr> = l" by (cases l) simp
    ultimately have "win_listener_accept ws lc obj l p = Some (Inl win_would_block, l, p)" by (simp only: win_listener_accept_def win_state.case Let_def)
    then show ?thesis using inv by (simp add: handed_out_def)
  next
    case (StPending t)
    then show ?thesis using inv by (simp add: win_listener_accept_def handed_out_def)
  next
    case (StError e)
    then have reg: "rb_registered (wl_iocp l)" using listener_at_registered [OF r] by simp
    then have "listener_at lc a fd io k alive (l\<lparr>wl_accept := StEmpty\<rparr>) given r p"
      using r listener_io_inv_given(3) [OF _ reg StError] by (simp add: listener_at_def)
    from again [OF this] reg show ?thesis by (auto simp: win_listener_accept_def StError listener_inv_def handed_out_def)
  next
    case (StReady sa)
    then obtain s ad where sa: "wl_accept l = StReady (s, ad)" by (cases sa) auto
    then have reg: "rb_registered (wl_iocp l)" using listener_at_registered [OF r] by simp
    let ?l = "l\<lparr>wl_accept := StEmpty\<rparr>"
    obtain res w where w: "ws_set_nonblocking ws s True (os_of p) = (res, w)" by fastforce
    have io: "io w = io (os_of p)" using listener_calls(2) [OF laws, of s "os_of p"] w by simp
    show ?thesis
    proof (cases res)
      case (Inl e)
      have "listener_at lc a fd io k alive ?l given r (with_os (ws_close ws s w) p)"
        using r listener_io_inv_given(2) [OF _ reg sa] io by (simp add: listener_at_def listener_calls(4) [OF laws])
      then show ?thesis using Inl w by (auto simp: win_listener_accept_def sa win_os_eq handed_out_def listener_inv_def Let_def with_os_def os_of_def)
    next
      case (Inr n)
      have "listener_at lc a fd io k alive ?l (insert s given) r (with_os w p)"
        using r listener_io_inv_given(1) [OF _ reg sa] io by (simp add: listener_at_def)
      from again [OF this] reg show ?thesis
        using Inr w by (auto simp: win_listener_accept_def sa win_os_eq handed_out_def listener_inv_def win_stream_new_def Let_def)
    qed
  qed
qed

section \<open>Registration\<close>

lemma win_listener_register_inv:
  assumes laws: "listener_laws ws a fd io" and lc: "lazycell_laws lc" and inv: "listener_inv lc a fd io k True l given p"
  shows "\<exists>res l' p'. win_listener_register ws lc l p tok interest opts = Some (res, l', p') \<and> listener_inv lc a fd io k True l' given p' \<and>
    (rb_registered (wl_iocp l) \<longrightarrow> wl_accept l' = wl_accept l \<and> io (os_of p') = io (os_of p))"
proof -
  from inv obtain r where at: "listener_at lc a fd io k True l given r p" by (auto simp: listener_inv_def)
  then have s: "wl_socket l = fd" "bind_inv lc (wl_iocp l) (pl_selector p)" "wl_registration l = rb_readiness (wl_iocp l)"
    "queued (rb_readiness (wl_iocp l)) 2 r p" "listener_io_inv k l r (io (os_of p)) given"
    by (auto simp: listener_at_def)
  have add: "case res of Inl _ \<Rightarrow> io w = io (os_of p) | Inr _ \<Rightarrow> rb_readiness (wl_iocp l) = None \<and> io w = (io (os_of p))\<lparr>li_bound := True\<rparr>"
    if "ws_add_socket ws (sel_port (pl_selector p)) (usize_from_token tok) fd (os_of p) = (res, w)" for res w
    using listener_calls(5) [OF laws that] s(5) by (auto simp: listener_io_inv_def rb_registered_def split: sum.splits if_splits)
  show ?thesis
  proof (rule rb_register_socket_cases [OF listener_post [OF laws] lc s(2,4) add, where evts = interest and opts = opts])
    fix e b1 w
    assume r: "rb_register_socket ws lc (wl_iocp l) (rb_readiness (wl_iocp l)) fd p tok interest opts =
        Some (Inl e, (wl_iocp l)\<lparr>rb_binding := b1\<rparr>, rb_readiness (wl_iocp l), with_os w p)"
      and b: "lazy_borrow lc b1 = Some (sel_addr (pl_selector p))" and w: "io w = io (os_of p)"
    have "listener_at lc a fd io k True (l\<lparr>wl_iocp := (wl_iocp l)\<lparr>rb_binding := b1\<rparr>, wl_registration := rb_readiness (wl_iocp l)\<rparr>) given r' (with_os w p)"
      if "listener_at lc a fd io k True l given r' p" for r'
      using that b w by (auto simp: listener_at_def bind_inv_def listener_io_inv_def rb_registered_def split: option.splits)
    then show ?thesis using r at s(1,3) w by (auto simp: win_listener_register_def listener_inv_def Let_def)
  next
    fix b1 h p'
    assume r: "rb_register_socket ws lc (wl_iocp l) (rb_readiness (wl_iocp l)) fd p tok interest opts =
        Some (Inr (), \<lparr>rb_binding = b1, rb_readiness = Some h\<rparr>, Some h, p')"
      and none: "rb_readiness (wl_iocp l) = None" and b: "lazy_borrow lc b1 = Some (sel_addr (pl_selector p))"
      and x: "io (os_of p') = (io (os_of p))\<lparr>li_bound := True\<rparr>" and sel: "pl_selector p' = pl_selector p" and q: "queued (Some h) 2 ready_none p'"
    let ?l = "l\<lparr>wl_iocp := \<lparr>rb_binding = b1, rb_readiness = Some h\<rparr>, wl_registration := Some h\<rparr>"
    have reg: "rb_registered (wl_iocp ?l)" by (simp add: rb_registered_def)
    have new: "\<not> rb_registered (wl_iocp l)" using none by (simp add: rb_registered_def)
    have at': "listener_at lc a fd io k True ?l given ready_none p'"
      using at none b x sel q by (auto simp: listener_at_def bind_inv_def listener_io_inv_def rb_registered_def split: option.splits)
    obtain res w where w: "no_notify_on_instant_completion ws fd (os_of p') = (res, w)" by fastforce
    show ?thesis
    proof (cases res)
      case (Inl e)
      then have "listener_at lc a fd io k True ?l given ready_none (with_os w p')" using at' listener_no_notify [OF laws w] by (simp add: listener_at_def)
      then show ?thesis using Inl w by (auto simp: win_listener_register_def r s(1,3) win_os_eq listener_inv_def Let_def new)
    next
      case (Inr n)
      then have "listener_at lc a fd io k True (?l\<lparr>wl_instant := True\<rparr>) given ready_none (with_os w p')"
        using at' listener_no_notify [OF laws w] by (auto simp: listener_at_def listener_io_inv_def)
      from listener_schedule_accept_at [OF laws this] reg show ?thesis
        using Inr w by (auto simp: win_listener_register_def r s(1,3) win_os_eq listener_inv_def Let_def new)
    qed
  qed
qed

lemma win_listener_reregister_inv:
  assumes laws: "listener_laws ws a fd io" and inv: "listener_inv lc a fd io k True l given p"
    and made: "registration_made lc (wl_iocp l)" and aw: "awake (pl_queue p)"
  shows "\<exists>res l' p'. win_listener_reregister ws lc l p tok interest opts = Some (res, l', p') \<and> listener_inv lc a fd io k True l' given p' \<and>
      (wl_accept l \<noteq> StEmpty \<longrightarrow> wl_accept l' = wl_accept l \<and> io (os_of p') = io (os_of p))"
    and "\<exists>res p'. win_listener_deregister lc l p = Some (res, l, p') \<and> listener_inv lc a fd io k True l given p' \<and> io (os_of p') = io (os_of p)"
proof -
  from inv obtain r where at: "listener_at lc a fd io k True l given r p" by (auto simp: listener_inv_def)
  then have s: "bind_inv lc (wl_iocp l) (pl_selector p)" "wl_registration l = rb_readiness (wl_iocp l)" "queued (rb_readiness (wl_iocp l)) 2 r p"
    by (auto simp: listener_at_def)
  have keep: "listener_at lc a fd io k True l given r p'"
    if "queued (rb_readiness (wl_iocp l)) 2 r p'" "os_of p' = os_of p" "pl_selector p' = pl_selector p" for p'
    using at that by (auto simp: listener_at_def)
  obtain res p1 where p1: "rb_reregister_socket lc (wl_iocp l) (wl_registration l) p tok interest opts = Some (res, p1)"
    "listener_at lc a fd io k True l given r p1" "res = Inr () \<longrightarrow> rb_registered (wl_iocp l)" "os_of p1 = os_of p"
    using rb_reregister_ok(1) [OF s(1,3) made aw, of tok interest opts] keep s(2) by auto
  have busy: "listener_schedule_accept ws l p1 = Some (l, p1)" if "wl_accept l \<noteq> StEmpty" using that by (simp add: listener_schedule_accept_def)
  show "\<exists>res l' p'. win_listener_reregister ws lc l p tok interest opts = Some (res, l', p') \<and> listener_inv lc a fd io k True l' given p' \<and>
      (wl_accept l \<noteq> StEmpty \<longrightarrow> wl_accept l' = wl_accept l \<and> io (os_of p') = io (os_of p))"
    using p1 listener_schedule_accept_at [OF laws p1(2)] busy by (cases res) (auto simp: win_listener_reregister_def listener_inv_def)
  show "\<exists>res p'. win_listener_deregister lc l p = Some (res, l, p') \<and> listener_inv lc a fd io k True l given p' \<and> io (os_of p') = io (os_of p)"
    using rb_reregister_ok(2) [OF s(1,3) made aw] keep s(2) by (fastforce simp: win_listener_deregister_def listener_inv_def)
qed

section \<open>References\<close>

text \<open>Giving up a reference: with the last one the object goes, and it closes the socket that it held.\<close>

lemma close_sockets:
  assumes laws: "listener_laws ws a fd io" and inv: "listener_io_inv k l r (io w) given"
  shows "io (fold (ws_close ws) (listener_sockets l) w) = (io w)\<lparr>li_open := given\<rparr>"
  using inv listener_calls(4) [OF laws]
  by (cases "wl_accept l") (auto simp: listener_sockets_def listener_io_inv_def held_def split: prod.splits)

lemma listener_release_at:
  assumes laws: "listener_laws ws a fd io" and inv: "listener_at lc a fd io (Suc k) alive l given r p"
  shows "\<exists>lo p'. listener_release ws l p = Some (lo, p') \<and>
    (case lo of
       None \<Rightarrow> k + accept_pending (wl_accept l) = 0 \<and> io (os_of p') = (io (os_of p))\<lparr>li_open := given\<rparr> \<and>
         left_handles (rb_readiness (wl_iocp l)) ((if alive then 2 else 1) - 1) p'
     | Some l' \<Rightarrow> k + accept_pending (wl_accept l) \<noteq> 0 \<and> listener_at lc a fd io k alive l' given r p' \<and> l' = l\<lparr>wl_cnt := wl_cnt l - 1\<rparr>)"
proof -
  have s: "queued (rb_readiness (wl_iocp l)) (if alive then 2 else 1) r p" "listener_io_inv (Suc k) l r (io (os_of p)) given"
    using inv by (simp_all add: listener_at_def)
  note rel = listener_io_inv_release [OF s(2)]
  show ?thesis
  proof (cases "wl_cnt l = 1")
    case False
    then show ?thesis using inv rel by (auto simp: listener_release_def arc_drop_def listener_at_def)
  next
    case True
    obtain q where q: "(case rb_readiness (wl_iocp l) of None \<Rightarrow> Some (pl_queue p) | Some h \<Rightarrow> set_readiness_drop (win_wakeup ws) (pl_queue p) h) = Some q"
      "left_handles (rb_readiness (wl_iocp l)) ((if alive then 2 else 1) - 1) (p\<lparr>pl_queue := q\<rparr>)" "io (os_of (p\<lparr>pl_queue := q\<rparr>)) = io (os_of p)"
      using set_readiness_drop_left [OF listener_post [OF laws] s(1)] by blast
    then show ?thesis
      using True rel(1) close_sockets [OF laws, of "Suc k" l r "os_of (p\<lparr>pl_queue := q\<rparr>)" given] s(2)
      by (simp add: listener_release_def arc_drop_def win_os_eq)
  qed
qed

lemma listener_release_kept: "listener_release ws l p = Some (Some l', p') \<Longrightarrow> p' = p"
  by (auto simp: listener_release_def arc_drop_def win_os_eq Option.bind_eq_Some_conv split: bool.splits)

lemma win_listener_drop_inv:
  assumes laws: "listener_laws ws a fd io" and inv: "listener_inv lc a fd io 1 True l given p"
  shows "\<exists>lo p'. win_listener_drop ws l p = Some (lo, p') \<and>
    (case lo of
       None \<Rightarrow> accept_pending (wl_accept l) = 0 \<and> io (os_of p') = (io (os_of p))\<lparr>li_open := given\<rparr> \<and> left_handles (rb_readiness (wl_iocp l)) 0 p'
     | Some l' \<Rightarrow> accept_pending (wl_accept l) \<noteq> 0 \<and> wl_accept l' = wl_accept l \<and> io (os_of p') = io (os_of p) \<and>
         listener_inv lc a fd io 0 False l' given p')"
proof -
  let ?p = "case wl_accept l of StPending _ \<Rightarrow> snd (win_os (win_cancel ws (wl_socket l) (ListenerAccept (wl_addr l))) p) | _ \<Rightarrow> p"
  from inv obtain r where at: "listener_at lc a fd io 1 True l given r p" by (auto simp: listener_inv_def)
  then have s: "wl_addr l = a" "wl_socket l = fd" "wl_registration l = rb_readiness (wl_iocp l)" by (simp_all add: listener_at_def)
  have x: "io (os_of ?p) = io (os_of p)" and at1: "listener_at lc a fd io (Suc 0) True l given r ?p"
    using at listener_calls(1) [OF laws] by (simp_all add: win_os_eq s listener_at_def split: win_state.splits)
  obtain lo p2 where rel: "listener_release ws l ?p = Some (lo, p2)" and
    lo: "case lo of
       None \<Rightarrow> 0 + accept_pending (wl_accept l) = 0 \<and> io (os_of p2) = (io (os_of p))\<lparr>li_open := given\<rparr> \<and>
         left_handles (rb_readiness (wl_iocp l)) ((if True then 2 else 1) - 1) p2
     | Some l' \<Rightarrow> 0 + accept_pending (wl_accept l) \<noteq> 0 \<and> listener_at lc a fd io 0 True l' given r p2 \<and> l' = l\<lparr>wl_cnt := wl_cnt l - 1\<rparr>"
    using listener_release_at [OF laws at1] unfolding x by blast
  show ?thesis
  proof (cases lo)
    case None
    then have "left_handles (rb_readiness (wl_iocp l)) 1 p2" using lo by simp
    from registration_drop_left [OF listener_post [OF laws] this] show ?thesis
      using lo rel None by (auto simp: win_listener_drop_def Let_def s(3))
  next
    case (Some l')
    have q: "queued (rb_readiness (wl_iocp l)) 2 r p2" "listener_at lc a fd io 0 True l' given r p2" "wl_iocp l' = wl_iocp l" "wl_accept l' = wl_accept l"
      using lo Some by (auto simp: listener_at_def)
    have p2: "p2 = ?p" using listener_release_kept [OF rel [unfolded Some]] .
    obtain q' where q': "(case rb_readiness (wl_iocp l) of None \<Rightarrow> Some (pl_queue p2) | Some r \<Rightarrow> registration_drop (win_wakeup ws) (pl_queue p2) r) = Some q'"
      "queued (rb_readiness (wl_iocp l)) 1 r (p2\<lparr>pl_queue := q'\<rparr>)" "io (os_of (p2\<lparr>pl_queue := q'\<rparr>)) = io (os_of p2)"
      using q(1) queued_registration_drop [OF listener_post [OF laws]] by (cases "rb_readiness (wl_iocp l)") (fastforce simp: queued_def)+
    then have "listener_at lc a fd io 0 False (l'\<lparr>wl_registration := None\<rparr>) given r (p2\<lparr>pl_queue := q'\<rparr>)"
      using q(2,3) by (auto simp: listener_at_def listener_io_inv_def)
    then show ?thesis using q'(1,3) rel lo Some q(4) x p2 by (auto simp: win_listener_drop_def Let_def s(3) listener_inv_def)
  qed
qed

section \<open>Callbacks\<close>

lemma listener_readiness_cong: "wl_iocp l' = wl_iocp l \<Longrightarrow> listener_add_readiness ws l' = listener_add_readiness ws l"
  by (simp add: listener_add_readiness_def fun_eq_iff)

text \<open>Until its state is stored again, the socket is in no state; if the accept has failed, it is closed.\<close>

lemma accept_done_at:
  assumes laws: "listener_laws ws a fd io" and at: "listener_at lc a fd io k alive l given r p" and k: "k \<le> 1"
    and comp: "accept_completes (io (os_of p)) (io w)"
  shows "\<exists>st p1 r1. accept_done ws status l (with_os w p) = listener_release ws (l\<lparr>wl_accept := st\<rparr>) p1 \<and>
    accept_over st \<and> listener_at lc a fd io (Suc k) alive (l\<lparr>wl_accept := st\<rparr>) given r1 p1"
proof -
  have "listener_io_inv k l r (io (os_of p)) given" and fd: "wl_socket l = fd" using at by (simp_all add: listener_at_def)
  from listener_io_inv_ends [OF this(1) k comp] obtain s where s: "wl_accept l = StPending s" "rb_registered (wl_iocp l)" "s \<noteq> fd" "s \<notin> given"
    "s \<in> li_open (io w)" "listener_io_inv (Suc k) (l\<lparr>wl_accept := StEmpty\<rparr>) r ((io w)\<lparr>li_open := li_open (io w) - {s}\<rparr>) given"
    using fd by metis
  let ?l = "l\<lparr>wl_accept := StEmpty\<rparr>"
  obtain res w1 where w1: "accept_result ws fd s w = (res, w1)" by fastforce
  have io1: "io w1 = io w" using listener_calls(3) [OF laws, of s w] w1 by simp
  have q: "queued (rb_readiness (wl_iocp l)) (if alive then 2 else 1) r (with_os w1 p)" using at by (simp add: listener_at_def)
  have nd: "\<not> event_is_drop ready_readable" by (simp add: ready_rules)
  obtain p2 where p2: "listener_add_readiness ws l ready_readable (with_os w1 p) = Some p2"
    "queued (rb_readiness (wl_iocp l)) (if alive then 2 else 1) (ready_bitor ready_readable r) p2" "quiet io (with_os w1 p) p2"
    using rb_change_readiness(1) [OF listener_post [OF laws] q s(2) nd] by (auto simp: listener_add_readiness_def)
  let ?st = "case res of Inr ad \<Rightarrow> StReady (s, ad) | Inl e \<Rightarrow> StError e"
  let ?p = "case res of Inr _ \<Rightarrow> p2 | Inl _ \<Rightarrow> with_os (ws_close ws s (os_of p2)) p2"
  let ?r = "ready_bitor ready_readable r"
  have inv: "listener_io_inv (Suc k) ?l ?r ((io w)\<lparr>li_open := li_open (io w) - {s}\<rparr>) given" "ready_is_readable ?r"
    using s(6) by (auto simp: listener_io_inv_def ready_rules)
  have x2: "io (os_of p2) = io w" "pl_selector p2 = pl_selector p" using p2(3) io1 by (simp_all add: quiet_def)
  have whole: "(io w)\<lparr>li_open := li_open (io w) - {s}, li_open := insert s (li_open (io w) - {s})\<rparr> = io w" using s(5) by (simp add: insert_absorb)
  have "listener_io_inv (Suc k) (l\<lparr>wl_accept := ?st\<rparr>) ?r (io (os_of ?p)) given"
    using listener_io_inv_starts(2) [OF inv(1) _ _ inv(2)] listener_io_inv_starts(3) [OF inv(1) _ _ inv(2), of s] s fd x2(1) whole
    by (cases res) (auto simp: listener_calls(4) [OF laws] insert_absorb)
  moreover have "queued (rb_readiness (wl_iocp l)) (if alive then 2 else 1) ?r ?p" "pl_selector ?p = pl_selector p"
    using p2(2) x2(2) by (cases res; simp)+
  ultimately have "listener_at lc a fd io (Suc k) alive (l\<lparr>wl_accept := ?st\<rparr>) given ?r ?p" using at by (simp add: listener_at_def)
  moreover have "accept_done ws status l (with_os w p) = listener_release ws (l\<lparr>wl_accept := ?st\<rparr>) ?p"
  proof -
    have "with_os w1 (with_os w p) = with_os w1 p" by (simp add: with_os_def)
    then show ?thesis
      using p2(1) w1 listener_readiness_cong [of "l\<lparr>wl_accept := ?st\<rparr>" l ws]
      by (cases res) (simp_all add: accept_done_def s(1) win_os_eq fd Let_def)
  qed
  moreover have "accept_over ?st" by (cases res) simp_all
  ultimately show ?thesis by blast
qed

section \<open>A listener and its environment\<close>

text \<open>The object, if it has not been freed; whether its handle is alive; the open sockets that \<open>accept\<close> has given to the program;
  and the poll.\<close>

record ('bc, 'o) listener_world =
  lw_listener :: "'bc win_listener option"
  lw_alive :: bool
  lw_given :: "fd set"
  lw_poll :: "'o win_poll"

datatype 'o listener_op =
  LnAccept nat | LnRegister token ready poll_opt | LnReregister token ready poll_opt | LnDeregister | LnDrop
| LnAcceptDone completion 'o | LnClose fd 'o | LnOthers "'o win_poll"

fun listener_run ::
  "'o win_sys \<Rightarrow> ('bc, nat) lazycell_ops \<Rightarrow> 'o listener_op \<Rightarrow> ('bc, 'o) listener_world \<Rightarrow> ('bc, 'o) listener_world option" where
  "listener_run ws lc (LnAccept obj) st = do {
     l \<leftarrow> lw_listener st;
     (res, l1, p1) \<leftarrow> win_listener_accept ws lc obj l (lw_poll st);
     Some (st\<lparr>lw_listener := Some l1, lw_given := lw_given st \<union> handed_out res, lw_poll := p1\<rparr>) }"
| "listener_run ws lc (LnRegister tok interest opts) st = do {
     l \<leftarrow> lw_listener st;
     (res, l1, p1) \<leftarrow> win_listener_register ws lc l (lw_poll st) tok interest opts;
     Some (st\<lparr>lw_listener := Some l1, lw_poll := p1\<rparr>) }"
| "listener_run ws lc (LnReregister tok interest opts) st = do {
     l \<leftarrow> lw_listener st;
     (res, l1, p1) \<leftarrow> win_listener_reregister ws lc l (lw_poll st) tok interest opts;
     Some (st\<lparr>lw_listener := Some l1, lw_poll := p1\<rparr>) }"
| "listener_run ws lc LnDeregister st = do {
     l \<leftarrow> lw_listener st;
     (res, l1, p1) \<leftarrow> win_listener_deregister lc l (lw_poll st);
     Some (st\<lparr>lw_listener := Some l1, lw_poll := p1\<rparr>) }"
| "listener_run ws lc LnDrop st = do {
     l \<leftarrow> lw_listener st;
     (lo, p1) \<leftarrow> win_listener_drop ws l (lw_poll st);
     Some (st\<lparr>lw_listener := lo, lw_alive := False, lw_poll := p1\<rparr>) }"
| "listener_run ws lc (LnAcceptDone status w) st = do {
     l \<leftarrow> lw_listener st;
     (lo, p1) \<leftarrow> accept_done ws status l (with_os w (lw_poll st));
     Some (st\<lparr>lw_listener := lo, lw_poll := p1\<rparr>) }"
| "listener_run ws lc (LnClose f w) st = Some (st\<lparr>lw_given := lw_given st - {f}, lw_poll := with_os w (lw_poll st)\<rparr>)"
| "listener_run ws lc (LnOthers p) st = Some (st\<lparr>lw_poll := p\<rparr>)"

text \<open>The program closes only connections that it was given.\<close>

fun listener_enabled :: "('bc, nat) lazycell_ops \<Rightarrow> ('o \<Rightarrow> listener_io) \<Rightarrow> 'o listener_op \<Rightarrow> ('bc, 'o) listener_world \<Rightarrow> bool" where
  "listener_enabled lc io (LnAcceptDone status w) st \<longleftrightarrow> accept_completes (io (os_of (lw_poll st))) (io w)"
| "listener_enabled lc io (LnClose f w) st \<longleftrightarrow>
     f \<in> lw_given st \<and> io w = (io (os_of (lw_poll st)))\<lparr>li_open := li_open (io (os_of (lw_poll st))) - {f}\<rparr>"
| "listener_enabled lc io (LnOthers p) st \<longleftrightarrow> others_step io (map_option wl_iocp (lw_listener st)) (lw_poll st) p"
| "listener_enabled lc io (LnReregister tok interest opts) st \<longleftrightarrow>
     lw_alive st \<and> awake (pl_queue (lw_poll st)) \<and> pred_option (\<lambda>l. registration_made lc (wl_iocp l)) (lw_listener st)"
| "listener_enabled lc io LnDeregister st \<longleftrightarrow>
     lw_alive st \<and> awake (pl_queue (lw_poll st)) \<and> pred_option (\<lambda>l. registration_made lc (wl_iocp l)) (lw_listener st)"
| "listener_enabled lc io op st \<longleftrightarrow> lw_alive st"

definition fresh_listener_io :: listener_io where
  "fresh_listener_io = \<lparr>li_accepts = 0, li_skip = False, li_bound = False, li_open = {}\<rparr>"

definition listener_init :: "('bc, nat) lazycell_ops \<Rightarrow> nat \<Rightarrow> fd \<Rightarrow> ('o \<Rightarrow> listener_io) \<Rightarrow> ('bc, 'o) listener_world \<Rightarrow> bool" where
  "listener_init lc a fd io st \<longleftrightarrow> (\<exists>fam. lw_listener st = Some (win_listener_new_family lc a fd fam)) \<and> lw_alive st \<and> lw_given st = {} \<and>
     io (os_of (lw_poll st)) = fresh_listener_io \<and> queue_wf (pl_queue (lw_poll st)) \<and> pool_ok (sel_buffers (pl_selector (lw_poll st)))"

abbreviation listener_reach ::
  "'o win_sys \<Rightarrow> ('bc, nat) lazycell_ops \<Rightarrow> nat \<Rightarrow> fd \<Rightarrow> ('o \<Rightarrow> listener_io) \<Rightarrow> ('bc, 'o) listener_world \<Rightarrow> bool" where
  "listener_reach ws lc a fd io \<equiv> reached (listener_enabled lc io) (listener_run ws lc) (listener_init lc a fd io)"

text \<open>The accept that is not over, and the socket held for it.\<close>

definition listener_owed :: "('bc, 'o) listener_world \<Rightarrow> nat" where
  "listener_owed st = (case lw_listener st of None \<Rightarrow> 0 | Some l \<Rightarrow> accept_pending (wl_accept l))"

definition listener_held :: "('bc, 'o) listener_world \<Rightarrow> fd set" where
  "listener_held st = (case lw_listener st of None \<Rightarrow> {} | Some l \<Rightarrow> held (wl_accept l))"

definition listener_world_inv :: "('bc, nat) lazycell_ops \<Rightarrow> nat \<Rightarrow> fd \<Rightarrow> ('o \<Rightarrow> listener_io) \<Rightarrow> ('bc, 'o) listener_world \<Rightarrow> bool" where
  "listener_world_inv lc a fd io st \<longleftrightarrow>
     (case lw_listener st of
        None \<Rightarrow> \<not> lw_alive st \<and> li_accepts (io (os_of (lw_poll st))) = 0 \<and> li_open (io (os_of (lw_poll st))) = lw_given st
      | Some l \<Rightarrow> listener_inv lc a fd io (if lw_alive st then 1 else 0) (lw_alive st) l (lw_given st) (lw_poll st) \<and>
          (lw_alive st \<or> accept_pending (wl_accept l) \<noteq> 0))"

lemma listener_world_user:
  assumes "listener_world_inv lc a fd io st" and "lw_alive st"
  obtains l where "lw_listener st = Some l" "listener_inv lc a fd io 1 True l (lw_given st) (lw_poll st)"
  using assms by (cases "lw_listener st") (auto simp: listener_world_inv_def)

lemma listener_world_userI:
  assumes "listener_inv lc a fd io 1 True l' given p'" and "lw_alive st"
  shows "listener_world_inv lc a fd io (st\<lparr>lw_listener := Some l', lw_given := given, lw_poll := p'\<rparr>)"
  using assms by (simp add: listener_world_inv_def)

lemma listener_world_call:
  assumes laws: "listener_laws ws a fd io" and lc: "lazycell_laws lc" and inv: "listener_world_inv lc a fd io st"
    and en: "listener_enabled lc io op st"
    and op: "(\<exists>obj. op = LnAccept obj) \<or> (\<exists>tok i opts. op = LnRegister tok i opts) \<or> (\<exists>tok i opts. op = LnReregister tok i opts) \<or> op = LnDeregister"
  shows "\<exists>st'. listener_run ws lc op st = Some st' \<and> listener_world_inv lc a fd io st'"
proof -
  have alive: "lw_alive st" using en op by auto
  obtain l where l: "lw_listener st = Some l" "listener_inv lc a fd io 1 True l (lw_given st) (lw_poll st)"
    by (rule listener_world_user [OF inv alive])
  note ops = win_listener_accept_inv [OF laws l(2)] win_listener_register_inv [OF laws lc l(2)] win_listener_reregister_inv [OF laws l(2)]
  have same: "listener_world_inv lc a fd io (st\<lparr>lw_listener := Some l', lw_poll := p'\<rparr>)"
    if "listener_inv lc a fd io (Suc 0) True l' (lw_given st) p'" for l' p'
    using listener_world_userI [of lc a fd io l' "lw_given st" p' st] that alive by simp
  from op consider obj where "op = LnAccept obj" | tok i opts where "op = LnRegister tok i opts"
    | tok i opts where "op = LnReregister tok i opts" | "op = LnDeregister" by blast
  then show ?thesis
  proof cases
    case 1
    obtain res l' p' where r: "win_listener_accept ws lc obj l (lw_poll st) = Some (res, l', p')"
      "listener_inv lc a fd io 1 True l' (lw_given st \<union> handed_out res) p'" using ops(1) [of obj] by blast
    from listener_world_userI [OF r(2) alive] show ?thesis using 1 l(1) r(1) by simp
  next
    case 2
    then show ?thesis using ops(2) [of tok i opts] l(1) by (auto intro!: same)
  next
    case 3
    then show ?thesis using ops(3) [of tok i opts] en l(1) by (auto intro!: same)
  next
    case 4
    then show ?thesis using ops(4) en l(1) by (auto intro!: same)
  qed
qed

lemma listener_inv_accepts: "listener_inv lc a fd io k alive l given p \<Longrightarrow> li_accepts (io (os_of p)) \<le> accept_pending (wl_accept l)"
  by (auto simp: listener_inv_def listener_at_def listener_io_inv_def)

lemma listener_world_callback:
  assumes laws: "listener_laws ws a fd io" and inv: "listener_world_inv lc a fd io st" and en: "listener_enabled lc io (LnAcceptDone status w) st"
  shows "\<exists>st'. listener_run ws lc (LnAcceptDone status w) st = Some st' \<and> listener_world_inv lc a fd io st'"
proof -
  let ?k = "if lw_alive st then 1 else 0 :: nat"
  have comp: "accept_completes (io (os_of (lw_poll st))) (io w)" using en by simp
  obtain l r where l: "lw_listener st = Some l" "listener_at lc a fd io ?k (lw_alive st) l (lw_given st) r (lw_poll st)"
    using inv comp by (cases "lw_listener st") (auto simp: listener_world_inv_def accept_completes_def listener_inv_def)
  have k: "?k \<le> 1" by simp
  obtain acc p1 r1 where run: "accept_done ws status l (with_os w (lw_poll st)) = listener_release ws (l\<lparr>wl_accept := acc\<rparr>) p1" "accept_over acc"
    "listener_at lc a fd io (Suc ?k) (lw_alive st) (l\<lparr>wl_accept := acc\<rparr>) (lw_given st) r1 p1"
    using accept_done_at [OF laws l(2) k comp] by blast
  have pend: "accept_pending acc = 0" using run(2) by (cases acc) simp_all
  then have x: "li_accepts (io (os_of p1)) = 0" using run(3) by (simp add: listener_at_def listener_io_inv_def)
  obtain lo p' where lo: "listener_release ws (l\<lparr>wl_accept := acc\<rparr>) p1 = Some (lo, p')"
    "case lo of
       None \<Rightarrow> ?k = 0 \<and> io (os_of p') = (io (os_of p1))\<lparr>li_open := lw_given st\<rparr>
     | Some l' \<Rightarrow> ?k \<noteq> 0 \<and> listener_at lc a fd io ?k (lw_alive st) l' (lw_given st) r1 p'"
    using listener_release_at [OF laws run(3)] pend by (fastforce split: option.splits)
  then show ?thesis
    using l(1) run(1) x by (cases lo) (auto simp: listener_world_inv_def listener_inv_def split: if_splits)
qed

lemma listener_inv_others:
  assumes "listener_inv lc a fd io k alive l given p" and "others_step io (Some (wl_iocp l)) p p'"
  shows "listener_inv lc a fd io k alive l given p'"
  using assms(1) others_stepD [OF assms(2)] unfolding listener_inv_def listener_at_def by (cases alive) (simp_all, blast+)

lemma listener_inv_close:
  assumes "listener_inv lc a fd io k alive l given p" and "f \<in> given" and "io w = (io (os_of p))\<lparr>li_open := li_open (io (os_of p)) - {f}\<rparr>"
  shows "listener_inv lc a fd io k alive l (given - {f}) (with_os w p)"
  using assms by (auto simp: listener_inv_def listener_at_def listener_io_inv_def)

lemma listener_world_step:
  assumes laws: "listener_laws ws a fd io" and lc: "lazycell_laws lc" and inv: "listener_world_inv lc a fd io st"
    and en: "listener_enabled lc io op st"
  shows "\<exists>st'. listener_run ws lc op st = Some st' \<and> listener_world_inv lc a fd io st'"
proof (cases op)
  case LnDrop
  then have alive: "lw_alive st" using en by simp
  obtain l where l: "lw_listener st = Some l" "listener_inv lc a fd io 1 True l (lw_given st) (lw_poll st)"
    by (rule listener_world_user [OF inv alive])
  obtain lo p' where lo: "win_listener_drop ws l (lw_poll st) = Some (lo, p')"
    "case lo of
       None \<Rightarrow> accept_pending (wl_accept l) = 0 \<and> io (os_of p') = (io (os_of (lw_poll st)))\<lparr>li_open := lw_given st\<rparr>
     | Some l' \<Rightarrow> accept_pending (wl_accept l) \<noteq> 0 \<and> wl_accept l' = wl_accept l \<and> listener_inv lc a fd io 0 False l' (lw_given st) p'"
    using win_listener_drop_inv [OF laws l(2)] by (fastforce split: option.splits)
  then show ?thesis
    using l(1) listener_inv_accepts [OF l(2)] by (cases lo) (auto simp: LnDrop listener_world_inv_def)
next
  case (LnOthers p)
  then show ?thesis
    using inv en listener_inv_others by (cases "lw_listener st") (auto simp: listener_world_inv_def others_step_io)
next
  case (LnClose f w)
  then show ?thesis
    using inv en listener_inv_close [of lc a fd io _ _ _ "lw_given st" "lw_poll st" f w]
    by (cases "lw_listener st") (auto simp: listener_world_inv_def)
qed (use listener_world_call [OF laws lc inv en] listener_world_callback [OF laws inv] en in auto)

lemma listener_world_init:
  assumes "lazycell_laws lc" and "listener_init lc a fd io st"
  shows "listener_world_inv lc a fd io st"
  using assms
  by (auto simp: listener_init_def listener_world_inv_def listener_inv_def listener_at_def win_listener_new_family_def ready_binding_new_def
      binding_new_def bind_inv_def rb_registered_def queued_def listener_io_inv_def fresh_listener_io_def arc_new_def lazycell_laws_def)

definition listener_good ::
  "'o win_sys \<Rightarrow> ('bc, nat) lazycell_ops \<Rightarrow> nat \<Rightarrow> fd \<Rightarrow> ('o \<Rightarrow> listener_io) \<Rightarrow> ('bc, 'o) listener_world \<Rightarrow> bool" where
  "listener_good ws lc a fd io st \<longleftrightarrow> listener_laws ws a fd io \<and> lazycell_laws lc \<and> listener_world_inv lc a fd io st"

interpretation wls: lent_object "listener_run ws lc" "listener_enabled lc io" "listener_good ws lc a fd io"
  "\<lambda>st. map_option (\<lambda>l. unat (wl_cnt l)) (lw_listener st)" lw_alive listener_owed for ws lc a fd io
proof
  show "\<exists>st'. listener_run ws lc op st = Some st' \<and> listener_good ws lc a fd io st'"
    if "listener_good ws lc a fd io st" "listener_enabled lc io op st" for st op
    using listener_world_step [of ws a fd io lc st op] that by (auto simp: listener_good_def)
  show "map_option (\<lambda>l. unat (wl_cnt l)) (lw_listener st) = lent (lw_alive st) (listener_owed st)"
    if "listener_good ws lc a fd io st" for st
    using that
    by (auto simp: listener_good_def listener_world_inv_def listener_inv_def listener_at_def listener_io_inv_def listener_owed_def lent_def
        split: option.splits if_splits)
qed

lemma listener_world_reach:
  assumes "listener_laws ws a fd io" and "lazycell_laws lc" and "listener_reach ws lc a fd io st"
  shows "listener_world_inv lc a fd io st"
  using wls.reached_good [OF assms(3), of a fd] listener_world_init [OF assms(2)] assms(1,2) by (auto simp: listener_good_def)

text \<open>No socket is lost: those that are open have been given to the program or are held for the accept, whose packet is owed
  unless it was skipped.\<close>

lemma listener_world_sockets:
  assumes "listener_world_inv lc a fd io st"
  shows "li_open (io (os_of (lw_poll st))) = lw_given st \<union> listener_held st" and "lw_given st \<inter> listener_held st = {}"
    and "li_accepts (io (os_of (lw_poll st))) = listener_owed st \<or>
      li_skip (io (os_of (lw_poll st))) \<and> li_accepts (io (os_of (lw_poll st))) = 0 \<and> listener_owed st = 1"
proof -
  show "li_open (io (os_of (lw_poll st))) = lw_given st \<union> listener_held st" "lw_given st \<inter> listener_held st = {}"
    using assms by (auto simp: listener_world_inv_def listener_inv_def listener_at_def listener_io_inv_def listener_held_def split: option.splits)
  show "li_accepts (io (os_of (lw_poll st))) = listener_owed st \<or>
      li_skip (io (os_of (lw_poll st))) \<and> li_accepts (io (os_of (lw_poll st))) = 0 \<and> listener_owed st = 1"
  proof (cases "lw_listener st")
    case None
    then show ?thesis using assms by (simp add: listener_world_inv_def listener_owed_def)
  next
    case (Some l)
    then have "li_accepts (io (os_of (lw_poll st))) \<le> accept_pending (wl_accept l) \<and>
        (li_skip (io (os_of (lw_poll st))) \<or> li_accepts (io (os_of (lw_poll st))) = accept_pending (wl_accept l))"
      using assms by (auto simp: listener_world_inv_def listener_inv_def listener_at_def listener_io_inv_def)
    then show ?thesis by (cases "wl_accept l") (auto simp: Some listener_owed_def)
  qed
qed

text \<open>An accept whose packet was skipped stays in flight for good: no call and no packet ends it.\<close>

definition accept_stuck :: "('o \<Rightarrow> listener_io) \<Rightarrow> fd \<Rightarrow> ('bc, 'o) listener_world \<Rightarrow> bool" where
  "accept_stuck io t st \<longleftrightarrow> (\<exists>l. lw_listener st = Some l \<and> wl_accept l = StPending t) \<and> li_accepts (io (os_of (lw_poll st))) = 0"

lemma accept_stuck_step:
  assumes laws: "listener_laws ws a fd io" and lc: "lazycell_laws lc" and inv: "listener_world_inv lc a fd io st"
    and en: "listener_enabled lc io op st" and stuck: "accept_stuck io t st" and run: "listener_run ws lc op st = Some st'"
  shows "accept_stuck io t st'"
proof -
  from stuck obtain l where l: "lw_listener st = Some l" "wl_accept l = StPending t" and x: "li_accepts (io (os_of (lw_poll st))) = 0"
    by (auto simp: accept_stuck_def)
  have user: "listener_inv lc a fd io 1 True l (lw_given st) (lw_poll st)" if "lw_alive st"
    using inv that l(1) by (simp add: listener_world_inv_def)
  have reg: "rb_registered (wl_iocp l)"
    using inv l listener_at_registered by (fastforce simp: listener_world_inv_def listener_inv_def)
  show ?thesis
  proof (cases op)
    case (LnRegister tok i opts)
    then have alive: "lw_alive st" using en by simp
    from win_listener_register_inv [OF laws lc user [OF alive], of tok i opts] show ?thesis
      using LnRegister run l x reg by (auto simp: accept_stuck_def)
  next
    case (LnReregister tok i opts)
    then have "lw_alive st" "registration_made lc (wl_iocp l)" "awake (pl_queue (lw_poll st))" using en l by simp_all
    from win_listener_reregister_inv(1) [OF laws user this(2,3), of tok i opts] show ?thesis
      using LnReregister run l x \<open>lw_alive st\<close> by (auto simp: accept_stuck_def)
  next
    case LnDeregister
    then have "lw_alive st" "registration_made lc (wl_iocp l)" "awake (pl_queue (lw_poll st))" using en l by simp_all
    from win_listener_reregister_inv(2) [OF laws user this(2,3)] show ?thesis
      using LnDeregister run l x \<open>lw_alive st\<close> by (auto simp: accept_stuck_def)
  next
    case LnDrop
    then have alive: "lw_alive st" using en by simp
    from win_listener_drop_inv [OF laws user [OF alive]] show ?thesis
      using LnDrop run l x by (auto simp: accept_stuck_def split: option.splits)
  qed (use run en l x in \<open>auto simp: accept_stuck_def win_listener_accept_def accept_completes_def others_step_io Let_def\<close>)
qed

end
