(* ===== verification/Mio_Windows_Socket_Props.thy ===== *)
theory Mio_Windows_Socket_Props
  imports Mio_Windows_Datagrams Mio_Windows_Listener "HOL-Library.Code_Target_Nat"
begin

text \<open>
  The Windows UDP sockets and listeners: systems with one socket or one listener on which the laws hold, runs on them, and the
  properties.
\<close>

section \<open>Instances\<close>

definition localhost :: "u16 \<Rightarrow> socket_addr" where
  "localhost port = SocketV4 (Ipv4 127 0 0 1) port"

text \<open>A socket whose receives are always in flight and which refuses empty datagrams.  Its state is what is observed of it.\<close>

definition udp_sys :: "udp_io win_sys" where
  "udp_sys = offline_sys
     \<lparr>ws_add_socket := (\<lambda>port k s w. if ui_bound w then (Inl (OsError 87), w) else (Inr (), w\<lparr>ui_bound := True\<rparr>)),
      ws_recv_from_overlapped := (\<lambda>s n ov w. (Inr None, w\<lparr>ui_reads := ui_reads w + 1\<rparr>)),
      ws_send_to_overlapped := (\<lambda>s b d ov w.
        if b = [] then (Inl (OsError 87), w) else (Inr None, w\<lparr>ui_writes := ui_writes w + 1, ui_sent := ui_sent w @ [(b, d)]\<rparr>)),
      ws_received := (\<lambda>ov w. [7, 8, 9]),
      ws_received_from := (\<lambda>ov w. Some (localhost 9))\<rparr>"

lemma udp_sys_laws: "udp_laws udp_sys 7 3 (\<lambda>w. w)"
  by (simp add: udp_laws_def post_laws_def udp_sys_def offline_sys_def)

definition udp0 :: "(nat option, udp_io) udp_world" where
  "udp0 = \<lparr>uw_socket = (case win_udp_new option_cell 7 3 of Inr u \<Rightarrow> Some u | Inl _ \<Rightarrow> None), uw_alive = True, uw_accepted = [],
     uw_poll = offline_poll fresh_udp_io\<rparr>"

definition udp1 :: "(nat option, udp_io) udp_world" where
  "udp1 = the (udp_run udp_sys option_cell (DoRegister (Token 5) (ready_bitor ready_readable ready_writable) pollopt_edge) udp0)"

definition udp2 :: "(nat option, udp_io) udp_world" where
  "udp2 = the (udp_run udp_sys option_cell (DoRecvDone (packet 2) \<lparr>ui_reads = 0, ui_writes = 0, ui_sent = [], ui_bound = True\<rparr>) udp1)"

definition udp3 :: "(nat option, udp_io) udp_world" where
  "udp3 = the (udp_run udp_sys option_cell (DoSend [1, 2] (localhost 2)) udp1)"

definition udp4 :: "(nat option, udp_io) udp_world" where
  "udp4 = the (udp_run udp_sys option_cell DoDrop udp3)"

lemma reach_udp0: "udp_reach udp_sys option_cell 7 3 (\<lambda>w. w) udp0"
  by (rule reached_init) (simp add: udp_init_def udp0_def win_udp_new_def offline_poll)

lemma reach_udp_the:
  assumes "udp_reach udp_sys option_cell 7 3 (\<lambda>w. w) st" and "udp_enabled option_cell (\<lambda>w. w) op st"
  shows "udp_reach udp_sys option_cell 7 3 (\<lambda>w. w) (the (udp_run udp_sys option_cell op st))"
  by (rule wud.reached_the [OF assms(1) _ assms(2), of 7 3])
    (simp add: udp_good_def udp_sys_laws option_cell_laws udp_world_init [OF option_cell_laws])

lemma udp_run_io:
  "uw_alive udp0" "uw_alive udp1" "uw_alive udp3" "\<not> uw_alive udp4"
  "os_of (uw_poll udp1) = \<lparr>ui_reads = 1, ui_writes = 0, ui_sent = [], ui_bound = True\<rparr>"
  "os_of (uw_poll udp4) = \<lparr>ui_reads = 1, ui_writes = 1, ui_sent = [([1, 2], localhost 2)], ui_bound = True\<rparr>"
  "uw_accepted udp4 = [([1, 2], localhost 2)]"
  by code_simp+

lemma reach_udps: "udp_reach udp_sys option_cell 7 3 (\<lambda>w. w) udp2" "udp_reach udp_sys option_cell 7 3 (\<lambda>w. w) udp4"
proof -
  have 1: "udp_reach udp_sys option_cell 7 3 (\<lambda>w. w) udp1"
    unfolding udp1_def by (rule reach_udp_the [OF reach_udp0]) (simp add: udp_run_io)
  show "udp_reach udp_sys option_cell 7 3 (\<lambda>w. w) udp2"
    unfolding udp2_def by (rule reach_udp_the [OF 1]) (simp add: udp_run_io recv_completes_def)
  have 3: "udp_reach udp_sys option_cell 7 3 (\<lambda>w. w) udp3"
    unfolding udp3_def by (rule reach_udp_the [OF 1]) (simp add: udp_run_io)
  show "udp_reach udp_sys option_cell 7 3 (\<lambda>w. w) udp4"
    unfolding udp4_def by (rule reach_udp_the [OF 3]) (simp add: udp_run_io)
qed

text \<open>A listener that can have one connection; its accepts are in flight, or complete at once.\<close>

definition accept_sys :: "bool \<Rightarrow> listener_io win_sys" where
  "accept_sys now = offline_sys
     \<lparr>ws_add_socket := (\<lambda>port k s w. if li_bound w then (Inl (OsError 87), w) else (Inr (), w\<lparr>li_bound := True\<rparr>)),
      ws_notification_modes := (\<lambda>s flags w. (1, w\<lparr>li_skip := True\<rparr>)),
      ws_close := (\<lambda>s w. w\<lparr>li_open := li_open w - {s}\<rparr>),
      ws_tcp_v4 := (\<lambda>w. if 4 \<in> li_open w then (Inl (OsError 87), w) else (Inr 4, w\<lparr>li_open := insert 4 (li_open w)\<rparr>)),
      ws_accept_overlapped := (\<lambda>s t ov w. (Inr (t, now), if now \<and> li_skip w then w else w\<lparr>li_accepts := li_accepts w + 1\<rparr>)),
      ws_accept_complete := (\<lambda>s t w. (Inr (), w)),
      ws_accept_remote := (\<lambda>s w. (Inr (Some (localhost 9)), w))\<rparr>"

lemma accept_sys_laws: "listener_laws (accept_sys now) 7 3 (\<lambda>w. w)"
  by (simp add: listener_laws_def post_laws_def accept_sys_def offline_sys_def new_socket_def accept_starts_def)

definition listen0 :: "(nat option, listener_io) listener_world" where
  "listen0 = \<lparr>lw_listener = Some (win_listener_new_family option_cell 7 3 FamilyV4), lw_alive = True, lw_given = {},
     lw_poll = offline_poll fresh_listener_io\<rparr>"

definition listen1 :: "bool \<Rightarrow> (nat option, listener_io) listener_world" where
  "listen1 now = the (listener_run (accept_sys now) option_cell (LnRegister (Token 5) ready_readable pollopt_edge) listen0)"

definition listen2 :: "(nat option, listener_io) listener_world" where
  "listen2 = the (listener_run (accept_sys False) option_cell
     (LnAcceptDone (packet 0) \<lparr>li_accepts = 0, li_skip = True, li_bound = True, li_open = {4}\<rparr>) (listen1 False))"

definition listen3 :: "(nat option, listener_io) listener_world" where
  "listen3 = the (listener_run (accept_sys False) option_cell (LnAccept 8) listen2)"

lemma reach_listen0: "listener_reach (accept_sys now) option_cell 7 3 (\<lambda>w. w) listen0"
  by (rule reached_init) (auto simp: listener_init_def listen0_def offline_poll)

lemma reach_listen_the:
  assumes "listener_reach (accept_sys now) option_cell 7 3 (\<lambda>w. w) st" and "listener_enabled option_cell (\<lambda>w. w) op st"
  shows "listener_reach (accept_sys now) option_cell 7 3 (\<lambda>w. w) (the (listener_run (accept_sys now) option_cell op st))"
  by (rule wls.reached_the [OF assms(1) _ assms(2), of 7 3])
    (simp add: listener_good_def accept_sys_laws option_cell_laws listener_world_init [OF option_cell_laws])

lemma listen_run_io:
  "lw_alive listen0" "lw_alive listen2" "lw_alive listen3" "lw_given listen3 = {4}"
  "os_of (lw_poll (listen1 False)) = \<lparr>li_accepts = 1, li_skip = True, li_bound = True, li_open = {4}\<rparr>"
  "os_of (lw_poll (listen1 True)) = \<lparr>li_accepts = 0, li_skip = True, li_bound = True, li_open = {4}\<rparr>"
  "map_option wl_accept (lw_listener (listen1 True)) = Some (StPending 4)"
  "lw_alive (listen1 True)"
  by code_simp+

lemma reach_listens:
  "listener_reach (accept_sys now) option_cell 7 3 (\<lambda>w. w) (listen1 now)"
  "listener_reach (accept_sys False) option_cell 7 3 (\<lambda>w. w) listen3"
proof -
  show 1: "listener_reach (accept_sys now) option_cell 7 3 (\<lambda>w. w) (listen1 now)" for now
    unfolding listen1_def by (rule reach_listen_the [OF reach_listen0]) (simp add: listen_run_io)
  have 2: "listener_reach (accept_sys False) option_cell 7 3 (\<lambda>w. w) listen2"
    unfolding listen2_def by (rule reach_listen_the [OF 1]) (simp add: listen_run_io accept_completes_def)
  show "listener_reach (accept_sys False) option_cell 7 3 (\<lambda>w. w) listen3"
    unfolding listen3_def by (rule reach_listen_the [OF 2]) (simp add: listen_run_io)
qed

section \<open>The calls of a socket\<close>

lemma udp_at_readiness: "udp_at lc a fd io k alive u acc r p \<Longrightarrow> rb_get_readiness (wu_iocp u) p = Some r"
  by (auto simp: udp_at_def rb_get_readiness_queued)

lemma udp_send_branches:
  assumes laws: "udp_laws ws a fd io" and at: "udp_at lc a fd io k alive u acc r p"
  shows "\<exists>res u' p'. win_udp_send_to ws lc u buf target p = Some (res, u', p') \<and>
      ui_sent (io (os_of p')) = ui_sent (io (os_of p)) @ udp_accepted buf target res \<and>
      (case res of
         Inr (Some n) \<Rightarrow> n = length buf \<and> (\<exists>b. wu_write u' = StPending b)
       | Inr None \<Rightarrow> u' = u \<and> p' = p \<and> (wu_write u \<noteq> StEmpty \<or> \<not> rb_registered (wu_iocp u))
       | Inl _ \<Rightarrow> u' = u \<and> wu_write u = StEmpty \<and> (\<exists>r. rb_get_readiness (wu_iocp u) p' = Some r \<and> \<not> ready_is_writable r))"
proof -
  have pend: "\<exists>b. x = StPending b" if "udp_pending x = 1" for x :: "(byte_vec, byte_vec \<times> nat) win_state" using that by (cases x) simp_all
  obtain res u' r' p' where 1: "win_udp_send_to ws lc u buf target p = Some (res, u', p')"
    "udp_at lc a fd io k alive u' (acc @ udp_accepted buf target res) r' p'"
    "case res of
       Inr (Some n) \<Rightarrow> n = length buf \<and> udp_pending (wu_write u') = 1
     | Inr None \<Rightarrow> u' = u \<and> p' = p \<and> (wu_write u \<noteq> StEmpty \<or> \<not> rb_registered (wu_iocp u))
     | Inl _ \<Rightarrow> u' = u \<and> wu_write u = StEmpty \<and> rb_registered (wu_iocp u) \<and> \<not> ready_is_writable r'"
    using win_udp_send_to_at [OF laws at] by blast
  then show ?thesis
    using udp_at_sent [OF at] udp_at_sent [OF 1(2)] udp_at_readiness [OF 1(2)] pend [of "wu_write u'"]
    by (intro exI [of _ res] exI [of _ u'] exI [of _ p']) (auto split: sum.splits option.splits)
qed

lemma udp_recv_ready:
  assumes laws: "udp_laws ws a fd io" and at: "udp_at lc a fd io k alive u acc r p" and d: "wu_read u = StReady d"
  shows "\<exists>r. rb_get_readiness (wu_iocp u) p = Some r \<and> ready_is_readable r"
    and "\<exists>u' p'. win_udp_recv_from ws lc u len p =
      Some (if len < length (bv_data d) then (Inl (OsError WSAEMSGSIZE), u, p)
            else (case ws_received_from ws (UdpRead a) (os_of p) of
                    Some addr \<Rightarrow> Inr (Some (bv_data d, addr))
                  | None \<Rightarrow> Inl (CustomError Other ''failed to parse socket address''), u', p'))"
proof -
  show "\<exists>r. rb_get_readiness (wu_iocp u) p = Some r \<and> ready_is_readable r"
    using at d udp_at_readiness [OF at] by (simp add: udp_at_def udp_io_inv_def)
  have addr: "wu_addr u = a" and inv: "udp_inv lc a fd io k alive u acc p" using at by (auto simp: udp_at_def udp_inv_def)
  show "\<exists>u' p'. win_udp_recv_from ws lc u len p =
      Some (if len < length (bv_data d) then (Inl (OsError WSAEMSGSIZE), u, p)
            else (case ws_received_from ws (UdpRead a) (os_of p) of
                    Some addr \<Rightarrow> Inr (Some (bv_data d, addr))
                  | None \<Rightarrow> Inl (CustomError Other ''failed to parse socket address''), u', p'))"
    using win_udp_recv_from_inv [OF laws inv, of len]
    by (auto simp: win_udp_recv_from_def d addr Let_def os_of_def split: if_splits option.splits)
qed

section \<open>Properties\<close>







text \<open>C40.  A Windows listener can get stuck.  When the packet of an accept that completed at once has been skipped, \<open>accept\<close>
  returns \<open>WouldBlock\<close>, and no call, no packet and no drop ever ends the accept or frees the object.\<close>

theorem win_listener_stuck:
  assumes "listener_laws ws a fd io" and "lazycell_laws lc" and "listener_reach ws lc a fd io st" and "accept_stuck io t st"
  shows "win_listener_accept ws lc obj (the (lw_listener st)) (lw_poll st) = Some (Inl win_would_block, the (lw_listener st), lw_poll st) \<and>
    (\<forall>st'. (\<lambda>x y. \<exists>op. listener_enabled lc io op x \<and> listener_run ws lc op x = Some y)\<^sup>*\<^sup>* st st' \<longrightarrow>
      accept_stuck io t st' \<and> lw_listener st' \<noteq> None)"
proof (intro conjI allI impI)
  show "win_listener_accept ws lc obj (the (lw_listener st)) (lw_poll st) = Some (Inl win_would_block, the (lw_listener st), lw_poll st)"
    using assms(4) by (auto simp: accept_stuck_def win_listener_accept_def)
  fix st'
  assume "(\<lambda>x y. \<exists>op. listener_enabled lc io op x \<and> listener_run ws lc op x = Some y)\<^sup>*\<^sup>* st st'"
  then have "listener_reach ws lc a fd io st' \<and> accept_stuck io t st'"
  proof (induction rule: rtranclp_induct)
    case (step x y)
    then obtain op where "listener_enabled lc io op x" "listener_run ws lc op x = Some y" by blast
    then show ?case
      using step.IH reached_step accept_stuck_step [OF assms(1,2) listener_world_reach [OF assms(1,2)]] by metis
  qed (use assms(3,4) in simp)
  then show "accept_stuck io t st'" and "lw_listener st' \<noteq> None" by (auto simp: accept_stuck_def)
qed

theorem win_listener_stuck_witness:
  "accept_stuck (\<lambda>w. w) 4 (the (listener_run (accept_sys True) option_cell LnDrop (listen1 True)))"
proof -
  have stuck: "accept_stuck (\<lambda>w. w) 4 (listen1 True)" using listen_run_io(6,7) by (auto simp: accept_stuck_def)
  have "listener_run (accept_sys True) option_cell LnDrop (listen1 True) \<noteq> None" by code_simp
  then have "\<exists>op. listener_enabled option_cell (\<lambda>w. w) op (listen1 True) \<and>
      listener_run (accept_sys True) option_cell op (listen1 True) = Some (the (listener_run (accept_sys True) option_cell LnDrop (listen1 True)))"
    using listen_run_io(8) by (intro exI [of _ LnDrop]) (simp del: listener_run.simps)
  then have "(\<lambda>x y. \<exists>op. listener_enabled option_cell (\<lambda>w. w) op x \<and> listener_run (accept_sys True) option_cell op x = Some y)\<^sup>*\<^sup>*
      (listen1 True) (the (listener_run (accept_sys True) option_cell LnDrop (listen1 True)))"
    by (rule r_into_rtranclp)
  then show ?thesis using win_listener_stuck [OF accept_sys_laws option_cell_laws reach_listens(1) stuck] by blast
qed

end
