(* ===== verification/Mio_Tests.thy ===== *)
theory Mio_Tests
  imports Mio_Timer_Props Mio_Poll_Props Mio_Windows "HOL-Library.Code_Target_Nat"
begin

text \<open>
  The unit tests inside the implementation, run on the model.  A test of the timer is a script of calls; running it collects
  what the calls return, which the test compares with what it expects.
\<close>

section \<open>\<open>src/timer.rs\<close>\<close>

text \<open>\<open>TestCancel i\<close> cancels the \<open>i\<close>th timeout that the script has set.\<close>

datatype test_call = TestSet u64 string | TestPoll u64 | TestCancel nat | TestCount

datatype test_result = Polled "string option" | Cancelled "string option" | Counted nat

definition test_timer :: "sample_timer option" where
  "test_timer = timer_new list_slab option_cell 100 16 32 0"

definition ms_to_tick :: "sample_timer \<Rightarrow> u64 \<Rightarrow> u64" where
  "ms_to_tick t ms = ms div tm_tick_ms t"

definition test_count :: "sample_timer \<Rightarrow> nat" where
  "test_count t = length (filter (\<lambda>e. e \<noteq> None) (tm_entries t))"

fun run_test :: "test_call list \<Rightarrow> timeout list \<Rightarrow> sample_timer \<Rightarrow> nat timer_world \<Rightarrow> test_result list option" where
  "run_test [] tos t wd = Some []"
| "run_test (TestSet ms x # cs) tos t wd = do {
     (r, t1, wd1) \<leftarrow> set_timeout_at list_slab option_cell (duration_from_millis ms) x t wd;
     (case r of Inl _ \<Rightarrow> None | Inr to \<Rightarrow> run_test cs (tos @ [to]) t1 wd1) }"
| "run_test (TestPoll ms # cs) tos t wd = do {
     (r, t1, wd1) \<leftarrow> poll_to list_slab option_cell wake_count (ms_to_tick t ms) t wd;
     rs \<leftarrow> run_test cs tos t1 wd1;
     Some (Polled r # rs) }"
| "run_test (TestCancel i # cs) tos t wd = do {
     (r, t1) \<leftarrow> cancel_timeout list_slab (tos ! i) t;
     rs \<leftarrow> run_test cs tos t1 wd;
     Some (Cancelled r # rs) }"
| "run_test (TestCount # cs) tos t wd = map_option (\<lambda>rs. Counted (test_count t) # rs) (run_test cs tos t wd)"

definition run_timer_test :: "test_call list \<Rightarrow> test_result list option" where
  "run_timer_test cs = Option.bind test_timer (\<lambda>t. run_test cs [] t world_0)"

definition test_timeout_next_tick :: "test_call list" where
  "test_timeout_next_tick =
     [TestSet 100 ''a'', TestPoll 50, TestPoll 100, TestPoll 100, TestPoll 150, TestPoll 200, TestCount]"

definition test_clearing_timeout :: "test_call list" where
  "test_clearing_timeout = [TestSet 100 ''a'', TestCancel 0, TestPoll 100, TestPoll 200, TestCount]"

definition test_multiple_timeouts_same_tick :: "test_call list" where
  "test_multiple_timeouts_same_tick =
     [TestSet 100 ''a'', TestSet 100 ''b'', TestPoll 100, TestPoll 100, TestPoll 100, TestPoll 200, TestCount]"

definition test_clearing_timeout_between_triggers :: "test_call list" where
  "test_clearing_timeout_between_triggers =
     [TestSet 100 ''a'', TestSet 100 ''b'', TestSet 200 ''c'', TestPoll 100, TestCount, TestCancel 0, TestCount,
      TestPoll 100, TestPoll 200, TestCount]"

lemma timer_test_next_tick:
  "run_timer_test test_timeout_next_tick =
     Some [Polled None, Polled (Some ''a''), Polled None, Polled None, Polled None, Counted 0]"
  by code_simp

lemma timer_test_clearing:
  "run_timer_test test_clearing_timeout = Some [Cancelled (Some ''a''), Polled None, Polled None, Counted 0]"
  by code_simp

text \<open>The test accepts both orders; timeouts of one tick come out last in, first out.\<close>

lemma timer_test_same_tick:
  "run_timer_test test_multiple_timeouts_same_tick =
     Some [Polled (Some ''b''), Polled (Some ''a''), Polled None, Polled None, Counted 0]"
  by code_simp

lemma timer_test_between_triggers:
  "run_timer_test test_clearing_timeout_between_triggers =
     Some [Polled (Some ''b''), Counted 2, Cancelled (Some ''a''), Counted 1, Polled None, Polled (Some ''c''), Counted 0]"
  by code_simp

section \<open>\<open>src/poll.rs\<close>\<close>

text \<open>An operating system on which nothing happens.\<close>

definition silent_epoll :: "nat epoll_sys" where
  "silent_epoll = quiet_epoll\<lparr>es_wait := (\<lambda>_ _ _ w. ((0, []), w))\<rparr>"

abbreviation test_sys :: "(epoll_selector, awakener, epoll_events, usize \<times> nat) sys_ops" where
  "test_sys \<equiv> epoll_ops sample_os silent_epoll"

partial_function (option) node_count :: "(nat \<rightharpoonup> readiness_node) \<Rightarrow> nat option \<Rightarrow> nat option" where
  "node_count h cur =
     (case cur of
        None \<Rightarrow> Some 0
      | Some n \<Rightarrow> Option.bind (h n) (\<lambda>nd. Option.bind (node_count h (next_all_nodes nd)) (\<lambda>cnt. Some (cnt + 1))))"

declare node_count.simps [code]

definition readiness_node_count :: "'w readiness_queue \<Rightarrow> nat option" where
  "readiness_node_count q = node_count (node_heap q) (head_all_nodes q)"

primrec test_registrations ::
  "nat \<Rightarrow> (awakener \<times> usize \<times> nat) readiness_queue \<Rightarrow>
     ((registration_inner \<times> registration_inner) list \<times> (awakener \<times> usize \<times> nat) readiness_queue) option" where
  "test_registrations 0 q = Some ([], q)"
| "test_registrations (Suc n) q = do {
     (hs, q1) \<leftarrow> registration_new (sys_wakeup test_sys) q (Token 0) ready_readable pollopt_edge;
     (rest, q2) \<leftarrow> test_registrations n q1;
     Some (hs # rest, q2) }"

fun drop_registrations ::
  "(registration_inner \<times> registration_inner) list \<Rightarrow> (awakener \<times> usize \<times> nat) readiness_queue \<Rightarrow>
     (awakener \<times> usize \<times> nat) readiness_queue option" where
  "drop_registrations [] q = Some q"
| "drop_registrations ((r, s) # hs) q = do {
     q1 \<leftarrow> registration_drop (sys_wakeup test_sys) q r;
     q2 \<leftarrow> set_readiness_drop (sys_wakeup test_sys) q1 s;
     drop_registrations hs q2 }"

text \<open>The number of events and of nodes after the poll.\<close>

definition test_nodes_do_not_leak :: "(nat io_result \<times> nat) option" where
  "test_nodes_do_not_leak =
     (case poll_new test_sys 0 (0, 0) of
        (Inl _, _) \<Rightarrow> None
      | (Inr p, _) \<Rightarrow> do {
          (registrations, q1) \<leftarrow> test_registrations 3 (pl_queue p);
          q2 \<leftarrow> drop_registrations registrations q1;
          (num, p1, _) \<leftarrow> poll_poll test_sys (p\<lparr>pl_queue := q2\<rparr>) (events_with_capacity test_sys 1024) (Some (duration_from_millis 300));
          cnt \<leftarrow> readiness_node_count (pl_queue p1);
          Some (num, cnt) })"

lemma poll_test_nodes_do_not_leak: "test_nodes_do_not_leak = Some (Inr 0, 0)"
  by code_simp

section \<open>\<open>src/sys/windows/from_raw_arc.rs\<close>\<close>

text \<open>Whether the data is dropped with the clone and with the original.\<close>

definition test_arc_drops :: "bool \<times> bool" where
  "test_arc_drops = (let (clone_last, cnt) = arc_drop (arc_clone arc_new) in (clone_last, fst (arc_drop cnt)))"

lemma arc_test_drops: "test_arc_drops = (False, True)"
  by code_simp

end
