(* ===== verification/Spec2Isabelle.thy ===== *)
theory Spec2Isabelle
  imports Mio_Queue_Props Mio_Timer_Props Mio_Channel_Props Mio_Poll_Props Mio_Loop_Props Mio_Net_Props Mio_Windows_Props
    Mio_Windows_Socket_Props Mio_Tests
begin

text \<open>
  \<^bold>\<open>A verification development for mio 0.6\<close>

  \<^bold>\<open>The program.\<close>  mio waits for readiness of I/O objects.  A \<open>Poll\<close> (\<open>src/poll.rs\<close>) combines a selector of the operating
  system (\<open>src/sys/unix/epoll.rs\<close>, \<open>kqueue.rs\<close>, \<open>src/sys/windows/selector.rs\<close>) with a readiness queue for objects that live in
  user space, and an awakener that interrupts a waiting selector when such an object becomes ready.  The queue hands
  out \<open>Registration\<close> and \<open>SetReadiness\<close> handles; the timer wheel (\<open>src/timer.rs\<close>), the channel (\<open>src/channel.rs\<close>) and, on Windows,
  every socket use them.  The sockets of \<open>src/net\<close> wrap those of the platform (\<open>src/sys\<close>).  The deprecated event loop
  (\<open>src/deprecated\<close>) drives a \<open>Poll\<close> with a timer and a notification channel for a user's handler.

  \<^bold>\<open>Conventions.\<close>  \<open>usize\<close> and \<open>u64\<close> are 64-bit words with wrapping arithmetic, narrower integers are words of their width, and
  lengths of vectors are natural numbers.  \<open>None\<close> is a panic (or a loop that does not end), and \<open>io_result\<close> is a sum with the error on the
  left.  State is passed explicitly.  Objects shared through raw pointers or \<open>Arc\<close> live on an explicit heap or are one
  record with their reference count.  The operating system and the crates \<open>slab\<close>, \<open>lazycell\<close>, \<open>net2\<close>, \<open>miow\<close>, \<open>winapi\<close> and \<open>libc\<close> are
  records of functions passed as arguments; what the code relies on is a named predicate (\<open>slab_laws\<close>, \<open>lazycell_laws\<close>,
  \<open>pipe_laws\<close>, \<open>fd_laws\<close>, \<open>socket_laws\<close>, \<open>iocp_laws\<close>, \<open>udp_laws\<close>, \<open>listener_laws\<close>), and concrete records (\<open>Mio_Instances\<close> and the ends of the property theories)
  show that the predicates can hold.  Loops without a structural bound are \<open>partial_function (option)\<close>; that they
  return is proved, with no fuel anywhere.

  \<^bold>\<open>Prelude and data.\<close>  \<open>Mio_Prelude\<close> has the words, errors and shared lemmas; \<open>Mio_Convert\<close> the durations, \<open>millis\<close> and the
  interfaces of the containers; \<open>Mio_Event\<close> models \<open>event.rs\<close> and \<open>token.rs\<close>, with one locale for the laws of the two
  flag types.

  \<^bold>\<open>Readiness queue.\<close>  \<open>Mio_Queue\<close> models the intrusive lists of \<open>poll.rs\<close> on a heap of nodes, with the sleep marker in the
  head pointer and the reference counts of the handles.  \<open>Mio_Queue_Spec\<close> gives the abstract queue (a list of queued nodes, a
  map of live nodes, a flag for sleep) and proves that every operation refines it.  \<open>Mio_Queue_Props\<close>: polling
  implements the abstract poll; no sequence of operations on live handles reaches a dangling pointer, and nodes are
  freed exactly when no handle is left; a readiness that was set is reported at the next poll according to the edge, level and
  oneshot options; setting a readiness wakes a sleeping poll.

  \<^bold>\<open>Timer.\<close>  \<open>Mio_Timer\<close> models the wheel, its slots linked through slab tokens, the rounding of delays and the wakeup
  thread's step.  \<open>Mio_Timer_Spec\<close> has the invariant of the wheel and the abstract timer, a map from tokens to timeouts.
  \<open>Mio_Timer_Props\<close>: a poll returns the earliest due timeout; polling until nothing is due ends and yields each due
  timeout once, in order; setting and cancelling affect one timeout; the bounds of the rounding; and the early firing when the
  timer is polled repeatedly.

  \<^bold>\<open>Channel.\<close>  \<open>Mio_Channel\<close> models \<open>channel.rs\<close> with the standard library's queue.  \<open>Mio_Channel_Conc\<close> cuts the operations into their
  atomic accesses and interleaves any number of senders with the receiver and the poll.  \<open>Mio_Channel_Props\<close>: once all operations in progress are
  done, a waiting message is announced; they can always be finished; run alone, the operations behave as a queue; and
  two runs that show a stale and a lost readiness.

  \<^bold>\<open>Unix.\<close>  \<open>Mio_Unix\<close> models descriptors, pipes, the awakener and the domain sockets; \<open>Mio_Epoll\<close> and \<open>Mio_Kqueue\<close> the selectors;
  \<open>Mio_Poll\<close> models \<open>Poll\<close> and \<open>Events\<close> over a record of platform operations with a value for epoll and one for kqueue.  \<open>Mio_Sys_Props\<close>:
  the event buffers (a locale interpreted for every selector), the translation of flags, timeouts, merging of kqueue
  events, draining of the pipe, and descriptors on error paths.  \<open>Mio_Poll_Props\<close> composes them: no wakeup is lost
  while a poll sleeps, a poll delivers the kernel's events and then those of the queue, and a failed wait leaves the
  queue marked as asleep.

  \<^bold>\<open>Event loop.\<close>  \<open>Mio_Event_Loop\<close> models \<open>src/deprecated\<close>; the handler is a record of functions that may change the loop.  \<open>Mio_Evented\<close>
  is the interface between \<open>Poll\<close> and what registers with its queue, a locale interpreted for the channel's receiver
  and the timer.  \<open>Mio_Loop_Spec\<close> has the invariant of the loop and \<open>Mio_Loop_Props\<close> shows that a configured loop is ready, that its operations keep
  it so, that messages never starve and arrive in order, that the timer's part of a tick ends, and that \<open>run\<close> is
  a sequence of ticks.

  \<^bold>\<open>Sockets.\<close>  \<open>Mio_Net\<close> models \<open>src/net\<close> over a record of platform operations and \<open>Mio_Unix_Net\<close> gives its Unix value together with the wrappers
  of \<open>deprecated/unix.rs\<close>.  Socket options are one operation with a datatype of options.  \<open>Mio_Net_Props\<close>: a socket stays with
  one selector, and no constructor leaks a descriptor or returns one that blocks.

  \<^bold>\<open>Windows.\<close>  \<open>Mio_Windows\<close> models completion ports, buffers, \<open>FromRawArc\<close>, \<open>Binding\<close> and \<open>ReadyBinding\<close>; \<open>Mio_Windows_Tcp\<close> and
  \<open>Mio_Windows_Udp\<close> the sockets with their callbacks, and the dispatch of \<open>Selector::select\<close> on the \<open>OVERLAPPED\<close> pointer.
  \<open>Mio_Windows_Queue\<close> is the library that all sockets share: what a readiness does to the queue, the handles of a registration, bindings
  and buffers.  \<open>Mio_Objects\<close> has the locales of objects whose operations come in any order and of objects with loans, where the
  handle and every operation in flight hold a reference; they are interpreted for streams, UDP sockets and
  listeners.  \<open>Mio_Windows_Spec\<close>, \<open>Mio_Windows_Datagrams\<close> and \<open>Mio_Windows_Listener\<close> state what completion ports promise of one
  socket and the invariant of a stream, a UDP socket and a listener, and prove that every operation and callback keeps it, however the
  calls are interleaved with the packets and everything else.  \<open>Mio_Windows_Props\<close> and \<open>Mio_Windows_Socket_Props\<close>: nothing panics or touches a
  freed object and the reference count is the number of loans; accepted bytes and datagrams are sent once and in
  order; the sockets that a listener makes are held, given away or closed; a failed write on a stream is never reported, a refused datagram
  takes the writable readiness with it, and an accept that completes at once leaves the listener stuck.  The laws assume that
  posting to a port succeeds (the code panics otherwise), that a socket joins one port only, and that a connect never completes at
  once.  A packet that has been dequeued but whose callback has not run counts as owed.

  \<^bold>\<open>Tests.\<close>  \<open>Mio_Tests\<close> runs unit tests of the implementation on the model: the calls of a test are a script, and evaluating it
  gives the results that the test expects.

  \<^bold>\<open>Bounds.\<close>  The counts of handles are words; the queue refuses more than \<open>MAX_REFCOUNT\<close> handles as the code does.  The
  count of a Windows stream is at most five, that of a UDP socket four and of a listener three, so their words do not wrap.

  \<^bold>\<open>Not modelled.\<close>  \<open>lib.rs\<close> apart from \<open>convert\<close>, and \<open>deprecated/mod.rs\<close>, only declare and re-export modules.  Logging, the
  conversions of the platform's wrappers from and to raw descriptors and the \<open>Debug\<close> output of structs built with \<open>debug_struct\<close> are left out, as is the memory
  ordering of atomics: interleavings are sequentially consistent.  The pointer arithmetic of \<open>overlapped2arc!\<close> is
  replaced by constructors that name the object.  \<open>Poll::poll\<close> has no Windows value, since there the callbacks run inside
  \<open>select\<close> and act on the queue, while the record of platform operations gives \<open>select\<close> the operating system's state
  only; \<open>select\<close> with its callbacks is a definition of its own.
\<close>

end
